(* ===== verification/Go_Prelude.thy ===== *)
theory Go_Prelude
  imports Main "HOL-Library.Word" "HOL-Library.AList" "HOL-Library.Multiset"
    "HOL-Library.Char_ord" "HOL-Library.List_Lexorder" "HOL-Library.Sublist"
begin

text \<open>
  What every component shares: Go results (a value, an error or a run-time panic), Go's 64-bit
  \<^verbatim>\<open>int\<close> on mathematical integers with the wrap-around written out, Go maps as
  association lists where they are iterated, and the fact collections of the development.
  Go strings and byte slices are \<open>string\<close>s: an Isabelle \<open>char\<close> is one byte.
\<close>

section \<open>Fact collections\<close>

named_theorems go_defs "definitions that the component proofs unfold"
named_theorems wf_intros "well-formedness and invariant introduction rules"
named_theorems res_simps "rewrite rules for Go results"

section \<open>Results: value, error, panic\<close>

text \<open>
  A Go function of type \<^verbatim>\<open>(T, error)\<close> returns a value or an error; a slice expression out of
  range panics instead. The error carries the message the source formats, without the text
  of a wrapped standard-library error.
\<close>

datatype 'a res = Ok 'a | Err string | Panic

fun bind_res :: "'a res \<Rightarrow> ('a \<Rightarrow> 'b res) \<Rightarrow> 'b res" where
  "bind_res (Ok x) f = f x"
| "bind_res (Err e) f = Err e"
| "bind_res Panic f = Panic"

fun res_of_option :: "string \<Rightarrow> 'a option \<Rightarrow> 'a res" where
  "res_of_option e None = Err e"
| "res_of_option e (Some x) = Ok x"

fun wrap_err :: "string \<Rightarrow> 'a res \<Rightarrow> 'a res" where
  "wrap_err p (Ok x) = Ok x"
| "wrap_err p (Err e) = Err (p @ e)"
| "wrap_err p Panic = Panic"

definition guard_res :: "bool \<Rightarrow> string \<Rightarrow> unit res" where
  "guard_res b e = (if b then Ok () else Err e)"

lemma bind_res_eq_Ok [res_simps]:
  "bind_res m f = Ok y \<longleftrightarrow> (\<exists>x. m = Ok x \<and> f x = Ok y)"
  by (cases m) auto

lemma bind_res_eq_Panic [res_simps]:
  "bind_res m f = Panic \<longleftrightarrow> m = Panic \<or> (\<exists>x. m = Ok x \<and> f x = Panic)"
  by (cases m) auto

lemma res_of_option_eq_Ok [res_simps]: "res_of_option e m = Ok x \<longleftrightarrow> m = Some x"
  by (cases m) auto

lemma res_of_option_not_Panic [res_simps, simp]: "res_of_option e m \<noteq> Panic"
  by (cases m) auto

lemma wrap_err_eq_Ok [res_simps]: "wrap_err p m = Ok x \<longleftrightarrow> m = Ok x"
  by (cases m) auto

lemma wrap_err_eq_Panic [res_simps]: "wrap_err p m = Panic \<longleftrightarrow> m = Panic"
  by (cases m) auto

lemma guard_res_eq_Ok [res_simps]: "guard_res b e = Ok u \<longleftrightarrow> b"
  by (simp add: guard_res_def)

lemma guard_res_not_Panic [res_simps, simp]: "guard_res b e \<noteq> Panic"
  by (simp add: guard_res_def)

lemma bind_res_cong [fundef_cong]:
  assumes "m = m'" and "\<And>x. m' = Ok x \<Longrightarrow> f x = f' x"
  shows "bind_res m f = bind_res m' f'"
  using assms by (cases m') auto

fun map_res :: "('a \<Rightarrow> 'b res) \<Rightarrow> 'a list \<Rightarrow> 'b list res" where
  "map_res f [] = Ok []"
| "map_res f (x # xs) = bind_res (f x) (\<lambda>y. bind_res (map_res f xs) (\<lambda>ys. Ok (y # ys)))"

lemma map_res_Ok: "map_res f xs = Ok ys \<longleftrightarrow> list_all2 (\<lambda>x y. f x = Ok y) xs ys"
  by (induction xs arbitrary: ys) (auto simp: res_simps list_all2_Cons1)

lemma map_res_Panic: "map_res f xs = Panic \<Longrightarrow> \<exists>x \<in> set xs. f x = Panic"
  by (induction xs) (auto simp: res_simps)

section \<open>Integers\<close>

text \<open>Go's \<^verbatim>\<open>int\<close> (64 bits): \<open>int64 x\<close> is the value the machine holds for \<open>x\<close>.\<close>

definition int64 :: "int \<Rightarrow> int" where
  "int64 x = (x + 2 ^ 63) mod 2 ^ 64 - 2 ^ 63"

definition in_int64 :: "int \<Rightarrow> bool" where
  "in_int64 x \<longleftrightarrow> - (2 ^ 63) \<le> x \<and> x < 2 ^ 63"

lemma int64_id [simp]: "in_int64 x \<Longrightarrow> int64 x = x"
  by (simp add: int64_def in_int64_def)

lemma in_int64_int64 [simp]: "in_int64 (int64 x)"
proof -
  have "0 \<le> (x + 2 ^ 63) mod (2 ^ 64 :: int)" "(x + 2 ^ 63) mod (2 ^ 64 :: int) < 2 ^ 64"
    by simp_all
  then show ?thesis unfolding int64_def in_int64_def by simp
qed

text \<open>Go's integer division truncates towards zero.\<close>

definition go_div :: "int \<Rightarrow> int \<Rightarrow> int" where
  "go_div a b = sgn a * sgn b * (\<bar>a\<bar> div \<bar>b\<bar>)"

lemma go_div_nonneg [simp]: "0 \<le> a \<Longrightarrow> 0 < b \<Longrightarrow> go_div a b = a div b"
  by (cases "a = 0") (auto simp: go_div_def)

section \<open>Maps that are iterated\<close>

text \<open>
  A Go map that the code ranges over is an association list with distinct keys; the list
  order is one iteration order. Insertion overwrites in place.
\<close>

abbreviation aput :: "'k \<Rightarrow> 'v \<Rightarrow> ('k \<times> 'v) list \<Rightarrow> ('k \<times> 'v) list" where
  "aput \<equiv> AList.update"

definition amap_of_list :: "('k \<times> 'v) list \<Rightarrow> ('k \<times> 'v) list" where
  "amap_of_list kvs = foldl (\<lambda>m (k, v). aput k v m) [] kvs"

abbreviation distinct_keys :: "('k \<times> 'v) list \<Rightarrow> bool" where
  "distinct_keys m \<equiv> distinct (map fst m)"

lemma distinct_keys_foldl_aput:
  "distinct_keys m \<Longrightarrow> distinct_keys (foldl (\<lambda>m (k, v). aput k v m) m kvs)"
  by (induction kvs arbitrary: m) (auto simp: distinct_update)

lemma distinct_keys_amap_of_list [simp, wf_intros]: "distinct_keys (amap_of_list kvs)"
  by (simp add: amap_of_list_def distinct_keys_foldl_aput)

lemma foldl_aput_map_of:
  "map_of (foldl (\<lambda>m (k, v). aput k v m) m kvs) = map_of m ++ map_of (rev kvs)"
proof (induction kvs arbitrary: m)
  case (Cons p kvs)
  then show ?case by (cases p) (auto simp: update_conv' fun_eq_iff map_add_def split: option.splits)
qed simp

lemma map_of_amap_of_list: "map_of (amap_of_list kvs) = map_of (rev kvs)"
  by (simp add: amap_of_list_def foldl_aput_map_of)

lemma set_aput_subset: "set (aput k v m) \<subseteq> insert (k, v) (set m)"
  by (induction m) auto

lemma set_amap_of_list_subset: "set (amap_of_list kvs) \<subseteq> set kvs"
proof -
  have "set (foldl (\<lambda>m (k, v). aput k v m) m kvs) \<subseteq> set m \<union> set kvs" for m
  proof (induction kvs arbitrary: m)
    case (Cons p kvs)
    obtain k v where p: "p = (k, v)" by (cases p)
    have "set (foldl (\<lambda>m (k, v). aput k v m) (aput k v m) kvs) \<subseteq> set (aput k v m) \<union> set kvs"
      by (rule Cons.IH)
    also have "\<dots> \<subseteq> set m \<union> set (p # kvs)" using set_aput_subset [of k v m] p by auto
    finally show ?case by (simp add: p)
  qed simp
  from this [of "[]"] show ?thesis by (simp add: amap_of_list_def)
qed

text \<open>The value-sorted view of a map: \<^verbatim>\<open>encoding/json\<close> and equality use the key order.\<close>

definition sort_keys :: "(string \<times> 'v) list \<Rightarrow> (string \<times> 'v) list" where
  "sort_keys m = sort_key fst m"

lemma set_sort_keys [simp]: "set (sort_keys m) = set m"
  by (simp add: sort_keys_def)

lemma length_sort_keys [simp]: "length (sort_keys m) = length m"
  by (simp add: sort_keys_def)

lemma mset_sort_keys [simp]: "mset (sort_keys m) = mset m"
  by (simp add: sort_keys_def)

lemma filter_key_distinct:
  "distinct_keys m \<Longrightarrow> p \<in> set m \<Longrightarrow> filter (\<lambda>q. fst p = fst q) m = [p]"
proof (induction m)
  case (Cons q m)
  then show ?case
    by (cases "p = q") (force simp: filter_empty_conv rev_image_eqI)+
qed simp

lemma sort_keys_cong_mset:
  assumes d: "distinct_keys m" and eq: "mset m = mset m'"
  shows "sort_keys m = sort_keys m'"
proof -
  have set_eq: "set m = set m'" using eq by (metis set_mset_mset)
  have "distinct (map fst m')" using d eq by (metis mset_eq_imp_distinct_iff mset_map)
  then have "distinct_keys (sort_keys m')"
    by (metis mset_eq_imp_distinct_iff mset_map mset_sort_keys)
  then have "filter (\<lambda>q. fst p = fst q) (sort_keys m') = filter (\<lambda>q. fst p = fst q) m"
    if "p \<in> set (sort_keys m')" for p
    using that d set_eq by (simp add: filter_key_distinct)
  then have "sort_key fst m = sort_keys m'"
    by (intro properties_for_sort_key) (simp_all add: eq sort_keys_def)
  then show ?thesis by (simp add: sort_keys_def)
qed

section \<open>Lists\<close>

lemma drop_length_le [simp]: "length (drop n xs) \<le> length xs"
  by simp

lemma dropWhile_length [simp]: "length (dropWhile P xs) \<le> length xs"
  by (rule length_dropWhile_le)

lemma find_Some_in: "find P xs = Some x \<Longrightarrow> x \<in> set xs \<and> P x"
  by (auto simp: find_Some_iff)

end
