(* ===== verification/Go_Strings.thy ===== *)
theory Go_Strings
  imports Go_Prelude
begin

text \<open>
  The parts of Go's \<^verbatim>\<open>strings\<close>, \<^verbatim>\<open>bytes\<close>, \<^verbatim>\<open>strconv\<close>, \<^verbatim>\<open>unicode/utf8\<close>, \<^verbatim>\<open>encoding/hex\<close> and
  \<^verbatim>\<open>encoding/base64\<close> packages the program calls, on byte strings. Case mapping is the ASCII part of
  Go's tables: bytes from 0x80 on are left alone (the strings compared without case in the program
  are HTTP methods, header names, media types and file extensions).
\<close>

section \<open>Characters\<close>

abbreviation byte :: "char \<Rightarrow> nat" where
  "byte c \<equiv> of_char c"

abbreviation chr :: "nat \<Rightarrow> char" where
  "chr n \<equiv> char_of n"

definition is_digit :: "char \<Rightarrow> bool" where
  "is_digit c \<longleftrightarrow> 48 \<le> byte c \<and> byte c \<le> 57"

definition is_lower :: "char \<Rightarrow> bool" where
  "is_lower c \<longleftrightarrow> 97 \<le> byte c \<and> byte c \<le> 122"

definition is_upper :: "char \<Rightarrow> bool" where
  "is_upper c \<longleftrightarrow> 65 \<le> byte c \<and> byte c \<le> 90"

definition digit_val :: "char \<Rightarrow> nat" where
  "digit_val c = byte c - 48"

definition hex_val :: "char \<Rightarrow> nat option" where
  "hex_val c =
     (let n = byte c in
      if 48 \<le> n \<and> n \<le> 57 then Some (n - 48)
      else if 97 \<le> n \<and> n \<le> 102 then Some (n - 87)
      else if 65 \<le> n \<and> n \<le> 70 then Some (n - 55)
      else None)"

text \<open>\<^verbatim>\<open>const hextable = "0123456789abcdef"\<close>\<close>

definition hex_digit :: "nat \<Rightarrow> char" where
  "hex_digit n = (if n < 10 then chr (48 + n) else chr (87 + n))"

section \<open>Package strings\<close>

definition has_prefix :: "string \<Rightarrow> string \<Rightarrow> bool" where
  "has_prefix s p \<longleftrightarrow> prefix p s"

definition has_suffix :: "string \<Rightarrow> string \<Rightarrow> bool" where
  "has_suffix s p \<longleftrightarrow> suffix p s"

definition trim_prefix :: "string \<Rightarrow> string \<Rightarrow> string" where
  "trim_prefix s p = (if has_prefix s p then drop (length p) s else s)"

definition trim_suffix :: "string \<Rightarrow> string \<Rightarrow> string" where
  "trim_suffix s p = (if has_suffix s p then take (length s - length p) s else s)"

definition to_upper_char :: "char \<Rightarrow> char" where
  "to_upper_char c = (if is_lower c then chr (byte c - 32) else c)"

definition to_lower_char :: "char \<Rightarrow> char" where
  "to_lower_char c = (if is_upper c then chr (byte c + 32) else c)"

definition to_upper :: "string \<Rightarrow> string" where
  "to_upper s = map to_upper_char s"

definition to_lower :: "string \<Rightarrow> string" where
  "to_lower s = map to_lower_char s"

definition equal_fold :: "string \<Rightarrow> string \<Rightarrow> bool" where
  "equal_fold s t \<longleftrightarrow> to_lower s = to_lower t"

lemma char_eq_byte: "c = d \<longleftrightarrow> byte c = byte d"
  by (simp add: of_char_eq_iff)

lemma byte_chr: "n < 256 \<Longrightarrow> byte (chr n) = n"
  by (simp add: of_char_of take_bit_eq_mod)

lemma byte_to_upper_char: "byte (to_upper_char c) = (if is_lower c then byte c - 32 else byte c)"
  by (auto simp: to_upper_char_def is_lower_def intro!: byte_chr)

lemma byte_to_lower_char: "byte (to_lower_char c) = (if is_upper c then byte c + 32 else byte c)"
  by (auto simp: to_lower_char_def is_upper_def intro!: byte_chr)

lemmas byte_case = byte_to_upper_char byte_to_lower_char is_lower_def is_upper_def

lemma to_lower_upper_char [simp]: "to_lower_char (to_upper_char c) = to_lower_char c"
  unfolding char_eq_byte by (auto simp: byte_case)

lemma to_upper_lower_char [simp]: "to_upper_char (to_lower_char c) = to_upper_char c"
  unfolding char_eq_byte by (auto simp: byte_case)

lemma to_upper_idem_char [simp]: "to_upper_char (to_upper_char c) = to_upper_char c"
  unfolding char_eq_byte by (auto simp: byte_case)

lemma to_lower_idem_char [simp]: "to_lower_char (to_lower_char c) = to_lower_char c"
  unfolding char_eq_byte by (auto simp: byte_case)

lemma to_lower_upper [simp]: "to_lower (to_upper s) = to_lower s"
  by (simp add: to_lower_def to_upper_def)

lemma to_upper_lower [simp]: "to_upper (to_lower s) = to_upper s"
  by (simp add: to_lower_def to_upper_def)

lemma to_upper_idem [simp]: "to_upper (to_upper s) = to_upper s"
  by (simp add: to_upper_def)

lemma to_lower_idem [simp]: "to_lower (to_lower s) = to_lower s"
  by (simp add: to_lower_def)

text \<open>Folding to either case decides the same comparison.\<close>

lemma equal_fold_upper: "equal_fold s t \<longleftrightarrow> to_upper s = to_upper t"
  unfolding equal_fold_def by (metis to_lower_upper to_upper_lower)

fun str_index :: "string \<Rightarrow> string \<Rightarrow> nat option" where
  "str_index [] sub = (if sub = [] then Some 0 else None)"
| "str_index (c # cs) sub =
     (if prefix sub (c # cs) then Some 0 else map_option Suc (str_index cs sub))"

definition str_contains :: "string \<Rightarrow> string \<Rightarrow> bool" where
  "str_contains s sub \<longleftrightarrow> str_index s sub \<noteq> None"

definition contains_any :: "string \<Rightarrow> string \<Rightarrow> bool" where
  "contains_any s cs \<longleftrightarrow> list_ex (\<lambda>c. c \<in> set cs) s"

text \<open>\<^verbatim>\<open>strings.Cut\<close>\<close>

definition str_cut :: "string \<Rightarrow> string \<Rightarrow> string \<times> string \<times> bool" where
  "str_cut s sep =
     (case str_index s sep of
        None \<Rightarrow> (s, [], False)
      | Some i \<Rightarrow> (take i s, drop (i + length sep) s, True))"

text \<open>\<^verbatim>\<open>strings.ReplaceAll\<close> for a one-byte pattern.\<close>

definition replace_char :: "string \<Rightarrow> char \<Rightarrow> string \<Rightarrow> string" where
  "replace_char s c r = concat (map (\<lambda>x. if x = c then r else [x]) s)"

fun split_char :: "char \<Rightarrow> string \<Rightarrow> string list" where
  "split_char c [] = [[]]"
| "split_char c (x # xs) =
     (if x = c then [] # split_char c xs
      else (case split_char c xs of [] \<Rightarrow> [[x]] | w # ws \<Rightarrow> (x # w) # ws))"

fun join_with :: "string \<Rightarrow> string list \<Rightarrow> string" where
  "join_with sep [] = []"
| "join_with sep [s] = s"
| "join_with sep (s # t # ss) = s @ sep @ join_with sep (t # ss)"

subsection \<open>White space\<close>

text \<open>
  \<^verbatim>\<open>strings.TrimSpace\<close> and \<^verbatim>\<open>bytes.TrimSpace\<close> remove Unicode white space from both ends. The white
  space runes and their UTF-8 encodings: the ASCII ones, U+0085, U+00A0, U+1680, U+2000 to
  U+200A, U+2028, U+2029, U+202F, U+205F and U+3000.
\<close>

definition space_encodings :: "string list" where
  "space_encodings =
     [[CHR 0x09], [CHR 0x0A], [CHR 0x0B], [CHR 0x0C], [CHR 0x0D], [CHR 0x20], [CHR 0xC2, CHR 0x85],
      [CHR 0xC2, CHR 0xA0], [CHR 0xE1, CHR 0x9A, CHR 0x80], [CHR 0xE2, CHR 0x80, CHR 0x80],
      [CHR 0xE2, CHR 0x80, CHR 0x81], [CHR 0xE2, CHR 0x80, CHR 0x82], [CHR 0xE2, CHR 0x80, CHR 0x83],
      [CHR 0xE2, CHR 0x80, CHR 0x84], [CHR 0xE2, CHR 0x80, CHR 0x85], [CHR 0xE2, CHR 0x80, CHR 0x86],
      [CHR 0xE2, CHR 0x80, CHR 0x87], [CHR 0xE2, CHR 0x80, CHR 0x88], [CHR 0xE2, CHR 0x80, CHR 0x89],
      [CHR 0xE2, CHR 0x80, CHR 0x8A], [CHR 0xE2, CHR 0x80, CHR 0xA8], [CHR 0xE2, CHR 0x80, CHR 0xA9],
      [CHR 0xE2, CHR 0x80, CHR 0xAF], [CHR 0xE2, CHR 0x81, CHR 0x9F], [CHR 0xE3, CHR 0x80, CHR 0x80]]"

function trim_left_by :: "string list \<Rightarrow> string \<Rightarrow> string" where
  "trim_left_by es s =
     (case find (\<lambda>e. e \<noteq> [] \<and> prefix e s) es of
        None \<Rightarrow> s
      | Some e \<Rightarrow> trim_left_by es (drop (length e) s))"
  by pat_completeness auto
termination
  by (relation "measure (\<lambda>(es, s). length s)")
    (auto dest!: find_Some_in simp: prefix_def)

declare trim_left_by.simps [simp del]

definition trim_space :: "string \<Rightarrow> string" where
  "trim_space s = rev (trim_left_by (map rev space_encodings) (rev (trim_left_by space_encodings s)))"

lemma trim_left_by_suffix: "\<exists>p. s = p @ trim_left_by es s"
proof (induction es s rule: trim_left_by.induct)
  case (1 es s)
  show ?case
  proof (cases "find (\<lambda>e. e \<noteq> [] \<and> prefix e s) es")
    case (Some e)
    then obtain t where t: "s = e @ t" by (auto dest!: find_Some_in simp: prefix_def)
    obtain p where p: "drop (length e) s = p @ trim_left_by es (drop (length e) s)"
      using 1 [OF Some] by auto
    have "trim_left_by es s = trim_left_by es (drop (length e) s)"
      by (subst trim_left_by.simps) (simp add: Some)
    with p t show ?thesis by (metis append.assoc append_eq_conv_conj)
  qed (simp add: trim_left_by.simps)
qed

lemma length_trim_left_by: "length (trim_left_by es s) \<le> length s"
  using trim_left_by_suffix [of s es] by (metis length_append le_add2)

lemma length_trim_space: "length (trim_space s) \<le> length s"
  by (metis trim_space_def length_rev length_trim_left_by le_trans)

section \<open>Package strconv\<close>

text \<open>\<^verbatim>\<open>strconv.Itoa\<close>\<close>

fun nat_digits :: "nat \<Rightarrow> string" where
  "nat_digits n = (if n < 10 then [chr (48 + n)] else nat_digits (n div 10) @ [chr (48 + n mod 10)])"

declare nat_digits.simps [simp del]

definition itoa :: "int \<Rightarrow> string" where
  "itoa i = (if i < 0 then CHR ''-'' # nat_digits (nat (- i)) else nat_digits (nat i))"

definition digits_val :: "string \<Rightarrow> nat" where
  "digits_val s = foldl (\<lambda>n c. 10 * n + digit_val c) 0 s"

text \<open>
  \<^verbatim>\<open>strconv.ParseInt(s, 10, 64)\<close> (and \<^verbatim>\<open>strconv.Atoi\<close>): an optional sign, at least one digit, nothing
  else, and the value in range.
\<close>

definition parse_int :: "string \<Rightarrow> int option" where
  "parse_int s =
     (let neg = (s \<noteq> [] \<and> hd s = CHR ''-'');
          ds = (if s \<noteq> [] \<and> (hd s = CHR ''-'' \<or> hd s = CHR ''+'') then tl s else s);
          v = (if neg then - int (digits_val ds) else int (digits_val ds))
      in if ds \<noteq> [] \<and> list_all is_digit ds \<and> in_int64 v then Some v else None)"

lemma parse_int_range: "parse_int s = Some v \<Longrightarrow> in_int64 v"
  by (auto simp: parse_int_def Let_def split: if_splits)

section \<open>UTF-8\<close>

definition rune_error :: nat where
  "rune_error = 0xFFFD"

definition is_cont :: "char \<Rightarrow> bool" where
  "is_cont c \<longleftrightarrow> 0x80 \<le> byte c \<and> byte c \<le> 0xBF"

definition between :: "nat \<Rightarrow> nat \<Rightarrow> char \<Rightarrow> bool" where
  "between lo hi c \<longleftrightarrow> lo \<le> byte c \<and> byte c \<le> hi"

text \<open>
  \<^verbatim>\<open>utf8.DecodeRune\<close> on a non-empty slice: the rune and its width, \<open>(RuneError, 1)\<close> for an encoding
  that is not valid (overlong forms, surrogates and runes past U+10FFFF are not).
\<close>

fun decode_rune2 :: "nat \<Rightarrow> string \<Rightarrow> nat \<times> nat" where
  "decode_rune2 n (b # t) =
     (if is_cont b then ((n - 0xC0) * 64 + (byte b - 0x80), 2) else (rune_error, 1))"
| "decode_rune2 n [] = (rune_error, 1)"

fun decode_rune3 :: "nat \<Rightarrow> string \<Rightarrow> nat \<times> nat" where
  "decode_rune3 n (b # c # t) =
     (if between (if n = 0xE0 then 0xA0 else 0x80) (if n = 0xED then 0x9F else 0xBF) b \<and> is_cont c
      then ((n - 0xE0) * 4096 + (byte b - 0x80) * 64 + (byte c - 0x80), 3)
      else (rune_error, 1))"
| "decode_rune3 n _ = (rune_error, 1)"

fun decode_rune4 :: "nat \<Rightarrow> string \<Rightarrow> nat \<times> nat" where
  "decode_rune4 n (b # c # d # t) =
     (if between (if n = 0xF0 then 0x90 else 0x80) (if n = 0xF4 then 0x8F else 0xBF) b
         \<and> is_cont c \<and> is_cont d
      then ((n - 0xF0) * 262144 + (byte b - 0x80) * 4096 + (byte c - 0x80) * 64 + (byte d - 0x80), 4)
      else (rune_error, 1))"
| "decode_rune4 n _ = (rune_error, 1)"

fun decode_rune :: "string \<Rightarrow> nat \<times> nat" where
  "decode_rune [] = (rune_error, 0)"
| "decode_rune (a # t) =
     (let n = byte a in
      if n < 0x80 then (n, 1)
      else if 0xC2 \<le> n \<and> n \<le> 0xDF then decode_rune2 n t
      else if 0xE0 \<le> n \<and> n \<le> 0xEF then decode_rune3 n t
      else if 0xF0 \<le> n \<and> n \<le> 0xF4 then decode_rune4 n t
      else (rune_error, 1))"

declare decode_rune.simps [simp del]

lemma decode_rune2_width: "1 \<le> snd (decode_rune2 n t) \<and> snd (decode_rune2 n t) \<le> Suc (length t)"
  by (cases "(n, t)" rule: decode_rune2.cases) auto

lemma decode_rune3_width: "1 \<le> snd (decode_rune3 n t) \<and> snd (decode_rune3 n t) \<le> Suc (length t)"
  by (cases "(n, t)" rule: decode_rune3.cases) auto

lemma decode_rune4_width: "1 \<le> snd (decode_rune4 n t) \<and> snd (decode_rune4 n t) \<le> Suc (length t)"
  by (cases "(n, t)" rule: decode_rune4.cases) auto

lemma decode_rune_width: "s \<noteq> [] \<Longrightarrow> 1 \<le> snd (decode_rune s) \<and> snd (decode_rune s) \<le> length s"
  using decode_rune2_width decode_rune3_width decode_rune4_width
  by (cases s) (simp_all add: decode_rune.simps Let_def)

text \<open>\<^verbatim>\<open>utf8.AppendRune\<close>\<close>

definition encode_rune :: "nat \<Rightarrow> string" where
  "encode_rune r0 =
     (let r = (if (0xD800 \<le> r0 \<and> r0 < 0xE000) \<or> 0x10FFFF < r0 then rune_error else r0) in
      if r < 0x80 then [chr r]
      else if r < 0x800 then [chr (0xC0 + r div 64), chr (0x80 + r mod 64)]
      else if r < 0x10000 then
        [chr (0xE0 + r div 4096), chr (0x80 + r div 64 mod 64), chr (0x80 + r mod 64)]
      else [chr (0xF0 + r div 262144), chr (0x80 + r div 4096 mod 64),
            chr (0x80 + r div 64 mod 64), chr (0x80 + r mod 64)])"

lemma decode_rune_width_pos [simp]: "0 < snd (decode_rune (c # s))"
  using decode_rune_width [of "c # s"] by simp

function utf8_valid :: "string \<Rightarrow> bool" where
  "utf8_valid s =
     (if s = [] then True
      else if decode_rune s = (rune_error, 1) then False
      else utf8_valid (drop (snd (decode_rune s)) s))"
  by pat_completeness auto
termination
proof (relation "measure length", goal_cases)
  case (2 s)
  then show ?case using decode_rune_width [of s] by (cases s) auto
qed simp

declare utf8_valid.simps [simp del]

section \<open>strconv.Quote and strconv.Unquote\<close>

text \<open>\<open>n\<close> hexadecimal digits of \<open>v\<close>, most significant first.\<close>

fun hex_fixed :: "nat \<Rightarrow> nat \<Rightarrow> string" where
  "hex_fixed 0 v = []"
| "hex_fixed (Suc n) v = hex_fixed n (v div 16) @ [hex_digit (v mod 16)]"

text \<open>
  One rune of \<^verbatim>\<open>strconv.Quote\<close> (\<^verbatim>\<open>appendEscapedRune\<close>); \<open>pr\<close> is \<^verbatim>\<open>strconv.IsPrint\<close> for the runes
  beyond ASCII, a table of the Unicode standard.
\<close>

definition quote_rune :: "(nat \<Rightarrow> bool) \<Rightarrow> nat \<Rightarrow> string" where
  "quote_rune pr r =
     (if r = 34 \<or> r = 92 then [CHR 0x5C, chr r]
      else if (r < 0x80 \<and> 0x20 \<le> r \<and> r < 0x7F) \<or> (0x80 \<le> r \<and> pr r) then encode_rune r
      else if r = 7 then [CHR 0x5C, CHR ''a'']
      else if r = 8 then [CHR 0x5C, CHR ''b'']
      else if r = 12 then [CHR 0x5C, CHR ''f'']
      else if r = 10 then [CHR 0x5C, CHR ''n'']
      else if r = 13 then [CHR 0x5C, CHR ''r'']
      else if r = 9 then [CHR 0x5C, CHR ''t'']
      else if r = 11 then [CHR 0x5C, CHR ''v'']
      else if r < 0x20 \<or> r = 0x7F then [CHR 0x5C, CHR ''x''] @ hex_fixed 2 r
      else if r < 0x10000 then [CHR 0x5C, CHR ''u''] @ hex_fixed 4 r
      else [CHR 0x5C, CHR ''U''] @ hex_fixed 8 r)"

function quote_content :: "(nat \<Rightarrow> bool) \<Rightarrow> string \<Rightarrow> string" where
  "quote_content pr [] = []"
| "quote_content pr (c # s) =
     (if byte c < 0x80 then quote_rune pr (byte c) @ quote_content pr s
      else if decode_rune (c # s) = (rune_error, 1)
      then [CHR 0x5C, CHR ''x''] @ hex_fixed 2 (byte c) @ quote_content pr s
      else quote_rune pr (fst (decode_rune (c # s)))
           @ quote_content pr (drop (snd (decode_rune (c # s))) (c # s)))"
  by pat_completeness auto
termination
  by (relation "measure (\<lambda>(pr, s). length s)") auto

definition go_quote :: "(nat \<Rightarrow> bool) \<Rightarrow> string \<Rightarrow> string" where
  "go_quote pr s = CHR 0x22 # quote_content pr s @ [CHR 0x22]"

end
