(* ===== verification/Json_Text.thy ===== *)
theory Json_Text
  imports Go_Strings
begin

text \<open>
  Go's \<^verbatim>\<open>encoding/json\<close> as the program uses it: the scanner's grammar, string unquoting, decoding
  into \<^verbatim>\<open>map[string]json.RawMessage\<close>, \<^verbatim>\<open>string\<close>, \<^verbatim>\<open>bool\<close>, \<^verbatim>\<open>int\<close>, \<^verbatim>\<open>float64\<close>, \<^verbatim>\<open>[]string\<close> and
  \<^verbatim>\<open>any\<close> (with and without \<^verbatim>\<open>UseNumber\<close>), and \<^verbatim>\<open>json.Marshal\<close>. A \<^verbatim>\<open>json.RawMessage\<close> is the text of its
  value; a parsed array or object keeps the text of each element beside its tree.
\<close>

section \<open>The grammar\<close>

datatype json =
    JNull
  | JBool bool
  | JNum string
  | JStr string
  | JArr "(string \<times> json) list"
  | JObj "(string \<times> string \<times> json) list"

definition json_ws :: "char \<Rightarrow> bool" where
  "json_ws c \<longleftrightarrow> byte c \<in> {32, 9, 13, 10}"

definition skip_ws :: "string \<Rightarrow> string" where
  "skip_ws s = dropWhile json_ws s"

text \<open>At least one digit.\<close>

definition lex_digits1 :: "string \<Rightarrow> (string \<times> string) option" where
  "lex_digits1 s =
     (let d = takeWhile is_digit s in if d = [] then None else Some (d, dropWhile is_digit s))"

text \<open>The integer part: a zero alone, or digits that do not start with a zero.\<close>

definition lex_int :: "string \<Rightarrow> (string \<times> string) option" where
  "lex_int s =
     (case s of
        [] \<Rightarrow> None
      | c # cs \<Rightarrow> if c = CHR ''0'' then Some ([c], cs) else lex_digits1 s)"

definition lex_frac :: "string \<Rightarrow> (string \<times> string) option" where
  "lex_frac s =
     (case s of
        [] \<Rightarrow> Some ([], [])
      | c # cs \<Rightarrow>
          if c = CHR ''.'' then map_option (\<lambda>(d, r). (c # d, r)) (lex_digits1 cs)
          else Some ([], s))"

definition lex_exp :: "string \<Rightarrow> (string \<times> string) option" where
  "lex_exp s =
     (case s of
        [] \<Rightarrow> Some ([], [])
      | c # cs \<Rightarrow>
          if c = CHR ''e'' \<or> c = CHR ''E'' then
            (case cs of
               [] \<Rightarrow> None
             | g # gs \<Rightarrow>
                 if g = CHR ''+'' \<or> g = CHR ''-''
                 then map_option (\<lambda>(d, r). (c # g # d, r)) (lex_digits1 gs)
                 else map_option (\<lambda>(d, r). (c # d, r)) (lex_digits1 cs))
          else Some ([], s))"

definition lex_sign :: "string \<Rightarrow> string \<times> string" where
  "lex_sign s = (case s of c # cs \<Rightarrow> if c = CHR ''-'' then ([c], cs) else ([], s) | [] \<Rightarrow> ([], []))"

definition lex_number :: "string \<Rightarrow> (string \<times> string) option" where
  "lex_number s =
     (case lex_sign s of (g, s1) \<Rightarrow>
      case lex_int s1 of None \<Rightarrow> None | Some (i, s2) \<Rightarrow>
      case lex_frac s2 of None \<Rightarrow> None | Some (f, s3) \<Rightarrow>
      case lex_exp s3 of None \<Rightarrow> None | Some (e, s4) \<Rightarrow> Some (g @ i @ f @ e, s4))"

definition is_hex :: "char \<Rightarrow> bool" where
  "is_hex c \<longleftrightarrow> hex_val c \<noteq> None"

lemma hex_val_digit: "n < 16 \<Longrightarrow> hex_val (hex_digit n) = Some n"
  by (simp add: hex_val_def hex_digit_def byte_chr Let_def)

lemma is_hex_digit [simp]: "n < 16 \<Longrightarrow> is_hex (hex_digit n)"
  by (simp add: is_hex_def hex_val_digit)

text \<open>The inside of a string literal up to the closing quote, escapes checked but kept.\<close>

fun lex_string :: "string \<Rightarrow> (string \<times> string) option" where
  "lex_string [] = None"
| "lex_string (c # cs) =
     (if c = CHR 0x22 then Some ([], cs)
      else if c = CHR 0x5C then
        (case cs of
           [] \<Rightarrow> None
         | e # es \<Rightarrow>
             if e \<in> set [CHR ''b'', CHR ''f'', CHR ''n'', CHR ''r'', CHR ''t'', CHR 0x5C, CHR ''/'', CHR 0x22]
             then map_option (\<lambda>(t, r). (c # e # t, r)) (lex_string es)
             else if e = CHR ''u'' \<and> 4 \<le> length es \<and> list_all is_hex (take 4 es)
             then map_option (\<lambda>(t, r). (c # e # t, r)) (lex_string es)
             else None)
      else if byte c < 32 then None
      else map_option (\<lambda>(t, r). (c # t, r)) (lex_string cs))"

fun hex_nat :: "string \<Rightarrow> nat" where
  "hex_nat s = foldl (\<lambda>n c. 16 * n + (case hex_val c of Some v \<Rightarrow> v | None \<Rightarrow> 0)) 0 s"

text \<open>\<^verbatim>\<open>getu4\<close>: the rune of a leading \<^verbatim>\<open>\uXXXX\<close>.\<close>

definition getu4 :: "string \<Rightarrow> nat option" where
  "getu4 s =
     (if 6 \<le> length s \<and> take 2 s = [CHR 0x5C, CHR ''u''] \<and> list_all is_hex (take 4 (drop 2 s))
      then Some (hex_nat (take 4 (drop 2 s))) else None)"

definition is_surrogate :: "nat \<Rightarrow> bool" where
  "is_surrogate r \<longleftrightarrow> 0xD800 \<le> r \<and> r < 0xE000"

definition utf16_pair :: "nat \<Rightarrow> nat \<Rightarrow> nat option" where
  "utf16_pair r1 r2 =
     (if 0xD800 \<le> r1 \<and> r1 < 0xDC00 \<and> 0xDC00 \<le> r2 \<and> r2 < 0xE000
      then Some ((r1 - 0xD800) * 1024 + (r2 - 0xDC00) + 0x10000) else None)"

definition simple_escape :: "char \<Rightarrow> char" where
  "simple_escape e =
     (if e = CHR ''b'' then chr 8 else if e = CHR ''f'' then chr 12 else if e = CHR ''n'' then chr 10
      else if e = CHR ''r'' then chr 13 else if e = CHR ''t'' then chr 9 else e)"

text \<open>\<^verbatim>\<open>unquoteBytes\<close>: escapes resolved, lone surrogates and invalid UTF-8 replaced by U+FFFD.\<close>

function unquote_json :: "string \<Rightarrow> string" where
  "unquote_json [] = []"
| "unquote_json (c # cs) =
     (if c = CHR 0x5C then
        (case getu4 (c # cs) of
           Some r \<Rightarrow>
             (if is_surrogate r then
                (case Option.bind (getu4 (drop 5 cs)) (utf16_pair r) of
                   Some d \<Rightarrow> encode_rune d @ unquote_json (drop 11 cs)
                 | None \<Rightarrow> encode_rune rune_error @ unquote_json (drop 5 cs))
              else encode_rune r @ unquote_json (drop 5 cs))
         | None \<Rightarrow> (case cs of [] \<Rightarrow> [] | e # es \<Rightarrow> simple_escape e # unquote_json es))
      else if byte c < 0x80 then c # unquote_json cs
      else encode_rune (fst (decode_rune (c # cs)))
           @ unquote_json (drop (snd (decode_rune (c # cs))) (c # cs)))"
  by pat_completeness auto
termination
  by (relation "measure length") auto

text \<open>
  One value, which starts at the first byte of \<open>s\<close>; \<open>d\<close> is the nesting depth still allowed (Go's
  limit is 10000), \<open>fuel\<close> bounds the recursion.
\<close>

definition text_before :: "string \<Rightarrow> string \<Rightarrow> string" where
  "text_before s r = take (length s - length r) s"

definition json_atom :: "string \<Rightarrow> (json \<times> string) option" where
  "json_atom s =
     (if prefix ''true'' s then Some (JBool True, drop 4 s)
      else if prefix ''false'' s then Some (JBool False, drop 5 s)
      else if prefix ''null'' s then Some (JNull, drop 4 s)
      else map_option (\<lambda>(t, r). (JNum t, r)) (lex_number s))"

fun json_value :: "nat \<Rightarrow> int \<Rightarrow> string \<Rightarrow> (json \<times> string) option"
and json_elems :: "nat \<Rightarrow> int \<Rightarrow> string \<Rightarrow> ((string \<times> json) list \<times> string) option"
and json_members :: "nat \<Rightarrow> int \<Rightarrow> string \<Rightarrow> ((string \<times> string \<times> json) list \<times> string) option" where
  "json_value 0 d s = None"
| "json_value (Suc fuel) d [] = None"
| "json_value (Suc fuel) d (c # cs) =
     (if c = CHR ''{'' then
        (if d \<le> 0 then None
         else case skip_ws cs of
            [] \<Rightarrow> None
          | x # xs \<Rightarrow> if x = CHR ''}'' then Some (JObj [], xs)
              else map_option (\<lambda>(ms, r). (JObj ms, r)) (json_members fuel (d - 1) (x # xs)))
      else if c = CHR ''['' then
        (if d \<le> 0 then None
         else case skip_ws cs of
            [] \<Rightarrow> None
          | x # xs \<Rightarrow> if x = CHR '']'' then Some (JArr [], xs)
              else map_option (\<lambda>(es, r). (JArr es, r)) (json_elems fuel (d - 1) (x # xs)))
      else if c = CHR 0x22 then map_option (\<lambda>(t, r). (JStr (unquote_json t), r)) (lex_string cs)
      else json_atom (c # cs))"
| "json_elems 0 d s = None"
| "json_elems (Suc fuel) d s =
     (case json_value fuel d s of
        None \<Rightarrow> None
      | Some (v, r) \<Rightarrow>
          (case skip_ws r of
             [] \<Rightarrow> None
           | x # xs \<Rightarrow>
               if x = CHR '']'' then Some ([(text_before s r, v)], xs)
               else if x = CHR '','' then
                 map_option (\<lambda>(es, r'). ((text_before s r, v) # es, r')) (json_elems fuel d (skip_ws xs))
               else None))"
| "json_members 0 d s = None"
| "json_members (Suc fuel) d s =
     (case s of
        [] \<Rightarrow> None
      | q # qs \<Rightarrow>
          if q \<noteq> CHR 0x22 then None
          else case lex_string qs of
             None \<Rightarrow> None
           | Some (k, r0) \<Rightarrow>
               (case skip_ws r0 of
                  [] \<Rightarrow> None
                | y # ys \<Rightarrow>
                    if y \<noteq> CHR '':'' then None
                    else case json_value fuel d (skip_ws ys) of
                       None \<Rightarrow> None
                     | Some (v, r) \<Rightarrow>
                         (case skip_ws r of
                            [] \<Rightarrow> None
                          | x # xs \<Rightarrow>
                              if x = CHR ''}'' then
                                Some ([(unquote_json k, text_before (skip_ws ys) r, v)], xs)
                              else if x = CHR '','' then
                                map_option
                                  (\<lambda>(ms, r'). ((unquote_json k, text_before (skip_ws ys) r, v) # ms, r'))
                                  (json_members fuel d (skip_ws xs))
                              else None)))"

definition max_nesting_depth :: int where
  "max_nesting_depth = 10000"

text \<open>Fuel: each call consumes at most two units per byte (lemma \<open>json_value_fuel\<close>).\<close>

definition json_fuel :: "string \<Rightarrow> nat" where
  "json_fuel s = 2 * length s + 2"

text \<open>The first value of a stream (\<^verbatim>\<open>Decoder.Decode\<close>) with the text after it.\<close>

definition decode_stream :: "string \<Rightarrow> (json \<times> string) option" where
  "decode_stream s = json_value (json_fuel s) max_nesting_depth (skip_ws s)"

text \<open>A whole text (\<^verbatim>\<open>json.Unmarshal\<close>, \<^verbatim>\<open>json.Valid\<close>).\<close>

definition json_parse :: "string \<Rightarrow> json option" where
  "json_parse s =
     (case decode_stream s of
        None \<Rightarrow> None
      | Some (v, r) \<Rightarrow> if skip_ws r = [] then Some v else None)"

section \<open>Consumption and fuel\<close>

text \<open>Every parser returns a proper rest of its input; the fuel of \<open>decode_stream\<close> is never used up.\<close>

lemma skip_ws_length: "length (skip_ws s) \<le> length s"
  by (simp add: skip_ws_def)

lemma skip_ws_Cons_length: "skip_ws s = x # xs \<Longrightarrow> length xs < length s"
  using skip_ws_length [of s] by simp

lemma lex_digits1_length: "lex_digits1 s = Some (d, r) \<Longrightarrow> length r < length s"
  by (cases s) (auto simp: lex_digits1_def Let_def less_Suc_eq_le split: if_splits)

lemma lex_int_length: "lex_int s = Some (d, r) \<Longrightarrow> length r < length s"
  by (auto simp: lex_int_def split: list.splits if_splits dest: lex_digits1_length)

lemma lex_frac_length: "lex_frac s = Some (d, r) \<Longrightarrow> length r \<le> length s"
  by (auto simp: lex_frac_def split: list.splits if_splits dest: lex_digits1_length)

lemma lex_exp_length: "lex_exp s = Some (d, r) \<Longrightarrow> length r \<le> length s"
  by (auto simp: lex_exp_def split: list.splits if_splits dest!: lex_digits1_length)

lemma lex_sign_length: "lex_sign s = (g, r) \<Longrightarrow> length r \<le> length s"
  by (auto simp: lex_sign_def split: list.splits if_splits)

lemma lex_number_length: "lex_number s = Some (t, r) \<Longrightarrow> length r < length s"
  by (fastforce simp: lex_number_def split: prod.splits option.splits
      dest: lex_sign_length lex_int_length lex_frac_length lex_exp_length)

lemma lex_string_length: "lex_string s = Some (t, r) \<Longrightarrow> length r < length s"
  by (induction s arbitrary: t rule: lex_string.induct) (force split: if_splits list.splits)+

lemma json_atom_length: "json_atom s = Some (v, r) \<Longrightarrow> length r < length s"
  by (auto simp: json_atom_def prefix_def split: if_splits dest: lex_number_length)

text \<open>What a successful parse of an array or object element looks like.\<close>

lemma json_elems_SomeD:
  assumes "json_elems (Suc fuel) d s = Some (es, r')"
  obtains v r x xs where "json_value fuel d s = Some (v, r)" and "skip_ws r = x # xs"
    and "x = CHR '']'' \<and> es = [(text_before s r, v)] \<and> r' = xs
         \<or> (\<exists>es'. x = CHR '','' \<and> json_elems fuel d (skip_ws xs) = Some (es', r')
               \<and> es = (text_before s r, v) # es')"
proof (cases "json_value fuel d s")
  case (Some vr)
  obtain v r where vr: "vr = (v, r)" by (cases vr)
  show ?thesis
  proof (cases "skip_ws r")
    case (Cons x xs)
    from assms Some vr Cons show ?thesis
      by (intro that [OF _ Cons, of v]) (auto split: if_splits)
  qed (use assms Some vr in simp)
qed (use assms in simp)

lemma json_members_SomeD:
  assumes "json_members (Suc fuel) d s = Some (ms, r')"
  obtains qs k r0 ys v r x xs where "s = CHR 0x22 # qs" and "lex_string qs = Some (k, r0)"
    and "skip_ws r0 = CHR '':'' # ys" and "json_value fuel d (skip_ws ys) = Some (v, r)"
    and "skip_ws r = x # xs"
    and "x = CHR ''}'' \<and> ms = [(unquote_json k, text_before (skip_ws ys) r, v)] \<and> r' = xs
         \<or> (\<exists>ms'. x = CHR '','' \<and> json_members fuel d (skip_ws xs) = Some (ms', r')
               \<and> ms = (unquote_json k, text_before (skip_ws ys) r, v) # ms')"
proof -
  obtain qs where s: "s = CHR 0x22 # qs"
    using assms by (auto split: list.splits if_splits)
  obtain k r0 where k: "lex_string qs = Some (k, r0)"
    using assms s by (auto split: option.splits)
  obtain ys where y: "skip_ws r0 = CHR '':'' # ys"
    using assms s k by (auto split: list.splits if_splits)
  obtain v r where v: "json_value fuel d (skip_ws ys) = Some (v, r)"
    using assms s k y by (auto split: option.splits)
  obtain x xs where x: "skip_ws r = x # xs"
    using assms s k y v by (auto split: list.splits)
  show thesis
    by (rule that [OF s k y v x]) (use assms s k y v x in \<open>auto split: if_splits\<close>)
qed

lemma json_value_SomeD:
  assumes "json_value (Suc fuel) d s = Some (v, r)"
  obtains (obj_empty) cs x xs where "s = CHR ''{'' # cs" and "0 < d" and "skip_ws cs = x # xs"
      and "x = CHR ''}''" and "v = JObj []" and "r = xs"
  | (obj) cs x xs ms where "s = CHR ''{'' # cs" and "0 < d" and "skip_ws cs = x # xs"
      and "x \<noteq> CHR ''}''" and "json_members fuel (d - 1) (x # xs) = Some (ms, r)" and "v = JObj ms"
  | (arr_empty) cs x xs where "s = CHR ''['' # cs" and "0 < d" and "skip_ws cs = x # xs"
      and "x = CHR '']''" and "v = JArr []" and "r = xs"
  | (arr) cs x xs es where "s = CHR ''['' # cs" and "0 < d" and "skip_ws cs = x # xs"
      and "x \<noteq> CHR '']''" and "json_elems fuel (d - 1) (x # xs) = Some (es, r)" and "v = JArr es"
  | (str) cs t where "s = CHR 0x22 # cs" and "lex_string cs = Some (t, r)" and "v = JStr (unquote_json t)"
  | (atom) "json_atom s = Some (v, r)"
proof (cases s)
  case (Cons c cs)
  consider "c = CHR ''{''" | "c = CHR ''[''" | "c = CHR 0x22"
    | "c \<noteq> CHR ''{''" "c \<noteq> CHR ''[''" "c \<noteq> CHR 0x22" by blast
  then show ?thesis
  proof cases
    case 1
    with assms Cons show ?thesis
      by (cases "skip_ws cs") (auto split: if_splits intro: obj_empty obj)
  next
    case 2
    with assms Cons show ?thesis
      by (cases "skip_ws cs") (auto split: if_splits intro: arr_empty arr)
  next
    case 3
    with assms Cons show ?thesis by (auto intro: str)
  next
    case 4
    with assms Cons show ?thesis by (intro atom) simp
  qed
qed (use assms in simp)

lemma json_consumes:
  "json_value f d s = Some (v, r) \<Longrightarrow> length r < length s"
  "json_elems f d s = Some (es, r) \<Longrightarrow> length r < length s"
  "json_members f d s = Some (ms, r) \<Longrightarrow> length r < length s"
proof (induction f arbitrary: d s v r es ms)
  case (Suc f)
  {
    case 1
    then show ?case
    proof (cases rule: json_value_SomeD)
      case (obj cs x xs ms)
      with Suc.IH(3) [OF obj(5)] skip_ws_length [of cs] show ?thesis by simp
    next
      case (arr cs x xs es)
      with Suc.IH(2) [OF arr(5)] skip_ws_length [of cs] show ?thesis by simp
    qed (auto dest: skip_ws_Cons_length lex_string_length json_atom_length)
  next
    case 2
    then show ?case
    proof (cases rule: json_elems_SomeD)
      case (1 v r' x xs)
      have "length r' < length s" by (rule Suc.IH(1) [OF 1(1)])
      moreover have "length xs < length r'" by (rule skip_ws_Cons_length [OF 1(2)])
      moreover have "length r \<le> length xs"
        using 1(3) Suc.IH(2) skip_ws_length [of xs] by (force dest: order_trans less_imp_le)
      ultimately show ?thesis by simp
    qed
  next
    case 3
    then show ?case
    proof (cases rule: json_members_SomeD)
      case (1 qs k r0 ys v r' x xs)
      have "length r0 < length qs" by (rule lex_string_length [OF 1(2)])
      moreover have "length ys < length r0" by (rule skip_ws_Cons_length [OF 1(3)])
      moreover have "length r' < length (skip_ws ys)" by (rule Suc.IH(1) [OF 1(4)])
      moreover have "length xs < length r'" by (rule skip_ws_Cons_length [OF 1(5)])
      moreover have "length r \<le> length xs"
        using 1(6) Suc.IH(3) skip_ws_length [of xs] by (force dest: order_trans less_imp_le)
      ultimately show ?thesis using 1(1) skip_ws_length [of ys] by simp
    qed
  }
qed simp_all

text \<open>
  Two units of fuel per byte are enough: with that much, the result does not depend on the fuel.
\<close>

lemma json_fuel_irrelevant:
  "2 * length s \<le> f \<Longrightarrow> 2 * length s \<le> g \<Longrightarrow> json_value f d s = json_value g d s"
  "2 * length s < f \<Longrightarrow> 2 * length s < g \<Longrightarrow> json_elems f d s = json_elems g d s"
  "2 * length s < f \<Longrightarrow> 2 * length s < g \<Longrightarrow> json_members f d s = json_members g d s"
proof (induction f arbitrary: g d s)
  case 0
  {
    case 1
    then show ?case by (cases g) auto
  next
    case 2
    then show ?case by simp
  next
    case 3
    then show ?case by simp
  }
next
  case (Suc f)
  {
    case 1
    show ?case
    proof (cases s)
      case Nil
      then show ?thesis by (cases g) auto
    next
      case (Cons c cs)
      obtain g' where g: "g = Suc g'" using 1(2) Cons by (cases g) auto
      show ?thesis
      proof (cases "skip_ws cs")
        case Nil
        then show ?thesis unfolding g Cons by simp
      next
        case xs: (Cons x xs)
        have len: "2 * length (x # xs) < f" "2 * length (x # xs) < g'"
          using 1 Cons g skip_ws_length [of cs] xs by auto
        show ?thesis unfolding g Cons
          by (simp only: json_value.simps xs list.case Suc.IH(2) [OF len] Suc.IH(3) [OF len])
      qed
    qed
  next
    case 2
    obtain g' where g: "g = Suc g'" using 2(2) by (cases g) auto
    have v: "json_value f d s = json_value g' d s" by (rule Suc.IH(1)) (use 2 g in auto)
    have "json_elems f d (skip_ws xs) = json_elems g' d (skip_ws xs)"
      if "json_value g' d s = Some (u, r)" and "skip_ws r = x # xs" for u r x xs
      by (rule Suc.IH(2))
        (use 2 g json_consumes(1) [OF that(1)] skip_ws_Cons_length [OF that(2)] skip_ws_length [of xs] in auto)
    then show ?case unfolding g by (auto simp: v split: option.split list.split)
  next
    case 3
    obtain g' where g: "g = Suc g'" using 3(2) by (cases g) auto
    have *: "json_members f d (skip_ws xs) = json_members g' d (skip_ws xs)
        \<and> json_value f d (skip_ws ys) = json_value g' d (skip_ws ys)"
      if "length ys < length s" and "json_value g' d (skip_ws ys) = Some (u, r)" and "skip_ws r = x # xs"
      for ys u r x xs
      by (intro conjI Suc.IH(1,3))
        (use 3 g that(1) skip_ws_length [of ys] json_consumes(1) [OF that(2)]
          skip_ws_Cons_length [OF that(3)] skip_ws_length [of xs] in auto)
    have v: "json_value f d (skip_ws ys) = json_value g' d (skip_ws ys)" if "length ys < length s" for ys
      using 3 g that skip_ws_length [of ys] by (intro Suc.IH(1)) auto
    show ?case
    proof (cases "\<exists>qs k r0 ys. s = CHR 0x22 # qs \<and> lex_string qs = Some (k, r0) \<and> skip_ws r0 = CHR '':'' # ys")
      case True
      then obtain qs k r0 ys where s: "s = CHR 0x22 # qs" "lex_string qs = Some (k, r0)"
        "skip_ws r0 = CHR '':'' # ys" by blast
      have ys: "length ys < length s"
        using s(1) lex_string_length [OF s(2)] skip_ws_Cons_length [OF s(3)] by simp
      show ?thesis
      proof (cases "\<exists>u r x xs. json_value g' d (skip_ws ys) = Some (u, r) \<and> skip_ws r = x # xs")
        case True
        then obtain u r x xs where r: "json_value g' d (skip_ws ys) = Some (u, r)" "skip_ws r = x # xs"
          by blast
        show ?thesis unfolding g using s r * [OF ys r] by simp
      next
        case False
        then show ?thesis unfolding g using s v [OF ys] by (auto split: option.split list.split)
      qed
    next
      case False
      then show ?thesis unfolding g by (auto split: option.split list.split)
    qed
  }
qed

lemma decode_stream_fuel: "json_fuel s \<le> f \<Longrightarrow> decode_stream s = json_value f max_nesting_depth (skip_ws s)"
  unfolding decode_stream_def
  by (rule json_fuel_irrelevant(1)) (use skip_ws_length [of s] in \<open>auto simp: json_fuel_def\<close>)

end
