(* ===== verification/Json_Value.thy ===== *)
theory Json_Value
  imports Json_Text
begin

text \<open>
  Decoding parsed JSON into Go values, normalisation and \<^verbatim>\<open>json.Marshal\<close>. A Go \<^verbatim>\<open>any\<close> that came out of
  \<^verbatim>\<open>encoding/json\<close> is a \<open>gval\<close>; \<open>float64\<close> is the exact dyadic number the bits denote.
\<close>

section \<open>float64\<close>

text \<open>
  \<open>F64 m e\<close> is \<open>m * 2 ^ e\<close> with \<open>m\<close> odd, or \<open>F64 0 0\<close>: one representation per number (the two
  zeros compare equal in Go and are one value here).
\<close>

datatype f64 = F64 int int

fun bitlen :: "nat \<Rightarrow> nat" where
  "bitlen n = (if n = 0 then 0 else Suc (bitlen (n div 2)))"

declare bitlen.simps [simp del]

fun odd_part :: "nat \<Rightarrow> int \<Rightarrow> nat \<times> int" where
  "odd_part m e = (if m = 0 then (0, 0) else if even m then odd_part (m div 2) (e + 1) else (m, e))"

declare odd_part.simps [simp del]

text \<open>
  The correctly rounded (half to even) double of \<open>num / den\<close>, \<open>None\<close> on overflow
  (\<^verbatim>\<open>strconv.ErrRange\<close>). 53 bits of precision, least exponent -1074.
\<close>

definition scaled_div :: "nat \<Rightarrow> nat \<Rightarrow> int \<Rightarrow> nat \<times> nat \<times> nat" where
  "scaled_div num den e =
     (let n = (if e < 0 then num * 2 ^ nat (- e) else num);
          d = (if e < 0 then den else den * 2 ^ nat e)
      in (n div d, n mod d, d))"

definition round_f64 :: "bool \<Rightarrow> nat \<Rightarrow> nat \<Rightarrow> f64 option" where
  "round_f64 neg num den =
     (if num = 0 then Some (F64 0 0)
      else
        (let e0 = int (bitlen num) - int (bitlen den) - 53;
             e1 = (case scaled_div num den e0 of (q, _, _) \<Rightarrow> if q < 2 ^ 53 then e0 else e0 + 1);
             e = max e1 (- 1074)
         in case scaled_div num den e of (q, r, d) \<Rightarrow>
              (let m = (if 2 * r > d \<or> (2 * r = d \<and> odd q) then Suc q else q)
               in if int (bitlen m) + e > 1024 then None
                  else (case odd_part m e of (m', e') \<Rightarrow>
                         Some (F64 (if neg then - int m' else int m') e')))))"

text \<open>\<^verbatim>\<open>strconv.ParseFloat\<close> on the text of a JSON number.\<close>

definition parse_float :: "string \<Rightarrow> f64 option" where
  "parse_float s =
     (case lex_sign s of (g, s1) \<Rightarrow>
      let ip = takeWhile is_digit s1;
          s2 = dropWhile is_digit s1;
          fp = (if s2 \<noteq> [] \<and> hd s2 = CHR ''.'' then takeWhile is_digit (tl s2) else []);
          s3 = (if s2 \<noteq> [] \<and> hd s2 = CHR ''.'' then dropWhile is_digit (tl s2) else s2);
          ex = (if s3 = [] then 0
                else if tl s3 \<noteq> [] \<and> hd (tl s3) = CHR ''-'' then - int (digits_val (tl (tl s3)))
                else if tl s3 \<noteq> [] \<and> hd (tl s3) = CHR ''+'' then int (digits_val (tl (tl s3)))
                else int (digits_val (tl s3)));
          x = ex - int (length fp);
          ds = digits_val (ip @ fp)
      in if 0 \<le> x then round_f64 (g \<noteq> []) (ds * 10 ^ nat x) 1
         else round_f64 (g \<noteq> []) ds (10 ^ nat (- x)))"

text \<open>
  \<^verbatim>\<open>typed == float64(int64(typed))\<close>: the double is an integer in the range of \<^verbatim>\<open>int64\<close>. (Out of
  range the conversion is implementation-defined; on amd64 it gives the least integer, which makes
  the test fail.)
\<close>

fun f64_int :: "f64 \<Rightarrow> int option" where
  "f64_int (F64 m e) =
     (if 0 \<le> e \<and> e < 64 \<and> in_int64 (m * 2 ^ nat e) then Some (m * 2 ^ nat e) else None)"

section \<open>Go values\<close>

text \<open>The dynamic types an \<^verbatim>\<open>any\<close> can hold here; \<open>GNumber\<close> is \<^verbatim>\<open>json.Number\<close>, \<open>GInt\<close> an \<^verbatim>\<open>int64\<close>.\<close>

datatype gval =
    GNil
  | GBool bool
  | GNumber string
  | GInt int
  | GFloat f64
  | GStr string
  | GArr "gval list"
  | GObj "(string \<times> gval) list"

fun all_some :: "'a option list \<Rightarrow> 'a list option" where
  "all_some [] = Some []"
| "all_some (None # xs) = None"
| "all_some (Some x # xs) = map_option (\<lambda>ys. x # ys) (all_some xs)"

text \<open>
  Decoding into \<^verbatim>\<open>any\<close>. With \<^verbatim>\<open>UseNumber\<close> a number keeps its text; without, it is a double and a
  number out of range is a decoding error. Later members overwrite earlier ones.
\<close>

fun to_any :: "bool \<Rightarrow> json \<Rightarrow> gval option" where
  "to_any un JNull = Some GNil"
| "to_any un (JBool b) = Some (GBool b)"
| "to_any un (JNum t) = (if un then Some (GNumber t) else map_option GFloat (parse_float t))"
| "to_any un (JStr s) = Some (GStr s)"
| "to_any un (JArr es) = map_option GArr (all_some (map (\<lambda>(t, v). to_any un v) es))"
| "to_any un (JObj ms) =
     map_option (\<lambda>vs. GObj (amap_of_list (zip (map fst ms) vs)))
       (all_some (map (\<lambda>(k, t, v). to_any un v) ms))"

section \<open>Unmarshal into typed targets\<close>

definition unmarshal_any :: "string \<Rightarrow> gval option" where
  "unmarshal_any s = Option.bind (json_parse s) (to_any False)"

text \<open>
  \<^verbatim>\<open>map[string]json.RawMessage\<close>: \<open>None\<close> for an error and for a nil map (the text \<^verbatim>\<open>null\<close>), which
  every caller treats alike.
\<close>

definition members_of :: "(string \<times> string \<times> json) list \<Rightarrow> (string \<times> string) list" where
  "members_of ms = amap_of_list (map (\<lambda>(k, t, v). (k, t)) ms)"

definition unmarshal_object :: "string \<Rightarrow> (string \<times> string) list option" where
  "unmarshal_object s = (case json_parse s of Some (JObj ms) \<Rightarrow> Some (members_of ms) | _ \<Rightarrow> None)"

text \<open>\<^verbatim>\<open>null\<close> leaves a scalar target at its zero value without an error.\<close>

definition unmarshal_string :: "string \<Rightarrow> string option" where
  "unmarshal_string s =
     (case json_parse s of Some (JStr t) \<Rightarrow> Some t | Some JNull \<Rightarrow> Some [] | _ \<Rightarrow> None)"

definition unmarshal_bool :: "string \<Rightarrow> bool option" where
  "unmarshal_bool s =
     (case json_parse s of Some (JBool b) \<Rightarrow> Some b | Some JNull \<Rightarrow> Some False | _ \<Rightarrow> None)"

definition unmarshal_int :: "string \<Rightarrow> int option" where
  "unmarshal_int s =
     (case json_parse s of Some (JNum t) \<Rightarrow> parse_int t | Some JNull \<Rightarrow> Some 0 | _ \<Rightarrow> None)"

definition unmarshal_float :: "string \<Rightarrow> f64 option" where
  "unmarshal_float s =
     (case json_parse s of Some (JNum t) \<Rightarrow> parse_float t | Some JNull \<Rightarrow> Some (F64 0 0) | _ \<Rightarrow> None)"

definition unmarshal_string_elem :: "string \<times> json \<Rightarrow> string option" where
  "unmarshal_string_elem e = (case snd e of JStr t \<Rightarrow> Some t | JNull \<Rightarrow> Some [] | _ \<Rightarrow> None)"

text \<open>\<^verbatim>\<open>[]string\<close>; \<^verbatim>\<open>null\<close> gives a nil slice.\<close>

definition unmarshal_strings :: "string \<Rightarrow> string list option" where
  "unmarshal_strings s =
     (case json_parse s of
        Some (JArr es) \<Rightarrow> all_some (map unmarshal_string_elem es)
      | Some JNull \<Rightarrow> Some []
      | _ \<Rightarrow> None)"

text \<open>\<^verbatim>\<open>[]json.RawMessage\<close>\<close>

definition unmarshal_array :: "string \<Rightarrow> string list option" where
  "unmarshal_array s =
     (case json_parse s of
        Some (JArr es) \<Rightarrow> Some (map fst es)
      | Some JNull \<Rightarrow> Some []
      | _ \<Rightarrow> None)"

definition raw_is_null :: "string \<Rightarrow> bool" where
  "raw_is_null raw \<longleftrightarrow> trim_space raw = ''null''"

text \<open>\<^verbatim>\<open>len(value) == 0 || bytes.Equal(bytes.TrimSpace(value), []byte("null"))\<close>\<close>

definition raw_absent :: "string option \<Rightarrow> bool" where
  "raw_absent r = (case r of None \<Rightarrow> True | Some raw \<Rightarrow> raw = [] \<or> raw_is_null raw)"

section \<open>Marshal\<close>

definition json_escape_rune :: "nat \<Rightarrow> string" where
  "json_escape_rune r =
     (if r = 34 \<or> r = 92 then [CHR 0x5C, chr r]
      else if r = 8 then [CHR 0x5C, CHR ''b''] else if r = 12 then [CHR 0x5C, CHR ''f'']
      else if r = 10 then [CHR 0x5C, CHR ''n''] else if r = 13 then [CHR 0x5C, CHR ''r'']
      else if r = 9 then [CHR 0x5C, CHR ''t'']
      else if r < 32 \<or> r = 60 \<or> r = 62 \<or> r = 38 \<or> r = 0x2028 \<or> r = 0x2029
      then [CHR 0x5C, CHR ''u''] @ hex_fixed 4 r
      else encode_rune r)"

function marshal_content :: "string \<Rightarrow> string" where
  "marshal_content [] = []"
| "marshal_content (c # s) =
     (if byte c < 0x80 then json_escape_rune (byte c) @ marshal_content s
      else if decode_rune (c # s) = (rune_error, 1)
      then [CHR 0x5C, CHR ''u''] @ hex_fixed 4 rune_error @ marshal_content s
      else json_escape_rune (fst (decode_rune (c # s)))
           @ marshal_content (drop (snd (decode_rune (c # s))) (c # s)))"
  by pat_completeness auto
termination
  by (relation "measure length") auto

definition marshal_string :: "string \<Rightarrow> string" where
  "marshal_string s = CHR 0x22 # marshal_content s @ [CHR 0x22]"

text \<open>
  \<^verbatim>\<open>json.Marshal\<close> of a \<open>gval\<close>: object keys in byte order. \<open>ff\<close> is the shortest decimal form Go
  prints for a double.
\<close>

fun marshal :: "(f64 \<Rightarrow> string) \<Rightarrow> gval \<Rightarrow> string" where
  "marshal ff GNil = ''null''"
| "marshal ff (GBool b) = (if b then ''true'' else ''false'')"
| "marshal ff (GNumber t) = t"
| "marshal ff (GInt i) = itoa i"
| "marshal ff (GFloat f) = ff f"
| "marshal ff (GStr s) = marshal_string s"
| "marshal ff (GArr vs) = ''['' @ join_with '','' (map (marshal ff) vs) @ '']''"
| "marshal ff (GObj ms) =
     ''{'' @ join_with '','' (map (\<lambda>(k, t). marshal_string k @ '':'' @ t)
               (sort_keys (map (\<lambda>(k, v). (k, marshal ff v)) ms))) @ ''}''"

end
