(* ===== verification/Json_Path.thy ===== *)
theory Json_Path
  imports Json_Value
begin

text \<open>
  \<^verbatim>\<open>internal/matcher/jsonpath.go\<close>: compilation of a JSONPath expression (path tokens and one optional
  filter), evaluation over a decoded document, and value comparison by normal form. A JSON object
  is a Go map; the order of a \<open>GObj\<close> list is one iteration order of it.
\<close>

section \<open>Compiled expressions\<close>

datatype path_token = TokenField string | TokenIndex int | TokenWildcard

record json_filter =
  flt_path :: "path_token list"
  flt_use_self :: bool
  flt_size_check :: bool
  flt_expected :: gval

record json_path =
  jp_expression :: string
  jp_path :: "path_token list"
  jp_filter :: "json_filter option"

section \<open>Parsing\<close>

definition split_filter :: "string \<Rightarrow> (string \<times> string) res" where
  "split_filter expression =
     (case str_index expression ''[?('' of
        None \<Rightarrow> Ok (expression, [])
      | Some start \<Rightarrow>
          if \<not> has_suffix expression '')]''
          then Err (''unsupported JSONPath filter syntax: '' @ expression)
          else Ok (take start expression,
                   drop (start + 3) (take (length expression - 2) expression)))"

definition not_field_end :: "char \<Rightarrow> bool" where
  "not_field_end c \<longleftrightarrow> c \<noteq> CHR ''.'' \<and> c \<noteq> CHR ''[''"

text \<open>The loop of \<^verbatim>\<open>parsePath\<close>; \<open>s\<close> is what is left of the expression from index \<open>i\<close> on.\<close>

function parse_path_loop :: "string \<Rightarrow> string \<Rightarrow> path_token list res" where
  "parse_path_loop expression [] = Ok []"
| "parse_path_loop expression (c # s) =
     (if c = CHR ''.'' then
        (if s \<noteq> [] \<and> hd s = CHR ''*'' then
           bind_res (parse_path_loop expression (tl s)) (\<lambda>ts. Ok (TokenWildcard # ts))
         else
           (let field = takeWhile not_field_end s in
            if field = [] then Err (''empty field in JSONPath: '' @ expression)
            else bind_res (parse_path_loop expression (dropWhile not_field_end s))
                   (\<lambda>ts. Ok (TokenField field # ts))))
      else if c = CHR ''['' then
        (if CHR '']'' \<notin> set s then Err (''unclosed index in JSONPath: '' @ expression)
         else
           (let idx = takeWhile (\<lambda>x. x \<noteq> CHR '']'') s in
            case parse_int (trim_space idx) of
              None \<Rightarrow> Err (''unsupported JSONPath index '' @ idx)
            | Some index \<Rightarrow>
                bind_res (parse_path_loop expression (tl (dropWhile (\<lambda>x. x \<noteq> CHR '']'') s)))
                  (\<lambda>ts. Ok (TokenIndex index # ts))))
      else Err (''unsupported JSONPath segment at '' @ (c # s) @ '' in '' @ expression))"
  by pat_completeness auto
termination
  by (relation "measure (\<lambda>(e, s). length s)")
    (auto simp: length_dropWhile_le less_Suc_eq_le intro: le_trans [OF diff_le_self length_dropWhile_le])

definition parse_path :: "string \<Rightarrow> path_token list res" where
  "parse_path expression =
     (if expression = ''$'' then Ok []
      else if \<not> has_prefix expression ''$'' then Err (''path must start with $: '' @ expression)
      else parse_path_loop expression (tl expression))"

text \<open>
  \<^verbatim>\<open>parseLiteral\<close>. The slice \<^verbatim>\<open>value[1 : len(value)-1]\<close> panics when the value is a single quote
  character, which has the quote both as prefix and as suffix.
\<close>

definition parse_literal :: "string \<Rightarrow> gval res" where
  "parse_literal value0 =
     (let value = trim_space value0; q = [CHR 0x27] in
      if has_prefix value q \<and> has_suffix value q then
        (if length value < 2 then Panic
         else Ok (GStr (take (length value - 2) (drop 1 value))))
      else
        (case Option.bind (decode_stream (replace_char value (CHR 0x27) [CHR 0x22]))
                (\<lambda>(v, r). to_any True v) of
           None \<Rightarrow> Err (''unsupported JSONPath literal '' @ value)
         | Some parsed \<Rightarrow> Ok parsed))"

definition parse_filter :: "string \<Rightarrow> json_filter res" where
  "parse_filter expression =
     (case str_cut expression ''=='' of (left0, right0, ok) \<Rightarrow>
      if \<not> ok then Err (''unsupported JSONPath filter condition: '' @ expression)
      else
        (let left1 = trim_space left0; right = trim_space right0 in
         if \<not> has_prefix left1 ''@'' then Err (''JSONPath filter must start with @: '' @ expression)
         else
           (let use_self = (left1 = ''@'');
                size_check = has_suffix left1 ''.size()'';
                left = (if size_check then trim_suffix left1 ''.size()'' else left1)
            in bind_res (if use_self then Ok [] else parse_path (''$'' @ trim_prefix left ''@''))
                 (\<lambda>path. bind_res (parse_literal right)
                   (\<lambda>expected. Ok \<lparr>flt_path = path, flt_use_self = use_self,
                                   flt_size_check = size_check, flt_expected = expected\<rparr>)))))"

definition compile_json_path :: "string \<Rightarrow> json_path res" where
  "compile_json_path expression0 =
     (let expression = trim_space expression0 in
      if expression = [] then Err ''JSONPath expression must not be empty''
      else if \<not> has_prefix expression ''$'' then Err ''JSONPath expression must start with $''
      else
        bind_res (split_filter expression) (\<lambda>(path_expression, filter_expression).
        bind_res (parse_path path_expression) (\<lambda>path.
        bind_res (if filter_expression \<noteq> []
                  then bind_res (parse_filter filter_expression) (\<lambda>f. Ok (Some f))
                  else Ok None) (\<lambda>parsed_filter.
        Ok \<lparr>jp_expression = expression, jp_path = path, jp_filter = parsed_filter\<rparr>))))"

section \<open>Evaluation\<close>

text \<open>One token applied to one node: the nodes it selects.\<close>

fun token_step :: "path_token \<Rightarrow> gval \<Rightarrow> gval list" where
  "token_step (TokenField f) (GObj ms) = (case map_of ms f of Some v \<Rightarrow> [v] | None \<Rightarrow> [])"
| "token_step (TokenIndex i) (GArr vs) = (if 0 \<le> i \<and> i < int (length vs) then [vs ! nat i] else [])"
| "token_step TokenWildcard (GArr vs) = vs"
| "token_step TokenWildcard (GObj ms) = map snd ms"
| "token_step _ _ = []"

fun eval_path :: "gval list \<Rightarrow> path_token list \<Rightarrow> gval list" where
  "eval_path nodes [] = nodes"
| "eval_path nodes (t # ts) =
     (let next = concat (map (token_step t) nodes) in
      if next = [] then [] else eval_path next ts)"

fun first_path_value :: "gval \<Rightarrow> path_token list \<Rightarrow> gval option" where
  "first_path_value current [] = Some current"
| "first_path_value current (TokenField f # ts) =
     (case current of
        GObj ms \<Rightarrow> (case map_of ms f of None \<Rightarrow> None | Some v \<Rightarrow> first_path_value v ts)
      | _ \<Rightarrow> None)"
| "first_path_value current (TokenIndex i # ts) =
     (case current of
        GArr vs \<Rightarrow> if i < 0 \<or> int (length vs) \<le> i then None else first_path_value (vs ! nat i) ts
      | _ \<Rightarrow> None)"
| "first_path_value current (TokenWildcard # ts) =
     (case current of
        GArr vs \<Rightarrow> (case vs of [] \<Rightarrow> None | v # _ \<Rightarrow> first_path_value v ts)
      | GObj ms \<Rightarrow> (case ms of [] \<Rightarrow> None | m # _ \<Rightarrow> first_path_value (snd m) ts)
      | _ \<Rightarrow> None)"

definition filter_candidates :: "gval \<Rightarrow> gval list" where
  "filter_candidates node = (case node of GArr vs \<Rightarrow> vs | _ \<Rightarrow> [node])"

definition value_size :: "gval \<Rightarrow> nat option" where
  "value_size v =
     (case v of
        GArr vs \<Rightarrow> Some (length vs)
      | GObj ms \<Rightarrow> Some (length ms)
      | GStr s \<Rightarrow> Some (length s)
      | _ \<Rightarrow> None)"

definition normalize_number :: "string \<Rightarrow> gval" where
  "normalize_number t =
     (case (if contains_any t ''.eE'' then parse_float t else None) of
        Some f \<Rightarrow> GFloat f
      | None \<Rightarrow> (case parse_int t of Some i \<Rightarrow> GInt i | None \<Rightarrow> GStr t))"

fun normalize_value :: "gval \<Rightarrow> gval" where
  "normalize_value (GNumber t) = normalize_number t"
| "normalize_value (GFloat f) = (case f64_int f of Some i \<Rightarrow> GInt i | None \<Rightarrow> GFloat f)"
| "normalize_value (GArr vs) = GArr (map normalize_value vs)"
| "normalize_value (GObj ms) = GObj (sort_keys (map (\<lambda>(k, v). (k, normalize_value v)) ms))"
| "normalize_value v = v"

definition compare_values :: "gval \<Rightarrow> gval \<Rightarrow> bool" where
  "compare_values l r \<longleftrightarrow> normalize_value l = normalize_value r"

definition filter_matches :: "json_filter \<Rightarrow> gval \<Rightarrow> bool" where
  "filter_matches f candidate =
     (case (if flt_use_self f then [candidate] else eval_path [candidate] (flt_path f)) of
        [] \<Rightarrow> False
      | v # _ \<Rightarrow>
          if flt_size_check f then
            (case value_size v of
               None \<Rightarrow> False
             | Some n \<Rightarrow> compare_values (GNumber (itoa (int n))) (flt_expected f))
          else compare_values v (flt_expected f))"

definition path_exists :: "json_path \<Rightarrow> gval \<Rightarrow> bool" where
  "path_exists p root =
     (let nodes = eval_path [root] (jp_path p) in
      case jp_filter p of
        None \<Rightarrow> nodes \<noteq> []
      | Some f \<Rightarrow> list_ex (\<lambda>node. list_ex (filter_matches f) (filter_candidates node)) nodes)"

definition path_values :: "json_path \<Rightarrow> gval \<Rightarrow> gval list" where
  "path_values p root =
     (let nodes = eval_path [root] (jp_path p) in
      case jp_filter p of
        None \<Rightarrow> nodes
      | Some f \<Rightarrow> concat (map (\<lambda>node. filter (filter_matches f) (filter_candidates node)) nodes))"

definition first_value :: "json_path \<Rightarrow> gval \<Rightarrow> gval option" where
  "first_value p root =
     (case jp_filter p of
        Some f \<Rightarrow> (case path_values p root of [] \<Rightarrow> None | v # _ \<Rightarrow> Some v)
      | None \<Rightarrow> first_path_value root (jp_path p))"

text \<open>\<^verbatim>\<open>ParseJSON\<close> reads the first value of the text and ignores what follows it.\<close>

definition parse_json_any :: "string \<Rightarrow> gval option" where
  "parse_json_any data = Option.bind (decode_stream data) (\<lambda>(v, r). to_any True v)"

end
