(* ===== verification/Json_Path_Facts.thy ===== *)
theory Json_Path_Facts
  imports Json_Path
begin

text \<open>
  Properties of JSONPath: when compilation panics, how \<^verbatim>\<open>Exists\<close>, \<^verbatim>\<open>Values\<close> and \<^verbatim>\<open>FirstValue\<close> relate,
  and independence of the iteration order of Go maps.
\<close>

section \<open>Compilation\<close>

lemma parse_path_loop_no_panic [simp]: "parse_path_loop e s \<noteq> Panic"
  by (induction e s rule: parse_path_loop.induct)
    (auto simp: res_simps Let_def split: option.split)

lemma parse_path_no_panic [simp]: "parse_path e \<noteq> Panic"
  by (simp add: parse_path_def)

lemma split_filter_no_panic [simp]: "split_filter e \<noteq> Panic"
  by (simp add: split_filter_def split: option.split)

lemma quote_both_ends:
  "has_prefix v [c] \<and> has_suffix v [c] \<and> length v < 2 \<longleftrightarrow> v = [c]"
  by (cases v) (auto simp: has_prefix_def has_suffix_def)

lemma parse_literal_panic_iff: "parse_literal v = Panic \<longleftrightarrow> trim_space v = [CHR 0x27]"
  using quote_both_ends [of "trim_space v" "CHR 0x27"]
  by (auto simp: parse_literal_def Let_def split: option.splits)

text \<open>The literal of a filter: the trimmed text right of the first \<^verbatim>\<open>==\<close>.\<close>

definition filter_literal :: "string \<Rightarrow> string" where
  "filter_literal expression = trim_space (fst (snd (str_cut expression ''=='')))"

lemma trim_left_by_idem: "trim_left_by es (trim_left_by es s) = trim_left_by es s"
proof (induction es s rule: trim_left_by.induct)
  case (1 es s)
  show ?case
  proof (cases "find (\<lambda>e. e \<noteq> [] \<and> prefix e s) es")
    case None
    then have "trim_left_by es s = s" by (subst trim_left_by.simps) simp
    then show ?thesis by simp
  next
    case (Some e)
    then have "trim_left_by es s = trim_left_by es (drop (length e) s)"
      by (subst trim_left_by.simps) simp
    with 1 [OF Some] show ?thesis by simp
  qed
qed

lemma parse_filter_panic:
  assumes "parse_filter e = Panic"
  shows "parse_literal (filter_literal e) = Panic"
proof -
  obtain l r ok where cut: "str_cut e ''=='' = (l, r, ok)" by (cases "str_cut e ''==''") auto
  with assms show ?thesis
    by (auto simp: parse_filter_def filter_literal_def res_simps Let_def
        split: if_splits)
qed

lemma trim_left_by_fixed_prefix:
  assumes "trim_left_by es u = u" and "prefix t u"
  shows "trim_left_by es t = t"
proof (cases "find (\<lambda>e. e \<noteq> [] \<and> prefix e t) es")
  case None
  then show ?thesis by (subst trim_left_by.simps) simp
next
  case (Some e)
  then have "e \<in> set es" "e \<noteq> []" "prefix e u" using assms(2) by (auto dest: find_Some_in)
  then obtain e' where e': "find (\<lambda>e. e \<noteq> [] \<and> prefix e u) es = Some e'" "e' \<noteq> []" "prefix e' u"
    by (cases "find (\<lambda>e. e \<noteq> [] \<and> prefix e u) es") (auto simp: find_None_iff dest: find_Some_in)
  have "length (trim_left_by es u) \<le> length (drop (length e') u)"
    using length_trim_left_by [of es "drop (length e') u"]
    by (subst trim_left_by.simps) (simp add: e'(1))
  with e'(2,3) assms(1) show ?thesis by (auto simp: prefix_def)
qed

lemma trim_space_idem [simp]: "trim_space (trim_space s) = trim_space s"
proof -
  let ?u = "trim_left_by space_encodings s"
  obtain p where "rev ?u = p @ rev (trim_space s)"
    using trim_left_by_suffix [of "rev ?u"] by (metis rev_rev_ident trim_space_def)
  then have "prefix (trim_space s) ?u" by (metis prefix_def rev_append rev_rev_ident)
  then have "trim_left_by space_encodings (trim_space s) = trim_space s"
    by (rule trim_left_by_fixed_prefix [OF trim_left_by_idem])
  then show ?thesis
    by (metis rev_rev_ident trim_left_by_idem trim_space_def)
qed

lemma parse_filter_panic_literal: "parse_filter e = Panic \<Longrightarrow> filter_literal e = [CHR 0x27]"
  using parse_filter_panic parse_literal_panic_iff by (simp add: filter_literal_def)

lemma compile_json_path_panicD:
  assumes "compile_json_path e = Panic"
  obtains pe fe where "split_filter (trim_space e) = Ok (pe, fe)" and "filter_literal fe = [CHR 0x27]"
  using assms
  by (auto simp: compile_json_path_def res_simps Let_def split: if_splits dest: parse_filter_panic_literal)

section \<open>Evaluation\<close>

lemma path_exists_iff_values: "path_exists p root \<longleftrightarrow> path_values p root \<noteq> []"
  by (auto simp: path_exists_def path_values_def Let_def list_ex_iff filter_empty_conv split: option.split)

lemma eval_path_Nil [simp]: "eval_path [] ts = []"
  by (cases ts) auto

lemma eval_path_single:
  "TokenWildcard \<notin> set ts \<Longrightarrow>
   eval_path [v] ts = (case first_path_value v ts of None \<Rightarrow> [] | Some w \<Rightarrow> [w])"
proof (induction ts arbitrary: v)
  case (Cons t ts)
  show ?case
  proof (cases t)
    case (TokenField f)
    with Cons show ?thesis
      by (cases v) (auto split: option.splits)
  next
    case (TokenIndex i)
    with Cons show ?thesis
      by (cases v) (auto split: option.splits)
  qed (use Cons.prems in simp)
qed simp

lemma first_value_eq_hd_values:
  assumes "TokenWildcard \<notin> set (jp_path p)"
  shows "first_value p root = (case path_values p root of [] \<Rightarrow> None | v # _ \<Rightarrow> Some v)"
  using eval_path_single [OF assms, of root]
  by (auto simp: first_value_def path_values_def Let_def split: option.splits list.splits)

section \<open>Iteration order of maps\<close>

text \<open>A decoded object has distinct keys.\<close>

fun wf_gval :: "gval \<Rightarrow> bool" where
  "wf_gval (GArr vs) = list_all wf_gval vs"
| "wf_gval (GObj ms) = (distinct_keys ms \<and> list_all (\<lambda>(k, v). wf_gval v) ms)"
| "wf_gval v = True"

text \<open>Two values are the same Go value when they agree up to the order of their maps.\<close>

fun canon :: "gval \<Rightarrow> gval" where
  "canon (GArr vs) = GArr (map canon vs)"
| "canon (GObj ms) = GObj (sort_keys (map (\<lambda>(k, v). (k, canon v)) ms))"
| "canon v = v"

definition same_value :: "gval \<Rightarrow> gval \<Rightarrow> bool" where
  "same_value v w \<longleftrightarrow> wf_gval v \<and> wf_gval w \<and> canon v = canon w"

lemma all_some_Some: "all_some xs = Some ys \<longleftrightarrow> map Some ys = xs"
  by (induction xs arbitrary: ys rule: all_some.induct) auto

lemma all_some_map_in:
  assumes "all_some (map g xs) = Some ys" and "y \<in> set ys"
  obtains x where "x \<in> set xs" and "g x = Some y"
proof -
  from assms have "Some y \<in> set (map g xs)" by (metis all_some_Some image_eqI list.set_map)
  then show thesis using that by auto
qed

lemma wf_to_any: "to_any un j = Some v \<Longrightarrow> wf_gval v"
proof (induction un j arbitrary: v rule: to_any.induct)
  case (5 un es)
  from "5.prems" obtain vs where vs: "all_some (map (\<lambda>(t, v). to_any un v) es) = Some vs"
    and v: "v = GArr vs" by auto
  have "wf_gval w" if "w \<in> set vs" for w
    using all_some_map_in [OF vs that] "5.IH" by (metis case_prod_conv surj_pair)
  then show ?case by (simp add: v list_all_iff)
next
  case (6 un ms)
  from "6.prems" obtain vs where vs: "all_some (map (\<lambda>(k, t, v). to_any un v) ms) = Some vs"
    and v: "v = GObj (amap_of_list (zip (map fst ms) vs))" by auto
  have "wf_gval w" if "w \<in> set vs" for w
  proof (rule all_some_map_in [OF vs that])
    fix x assume x: "x \<in> set ms" "(\<lambda>(k, t, v). to_any un v) x = Some w"
    obtain k t j where "x = (k, t, j)" by (cases x) auto
    with x "6.IH" show ?thesis by (metis (no_types, lifting) case_prod_conv)
  qed
  then show ?case
    using set_amap_of_list_subset [of "zip (map fst ms) vs"]
    by (auto simp: v list_all_iff dest!: subsetD set_zip_rightD)
qed (auto split: if_splits)

lemma sort_keys_map_snd: "map fst (sort_keys (map (\<lambda>(k, v). (k, f v)) ms)) = map fst (sort_keys ms)"
  and sort_keys_map: "sort_keys (map (\<lambda>(k, v). (k, f v)) ms) = map (\<lambda>(k, v). (k, f v)) (sort_keys ms)"
proof -
  show "sort_keys (map (\<lambda>(k, v). (k, f v)) ms) = map (\<lambda>(k, v). (k, f v)) (sort_keys ms)"
    unfolding sort_keys_def
  proof (induction ms)
    case (Cons m ms)
    have "insort_key fst (k, f v) (map (\<lambda>(k, v). (k, f v)) xs) = map (\<lambda>(k, v). (k, f v)) (insort_key fst (k, v) xs)"
      for k v xs by (induction xs) auto
    with Cons show ?case by (cases m) simp
  qed simp
  then show "map fst (sort_keys (map (\<lambda>(k, v). (k, f v)) ms)) = map fst (sort_keys ms)"
    by (simp add: comp_def case_prod_unfold)
qed

lemma sort_keys_idem [simp]: "sort_keys (sort_keys m) = sort_keys m"
  by (simp add: sort_keys_def sort_key_id_if_sorted)

lemma map_of_sort_keys:
  assumes "distinct_keys ms" shows "map_of (sort_keys ms) = map_of ms"
proof -
  have "distinct_keys (sort_keys ms)"
    by (metis assms mset_eq_imp_distinct_iff mset_map mset_sort_keys)
  with assms show ?thesis by (metis map_of_inject_set set_sort_keys)
qed

lemma map_fst_map_snd [simp]: "map fst (map (\<lambda>(k, v). (k, f v)) ms) = map fst ms"
  by (induction ms) auto

lemma map_of_canon:
  "distinct_keys ms \<Longrightarrow>
   map_of (sort_keys (map (\<lambda>(k, v). (k, canon v)) ms)) f = map_option canon (map_of ms f)"
  by (simp only: map_of_sort_keys map_fst_map_snd map_of_map comp_apply)

lemma normalize_canon [simp]: "normalize_value (canon v) = normalize_value v"
proof (induction v rule: canon.induct)
  case (2 ms)
  then have "map (\<lambda>(k, v). (k, normalize_value v)) (map (\<lambda>(k, v). (k, canon v)) (sort_keys ms))
      = map (\<lambda>(k, v). (k, normalize_value v)) (sort_keys ms)"
    by (auto intro!: map_cong)
  then show ?case
    by (simp only: canon.simps normalize_value.simps sort_keys_map sort_keys_idem)
qed (auto simp: comp_def cong: map_cong)

lemma token_step_canon:
  assumes "wf_gval v"
  shows "mset (token_step t (canon v)) = mset (map canon (token_step t v))"
proof (cases "(t, v)" rule: token_step.cases)
  case (1 f ms)
  with assms show ?thesis by (simp add: map_of_canon del: map_map split: option.split)
next
  case (4 ms)
  have "mset (map snd (sort_keys (map (\<lambda>(k, v). (k, canon v)) ms))) = mset (map snd (map (\<lambda>(k, v). (k, canon v)) ms))"
    by (metis mset_map mset_sort_keys)
  with 4 show ?thesis by (simp add: comp_def case_prod_unfold)
qed auto

lemma token_step_canon_exact:
  "wf_gval v \<Longrightarrow> t \<noteq> TokenWildcard \<Longrightarrow> token_step t (canon v) = map canon (token_step t v)"
  by (cases "(t, v)" rule: token_step.cases) (auto simp: map_of_canon simp del: map_map split: option.split)

lemma wf_token_step: "wf_gval v \<Longrightarrow> w \<in> set (token_step t v) \<Longrightarrow> wf_gval w"
  by (cases "(t, v)" rule: token_step.cases)
    (auto simp: list_all_iff split: option.splits if_splits dest!: map_of_SomeD)

lemma eval_path_step: "eval_path ns (t # ts) = eval_path (concat (map (token_step t) ns)) ts"
  by (cases "concat (map (token_step t) ns) = []") (simp_all add: Let_def del: concat_eq_Nil_conv)

declare eval_path.simps(2) [simp del]

lemma wf_eval_path: "list_all wf_gval ns \<Longrightarrow> list_all wf_gval (eval_path ns ts)"
proof (induction ts arbitrary: ns)
  case (Cons t ts)
  have "list_all wf_gval (concat (map (token_step t) ns))"
    using Cons.prems by (auto simp: list_all_iff dest: wf_token_step)
  then show ?case unfolding eval_path_step by (rule Cons.IH)
qed simp

lemma mset_concat_map: "mset (concat (map f ns)) = (\<Sum>x \<in># mset ns. mset (f x))"
  by (induction ns) auto

lemma eval_path_mset:
  "mset ns = mset ns' \<Longrightarrow> mset (eval_path ns ts) = mset (eval_path ns' ts)"
proof (induction ts arbitrary: ns ns')
  case (Cons t ts)
  then have "mset (concat (map (token_step t) ns)) = mset (concat (map (token_step t) ns'))"
    by (simp only: mset_concat_map)
  then show ?case unfolding eval_path_step by (rule Cons.IH)
qed simp

lemma eval_path_canon:
  "list_all wf_gval ns \<Longrightarrow> mset (eval_path (map canon ns) ts) = mset (map canon (eval_path ns ts))"
proof (induction ts arbitrary: ns)
  case (Cons t ts)
  have "mset (concat (map (token_step t) (map canon ns))) = mset (map canon (concat (map (token_step t) ns)))"
    using Cons.prems by (induction ns) (auto simp: token_step_canon simp flip: mset_map)
  then have "mset (eval_path (map canon ns) (t # ts)) = mset (eval_path (map canon (concat (map (token_step t) ns))) ts)"
    unfolding eval_path_step by (rule eval_path_mset)
  also have "\<dots> = mset (map canon (eval_path (concat (map (token_step t) ns)) ts))"
    using Cons.prems by (intro Cons.IH) (auto simp: list_all_iff dest: wf_token_step)
  finally show ?case unfolding eval_path_step .
qed simp

lemma eval_path_canon_exact:
  "list_all wf_gval ns \<Longrightarrow> TokenWildcard \<notin> set ts \<Longrightarrow>
   eval_path (map canon ns) ts = map canon (eval_path ns ts)"
proof (induction ts arbitrary: ns)
  case (Cons t ts)
  have "concat (map (token_step t) (map canon ns)) = map canon (concat (map (token_step t) ns))"
    using Cons.prems by (induction ns) (auto simp: token_step_canon_exact)
  moreover have "list_all wf_gval (concat (map (token_step t) ns))"
    using Cons.prems by (auto simp: list_all_iff dest: wf_token_step)
  ultimately show ?case using Cons.IH Cons.prems(2) unfolding eval_path_step by simp
qed simp

text \<open>The filter of an expression looks at one node only when its own path has no wildcard.\<close>

definition filter_deterministic :: "json_path \<Rightarrow> bool" where
  "filter_deterministic p =
     (case jp_filter p of None \<Rightarrow> True | Some f \<Rightarrow> flt_use_self f \<or> TokenWildcard \<notin> set (flt_path f))"

lemma value_size_canon [simp]: "value_size (canon v) = value_size v"
  by (cases v) (auto simp: value_size_def)

lemma compare_values_canon [simp]: "compare_values (canon v) e = compare_values v e"
  by (simp add: compare_values_def)

lemma filter_matches_canon:
  assumes "wf_gval v" and "flt_use_self f \<or> TokenWildcard \<notin> set (flt_path f)"
  shows "filter_matches f (canon v) = filter_matches f v"
proof -
  have "eval_path [canon v] (flt_path f) = map canon (eval_path [v] (flt_path f))"
    if "\<not> flt_use_self f"
    using eval_path_canon_exact [of "[v]"] assms that by simp
  then show ?thesis
    by (auto simp: filter_matches_def split: list.split option.split)
qed

lemma filter_candidates_canon: "filter_candidates (canon v) = map canon (filter_candidates v)"
  by (cases v) (auto simp: filter_candidates_def)

lemma path_exists_canon:
  assumes wf: "wf_gval v" and det: "filter_deterministic p"
  shows "path_exists p (canon v) = path_exists p v"
proof -
  let ?ns = "eval_path [v] (jp_path p)"
  have m: "mset (eval_path [canon v] (jp_path p)) = mset (map canon ?ns)"
    using eval_path_canon [of "[v]"] wf by simp
  then have s: "set (eval_path [canon v] (jp_path p)) = canon ` set ?ns"
    by (metis list.set_map set_mset_mset)
  have wfn: "wf_gval n" if "n \<in> set ?ns" for n
    using wf_eval_path [of "[v]"] wf that by (simp add: list_all_iff)
  show ?thesis
  proof (cases "jp_filter p")
    case None
    with m show ?thesis by (auto simp: path_exists_def)
  next
    case (Some f)
    have "wf_gval c" if "n \<in> set ?ns" "c \<in> set (filter_candidates n)" for n c
      using wfn [OF that(1)] that(2) by (cases n) (auto simp: filter_candidates_def list_all_iff)
    with Some det show ?thesis
      by (auto simp: path_exists_def list_ex_iff s filter_candidates_canon filter_deterministic_def
          filter_matches_canon)
  qed
qed

lemma path_exists_same_value:
  "same_value v w \<Longrightarrow> filter_deterministic p \<Longrightarrow> path_exists p v = path_exists p w"
  by (metis path_exists_canon same_value_def)

end
