(* ===== verification/Request_Matcher.thy ===== *)
theory Request_Matcher
  imports Json_Path_Facts
begin

text \<open>
  \<^verbatim>\<open>internal/matcher/request.go\<close>: body patterns, query and header matchers. \<open>golib\<close> collects what the
  model takes from outside the source: the RE2 engine (does a pattern compile, leftmost match
  bounds), the Unicode table behind \<^verbatim>\<open>strconv.IsPrint\<close> and the decimal form of a double.
\<close>

record golib =
  re_compiles :: "string \<Rightarrow> bool"
  re_find :: "string \<Rightarrow> string \<Rightarrow> (nat \<times> nat) option"
  is_print :: "nat \<Rightarrow> bool"
  fmt_float :: "f64 \<Rightarrow> string"

text \<open>
  \<^verbatim>\<open>*BodyContext\<close>: \<open>None\<close> is the nil pointer, \<open>Some raw\<close> a context on these bytes. The memo of the
  parsed body (\<^verbatim>\<open>parsed\<close>, \<^verbatim>\<open>parsedErr\<close>, \<^verbatim>\<open>parsedOnce\<close>) caches a pure function of \<^verbatim>\<open>raw\<close>.
\<close>

type_synonym body_context = "string option"

record body_pattern =
  bp_json_path :: "json_path option"
  bp_absent :: bool
  bp_equal_to_json :: "string option"

text \<open>A map from parameter or header name to the expected value (\<^verbatim>\<open>map[string]EqualTo\<close>).\<close>

type_synonym equal_to_map = "(string \<times> string) list"

definition new_body_context :: "string \<Rightarrow> body_context" where
  "new_body_context raw = Some raw"

definition body_raw :: "body_context \<Rightarrow> string" where
  "body_raw c = (case c of None \<Rightarrow> [] | Some raw \<Rightarrow> raw)"

definition body_parsed :: "body_context \<Rightarrow> gval option" where
  "body_parsed c = (case c of None \<Rightarrow> None | Some raw \<Rightarrow> parse_json_any raw)"

section \<open>Parsing the matchers\<close>

text \<open>A JSON string is replaced by the document it contains before normalisation.\<close>

definition normalize_raw_json :: "golib \<Rightarrow> string \<Rightarrow> string option" where
  "normalize_raw_json L raw =
     (let raw' = (case unmarshal_string raw of Some s \<Rightarrow> s | None \<Rightarrow> raw) in
      map_option (\<lambda>v. marshal (fmt_float L) (normalize_value v)) (unmarshal_any raw'))"

text \<open>
  Decoding into \<^verbatim>\<open>struct { Expression string; Absent bool }\<close>: keys are matched without regard to
  case, unknown keys are skipped, \<^verbatim>\<open>null\<close> leaves a field as it is.
\<close>

fun expression_field :: "(string \<times> bool) option \<Rightarrow> string \<times> string \<times> json \<Rightarrow> (string \<times> bool) option" where
  "expression_field None m = None"
| "expression_field (Some (e, a)) (k, t, v) =
     (if equal_fold k ''expression'' then
        (case v of JStr s \<Rightarrow> Some (s, a) | JNull \<Rightarrow> Some (e, a) | _ \<Rightarrow> None)
      else if equal_fold k ''absent'' then
        (case v of JBool b \<Rightarrow> Some (e, b) | JNull \<Rightarrow> Some (e, a) | _ \<Rightarrow> None)
      else Some (e, a))"

definition unmarshal_expression :: "string \<Rightarrow> (string \<times> bool) option" where
  "unmarshal_expression raw =
     (case json_parse raw of
        Some (JObj ms) \<Rightarrow> foldl expression_field (Some ([], False)) ms
      | Some JNull \<Rightarrow> Some ([], False)
      | _ \<Rightarrow> None)"

definition parse_matches_json_path :: "string \<Rightarrow> (string \<times> bool) res" where
  "parse_matches_json_path raw =
     (case unmarshal_string raw of
        Some expression \<Rightarrow> Ok (expression, False)
      | None \<Rightarrow>
          (case unmarshal_expression raw of
             None \<Rightarrow> Err ''matchesJsonPath must be a string or object''
           | Some (expression, absent) \<Rightarrow>
               if expression = [] then Err ''matchesJsonPath.expression must not be empty''
               else Ok (expression, absent)))"

definition parse_body_pattern :: "golib \<Rightarrow> string \<Rightarrow> body_pattern res" where
  "parse_body_pattern L raw =
     (case unmarshal_object raw of
        None \<Rightarrow> Err ''bodyPatterns entry must be a JSON object''
      | Some obj \<Rightarrow>
          (case map_of obj ''matchesJsonPath'' of
             Some raw_json_path \<Rightarrow>
               bind_res (parse_matches_json_path raw_json_path) (\<lambda>(expression, absent).
               bind_res (compile_json_path expression) (\<lambda>compiled.
               Ok \<lparr>bp_json_path = Some compiled, bp_absent = absent, bp_equal_to_json = None\<rparr>))
           | None \<Rightarrow>
               (case map_of obj ''equalToJson'' of
                  Some raw_equal_to_json \<Rightarrow>
                    (case normalize_raw_json L raw_equal_to_json of
                       None \<Rightarrow> Err ''equalToJson must contain valid JSON''
                     | Some expected \<Rightarrow>
                         Ok \<lparr>bp_json_path = None, bp_absent = False, bp_equal_to_json = Some expected\<rparr>)
                | None \<Rightarrow> Err ''unsupported bodyPatterns entry'')))"

definition parse_equal_to_entry :: "string \<Rightarrow> string \<times> string \<Rightarrow> (string \<times> string) res" where
  "parse_equal_to_entry field entry =
     (case entry of (name, raw_matcher) \<Rightarrow>
      case unmarshal_object raw_matcher of
        None \<Rightarrow> Err (field @ ''.'' @ name @ '' must be a JSON object'')
      | Some matcher_object \<Rightarrow>
          (case map_of matcher_object ''equalTo'' of
             None \<Rightarrow> Err (field @ ''.'' @ name @ '' must contain equalTo'')
           | Some raw_equal_to \<Rightarrow>
               (case unmarshal_string raw_equal_to of
                  None \<Rightarrow> Err (field @ ''.'' @ name @ ''.equalTo must be a string'')
                | Some expected \<Rightarrow> Ok (name, expected))))"

text \<open>The argument is the looked-up field: \<open>None\<close> where the key is missing (an empty RawMessage).\<close>

definition parse_equal_to_map :: "string option \<Rightarrow> string \<Rightarrow> equal_to_map res" where
  "parse_equal_to_map raw field =
     (if raw_absent raw then Ok []
      else
        (case unmarshal_object (the raw) of
           None \<Rightarrow> Err (field @ '' must be a JSON object'')
         | Some obj \<Rightarrow> map_res (parse_equal_to_entry field) obj))"

section \<open>Matching\<close>

definition pattern_matches :: "golib \<Rightarrow> body_pattern \<Rightarrow> body_context \<Rightarrow> bool" where
  "pattern_matches L p body =
     (case bp_json_path p of
        Some path \<Rightarrow>
          (case body_parsed body of
             None \<Rightarrow> False
           | Some parsed_body \<Rightarrow>
               (let exists = path_exists path parsed_body in if bp_absent p then \<not> exists else exists))
      | None \<Rightarrow>
          (case bp_equal_to_json p of
             Some expected \<Rightarrow> normalize_raw_json L (body_raw body) = Some expected
           | None \<Rightarrow> True))"

fun match_body_patterns_with_context :: "golib \<Rightarrow> body_pattern list \<Rightarrow> body_context \<Rightarrow> bool" where
  "match_body_patterns_with_context L [] body = True"
| "match_body_patterns_with_context L (p # ps) body =
     (if \<not> pattern_matches L p body then False else match_body_patterns_with_context L ps body)"

definition match_body_patterns :: "golib \<Rightarrow> body_pattern list \<Rightarrow> string \<Rightarrow> bool" where
  "match_body_patterns L patterns body =
     match_body_patterns_with_context L patterns (new_body_context body)"

text \<open>\<^verbatim>\<open>contains(values, expected)\<close>\<close>

fun contains_value :: "string list \<Rightarrow> string \<Rightarrow> bool" where
  "contains_value [] expected = False"
| "contains_value (v # vs) expected = (if v = expected then True else contains_value vs expected)"

type_synonym header_map = "(string \<times> string list) list"

fun match_query :: "equal_to_map \<Rightarrow> header_map \<Rightarrow> bool" where
  "match_query [] query = True"
| "match_query ((name, expected) # ps) query =
     (case map_of query name of
        None \<Rightarrow> False
      | Some values \<Rightarrow> if \<not> contains_value values expected then False else match_query ps query)"

text \<open>\<^verbatim>\<open>http.CanonicalHeaderKey\<close>: a name with a byte that is no token byte is left alone.\<close>

definition token_byte :: "char \<Rightarrow> bool" where
  "token_byte c \<longleftrightarrow> is_digit c \<or> is_lower c \<or> is_upper c \<or> c \<in> set ''!#$%&*+-.^_`|~'' \<or> c = CHR 0x27"

fun canonical_loop :: "bool \<Rightarrow> string \<Rightarrow> string" where
  "canonical_loop upper [] = []"
| "canonical_loop upper (c # cs) =
     (if upper then to_upper_char c else to_lower_char c) # canonical_loop (c = CHR ''-'') cs"

definition canonical_header_key :: "string \<Rightarrow> string" where
  "canonical_header_key s = (if list_all token_byte s then canonical_loop True s else s)"

fun match_headers :: "equal_to_map \<Rightarrow> header_map \<Rightarrow> bool" where
  "match_headers [] headers = True"
| "match_headers ((name, expected) # ps) headers =
     (case (case map_of headers (canonical_header_key name) of
              Some vs \<Rightarrow> Some vs | None \<Rightarrow> map_of headers name) of
        None \<Rightarrow> False
      | Some values \<Rightarrow> if \<not> contains_value values expected then False else match_headers ps headers)"

section \<open>Facts\<close>

lemma contains_value_iff [simp]: "contains_value vs e \<longleftrightarrow> e \<in> set vs"
  by (induction vs) auto

lemma match_body_patterns_iff:
  "match_body_patterns_with_context L ps body \<longleftrightarrow> (\<forall>p \<in> set ps. pattern_matches L p body)"
  by (induction ps) auto

lemma match_query_iff:
  "match_query ps query \<longleftrightarrow>
   (\<forall>(name, expected) \<in> set ps. \<exists>values. map_of query name = Some values \<and> expected \<in> set values)"
  by (induction ps query rule: match_query.induct) (auto split: option.splits)

definition header_lookup :: "header_map \<Rightarrow> string \<Rightarrow> string list option" where
  "header_lookup headers name =
     (case map_of headers (canonical_header_key name) of Some vs \<Rightarrow> Some vs | None \<Rightarrow> map_of headers name)"

lemma match_headers_iff:
  "match_headers ps headers \<longleftrightarrow>
   (\<forall>(name, expected) \<in> set ps. \<exists>values. header_lookup headers name = Some values \<and> expected \<in> set values)"
  by (induction ps headers rule: match_headers.induct)
    (auto simp: header_lookup_def split: option.splits)

lemma token_byte_lower [simp]: "token_byte (to_lower_char c) = token_byte c"
proof (cases "is_upper c")
  case True
  then have "is_lower (to_lower_char c)" by (auto simp: byte_case)
  with True show ?thesis by (simp add: token_byte_def)
qed (simp add: to_lower_char_def)

lemma dash_lower [simp]: "to_lower_char c = CHR ''-'' \<longleftrightarrow> c = CHR ''-''"
  unfolding char_eq_byte by (auto simp: byte_case)

lemma canonical_loop_lower [simp]: "canonical_loop u (to_lower s) = canonical_loop u s"
  by (induction s arbitrary: u) (simp_all add: to_lower_def)

lemma list_all_token_byte_lower [simp]: "list_all token_byte (to_lower s) = list_all token_byte s"
  by (simp add: to_lower_def list_all_iff)

text \<open>Valid header names that differ in case only have the same canonical form.\<close>

lemma canonical_header_key_fold:
  assumes "list_all token_byte s" and "equal_fold s t"
  shows "canonical_header_key s = canonical_header_key t"
proof -
  have eq: "to_lower s = to_lower t" using assms(2) by (simp add: equal_fold_def)
  then have "list_all token_byte t" using assms(1) by (metis list_all_token_byte_lower)
  moreover have "canonical_loop True s = canonical_loop True t" by (metis eq canonical_loop_lower)
  ultimately show ?thesis using assms(1) by (simp add: canonical_header_key_def)
qed

end
