(* ===== verification/GraphQL_Tokens.thy ===== *)
theory GraphQL_Tokens
  imports Request_Matcher
begin

text \<open>
  The GraphQL tokenizer of \<^verbatim>\<open>internal/matcher/graphql.go\<close>. It looks at the query byte by byte
  (\<^verbatim>\<open>rune(query[i])\<close>), so the Unicode classes it asks for are those of the runes up to U+00FF.
\<close>

datatype graphql_token =
    TokName string
  | TokString string
  | TokNumber string
  | TokPunct string

section \<open>Character classes\<close>

text \<open>\<^verbatim>\<open>unicode.IsSpace\<close> on a rune below U+0100.\<close>

definition latin1_space :: "char \<Rightarrow> bool" where
  "latin1_space c \<longleftrightarrow> byte c \<in> {9, 10, 11, 12, 13, 32, 0x85, 0xA0}"

text \<open>\<^verbatim>\<open>unicode.IsLetter\<close> on a rune below U+0100.\<close>

definition latin1_letter :: "char \<Rightarrow> bool" where
  "latin1_letter c \<longleftrightarrow>
     is_lower c \<or> is_upper c \<or> byte c \<in> {0xAA, 0xB5, 0xBA}
     \<or> (0xC0 \<le> byte c \<and> byte c \<noteq> 0xD7 \<and> byte c \<noteq> 0xF7)"

definition is_name_start :: "char \<Rightarrow> bool" where
  "is_name_start c \<longleftrightarrow> c = CHR ''_'' \<or> latin1_letter c"

definition is_name_continue :: "char \<Rightarrow> bool" where
  "is_name_continue c \<longleftrightarrow> is_name_start c \<or> is_digit c"

definition punct_chars :: string where
  "punct_chars = ''!$():=@[]{}|''"

definition is_ignored :: "char \<Rightarrow> bool" where
  "is_ignored c \<longleftrightarrow> c = CHR '','' \<or> latin1_space c"

definition not_eol :: "char \<Rightarrow> bool" where
  "not_eol c \<longleftrightarrow> byte c \<noteq> 10 \<and> byte c \<noteq> 13"

section \<open>strconv.Unquote\<close>

text \<open>\<open>n\<close> hexadecimal digits at the front.\<close>

definition read_hex :: "nat \<Rightarrow> string \<Rightarrow> nat option" where
  "read_hex n s = (if n \<le> length s \<and> list_all is_hex (take n s) then Some (hex_nat (take n s)) else None)"

definition is_octal :: "char \<Rightarrow> bool" where
  "is_octal c \<longleftrightarrow> 48 \<le> byte c \<and> byte c \<le> 55"

definition read_octal :: "string \<Rightarrow> nat option" where
  "read_octal s =
     (if 3 \<le> length s \<and> list_all is_octal (take 3 s)
      then (let v = foldl (\<lambda>n c. 8 * n + digit_val c) 0 (take 3 s) in if v < 256 then Some v else None)
      else None)"

definition valid_rune :: "nat \<Rightarrow> bool" where
  "valid_rune r \<longleftrightarrow> r < 0xD800 \<or> (0xE000 \<le> r \<and> r \<le> 0x10FFFF)"

text \<open>
  The escape after a backslash, inside double quotes (\<^verbatim>\<open>strconv.UnquoteChar\<close>): the bytes it stands
  for and how many bytes after the backslash it takes. A single quote, a solidus and every other
  letter is a syntax error.
\<close>

definition unquote_escape :: "string \<Rightarrow> (string \<times> nat) option" where
  "unquote_escape s =
     (case s of
        [] \<Rightarrow> None
      | e # es \<Rightarrow>
          if e = CHR ''a'' then Some ([chr 7], 1) else if e = CHR ''b'' then Some ([chr 8], 1)
          else if e = CHR ''f'' then Some ([chr 12], 1) else if e = CHR ''n'' then Some ([chr 10], 1)
          else if e = CHR ''r'' then Some ([chr 13], 1) else if e = CHR ''t'' then Some ([chr 9], 1)
          else if e = CHR ''v'' then Some ([chr 11], 1)
          else if e = CHR ''x'' then map_option (\<lambda>v. ([chr v], 3)) (read_hex 2 es)
          else if e = CHR ''u'' then
            Option.bind (read_hex 4 es) (\<lambda>v. if valid_rune v then Some (encode_rune v, 5) else None)
          else if e = CHR ''U'' then
            Option.bind (read_hex 8 es) (\<lambda>v. if valid_rune v then Some (encode_rune v, 9) else None)
          else if is_octal e then map_option (\<lambda>v. ([chr v], 3)) (read_octal s)
          else if e = CHR 0x5C \<or> e = CHR 0x22 then Some ([e], 1)
          else None)"

text \<open>\<^verbatim>\<open>strconv.Unquote\<close> on the text between the double quotes.\<close>

function unquote_go :: "string \<Rightarrow> string option" where
  "unquote_go [] = Some []"
| "unquote_go (c # cs) =
     (if byte c = 10 then None
      else if 0x80 \<le> byte c then
        map_option (\<lambda>t. encode_rune (fst (decode_rune (c # cs))) @ t)
          (unquote_go (drop (snd (decode_rune (c # cs))) (c # cs)))
      else if c \<noteq> CHR 0x5C then map_option (\<lambda>t. c # t) (unquote_go cs)
      else (case unquote_escape cs of
              None \<Rightarrow> None
            | Some (bs, n) \<Rightarrow> map_option (\<lambda>t. bs @ t) (unquote_go (drop n cs))))"
  by pat_completeness auto
termination
  by (relation "measure length") (auto simp: le_imp_less_Suc)

section \<open>Strings and numbers\<close>

text \<open>The bytes up to the closing quote, a backslash taking the next byte with it.\<close>

fun scan_quoted :: "string \<Rightarrow> (string \<times> string) option" where
  "scan_quoted [] = None"
| "scan_quoted (c # cs) =
     (if c = CHR 0x5C then
        (case cs of [] \<Rightarrow> None | e # es \<Rightarrow> map_option (\<lambda>(t, r). (c # e # t, r)) (scan_quoted es))
      else if c = CHR 0x22 then Some ([], cs)
      else map_option (\<lambda>(t, r). (c # t, r)) (scan_quoted cs))"

definition block_quote :: string where
  "block_quote = [CHR 0x22, CHR 0x22, CHR 0x22]"

text \<open>\<open>s\<close> starts at the opening quote; the result is the value and the rest of the query.\<close>

definition read_graphql_string :: "string \<Rightarrow> (string \<times> string) res" where
  "read_graphql_string s =
     (if has_prefix s block_quote then
        (case str_index (drop 3 s) block_quote of
           None \<Rightarrow> Err ''unterminated GraphQL block string''
         | Some end_pos \<Rightarrow> Ok (take end_pos (drop 3 s), drop (end_pos + 6) s))
      else
        (case scan_quoted (tl s) of
           None \<Rightarrow> Err ''unterminated GraphQL string''
         | Some (t, r) \<Rightarrow>
             (case unquote_go t of
                None \<Rightarrow> Err ''invalid GraphQL string''
              | Some unquoted \<Rightarrow> Ok (unquoted, r))))"

text \<open>One or more digits, with the error when there is none.\<close>

definition digits1 :: "string \<Rightarrow> string \<Rightarrow> (string \<times> string) res" where
  "digits1 e s = res_of_option e (lex_digits1 s)"

definition number_fraction :: "string \<Rightarrow> (string \<times> string) res" where
  "number_fraction s =
     (if s \<noteq> [] \<and> hd s = CHR ''.'' then
        bind_res (digits1 ''invalid GraphQL float'' (tl s)) (\<lambda>(d, r). Ok (CHR ''.'' # d, r))
      else Ok ([], s))"

definition number_exponent :: "string \<Rightarrow> (string \<times> string) res" where
  "number_exponent s =
     (if s \<noteq> [] \<and> (hd s = CHR ''e'' \<or> hd s = CHR ''E'') then
        (let s1 = tl s;
             sg = (if s1 \<noteq> [] \<and> (hd s1 = CHR ''+'' \<or> hd s1 = CHR ''-'') then [hd s1] else []);
             s2 = (if sg = [] then s1 else tl s1)
         in bind_res (digits1 ''invalid GraphQL exponent'' s2) (\<lambda>(d, r). Ok (hd s # sg @ d, r)))
      else Ok ([], s))"

definition read_graphql_number :: "string \<Rightarrow> (string \<times> string) res" where
  "read_graphql_number s =
     (case lex_sign s of (g, s1) \<Rightarrow>
      bind_res (digits1 ''invalid GraphQL number'' s1) (\<lambda>(i, s2).
      bind_res (number_fraction s2) (\<lambda>(f, s3).
      bind_res (number_exponent s3) (\<lambda>(e, s4).
      Ok (g @ i @ f @ e, s4)))))"

section \<open>Consumption\<close>

lemma scan_quoted_length: "scan_quoted s = Some (t, r) \<Longrightarrow> length r < length s"
  by (induction s arbitrary: t rule: scan_quoted.induct) (force split: if_splits list.splits)+

lemma read_graphql_string_length:
  "read_graphql_string s = Ok (v, r) \<Longrightarrow> s \<noteq> [] \<Longrightarrow> length r < length s"
  by (cases s)
    (auto simp: read_graphql_string_def split: if_splits option.splits dest: scan_quoted_length)

lemma digits1_length: "digits1 e s = Ok (d, r) \<Longrightarrow> length r < length s"
  by (auto simp: digits1_def res_simps dest: lex_digits1_length)

lemma number_fraction_length: "number_fraction s = Ok (d, r) \<Longrightarrow> length r \<le> length s"
  by (cases s) (auto simp: number_fraction_def res_simps split: if_splits dest!: digits1_length)

lemma number_exponent_length: "number_exponent s = Ok (d, r) \<Longrightarrow> length r \<le> length s"
  by (cases s; cases "tl s")
    (auto simp: number_exponent_def res_simps Let_def split: if_splits dest!: digits1_length)

lemma read_graphql_number_length: "read_graphql_number s = Ok (v, r) \<Longrightarrow> length r < length s"
  by (fastforce simp: read_graphql_number_def res_simps split: prod.splits
      dest: lex_sign_length digits1_length number_fraction_length number_exponent_length)

section \<open>The tokenizer\<close>

text \<open>\<^verbatim>\<open>tokenizeGraphQL\<close>; the argument is the query from index \<^verbatim>\<open>i\<close> on.\<close>

function tokenize_graphql :: "string \<Rightarrow> graphql_token list res" where
  "tokenize_graphql [] = Ok []"
| "tokenize_graphql (c # cs) =
     (if is_ignored c then tokenize_graphql cs
      else if c = CHR ''#'' then tokenize_graphql (dropWhile not_eol cs)
      else if is_name_start c then
        bind_res (tokenize_graphql (dropWhile is_name_continue cs))
          (\<lambda>ts. Ok (TokName (c # takeWhile is_name_continue cs) # ts))
      else if c = CHR 0x22 then
        (case read_graphql_string (c # cs) of
           Err e \<Rightarrow> Err e
         | Panic \<Rightarrow> Panic
         | Ok (v, r) \<Rightarrow> bind_res (tokenize_graphql r) (\<lambda>ts. Ok (TokString v # ts)))
      else if c = CHR ''-'' \<or> is_digit c then
        (case read_graphql_number (c # cs) of
           Err e \<Rightarrow> Err e
         | Panic \<Rightarrow> Panic
         | Ok (v, r) \<Rightarrow> bind_res (tokenize_graphql r) (\<lambda>ts. Ok (TokNumber v # ts)))
      else if has_prefix (c # cs) ''...'' then
        bind_res (tokenize_graphql (drop 2 cs)) (\<lambda>ts. Ok (TokPunct ''...'' # ts))
      else if c \<in> set punct_chars then
        bind_res (tokenize_graphql cs) (\<lambda>ts. Ok (TokPunct [c] # ts))
      else Err (''unsupported GraphQL character '' @ [c]))"
  by pat_completeness auto
termination
  by (relation "measure length")
    (auto simp: le_imp_less_Suc length_dropWhile_le
      dest: read_graphql_string_length read_graphql_number_length)

lemma read_graphql_string_no_panic [simp]: "read_graphql_string s \<noteq> Panic"
  by (auto simp: read_graphql_string_def split: option.splits)

lemma read_graphql_number_no_panic [simp]: "read_graphql_number s \<noteq> Panic"
  by (auto simp: read_graphql_number_def number_fraction_def number_exponent_def digits1_def
      res_simps Let_def split: prod.splits)

lemma tokenize_no_panic: "tokenize_graphql s \<noteq> Panic"
  by (induction s rule: tokenize_graphql.induct)
    (auto simp: res_simps split: res.splits)

end
