(* ===== verification/GraphQL_Parser.thy ===== *)
theory GraphQL_Parser
  imports GraphQL_Tokens
begin

text \<open>
  The recursive-descent parser of \<^verbatim>\<open>internal/matcher/graphql.go\<close>, which writes a canonical string in
  which definitions, selections, arguments, directives, variables and object fields are sorted.
  The parser state \<^verbatim>\<open>(tokens, pos)\<close> is the list of the tokens from \<^verbatim>\<open>pos\<close> on.
\<close>

section \<open>Parser results\<close>

text \<open>
  \<open>PFuel\<close> is no outcome of the code: it marks an exhausted recursion bound, which the entry
  point's fuel rules out (\<open>parse_document_fuel\<close>).
\<close>

datatype 'a pres = POk 'a "graphql_token list" | PErr string | PFuel

fun bind_pres :: "'a pres \<Rightarrow> ('a \<Rightarrow> graphql_token list \<Rightarrow> 'b pres) \<Rightarrow> 'b pres" where
  "bind_pres (POk x ts) f = f x ts"
| "bind_pres (PErr e) f = PErr e"
| "bind_pres PFuel f = PFuel"

lemma bind_pres_eq_POk [res_simps]:
  "bind_pres m f = POk y r \<longleftrightarrow> (\<exists>x ts. m = POk x ts \<and> f x ts = POk y r)"
  by (cases m) auto

lemma bind_pres_eq_PFuel [res_simps]:
  "bind_pres m f = PFuel \<longleftrightarrow> m = PFuel \<or> (\<exists>x ts. m = POk x ts \<and> f x ts = PFuel)"
  by (cases m) auto

lemma bind_pres_cong [fundef_cong]:
  assumes "m = m'" and "\<And>x ts. m' = POk x ts \<Longrightarrow> f x ts = f' x ts"
  shows "bind_pres m f = bind_pres m' f'"
  using assms by (cases m') auto

section \<open>Peeking and consuming\<close>

definition peek_name :: "string \<Rightarrow> graphql_token list \<Rightarrow> bool" where
  "peek_name v ts \<longleftrightarrow> (case ts of t # _ \<Rightarrow> t = TokName v | [] \<Rightarrow> False)"

definition peek_punct :: "string \<Rightarrow> graphql_token list \<Rightarrow> bool" where
  "peek_punct v ts \<longleftrightarrow> (case ts of t # _ \<Rightarrow> t = TokPunct v | [] \<Rightarrow> False)"

definition expect_name :: "graphql_token list \<Rightarrow> string pres" where
  "expect_name ts = (case ts of TokName n # r \<Rightarrow> POk n r | _ \<Rightarrow> PErr ''expected GraphQL name'')"

definition expect_name_value :: "string \<Rightarrow> graphql_token list \<Rightarrow> unit pres" where
  "expect_name_value v ts =
     (if peek_name v ts then POk () (tl ts) else PErr (''expected GraphQL name '' @ v))"

definition expect_punct :: "string \<Rightarrow> graphql_token list \<Rightarrow> unit pres" where
  "expect_punct v ts =
     (if peek_punct v ts then POk () (tl ts) else PErr (''expected GraphQL token '' @ v))"

text \<open>\<^verbatim>\<open>sort.Strings\<close> and \<^verbatim>\<open>strings.Join\<close>\<close>

definition sorted_join :: "string \<Rightarrow> string list \<Rightarrow> string" where
  "sorted_join sep xs = join_with sep (sort xs)"

section \<open>Values, arguments, directives\<close>

fun parse_value :: "(nat \<Rightarrow> bool) \<Rightarrow> nat \<Rightarrow> graphql_token list \<Rightarrow> string pres"
and parse_values :: "(nat \<Rightarrow> bool) \<Rightarrow> nat \<Rightarrow> graphql_token list \<Rightarrow> string list pres"
and parse_fields :: "(nat \<Rightarrow> bool) \<Rightarrow> nat \<Rightarrow> graphql_token list \<Rightarrow> string list pres" where
  "parse_value pr 0 ts = PFuel"
| "parse_value pr (Suc f) ts =
     (if peek_punct ''$'' ts then
        bind_pres (expect_name (tl ts)) (\<lambda>name r. POk (''$'' @ name) r)
      else if peek_punct ''['' ts then
        bind_pres (parse_values pr f (tl ts)) (\<lambda>values r1.
        bind_pres (expect_punct '']'' r1) (\<lambda>_ r2.
        POk (''list['' @ join_with '','' values @ '']'') r2))
      else if peek_punct ''{'' ts then
        bind_pres (parse_fields pr f (tl ts)) (\<lambda>fields r1.
        bind_pres (expect_punct ''}'' r1) (\<lambda>_ r2.
        POk (''obj{'' @ sorted_join '','' fields @ ''}'') r2))
      else (case ts of
              TokString s # r \<Rightarrow> POk (''str:'' @ go_quote pr s) r
            | TokNumber n # r \<Rightarrow> POk (''num:'' @ n) r
            | TokName n # r \<Rightarrow> POk (''name:'' @ n) r
            | _ \<Rightarrow> PErr ''expected GraphQL value''))"
| "parse_values pr 0 ts = PFuel"
| "parse_values pr (Suc f) ts =
     (if peek_punct '']'' ts then POk [] ts
      else bind_pres (parse_value pr f ts) (\<lambda>value r1.
           bind_pres (parse_values pr f r1) (\<lambda>values r2. POk (value # values) r2)))"
| "parse_fields pr 0 ts = PFuel"
| "parse_fields pr (Suc f) ts =
     (if peek_punct ''}'' ts then POk [] ts
      else bind_pres (expect_name ts) (\<lambda>name r1.
           bind_pres (expect_punct '':'' r1) (\<lambda>_ r2.
           bind_pres (parse_value pr f r2) (\<lambda>value r3.
           bind_pres (parse_fields pr f r3) (\<lambda>fields r4.
           POk ((name @ '':'' @ value) # fields) r4)))))"

text \<open>The loop of \<^verbatim>\<open>parseArguments\<close>.\<close>

fun parse_args :: "(nat \<Rightarrow> bool) \<Rightarrow> nat \<Rightarrow> graphql_token list \<Rightarrow> string list pres" where
  "parse_args pr 0 ts = PFuel"
| "parse_args pr (Suc f) ts =
     (if peek_punct '')'' ts then POk [] ts
      else bind_pres (expect_name ts) (\<lambda>name r1.
           bind_pres (expect_punct '':'' r1) (\<lambda>_ r2.
           bind_pres (parse_value pr f r2) (\<lambda>value r3.
           bind_pres (parse_args pr f r3) (\<lambda>args r4.
           POk ((name @ '':'' @ value) # args) r4)))))"

definition parse_arguments :: "(nat \<Rightarrow> bool) \<Rightarrow> nat \<Rightarrow> graphql_token list \<Rightarrow> string pres" where
  "parse_arguments pr f ts =
     (if \<not> peek_punct ''('' ts then POk ''args[]'' ts
      else bind_pres (parse_args pr f (tl ts)) (\<lambda>args r1.
           bind_pres (expect_punct '')'' r1) (\<lambda>_ r2.
           POk (''args['' @ sorted_join '','' args @ '']'') r2)))"

fun directives_loop :: "(nat \<Rightarrow> bool) \<Rightarrow> nat \<Rightarrow> graphql_token list \<Rightarrow> string list pres" where
  "directives_loop pr 0 ts = PFuel"
| "directives_loop pr (Suc f) ts =
     (if \<not> peek_punct ''@'' ts then POk [] ts
      else bind_pres (expect_name (tl ts)) (\<lambda>name r1.
           bind_pres (parse_arguments pr f r1) (\<lambda>arguments r2.
           bind_pres (directives_loop pr f r2) (\<lambda>directives r3.
           POk ((name @ '':'' @ arguments) # directives) r3))))"

definition parse_directives :: "(nat \<Rightarrow> bool) \<Rightarrow> nat \<Rightarrow> graphql_token list \<Rightarrow> string pres" where
  "parse_directives pr f ts =
     bind_pres (directives_loop pr f ts) (\<lambda>directives r.
     POk (''dirs['' @ sorted_join '','' directives @ '']'') r)"

section \<open>Types and variable definitions\<close>

fun parse_type_ref :: "nat \<Rightarrow> graphql_token list \<Rightarrow> string pres" where
  "parse_type_ref 0 ts = PFuel"
| "parse_type_ref (Suc f) ts =
     bind_pres
       (if peek_punct ''['' ts then
          bind_pres (parse_type_ref f (tl ts)) (\<lambda>inner r1.
          bind_pres (expect_punct '']'' r1) (\<lambda>_ r2. POk (''['' @ inner @ '']'') r2))
        else expect_name ts)
       (\<lambda>base r. if peek_punct ''!'' r then POk (base @ ''!'') (tl r) else POk base r)"

definition parse_default :: "(nat \<Rightarrow> bool) \<Rightarrow> nat \<Rightarrow> graphql_token list \<Rightarrow> string pres" where
  "parse_default pr f ts =
     (if peek_punct ''='' ts then bind_pres (parse_value pr f (tl ts)) (\<lambda>value r. POk (''='' @ value) r)
      else POk [] ts)"

fun variables_loop :: "(nat \<Rightarrow> bool) \<Rightarrow> nat \<Rightarrow> graphql_token list \<Rightarrow> string list pres" where
  "variables_loop pr 0 ts = PFuel"
| "variables_loop pr (Suc f) ts =
     (if peek_punct '')'' ts then POk [] ts
      else bind_pres (expect_punct ''$'' ts) (\<lambda>_ r1.
           bind_pres (expect_name r1) (\<lambda>name r2.
           bind_pres (expect_punct '':'' r2) (\<lambda>_ r3.
           bind_pres (parse_type_ref f r3) (\<lambda>type_name r4.
           bind_pres (parse_default pr f r4) (\<lambda>default_value r5.
           bind_pres (variables_loop pr f r5) (\<lambda>definitions r6.
           POk ((name @ '':'' @ type_name @ default_value) # definitions) r6)))))))"

definition parse_variable_definitions :: "(nat \<Rightarrow> bool) \<Rightarrow> nat \<Rightarrow> graphql_token list \<Rightarrow> string pres" where
  "parse_variable_definitions pr f ts =
     bind_pres (expect_punct ''('' ts) (\<lambda>_ r1.
     bind_pres (variables_loop pr f r1) (\<lambda>definitions r2.
     bind_pres (expect_punct '')'' r2) (\<lambda>_ r3.
     POk (''['' @ sorted_join '','' definitions @ '']'') r3)))"

section \<open>Selections\<close>

fun parse_selection_set :: "(nat \<Rightarrow> bool) \<Rightarrow> nat \<Rightarrow> graphql_token list \<Rightarrow> string pres"
and parse_selections :: "(nat \<Rightarrow> bool) \<Rightarrow> nat \<Rightarrow> graphql_token list \<Rightarrow> string list pres"
and parse_selection :: "(nat \<Rightarrow> bool) \<Rightarrow> nat \<Rightarrow> graphql_token list \<Rightarrow> string pres"
and parse_field :: "(nat \<Rightarrow> bool) \<Rightarrow> nat \<Rightarrow> graphql_token list \<Rightarrow> string pres" where
  "parse_selection_set pr 0 ts = PFuel"
| "parse_selection_set pr (Suc f) ts =
     bind_pres (expect_punct ''{'' ts) (\<lambda>_ r1.
     bind_pres (parse_selections pr f r1) (\<lambda>selections r2.
     bind_pres (expect_punct ''}'' r2) (\<lambda>_ r3.
     if selections = [] then PErr ''GraphQL selection set must not be empty''
     else POk (''sel['' @ sorted_join '','' selections @ '']'') r3)))"
| "parse_selections pr 0 ts = PFuel"
| "parse_selections pr (Suc f) ts =
     (if peek_punct ''}'' ts then POk [] ts
      else bind_pres (parse_selection pr f ts) (\<lambda>selection r1.
           bind_pres (parse_selections pr f r1) (\<lambda>selections r2. POk (selection # selections) r2)))"
| "parse_selection pr 0 ts = PFuel"
| "parse_selection pr (Suc f) ts =
     (if peek_punct ''...'' ts then
        (if peek_name ''on'' (tl ts) then
           bind_pres (expect_name (tl (tl ts))) (\<lambda>type_name r1.
           bind_pres (parse_directives pr f r1) (\<lambda>directives r2.
           bind_pres (parse_selection_set pr f r2) (\<lambda>selections r3.
           POk (''inline:on:'' @ type_name @ '':'' @ directives @ '':'' @ selections) r3)))
         else
           bind_pres (expect_name (tl ts)) (\<lambda>name r1.
           bind_pres (parse_directives pr f r1) (\<lambda>directives r2.
           POk (''spread:'' @ name @ '':'' @ directives) r2)))
      else parse_field pr f ts)"
| "parse_field pr 0 ts = PFuel"
| "parse_field pr (Suc f) ts =
     bind_pres (expect_name ts) (\<lambda>first r1.
     bind_pres (if peek_punct '':'' r1
                then bind_pres (expect_name (tl r1)) (\<lambda>name r. POk (first, name) r)
                else POk ([], first) r1) (\<lambda>(alias, name) r2.
     bind_pres (parse_arguments pr f r2) (\<lambda>arguments r3.
     bind_pres (parse_directives pr f r3) (\<lambda>directives r4.
     bind_pres (if peek_punct ''{'' r4 then parse_selection_set pr f r4 else POk [] r4)
       (\<lambda>selections r5.
     POk (''field:'' @ alias @ '':'' @ name @ '':'' @ arguments @ '':'' @ directives @ '':'' @ selections)
       r5)))))"

section \<open>Definitions and documents\<close>

definition parse_fragment_definition :: "(nat \<Rightarrow> bool) \<Rightarrow> nat \<Rightarrow> graphql_token list \<Rightarrow> string pres" where
  "parse_fragment_definition pr f ts =
     bind_pres (expect_name_value ''fragment'' ts) (\<lambda>_ r1.
     bind_pres (expect_name r1) (\<lambda>name r2.
     bind_pres (expect_name_value ''on'' r2) (\<lambda>_ r3.
     bind_pres (expect_name r3) (\<lambda>type_name r4.
     bind_pres (parse_directives pr f r4) (\<lambda>directives r5.
     bind_pres (parse_selection_set pr f r5) (\<lambda>selections r6.
     POk (''fragment:'' @ name @ '':on:'' @ type_name @ '':'' @ directives @ '':'' @ selections) r6))))))"

text \<open>The optional operation name: a name other than \<^verbatim>\<open>on\<close>.\<close>

definition operation_name :: "graphql_token list \<Rightarrow> string pres" where
  "operation_name ts =
     (case ts of
        TokName n # r \<Rightarrow> if n \<noteq> ''on'' then POk n r else POk [] ts
      | _ \<Rightarrow> POk [] ts)"

definition parse_operation_definition :: "(nat \<Rightarrow> bool) \<Rightarrow> nat \<Rightarrow> graphql_token list \<Rightarrow> string pres" where
  "parse_operation_definition pr f ts =
     bind_pres (expect_name ts) (\<lambda>operation r1.
     bind_pres (operation_name r1) (\<lambda>name r2.
     bind_pres (if peek_punct ''('' r2 then parse_variable_definitions pr f r2 else POk ''[]'' r2)
       (\<lambda>variables r3.
     bind_pres (parse_directives pr f r3) (\<lambda>directives r4.
     bind_pres (parse_selection_set pr f r4) (\<lambda>selections r5.
     POk (''op:'' @ operation @ '':'' @ name @ '':'' @ variables @ '':'' @ directives @ '':'' @ selections)
       r5)))))"

definition parse_definition :: "(nat \<Rightarrow> bool) \<Rightarrow> nat \<Rightarrow> graphql_token list \<Rightarrow> string pres" where
  "parse_definition pr f ts =
     (if peek_name ''fragment'' ts then parse_fragment_definition pr f ts
      else if peek_name ''query'' ts \<or> peek_name ''mutation'' ts \<or> peek_name ''subscription'' ts
      then parse_operation_definition pr f ts
      else if peek_punct ''{'' ts then
        bind_pres (parse_selection_set pr f ts) (\<lambda>selections r. POk (''op:query:::[]:'' @ selections) r)
      else PErr ''expected GraphQL definition'')"

fun definitions_loop :: "(nat \<Rightarrow> bool) \<Rightarrow> nat \<Rightarrow> graphql_token list \<Rightarrow> string list pres" where
  "definitions_loop pr 0 ts = PFuel"
| "definitions_loop pr (Suc f) ts =
     (if ts = [] then POk [] []
      else bind_pres (parse_definition pr f ts) (\<lambda>def r1.
           bind_pres (definitions_loop pr f r1) (\<lambda>definitions r2. POk (def # definitions) r2)))"

text \<open>Five units of fuel per token.\<close>

definition graphql_fuel :: "graphql_token list \<Rightarrow> nat" where
  "graphql_fuel ts = 5 * length ts + 5"

definition parse_document :: "(nat \<Rightarrow> bool) \<Rightarrow> graphql_token list \<Rightarrow> string pres" where
  "parse_document pr ts =
     bind_pres (definitions_loop pr (graphql_fuel ts) ts) (\<lambda>definitions r.
     POk (''doc('' @ sorted_join ''|'' definitions @ '')'') r)"

text \<open>\<^verbatim>\<open>newGraphQLParser\<close> and \<^verbatim>\<open>parseGraphQLDocument\<close>: the canonical string of a query.\<close>

definition new_graphql_parser :: "string \<Rightarrow> graphql_token list res" where
  "new_graphql_parser query =
     bind_res (tokenize_graphql query) (\<lambda>tokens.
     if tokens = [] then Err ''GraphQL query must not be empty'' else Ok tokens)"

definition parse_graphql_document :: "(nat \<Rightarrow> bool) \<Rightarrow> string \<Rightarrow> string res" where
  "parse_graphql_document pr query =
     bind_res (new_graphql_parser query) (\<lambda>tokens.
     case parse_document pr tokens of
       POk canonical _ \<Rightarrow> Ok canonical
     | PErr e \<Rightarrow> Err e
     | PFuel \<Rightarrow> Panic)"

end
