(* ===== verification/GraphQL_Facts.thy ===== *)
theory GraphQL_Facts
  imports GraphQL_Parser
begin

text \<open>
  The parser always terminates: every sub-parser consumes tokens, and the fuel of \<open>parse_document\<close>
  covers the deepest recursion.
\<close>

section \<open>Primitive parsers\<close>

lemma peek_punct_iff: "peek_punct v ts \<longleftrightarrow> (\<exists>r. ts = TokPunct v # r)"
  by (cases ts) (auto simp: peek_punct_def)

lemma peek_name_iff: "peek_name v ts \<longleftrightarrow> (\<exists>r. ts = TokName v # r)"
  by (cases ts) (auto simp: peek_name_def)

lemma expect_name_iff [res_simps]: "expect_name ts = POk n r \<longleftrightarrow> ts = TokName n # r"
  by (auto simp: expect_name_def split: list.split graphql_token.split)

lemma expect_punct_iff [res_simps]: "expect_punct v ts = POk u r \<longleftrightarrow> ts = TokPunct v # r"
  by (auto simp: expect_punct_def peek_punct_iff)

lemma expect_name_value_iff [res_simps]: "expect_name_value v ts = POk u r \<longleftrightarrow> ts = TokName v # r"
  by (auto simp: expect_name_value_def peek_name_iff)

lemma expect_no_fuel [res_simps, simp]:
  "expect_name ts \<noteq> PFuel" "expect_punct v ts \<noteq> PFuel" "expect_name_value v ts \<noteq> PFuel"
  by (auto simp: expect_name_def expect_punct_def expect_name_value_def
      split: list.split graphql_token.split)

lemma peek_simps [simp]:
  "peek_punct v (TokPunct w # ts) \<longleftrightarrow> v = w" "peek_name v (TokName w # ts) \<longleftrightarrow> v = w"
  "\<not> peek_punct v (TokName w # ts)" "\<not> peek_punct v []" "\<not> peek_name v []"
  "\<not> peek_name v (TokPunct w # ts)"
  "\<not> peek_punct v (TokString w # ts)" "\<not> peek_punct v (TokNumber w # ts)"
  by (auto simp: peek_punct_def peek_name_def)

lemma expect_simps [simp]:
  "expect_name (TokName n # ts) = POk n ts" "expect_punct v (TokPunct v # ts) = POk () ts"
  "expect_name_value v (TokName v # ts) = POk () ts"
  by (simp_all add: expect_name_def expect_punct_def expect_name_value_def)

section \<open>Consumption\<close>

lemma parse_value_consumes:
  "parse_value pr f ts = POk v r \<Longrightarrow> length r < length ts"
  "parse_values pr f ts = POk vs r \<Longrightarrow> length r \<le> length ts"
  "parse_fields pr f ts = POk vs r \<Longrightarrow> length r \<le> length ts"
proof (induction f arbitrary: ts v vs r)
  case (Suc f)
  {
    case 1
    then show ?case
      by (auto simp: res_simps peek_punct_iff split: if_splits list.splits graphql_token.splits
          dest!: Suc.IH(2,3))
  next
    case 2
    then show ?case
      by (fastforce simp: res_simps split: if_splits dest!: Suc.IH(1,2))
  next
    case 3
    then show ?case
      by (fastforce simp: res_simps split: if_splits dest!: Suc.IH(1,3))
  }
qed simp_all

lemma parse_args_consumes: "parse_args pr f ts = POk v r \<Longrightarrow> length r \<le> length ts"
  by (induction f arbitrary: ts v r)
    (fastforce simp: res_simps split: if_splits dest!: parse_value_consumes(1))+

lemma parse_arguments_consumes: "parse_arguments pr f ts = POk v r \<Longrightarrow> length r \<le> length ts"
  by (auto simp: parse_arguments_def res_simps peek_punct_iff split: if_splits dest!: parse_args_consumes)

lemma directives_loop_consumes: "directives_loop pr f ts = POk v r \<Longrightarrow> length r \<le> length ts"
  by (induction f arbitrary: ts v r)
    (fastforce simp: res_simps peek_punct_iff split: if_splits dest!: parse_arguments_consumes)+

lemma parse_directives_consumes: "parse_directives pr f ts = POk v r \<Longrightarrow> length r \<le> length ts"
  by (auto simp: parse_directives_def res_simps dest: directives_loop_consumes)

lemma parse_type_ref_consumes: "parse_type_ref f ts = POk v r \<Longrightarrow> length r < length ts"
  by (induction f arbitrary: ts v r)
    (fastforce simp: res_simps peek_punct_iff split: if_splits)+

lemma parse_default_consumes: "parse_default pr f ts = POk v r \<Longrightarrow> length r \<le> length ts"
  by (auto simp: parse_default_def res_simps peek_punct_iff split: if_splits dest!: parse_value_consumes(1))

lemma variables_loop_consumes: "variables_loop pr f ts = POk v r \<Longrightarrow> length r \<le> length ts"
  by (induction f arbitrary: ts v r)
    (fastforce simp: res_simps split: if_splits dest!: parse_type_ref_consumes parse_default_consumes)+

lemma parse_variable_definitions_consumes:
  "parse_variable_definitions pr f ts = POk v r \<Longrightarrow> length r < length ts"
  by (auto simp: parse_variable_definitions_def res_simps dest!: variables_loop_consumes)

lemmas sub_consumes = parse_value_consumes parse_args_consumes parse_arguments_consumes
  directives_loop_consumes parse_directives_consumes parse_type_ref_consumes parse_default_consumes
  variables_loop_consumes parse_variable_definitions_consumes

lemma parse_selection_consumes:
  "parse_selection_set pr f ts = POk v r \<Longrightarrow> length r < length ts"
  "parse_selections pr f ts = POk vs r \<Longrightarrow> length r \<le> length ts"
  "parse_selection pr f ts = POk v r \<Longrightarrow> length r < length ts"
  "parse_field pr f ts = POk v r \<Longrightarrow> length r < length ts"
proof (induction f arbitrary: ts v vs r)
  case (Suc f)
  {
    case 1
    then show ?case by (auto simp: res_simps split: if_splits dest!: Suc.IH(2))
  next
    case 2
    then show ?case by (fastforce simp: res_simps split: if_splits dest!: Suc.IH(2,3))
  next
    case 3
    then show ?case
      by (fastforce simp: res_simps peek_punct_iff peek_name_iff split: if_splits
          dest!: Suc.IH(1,4) parse_directives_consumes)
  next
    case 4
    then show ?case
      by (fastforce simp: res_simps peek_punct_iff split: if_splits prod.splits
          dest!: Suc.IH(1) parse_directives_consumes parse_arguments_consumes)
  }
qed simp_all

lemma operation_name_consumes: "operation_name ts = POk n r \<Longrightarrow> length r \<le> length ts"
  by (auto simp: operation_name_def split: list.splits graphql_token.splits if_splits)

lemma operation_name_no_fuel [res_simps, simp]: "operation_name ts \<noteq> PFuel"
  by (auto simp: operation_name_def split: list.splits graphql_token.splits)

lemma parse_fragment_consumes: "parse_fragment_definition pr f ts = POk v r \<Longrightarrow> length r < length ts"
  by (auto simp: parse_fragment_definition_def res_simps
      dest!: parse_directives_consumes parse_selection_consumes(1))

lemma parse_operation_consumes: "parse_operation_definition pr f ts = POk v r \<Longrightarrow> length r < length ts"
  by (auto simp: parse_operation_definition_def res_simps split: if_splits
      dest!: operation_name_consumes parse_variable_definitions_consumes parse_directives_consumes
        parse_selection_consumes(1))

lemma parse_definition_consumes: "parse_definition pr f ts = POk v r \<Longrightarrow> length r < length ts"
  by (auto simp: parse_definition_def res_simps split: if_splits
      dest: parse_fragment_consumes parse_operation_consumes parse_selection_consumes(1))

section \<open>Enough fuel\<close>

lemma parse_value_fuel:
  "2 * length ts < f \<Longrightarrow> parse_value pr f ts \<noteq> PFuel"
  "2 * length ts + 1 < f \<Longrightarrow> parse_values pr f ts \<noteq> PFuel"
  "2 * length ts + 1 < f \<Longrightarrow> parse_fields pr f ts \<noteq> PFuel"
proof (induction f arbitrary: ts)
  case (Suc f)
  {
    case 1
    then show ?case
      using Suc.IH(2,3) [of "tl ts"]
      by (auto simp: res_simps peek_punct_iff split: list.splits graphql_token.splits)
  next
    case 2
    then show ?case
      using Suc.IH(1) [of ts] Suc.IH(2)
      by (auto simp: res_simps dest: parse_value_consumes(1))
  next
    case 3
    have "parse_value pr f r \<noteq> PFuel" "parse_value pr f r = POk v r' \<Longrightarrow> parse_fields pr f r' \<noteq> PFuel"
      if "ts = TokName n # TokPunct '':'' # r" for n r v r'
      using 3 that Suc.IH(1) [of r] Suc.IH(3) [of r'] by (auto dest: parse_value_consumes(1))
    then show ?case by (auto simp: res_simps)
  }
qed simp_all

lemma parse_args_fuel: "2 * length ts + 1 < f \<Longrightarrow> parse_args pr f ts \<noteq> PFuel"
proof (induction f arbitrary: ts)
  case (Suc f)
  have "parse_value pr f r \<noteq> PFuel" "parse_value pr f r = POk v r' \<Longrightarrow> parse_args pr f r' \<noteq> PFuel"
    if "ts = TokName n # TokPunct '':'' # r" for n r v r'
    using Suc.prems that parse_value_fuel(1) [of r f] Suc.IH [of r']
    by (auto dest: parse_value_consumes(1))
  then show ?case by (auto simp: res_simps)
qed simp

lemma parse_arguments_fuel: "2 * length ts < f \<Longrightarrow> parse_arguments pr f ts \<noteq> PFuel"
  using parse_args_fuel [of "tl ts" f]
  by (auto simp: parse_arguments_def res_simps peek_punct_iff)

lemma directives_loop_fuel: "2 * length ts + 1 < f \<Longrightarrow> directives_loop pr f ts \<noteq> PFuel"
proof (induction f arbitrary: ts)
  case (Suc f)
  have "parse_arguments pr f r \<noteq> PFuel" "parse_arguments pr f r = POk v r' \<Longrightarrow> directives_loop pr f r' \<noteq> PFuel"
    if "ts = TokPunct ''@'' # TokName n # r" for n r v r'
    using Suc.prems that parse_arguments_fuel [of r f] Suc.IH [of r']
    by (auto dest: parse_arguments_consumes)
  then show ?case by (auto simp: res_simps peek_punct_iff)
qed simp

lemma parse_directives_fuel: "2 * length ts + 1 < f \<Longrightarrow> parse_directives pr f ts \<noteq> PFuel"
  by (simp add: parse_directives_def res_simps directives_loop_fuel)

lemma parse_type_ref_fuel: "length ts < f \<Longrightarrow> parse_type_ref f ts \<noteq> PFuel"
proof (induction f arbitrary: ts)
  case (Suc f)
  then show ?case using Suc.IH [of "tl ts"]
    by (auto simp: res_simps peek_punct_iff split: if_splits)
qed simp

lemma parse_default_fuel: "2 * length ts < f \<Longrightarrow> parse_default pr f ts \<noteq> PFuel"
  using parse_value_fuel(1) [of "tl ts" f] by (auto simp: parse_default_def res_simps peek_punct_iff)

lemma variables_loop_fuel: "2 * length ts + 1 < f \<Longrightarrow> variables_loop pr f ts \<noteq> PFuel"
proof (induction f arbitrary: ts)
  case (Suc f)
  have "parse_type_ref f r \<noteq> PFuel"
    "parse_type_ref f r = POk t r1 \<Longrightarrow> parse_default pr f r1 \<noteq> PFuel"
    "parse_type_ref f r = POk t r1 \<Longrightarrow> parse_default pr f r1 = POk v r2 \<Longrightarrow> variables_loop pr f r2 \<noteq> PFuel"
    if "ts = TokPunct ''$'' # TokName n # TokPunct '':'' # r" for n r t r1 v r2
    using Suc.prems that parse_type_ref_fuel [of r f] parse_default_fuel [of r1 f] Suc.IH [of r2]
    by (auto dest!: parse_type_ref_consumes parse_default_consumes)
  then show ?case by (auto simp: res_simps)
qed simp

lemma parse_variable_definitions_fuel:
  "2 * length ts < f \<Longrightarrow> parse_variable_definitions pr f ts \<noteq> PFuel"
  by (cases ts) (auto simp: parse_variable_definitions_def res_simps variables_loop_fuel)

lemma parse_selection_fuel:
  "4 * length ts < f \<Longrightarrow> parse_selection_set pr f ts \<noteq> PFuel"
  "4 * length ts + 3 < f \<Longrightarrow> parse_selections pr f ts \<noteq> PFuel"
  "4 * length ts + 2 < f \<Longrightarrow> parse_selection pr f ts \<noteq> PFuel"
  "4 * length ts + 1 < f \<Longrightarrow> parse_field pr f ts \<noteq> PFuel"
proof (induction f arbitrary: ts)
  case (Suc f)
  {
    case 1
    then show ?case using Suc.IH(2) by (auto simp: res_simps split: if_splits)
  next
    case 2
    then show ?case using Suc.IH(3) [of ts] Suc.IH(2)
      by (auto simp: res_simps dest: parse_selection_consumes(3))
  next
    case 3
    have a: "parse_directives pr f r \<noteq> PFuel" if "length r < length ts" for r
      using 3 that parse_directives_fuel [of r f] by simp
    have b: "parse_selection_set pr f r' \<noteq> PFuel"
      if "parse_directives pr f r = POk v r'" and "length r < length ts" for r v r'
      using 3 that parse_directives_consumes [OF that(1)] Suc.IH(1) [of r'] by simp
    show ?case using 3 a Suc.IH(4) [of ts]
      by (auto simp: res_simps peek_punct_iff peek_name_iff split: if_splits dest: b)
  next
    case 4
    have a: "parse_arguments pr f r \<noteq> PFuel" "parse_directives pr f r \<noteq> PFuel"
      "parse_selection_set pr f r \<noteq> PFuel" if "length r < length ts" for r
      using 4 that parse_directives_fuel [of r f] parse_arguments_fuel [of r f] Suc.IH(1) [of r]
      by auto
    show ?case using a
      by (auto simp: res_simps peek_punct_iff split: if_splits prod.splits
          dest!: parse_arguments_consumes parse_directives_consumes)
  }
qed simp_all

lemma parse_definition_fuel:
  assumes "4 * length ts + 1 < f" shows "parse_definition pr f ts \<noteq> PFuel"
proof -
  have a: "parse_directives pr f r \<noteq> PFuel" "parse_selection_set pr f r \<noteq> PFuel"
    "parse_variable_definitions pr f r \<noteq> PFuel" if "length r \<le> length ts" for r
    using assms that parse_directives_fuel [of r f] parse_selection_fuel(1) [of r f]
      parse_variable_definitions_fuel [of r f] by auto
  have "parse_fragment_definition pr f ts \<noteq> PFuel"
    using a by (auto simp: parse_fragment_definition_def res_simps dest: parse_directives_consumes)
  moreover have "parse_operation_definition pr f ts \<noteq> PFuel"
    using a by (auto simp: parse_operation_definition_def res_simps split: if_splits
        dest!: operation_name_consumes parse_directives_consumes parse_variable_definitions_consumes)
  ultimately show ?thesis using a(2) [of ts] by (auto simp: parse_definition_def res_simps)
qed

lemma definitions_loop_fuel: "5 * length ts + 2 < f \<Longrightarrow> definitions_loop pr f ts \<noteq> PFuel"
proof (induction f arbitrary: ts)
  case (Suc f)
  then show ?case using parse_definition_fuel [of ts f] Suc.IH
    by (cases ts) (auto simp: res_simps dest: parse_definition_consumes)
qed simp

lemma parse_document_fuel: "parse_document pr ts \<noteq> PFuel"
  by (simp add: parse_document_def res_simps graphql_fuel_def definitions_loop_fuel)

lemma parse_graphql_document_no_panic: "parse_graphql_document pr q \<noteq> Panic"
  using parse_document_fuel tokenize_no_panic
  by (auto simp: parse_graphql_document_def new_graphql_parser_def res_simps
      split: pres.splits if_splits)

end
