(* ===== verification/GraphQL_Spec.thy ===== *)
theory GraphQL_Spec
  imports GraphQL_Facts
begin

text \<open>
  The abstract side of the GraphQL matcher: abstract syntax, its token sequence, its canonical
  string and the reorderings that keep its meaning. The parser computes the canonical string of
  the syntax it reads, and the canonical string is invariant under reordering.
\<close>

section \<open>Abstract syntax\<close>

datatype gql_value =
    VVar string
  | VList "gql_value list"
  | VObj "(string \<times> gql_value) list"
  | VString string
  | VNumber string
  | VName string

text \<open>The flag says whether the type is marked non-null.\<close>

datatype gql_type = TNamed string bool | TList gql_type bool

type_synonym gql_args = "(string \<times> gql_value) list"

type_synonym gql_directives = "(string \<times> gql_args) list"

type_synonym gql_variables = "(string \<times> gql_type \<times> gql_value option) list"

text \<open>A field has an optional alias; an empty selection list is a field without sub-selection.\<close>

datatype gql_selection =
    Field "string option" string gql_args gql_directives "gql_selection list"
  | Spread string gql_directives
  | Inline string gql_directives "gql_selection list"

datatype gql_definition =
    Fragment string string gql_directives "gql_selection list"
  | Operation string "string option" gql_variables gql_directives "gql_selection list"
  | Shorthand "gql_selection list"

section \<open>Concrete syntax\<close>

fun value_tokens :: "gql_value \<Rightarrow> graphql_token list" where
  "value_tokens (VVar n) = [TokPunct ''$'', TokName n]"
| "value_tokens (VList vs) = TokPunct ''['' # concat (map value_tokens vs) @ [TokPunct '']'']"
| "value_tokens (VObj fs) =
     TokPunct ''{'' # concat (map (\<lambda>(k, v). TokName k # TokPunct '':'' # value_tokens v) fs)
     @ [TokPunct ''}'']"
| "value_tokens (VString s) = [TokString s]"
| "value_tokens (VNumber n) = [TokNumber n]"
| "value_tokens (VName n) = [TokName n]"

definition arg_tokens :: "string \<times> gql_value \<Rightarrow> graphql_token list" where
  "arg_tokens a = TokName (fst a) # TokPunct '':'' # value_tokens (snd a)"

definition args_tokens :: "gql_args \<Rightarrow> graphql_token list" where
  "args_tokens as =
     (if as = [] then [] else TokPunct ''('' # concat (map arg_tokens as) @ [TokPunct '')''])"

definition directive_tokens :: "string \<times> gql_args \<Rightarrow> graphql_token list" where
  "directive_tokens d = TokPunct ''@'' # TokName (fst d) # args_tokens (snd d)"

definition directives_tokens :: "gql_directives \<Rightarrow> graphql_token list" where
  "directives_tokens ds = concat (map directive_tokens ds)"

definition bang :: "bool \<Rightarrow> graphql_token list" where
  "bang b = (if b then [TokPunct ''!''] else [])"

fun type_tokens :: "gql_type \<Rightarrow> graphql_token list" where
  "type_tokens (TNamed n b) = TokName n # bang b"
| "type_tokens (TList t b) = TokPunct ''['' # type_tokens t @ TokPunct '']'' # bang b"

definition default_tokens :: "gql_value option \<Rightarrow> graphql_token list" where
  "default_tokens d = (case d of None \<Rightarrow> [] | Some v \<Rightarrow> TokPunct ''='' # value_tokens v)"

definition variable_tokens :: "string \<times> gql_type \<times> gql_value option \<Rightarrow> graphql_token list" where
  "variable_tokens x =
     (case x of (n, t, d) \<Rightarrow>
       TokPunct ''$'' # TokName n # TokPunct '':'' # type_tokens t @ default_tokens d)"

definition variables_tokens :: "gql_variables \<Rightarrow> graphql_token list" where
  "variables_tokens vs =
     (if vs = [] then [] else TokPunct ''('' # concat (map variable_tokens vs) @ [TokPunct '')''])"

definition alias_tokens :: "string option \<Rightarrow> graphql_token list" where
  "alias_tokens a = (case a of None \<Rightarrow> [] | Some n \<Rightarrow> [TokName n, TokPunct '':''])"

definition braces :: "graphql_token list \<Rightarrow> graphql_token list" where
  "braces ts = TokPunct ''{'' # ts @ [TokPunct ''}'']"

fun selection_tokens :: "gql_selection \<Rightarrow> graphql_token list" where
  "selection_tokens (Field a n as ds ss) =
     alias_tokens a @ TokName n # args_tokens as @ directives_tokens ds
     @ (if ss = [] then [] else braces (concat (map selection_tokens ss)))"
| "selection_tokens (Spread n ds) = TokPunct ''...'' # TokName n # directives_tokens ds"
| "selection_tokens (Inline t ds ss) =
     TokPunct ''...'' # TokName ''on'' # TokName t # directives_tokens ds
     @ braces (concat (map selection_tokens ss))"

definition set_tokens :: "gql_selection list \<Rightarrow> graphql_token list" where
  "set_tokens ss = braces (concat (map selection_tokens ss))"

fun definition_tokens :: "gql_definition \<Rightarrow> graphql_token list" where
  "definition_tokens (Fragment n t ds ss) =
     TokName ''fragment'' # TokName n # TokName ''on'' # TokName t # directives_tokens ds @ set_tokens ss"
| "definition_tokens (Operation op n vs ds ss) =
     TokName op # (case n of None \<Rightarrow> [] | Some m \<Rightarrow> [TokName m]) @ variables_tokens vs
     @ directives_tokens ds @ set_tokens ss"
| "definition_tokens (Shorthand ss) = set_tokens ss"

definition document_tokens :: "gql_definition list \<Rightarrow> graphql_token list" where
  "document_tokens ds = concat (map definition_tokens ds)"

text \<open>Well-formed syntax: what the grammar can write.\<close>

fun wf_selection :: "gql_selection \<Rightarrow> bool" where
  "wf_selection (Field a n as ds ss) = list_all wf_selection ss"
| "wf_selection (Spread n ds) = (n \<noteq> ''on'')"
| "wf_selection (Inline t ds ss) = (ss \<noteq> [] \<and> list_all wf_selection ss)"

definition wf_set :: "gql_selection list \<Rightarrow> bool" where
  "wf_set ss \<longleftrightarrow> ss \<noteq> [] \<and> list_all wf_selection ss"

fun wf_definition :: "gql_definition \<Rightarrow> bool" where
  "wf_definition (Fragment n t ds ss) = wf_set ss"
| "wf_definition (Operation op n vs ds ss) =
     (op \<in> set [''query'', ''mutation'', ''subscription''] \<and> n \<noteq> Some ''on'' \<and> wf_set ss)"
| "wf_definition (Shorthand ss) = wf_set ss"

section \<open>The grammar\<close>

text \<open>
  How a document is written: as \<open>document_tokens\<close> does, except that empty parentheses may stand where there are
  no arguments and no variables.
\<close>

inductive args_written :: "gql_args \<Rightarrow> graphql_token list \<Rightarrow> bool" where
  args_plain: "args_written as (args_tokens as)"
| args_parens: "args_written [] [TokPunct ''('', TokPunct '')'']"

inductive directives_written :: "gql_directives \<Rightarrow> graphql_token list \<Rightarrow> bool" where
  directives_nil: "directives_written [] []"
| directives_cons: "args_written as ts \<Longrightarrow> directives_written ds us
    \<Longrightarrow> directives_written ((n, as) # ds) (TokPunct ''@'' # TokName n # ts @ us)"

inductive variables_written :: "gql_variables \<Rightarrow> graphql_token list \<Rightarrow> bool" where
  variables_plain: "variables_written vs (variables_tokens vs)"
| variables_parens: "variables_written [] [TokPunct ''('', TokPunct '')'']"

inductive selection_written :: "gql_selection \<Rightarrow> graphql_token list \<Rightarrow> bool"
and selections_written :: "gql_selection list \<Rightarrow> graphql_token list \<Rightarrow> bool" where
  written_field: "args_written as at \<Longrightarrow> directives_written ds dt \<Longrightarrow> selections_written ss st
    \<Longrightarrow> selection_written (Field a n as ds ss)
          (alias_tokens a @ TokName n # at @ dt @ (if ss = [] then [] else braces st))"
| written_spread: "n \<noteq> ''on'' \<Longrightarrow> directives_written ds dt
    \<Longrightarrow> selection_written (Spread n ds) (TokPunct ''...'' # TokName n # dt)"
| written_inline: "directives_written ds dt \<Longrightarrow> selections_written ss st \<Longrightarrow> ss \<noteq> []
    \<Longrightarrow> selection_written (Inline t ds ss) (TokPunct ''...'' # TokName ''on'' # TokName t # dt @ braces st)"
| written_nil: "selections_written [] []"
| written_cons: "selection_written s ts \<Longrightarrow> selections_written ss us \<Longrightarrow> selections_written (s # ss) (ts @ us)"

inductive definition_written :: "gql_definition \<Rightarrow> graphql_token list \<Rightarrow> bool" where
  written_fragment: "directives_written ds dt \<Longrightarrow> selections_written ss st \<Longrightarrow> ss \<noteq> []
    \<Longrightarrow> definition_written (Fragment n t ds ss)
          (TokName ''fragment'' # TokName n # TokName ''on'' # TokName t # dt @ braces st)"
| written_operation: "op \<in> set [''query'', ''mutation'', ''subscription''] \<Longrightarrow> n \<noteq> Some ''on''
    \<Longrightarrow> variables_written vs vt \<Longrightarrow> directives_written ds dt \<Longrightarrow> selections_written ss st \<Longrightarrow> ss \<noteq> []
    \<Longrightarrow> definition_written (Operation op n vs ds ss)
          (TokName op # (case n of None \<Rightarrow> [] | Some m \<Rightarrow> [TokName m]) @ vt @ dt @ braces st)"
| written_shorthand: "selections_written ss st \<Longrightarrow> ss \<noteq> [] \<Longrightarrow> definition_written (Shorthand ss) (braces st)"

inductive document_written :: "gql_definition list \<Rightarrow> graphql_token list \<Rightarrow> bool" where
  document_nil: "document_written [] []"
| document_cons: "definition_written d ts \<Longrightarrow> document_written ds us \<Longrightarrow> document_written (d # ds) (ts @ us)"

section \<open>Canonical strings\<close>

fun canon_value :: "(nat \<Rightarrow> bool) \<Rightarrow> gql_value \<Rightarrow> string" where
  "canon_value pr (VVar n) = ''$'' @ n"
| "canon_value pr (VList vs) = ''list['' @ join_with '','' (map (canon_value pr) vs) @ '']''"
| "canon_value pr (VObj fs) =
     ''obj{'' @ sorted_join '','' (map (\<lambda>(k, v). k @ '':'' @ canon_value pr v) fs) @ ''}''"
| "canon_value pr (VString s) = ''str:'' @ go_quote pr s"
| "canon_value pr (VNumber n) = ''num:'' @ n"
| "canon_value pr (VName n) = ''name:'' @ n"

definition canon_arg :: "(nat \<Rightarrow> bool) \<Rightarrow> string \<times> gql_value \<Rightarrow> string" where
  "canon_arg pr a = fst a @ '':'' @ canon_value pr (snd a)"

definition canon_args :: "(nat \<Rightarrow> bool) \<Rightarrow> gql_args \<Rightarrow> string" where
  "canon_args pr as = ''args['' @ sorted_join '','' (map (canon_arg pr) as) @ '']''"

definition canon_directive :: "(nat \<Rightarrow> bool) \<Rightarrow> string \<times> gql_args \<Rightarrow> string" where
  "canon_directive pr d = fst d @ '':'' @ canon_args pr (snd d)"

definition canon_directives :: "(nat \<Rightarrow> bool) \<Rightarrow> gql_directives \<Rightarrow> string" where
  "canon_directives pr ds = ''dirs['' @ sorted_join '','' (map (canon_directive pr) ds) @ '']''"

fun canon_type :: "gql_type \<Rightarrow> string" where
  "canon_type (TNamed n b) = n @ (if b then ''!'' else [])"
| "canon_type (TList t b) = ''['' @ canon_type t @ '']'' @ (if b then ''!'' else [])"

definition canon_variable :: "(nat \<Rightarrow> bool) \<Rightarrow> string \<times> gql_type \<times> gql_value option \<Rightarrow> string" where
  "canon_variable pr x =
     (case x of (n, t, d) \<Rightarrow>
       n @ '':'' @ canon_type t @ (case d of None \<Rightarrow> [] | Some v \<Rightarrow> ''='' @ canon_value pr v))"

definition canon_variables :: "(nat \<Rightarrow> bool) \<Rightarrow> gql_variables \<Rightarrow> string" where
  "canon_variables pr vs = ''['' @ sorted_join '','' (map (canon_variable pr) vs) @ '']''"

fun canon_selection :: "(nat \<Rightarrow> bool) \<Rightarrow> gql_selection \<Rightarrow> string" where
  "canon_selection pr (Field a n as ds ss) =
     ''field:'' @ (case a of None \<Rightarrow> [] | Some m \<Rightarrow> m) @ '':'' @ n @ '':'' @ canon_args pr as @ '':''
     @ canon_directives pr ds @ '':''
     @ (if ss = [] then [] else ''sel['' @ sorted_join '','' (map (canon_selection pr) ss) @ '']'')"
| "canon_selection pr (Spread n ds) = ''spread:'' @ n @ '':'' @ canon_directives pr ds"
| "canon_selection pr (Inline t ds ss) =
     ''inline:on:'' @ t @ '':'' @ canon_directives pr ds @ '':''
     @ ''sel['' @ sorted_join '','' (map (canon_selection pr) ss) @ '']''"

definition canon_set :: "(nat \<Rightarrow> bool) \<Rightarrow> gql_selection list \<Rightarrow> string" where
  "canon_set pr ss = ''sel['' @ sorted_join '','' (map (canon_selection pr) ss) @ '']''"

fun canon_definition :: "(nat \<Rightarrow> bool) \<Rightarrow> gql_definition \<Rightarrow> string" where
  "canon_definition pr (Fragment n t ds ss) =
     ''fragment:'' @ n @ '':on:'' @ t @ '':'' @ canon_directives pr ds @ '':'' @ canon_set pr ss"
| "canon_definition pr (Operation op n vs ds ss) =
     ''op:'' @ op @ '':'' @ (case n of None \<Rightarrow> [] | Some m \<Rightarrow> m) @ '':'' @ canon_variables pr vs @ '':''
     @ canon_directives pr ds @ '':'' @ canon_set pr ss"
| "canon_definition pr (Shorthand ss) = ''op:query:::[]:'' @ canon_set pr ss"

definition canon_document :: "(nat \<Rightarrow> bool) \<Rightarrow> gql_definition list \<Rightarrow> string" where
  "canon_document pr ds = ''doc('' @ sorted_join ''|'' (map (canon_definition pr) ds) @ '')''"

section \<open>The parser computes the canonical string\<close>

lemma pair_simps [simp]:
  "arg_tokens (k, v) = TokName k # TokPunct '':'' # value_tokens v"
  "canon_arg pr (k, v) = k @ '':'' @ canon_value pr v"
  "directive_tokens (n, as) = TokPunct ''@'' # TokName n # args_tokens as"
  "canon_directive pr (n, as) = n @ '':'' @ canon_args pr as"
  by (simp_all add: arg_tokens_def canon_arg_def directive_tokens_def canon_directive_def)

lemma value_tokens_start: "\<exists>t ts. value_tokens v = t # ts \<and> t \<noteq> TokPunct '']''"
  by (cases v) auto

lemma not_peek_value [simp]: "\<not> peek_punct '']'' (value_tokens v @ r)"
  using value_tokens_start [of v] by (auto simp: peek_punct_def)

lemma parse_values_tokens:
  assumes "\<And>v f r. v \<in> set vs \<Longrightarrow> 2 * length (value_tokens v) < f \<Longrightarrow>
      parse_value pr f (value_tokens v @ r) = POk (canon_value pr v) r"
    and "2 * length (concat (map value_tokens vs)) + 1 < f"
  shows "parse_values pr f (concat (map value_tokens vs) @ TokPunct '']'' # r)
    = POk (map (canon_value pr) vs) (TokPunct '']'' # r)"
  using assms
proof (induction vs arbitrary: f)
  case Nil
  then show ?case by (cases f) auto
next
  case (Cons v vs)
  then obtain g where f: "f = Suc g" by (cases f) auto
  obtain t ts where len: "value_tokens v = t # ts" using value_tokens_start by blast
  have v: "parse_value pr g (value_tokens v @ r') = POk (canon_value pr v) r'" for r'
    by (rule Cons.prems(1)) (use Cons.prems(2) f in auto)
  have vs: "parse_values pr g (concat (map value_tokens vs) @ TokPunct '']'' # r)
      = POk (map (canon_value pr) vs) (TokPunct '']'' # r)"
    by (rule Cons.IH) (use Cons.prems(1) in simp, use Cons.prems(2) f in \<open>simp add: len\<close>)
  show ?case by (simp add: f v vs)
qed

lemma parse_fields_tokens:
  assumes "\<And>k v f r. (k, v) \<in> set fs \<Longrightarrow> 2 * length (value_tokens v) < f \<Longrightarrow>
      parse_value pr f (value_tokens v @ r) = POk (canon_value pr v) r"
    and "2 * length (concat (map (\<lambda>(k, v). TokName k # TokPunct '':'' # value_tokens v) fs)) + 1 < f"
  shows "parse_fields pr f
      (concat (map (\<lambda>(k, v). TokName k # TokPunct '':'' # value_tokens v) fs) @ TokPunct ''}'' # r)
    = POk (map (\<lambda>(k, v). k @ '':'' @ canon_value pr v) fs) (TokPunct ''}'' # r)"
  using assms
proof (induction fs arbitrary: f)
  case Nil
  then show ?case by (cases f) auto
next
  case (Cons kv fs)
  then obtain g where f: "f = Suc g" by (cases f) auto
  obtain k v where kv: "kv = (k, v)" by (cases kv)
  have v: "parse_value pr g (value_tokens v @ r') = POk (canon_value pr v) r'" for r'
    by (rule Cons.prems(1)) (use Cons.prems(2) f kv in auto)
  have fs: "parse_fields pr g
      (concat (map (\<lambda>(k, v). TokName k # TokPunct '':'' # value_tokens v) fs) @ TokPunct ''}'' # r)
      = POk (map (\<lambda>(k, v). k @ '':'' @ canon_value pr v) fs) (TokPunct ''}'' # r)"
    by (rule Cons.IH) (use Cons.prems f kv in auto)
  show ?case by (simp add: f kv v fs)
qed

lemma parse_value_atom:
  "0 < f \<Longrightarrow> parse_value pr f (TokPunct ''$'' # TokName n # r) = POk (''$'' @ n) r"
  "0 < f \<Longrightarrow> parse_value pr f (TokString s # r) = POk (''str:'' @ go_quote pr s) r"
  "0 < f \<Longrightarrow> parse_value pr f (TokNumber n # r) = POk (''num:'' @ n) r"
  "0 < f \<Longrightarrow> parse_value pr f (TokName n # r) = POk (''name:'' @ n) r"
  by (cases f; simp)+

lemma parse_value_tokens:
  "2 * length (value_tokens v) < f \<Longrightarrow>
   parse_value pr f (value_tokens v @ r) = POk (canon_value pr v) r"
proof (induction v arbitrary: f r)
  case (VList vs)
  then obtain g where f: "f = Suc g" by (cases f) auto
  have "parse_values pr g (concat (map value_tokens vs) @ TokPunct '']'' # r)
      = POk (map (canon_value pr) vs) (TokPunct '']'' # r)"
    by (rule parse_values_tokens) (use VList f in auto)
  then show ?case by (simp add: f)
next
  case (VObj fs)
  then obtain g where f: "f = Suc g" by (cases f) auto
  have "parse_fields pr g
      (concat (map (\<lambda>(k, v). TokName k # TokPunct '':'' # value_tokens v) fs) @ TokPunct ''}'' # r)
      = POk (map (\<lambda>(k, v). k @ '':'' @ canon_value pr v) fs) (TokPunct ''}'' # r)"
    by (rule parse_fields_tokens) (use VObj f in fastforce)+
  then show ?case by (simp add: f)
qed (simp_all add: parse_value_atom)

lemma parse_args_tokens:
  "2 * length (concat (map arg_tokens as)) + 1 < f \<Longrightarrow>
   parse_args pr f (concat (map arg_tokens as) @ TokPunct '')'' # r)
     = POk (map (canon_arg pr) as) (TokPunct '')'' # r)"
proof (induction as arbitrary: f)
  case Nil
  then show ?case by (cases f) auto
next
  case (Cons a as)
  then obtain g where f: "f = Suc g" by (cases f) auto
  obtain k v where a: "a = (k, v)" by (cases a)
  have v: "parse_value pr g (value_tokens v @ r') = POk (canon_value pr v) r'" for r'
    by (rule parse_value_tokens) (use Cons.prems f a in simp)
  have as: "parse_args pr g (concat (map arg_tokens as) @ TokPunct '')'' # r)
      = POk (map (canon_arg pr) as) (TokPunct '')'' # r)"
    by (rule Cons.IH) (use Cons.prems f a in simp)
  show ?case by (simp add: f a v as)
qed

text \<open>What may follow a construct whose last part is optional.\<close>

definition selection_end :: "graphql_token list \<Rightarrow> bool" where
  "selection_end r \<longleftrightarrow> (\<forall>p \<in> set ['':'', ''('', ''@'', ''{'']. \<not> peek_punct p r)"

lemma parse_arguments_tokens:
  assumes "2 * length (args_tokens as) < f" and "\<not> peek_punct ''('' r"
  shows "parse_arguments pr f (args_tokens as @ r) = POk (canon_args pr as) r"
proof (cases "as = []")
  case True
  with assms(2) show ?thesis
    by (simp add: parse_arguments_def args_tokens_def canon_args_def sorted_join_def)
next
  case False
  have "parse_args pr f (concat (map arg_tokens as) @ TokPunct '')'' # r)
      = POk (map (canon_arg pr) as) (TokPunct '')'' # r)"
    by (rule parse_args_tokens) (use assms(1) False in \<open>simp add: args_tokens_def\<close>)
  with False show ?thesis
    by (simp add: parse_arguments_def args_tokens_def canon_args_def)
qed

lemma parse_arguments_written:
  assumes "args_written as us" and "2 * length us < f" and "\<not> peek_punct ''('' r"
  shows "parse_arguments pr f (us @ r) = POk (canon_args pr as) r"
  using assms
proof cases
  case args_parens
  then obtain g where "f = Suc g" using assms(2) by (cases f) auto
  with args_parens show ?thesis by (simp add: parse_arguments_def canon_args_def)
qed (simp add: parse_arguments_tokens)

lemma args_written_peek:
  "args_written as us \<Longrightarrow> \<not> peek_punct p r \<Longrightarrow> p \<noteq> ''('' \<Longrightarrow> \<not> peek_punct p (us @ r)"
  by (erule args_written.cases) (auto simp: args_tokens_def split: if_splits)

lemma directives_written_peek:
  "directives_written ds us \<Longrightarrow> \<not> peek_punct p r \<Longrightarrow> p \<noteq> ''@'' \<Longrightarrow> \<not> peek_punct p (us @ r)"
  by (erule directives_written.cases) auto

lemma directives_loop_written:
  "directives_written ds us \<Longrightarrow> 2 * length us + 1 < f \<Longrightarrow> \<not> peek_punct ''('' r \<Longrightarrow> \<not> peek_punct ''@'' r \<Longrightarrow>
   directives_loop pr f (us @ r) = POk (map (canon_directive pr) ds) r"
proof (induction arbitrary: f rule: directives_written.induct)
  case directives_nil
  then show ?case by (cases f) auto
next
  case (directives_cons as ts ds us n)
  then obtain g where f: "f = Suc g" by (cases f) auto
  have "\<not> peek_punct ''('' (us @ r)" using directives_written_peek directives_cons by simp
  then have "parse_arguments pr g (ts @ us @ r) = POk (canon_args pr as) (us @ r)"
    by (intro parse_arguments_written) (use directives_cons f in auto)
  moreover have "directives_loop pr g (us @ r) = POk (map (canon_directive pr) ds) r"
    using directives_cons f by simp
  ultimately show ?case by (simp add: f)
qed

lemma parse_directives_written:
  "directives_written ds us \<Longrightarrow> 2 * length us + 1 < f \<Longrightarrow> \<not> peek_punct ''('' r \<Longrightarrow> \<not> peek_punct ''@'' r \<Longrightarrow>
   parse_directives pr f (us @ r) = POk (canon_directives pr ds) r"
  by (simp add: parse_directives_def directives_loop_written canon_directives_def)

lemma parse_type_ref_tokens:
  "length (type_tokens t) < f \<Longrightarrow> \<not> peek_punct ''!'' r \<Longrightarrow>
   parse_type_ref f (type_tokens t @ r) = POk (canon_type t) r"
proof (induction t arbitrary: f r)
  case (TNamed n b)
  then show ?case by (cases f) (auto simp: bang_def)
next
  case (TList t b)
  then obtain g where f: "f = Suc g" by (cases f) auto
  have "parse_type_ref g (type_tokens t @ TokPunct '']'' # bang b @ r)
      = POk (canon_type t) (TokPunct '']'' # bang b @ r)"
    by (rule TList.IH) (use TList.prems f in auto)
  with TList.prems(2) show ?case by (auto simp: f bang_def)
qed

lemma type_tokens_nonempty: "\<exists>t ts. type_tokens ty = t # ts"
  by (cases ty) auto

lemma variable_tokens_simp [simp]:
  "variable_tokens (n, t, d) = TokPunct ''$'' # TokName n # TokPunct '':'' # type_tokens t @ default_tokens d"
  by (simp add: variable_tokens_def)

lemma parse_default_tokens:
  "2 * length (default_tokens d) < f \<Longrightarrow> \<not> peek_punct ''='' r \<Longrightarrow>
   parse_default pr f (default_tokens d @ r)
     = POk (case d of None \<Rightarrow> [] | Some v \<Rightarrow> ''='' @ canon_value pr v) r"
  by (cases d) (auto simp: parse_default_def default_tokens_def parse_value_tokens)

lemma variables_loop_tokens:
  "2 * length (concat (map variable_tokens vs)) + 1 < f \<Longrightarrow>
   variables_loop pr f (concat (map variable_tokens vs) @ TokPunct '')'' # r)
     = POk (map (canon_variable pr) vs) (TokPunct '')'' # r)"
proof (induction vs arbitrary: f)
  case Nil
  then show ?case by (cases f) auto
next
  case (Cons x vs)
  then obtain g where f: "f = Suc g" by (cases f) auto
  obtain n t d where x: "x = (n, t, d)" by (cases x)
  let ?r = "concat (map variable_tokens vs) @ TokPunct '')'' # r"
  have next_punct: "\<not> peek_punct p ?r" if "p \<notin> {''$'', '')''}" for p
    using that by (cases vs) (auto simp: variable_tokens_def split: prod.splits)
  have "\<not> peek_punct ''!'' (default_tokens d @ ?r)"
    using next_punct by (cases d) (simp_all add: default_tokens_def)
  then have t: "parse_type_ref g (type_tokens t @ default_tokens d @ ?r) = POk (canon_type t) (default_tokens d @ ?r)"
    by (rule parse_type_ref_tokens [rotated]) (use Cons.prems f x in simp)
  have d: "parse_default pr g (default_tokens d @ ?r)
      = POk (case d of None \<Rightarrow> [] | Some v \<Rightarrow> ''='' @ canon_value pr v) ?r"
    by (rule parse_default_tokens) (use Cons.prems f x next_punct in auto)
  have vs: "variables_loop pr g ?r = POk (map (canon_variable pr) vs) (TokPunct '')'' # r)"
    by (rule Cons.IH) (use Cons.prems f x in simp)
  show ?case using t d vs by (simp add: f x canon_variable_def)
qed

lemma parse_variable_definitions_tokens:
  "vs \<noteq> [] \<Longrightarrow> 2 * length (variables_tokens vs) < f \<Longrightarrow>
   parse_variable_definitions pr f (variables_tokens vs @ r) = POk (canon_variables pr vs) r"
  using variables_loop_tokens [of vs f pr r]
  by (simp add: parse_variable_definitions_def variables_tokens_def canon_variables_def)

lemma selection_written_start:
  "selection_written s us \<Longrightarrow> \<exists>t ts. us = t # ts \<and> (t = TokPunct ''...'' \<or> (\<exists>n. t = TokName n))"
  by (auto simp: alias_tokens_def elim!: selection_written.cases split: option.splits)

lemma peek_selection: "selection_written s us \<Longrightarrow> p \<noteq> ''...'' \<Longrightarrow> \<not> peek_punct p (us @ r)"
  using selection_written_start [of s us] by auto

lemma selection_end_brace [simp]: "selection_end (TokPunct ''}'' # r)"
  by (simp add: selection_end_def)

lemma selection_end_selections: "selections_written ss us \<Longrightarrow> selection_end (us @ TokPunct ''}'' # r)"
  by (erule selections_written.cases) (auto simp: selection_end_def peek_selection)

lemma selection_endD:
  "selection_end r \<Longrightarrow> \<not> peek_punct '':'' r" "selection_end r \<Longrightarrow> \<not> peek_punct ''('' r"
  "selection_end r \<Longrightarrow> \<not> peek_punct ''@'' r" "selection_end r \<Longrightarrow> \<not> peek_punct ''{'' r"
  by (simp_all add: selection_end_def)

lemma braces_peek [simp]: "peek_punct p (braces us @ r) \<longleftrightarrow> p = ''{''"
  by (auto simp: braces_def)

lemma parse_braces:
  assumes "\<And>f. 4 * length us + 3 < f \<Longrightarrow>
      parse_selections pr f (us @ TokPunct ''}'' # r) = POk (map (canon_selection pr) ss) (TokPunct ''}'' # r)"
    and "4 * length (braces us) < f" and "ss \<noteq> []"
  shows "parse_selection_set pr f (braces us @ r) = POk (canon_set pr ss) r"
proof -
  obtain g where f: "f = Suc g" using assms(2) by (cases f) auto
  have "4 * length us + 3 < g" using assms(2) f by (simp add: braces_def)
  from assms(1) [OF this] assms(3) show ?thesis by (simp add: f braces_def canon_set_def)
qed

lemma directives_then_set:
  assumes "directives_written ds dt" and "4 * (length dt + length (braces st)) < f"
  shows "parse_directives pr f (dt @ braces st @ r) = POk (canon_directives pr ds) (braces st @ r)"
proof (rule parse_directives_written [OF assms(1)])
  have "2 \<le> length (braces st)" by (simp add: braces_def)
  with assms(2) show "2 * length dt + 1 < f" by simp
qed simp_all

lemma parse_selection_written:
  "selection_written s us \<Longrightarrow> 4 * length us + 2 < f \<Longrightarrow> selection_end r \<Longrightarrow>
     parse_selection pr f (us @ r) = POk (canon_selection pr s) r"
  "selections_written ss us \<Longrightarrow> 4 * length us + 3 < g \<Longrightarrow>
     parse_selections pr g (us @ TokPunct ''}'' # r) = POk (map (canon_selection pr) ss) (TokPunct ''}'' # r)"
proof (induction arbitrary: f r and g r rule: selection_written_selections_written.inducts)
  case (written_field as at ds dt ss st a n)
  let ?ss = "if ss = [] then [] else braces st"
  let ?us = "alias_tokens a @ TokName n # at @ dt @ ?ss"
  from written_field.prems(1) obtain h where f: "f = Suc (Suc h)"
    by (cases f; cases "f - 1") auto
  have len: "4 * (length at + length dt + length ?ss) + 4 < h" using written_field.prems(1) unfolding f by simp
  have r1: "\<not> peek_punct ''('' (?ss @ r)" "\<not> peek_punct ''@'' (?ss @ r)" "\<not> peek_punct '':'' (?ss @ r)"
    using selection_endD [OF written_field.prems(2)] by auto
  have as: "parse_arguments pr h (at @ dt @ ?ss @ r) = POk (canon_args pr as) (dt @ ?ss @ r)"
    by (rule parse_arguments_written) (use written_field.hyps len r1 directives_written_peek in auto)
  have ds: "parse_directives pr h (dt @ ?ss @ r) = POk (canon_directives pr ds) (?ss @ r)"
    by (rule parse_directives_written) (use written_field.hyps len r1 in auto)
  have ss: "parse_selection_set pr h (braces st @ r) = POk (canon_set pr ss) r" if "ss \<noteq> []"
    by (rule parse_braces) (use written_field.IH len that in auto)
  have colon: "\<not> peek_punct '':'' (at @ dt @ ?ss @ r)"
    by (rule args_written_peek [OF _ directives_written_peek [OF _ r1(3)]]) (use written_field.hyps in simp_all)
  have "parse_field pr (Suc h) (?us @ r) = POk (canon_selection pr (Field a n as ds ss)) r"
    using as ds ss colon selection_endD [OF written_field.prems(2)]
    by (cases a; cases "ss = []") (simp_all add: alias_tokens_def canon_set_def)
  moreover have "\<not> peek_punct ''...'' (?us @ r)" by (cases a) (simp_all add: alias_tokens_def)
  ultimately show ?case unfolding f by simp
next
  case (written_spread n ds dt)
  from written_spread.prems(1) obtain g where f: "f = Suc g" by (cases f) auto
  have "parse_directives pr g (dt @ r) = POk (canon_directives pr ds) r"
    by (rule parse_directives_written) (use written_spread f selection_endD in auto)
  then show ?case using written_spread.hyps(1) by (simp add: f)
next
  case (written_inline ds dt ss st t)
  from written_inline.prems(1) obtain g where f: "f = Suc g" by (cases f) auto
  have len: "4 * (length dt + length (braces st)) + 2 < g" using written_inline.prems(1) f by simp
  have ds: "parse_directives pr g (dt @ braces st @ r) = POk (canon_directives pr ds) (braces st @ r)"
    by (rule directives_then_set) (use written_inline.hyps len in auto)
  have ss: "parse_selection_set pr g (braces st @ r) = POk (canon_set pr ss) r"
    by (rule parse_braces) (use written_inline len in auto)
  show ?case using ds ss by (simp add: f canon_set_def)
next
  case written_nil
  then show ?case by (cases g) auto
next
  case (written_cons s ts ss us)
  obtain h where g: "g = Suc h" using written_cons.prems by (cases g) auto
  obtain t tl where len: "ts = t # tl" using selection_written_start [OF written_cons.hyps(1)] by auto
  have s: "parse_selection pr h (ts @ us @ TokPunct ''}'' # r) = POk (canon_selection pr s) (us @ TokPunct ''}'' # r)"
    by (rule written_cons.IH(1)) (use written_cons.prems g selection_end_selections written_cons.hyps in auto)
  have ss: "parse_selections pr h (us @ TokPunct ''}'' # r) = POk (map (canon_selection pr) ss) (TokPunct ''}'' # r)"
    by (rule written_cons.IH(2)) (use written_cons.prems g len in simp)
  show ?case using peek_selection [OF written_cons.hyps(1)] by (simp add: g s ss)
qed

lemma parse_set_written:
  "selections_written ss us \<Longrightarrow> 4 * length (braces us) < f \<Longrightarrow> ss \<noteq> [] \<Longrightarrow>
   parse_selection_set pr f (braces us @ r) = POk (canon_set pr ss) r"
  by (intro parse_braces parse_selection_written(2))

lemma parse_variables_written:
  assumes "variables_written vs us" and "2 * length us < f" and "\<not> peek_punct ''('' r"
  shows "(if peek_punct ''('' (us @ r) then parse_variable_definitions pr f (us @ r) else POk ''[]'' (us @ r))
    = POk (canon_variables pr vs) r"
  using assms(1)
proof cases
  case variables_plain
  then show ?thesis using assms(2,3) parse_variable_definitions_tokens [of vs f pr r]
    by (cases "vs = []") (simp_all add: variables_tokens_def canon_variables_def sorted_join_def)
next
  case variables_parens
  then obtain g where "f = Suc g" using assms(2) by (cases f) auto
  with variables_parens show ?thesis by (simp add: parse_variable_definitions_def canon_variables_def)
qed

lemma variables_written_punct:
  "variables_written vs vt \<Longrightarrow> directives_written ds dt \<Longrightarrow> \<exists>p rest. vt @ dt @ braces st @ r = TokPunct p # rest"
  by (cases vs; erule variables_written.cases; erule directives_written.cases) (auto simp: variables_tokens_def braces_def)

lemma parse_definition_written:
  assumes "definition_written d us" and "4 * length us < f"
  shows "parse_definition pr f (us @ r) = POk (canon_definition pr d) r"
  using assms(1)
proof cases
  case (written_fragment ds dt ss st n t)
  then show ?thesis using assms(2)
    by (simp add: parse_definition_def parse_fragment_definition_def expect_name_value_def directives_then_set
        parse_set_written)
next
  case (written_operation op n vs vt ds dt ss st)
  let ?n = "case n of None \<Rightarrow> [] | Some m \<Rightarrow> [TokName m]" and ?r = "vt @ dt @ braces st @ r"
  have head: "\<not> peek_punct ''('' (dt @ braces st @ r)"
    by (rule directives_written_peek) (use written_operation in simp_all)
  have name: "operation_name (?n @ ?r) = POk (case n of None \<Rightarrow> [] | Some m \<Rightarrow> m) ?r"
  proof (cases n)
    case None
    obtain p rest where r: "?r = TokPunct p # rest" using variables_written_punct written_operation by blast
    show ?thesis by (simp only: None option.case append_Nil) (simp add: r operation_name_def)
  qed (use written_operation in \<open>simp add: operation_name_def\<close>)
  have len: "4 * (length vt + (length dt + length (braces st))) < f" using assms(2) written_operation by simp
  have "parse_operation_definition pr f (TokName op # ?n @ ?r) = POk (canon_definition pr d) r"
    using len written_operation
    by (simp add: parse_operation_definition_def name parse_variables_written head directives_then_set parse_set_written)
  then show ?thesis using written_operation by (auto simp: parse_definition_def)
next
  case (written_shorthand ss st)
  then show ?thesis using assms(2) parse_set_written [of ss st f pr r]
    by (simp add: parse_definition_def peek_name_def braces_def)
qed

lemma definition_written_nonempty: "definition_written d us \<Longrightarrow> \<exists>t ts. us = t # ts"
  by (auto simp: braces_def elim!: definition_written.cases)

lemma definitions_loop_written:
  "document_written ds us \<Longrightarrow> 4 * length us + 1 < f \<Longrightarrow>
   definitions_loop pr f us = POk (map (canon_definition pr) ds) []"
proof (induction arbitrary: f rule: document_written.induct)
  case document_nil
  then show ?case by (cases f) auto
next
  case (document_cons d ts ds us)
  then obtain g where f: "f = Suc g" by (cases f) auto
  obtain t tl where d: "ts = t # tl" using definition_written_nonempty [OF document_cons.hyps(1)] by blast
  have "parse_definition pr g (ts @ us) = POk (canon_definition pr d) us"
    by (rule parse_definition_written) (use document_cons f in auto)
  moreover have "definitions_loop pr g us = POk (map (canon_definition pr) ds) []"
    using document_cons f d by simp
  ultimately show ?case unfolding f by (simp add: d)
qed

lemma parse_document_written:
  assumes "document_written ds us"
  shows "parse_document pr us = POk (canon_document pr ds) []"
proof -
  have "definitions_loop pr (graphql_fuel us) us = POk (map (canon_definition pr) ds) []"
    by (rule definitions_loop_written) (use assms in \<open>simp_all add: graphql_fuel_def\<close>)
  then show ?thesis by (simp add: parse_document_def canon_document_def)
qed

text \<open>The tokens of well-formed syntax are one way to write it.\<close>

lemma directives_tokens_written: "directives_written ds (directives_tokens ds)"
proof (induction ds)
  case (Cons d ds)
  obtain n as where "d = (n, as)" by (cases d)
  with directives_cons [OF args_plain Cons, of n as] show ?case by (simp add: directives_tokens_def)
qed (simp add: directives_tokens_def directives_nil)

lemma selections_tokens_written:
  "(\<And>s. s \<in> set ss \<Longrightarrow> selection_written s (selection_tokens s)) \<Longrightarrow>
   selections_written ss (concat (map selection_tokens ss))"
  by (induction ss) (auto intro: written_nil written_cons)

lemma selection_tokens_written: "wf_selection s \<Longrightarrow> selection_written s (selection_tokens s)"
proof (induction s)
  case (Field a n as ds ss)
  then have "selections_written ss (concat (map selection_tokens ss))"
    by (intro selections_tokens_written) (auto simp: list_all_iff)
  from written_field [OF args_plain directives_tokens_written this] show ?case by simp
next
  case (Spread n ds)
  then show ?case by (auto intro: written_spread directives_tokens_written)
next
  case (Inline t ds ss)
  then have "selections_written ss (concat (map selection_tokens ss))"
    by (intro selections_tokens_written) (auto simp: list_all_iff)
  from written_inline [OF directives_tokens_written this] Inline.prems show ?case by simp
qed

lemma set_tokens_written: "wf_set ss \<Longrightarrow> selections_written ss (concat (map selection_tokens ss)) \<and> ss \<noteq> []"
  by (auto simp: wf_set_def list_all_iff intro: selections_tokens_written selection_tokens_written)

lemma definition_tokens_written: "wf_definition d \<Longrightarrow> definition_written d (definition_tokens d)"
proof (cases d)
  case (Fragment n t ds ss)
  then show "wf_definition d \<Longrightarrow> definition_written d (definition_tokens d)"
    using set_tokens_written [of ss] written_fragment [OF directives_tokens_written] by (simp add: set_tokens_def)
next
  case (Operation op n vs ds ss)
  then show "wf_definition d \<Longrightarrow> definition_written d (definition_tokens d)"
    using set_tokens_written [of ss] written_operation [OF _ _ variables_plain directives_tokens_written]
    by (simp add: set_tokens_def)
next
  case (Shorthand ss)
  then show "wf_definition d \<Longrightarrow> definition_written d (definition_tokens d)"
    using set_tokens_written [of ss] written_shorthand by (simp add: set_tokens_def)
qed

lemma document_tokens_written: "list_all wf_definition ds \<Longrightarrow> document_written ds (document_tokens ds)"
  by (induction ds) (auto simp: document_tokens_def intro: document_nil document_cons definition_tokens_written)

lemma parse_document_tokens:
  "list_all wf_definition ds \<Longrightarrow> parse_document pr (document_tokens ds) = POk (canon_document pr ds) []"
  by (rule parse_document_written [OF document_tokens_written])

lemma definition_tokens_nonempty: "\<exists>t ts. definition_tokens d = t # ts"
  by (cases d) (auto simp: set_tokens_def braces_def)

section \<open>Reordering\<close>

text \<open>
  One step of reordering: permute the fields of an object value, the arguments, the directives, the
  variable definitions, the selections of a set or the definitions of the document, at any depth.
  The items of a list value keep their order.
\<close>

inductive reorder_value :: "gql_value \<Rightarrow> gql_value \<Rightarrow> bool" where
  rv_fields: "mset fs = mset gs \<Longrightarrow> reorder_value (VObj fs) (VObj gs)"
| rv_field: "reorder_value v w \<Longrightarrow> reorder_value (VObj (fs @ (k, v) # gs)) (VObj (fs @ (k, w) # gs))"
| rv_item: "reorder_value v w \<Longrightarrow> reorder_value (VList (vs @ v # ws)) (VList (vs @ w # ws))"

inductive reorder_args :: "gql_args \<Rightarrow> gql_args \<Rightarrow> bool" where
  ra_perm: "mset as = mset bs \<Longrightarrow> reorder_args as bs"
| ra_value: "reorder_value v w \<Longrightarrow> reorder_args (as @ (k, v) # bs) (as @ (k, w) # bs)"

inductive reorder_directives :: "gql_directives \<Rightarrow> gql_directives \<Rightarrow> bool" where
  rd_perm: "mset ds = mset es \<Longrightarrow> reorder_directives ds es"
| rd_args: "reorder_args as bs \<Longrightarrow> reorder_directives (ds @ (n, as) # es) (ds @ (n, bs) # es)"

inductive reorder_selection :: "gql_selection \<Rightarrow> gql_selection \<Rightarrow> bool"
and reorder_set :: "gql_selection list \<Rightarrow> gql_selection list \<Rightarrow> bool" where
  rs_field_args: "reorder_args as bs \<Longrightarrow> reorder_selection (Field a n as ds ss) (Field a n bs ds ss)"
| rs_field_directives:
    "reorder_directives ds es \<Longrightarrow> reorder_selection (Field a n as ds ss) (Field a n as es ss)"
| rs_field_set: "reorder_set ss ts \<Longrightarrow> reorder_selection (Field a n as ds ss) (Field a n as ds ts)"
| rs_spread: "reorder_directives ds es \<Longrightarrow> reorder_selection (Spread n ds) (Spread n es)"
| rs_inline_directives: "reorder_directives ds es \<Longrightarrow> reorder_selection (Inline t ds ss) (Inline t es ss)"
| rs_inline_set: "reorder_set ss ts \<Longrightarrow> reorder_selection (Inline t ds ss) (Inline t ds ts)"
| rs_perm: "mset ss = mset ts \<Longrightarrow> reorder_set ss ts"
| rs_member: "reorder_selection s t \<Longrightarrow> reorder_set (ss @ s # ts) (ss @ t # ts)"

inductive reorder_definition :: "gql_definition \<Rightarrow> gql_definition \<Rightarrow> bool" where
  rf_fragment_directives:
    "reorder_directives ds es \<Longrightarrow> reorder_definition (Fragment n t ds ss) (Fragment n t es ss)"
| rf_fragment_set: "reorder_set ss ts \<Longrightarrow> reorder_definition (Fragment n t ds ss) (Fragment n t ds ts)"
| rf_variables: "mset vs = mset ws \<Longrightarrow> reorder_definition (Operation op n vs ds ss) (Operation op n ws ds ss)"
| rf_default: "reorder_value v w \<Longrightarrow>
    reorder_definition (Operation op n (vs @ (x, t, Some v) # ws) ds ss) (Operation op n (vs @ (x, t, Some w) # ws) ds ss)"
| rf_directives:
    "reorder_directives ds es \<Longrightarrow> reorder_definition (Operation op n vs ds ss) (Operation op n vs es ss)"
| rf_set: "reorder_set ss ts \<Longrightarrow> reorder_definition (Operation op n vs ds ss) (Operation op n vs ds ts)"
| rf_shorthand: "reorder_set ss ts \<Longrightarrow> reorder_definition (Shorthand ss) (Shorthand ts)"

inductive reorder_document :: "gql_definition list \<Rightarrow> gql_definition list \<Rightarrow> bool" where
  ro_perm: "mset ds = mset es \<Longrightarrow> reorder_document ds es"
| ro_member: "reorder_definition d e \<Longrightarrow> reorder_document (ds @ d # es) (ds @ e # es)"

lemma sorted_join_cong: "mset xs = mset ys \<Longrightarrow> sorted_join sep xs = sorted_join sep ys"
  unfolding sorted_join_def by (metis mset_sort properties_for_sort sorted_sort)

lemma sorted_join_map_cong:
  "mset xs = mset ys \<Longrightarrow> sorted_join sep (map f xs) = sorted_join sep (map f ys)"
  by (rule sorted_join_cong) simp

lemmas canon_sets = canon_args_def canon_directives_def canon_variables_def canon_set_def canon_document_def

lemma canon_reorder_value: "reorder_value v w \<Longrightarrow> canon_value pr v = canon_value pr w"
  by (induction rule: reorder_value.induct) (auto intro: sorted_join_map_cong)

lemma canon_reorder_args: "reorder_args as bs \<Longrightarrow> canon_args pr as = canon_args pr bs"
  by (induction rule: reorder_args.induct)
    (auto simp: canon_args_def canon_reorder_value intro: sorted_join_map_cong)

lemma canon_reorder_directives:
  "reorder_directives ds es \<Longrightarrow> canon_directives pr ds = canon_directives pr es"
  by (induction rule: reorder_directives.induct)
    (auto simp: canon_directives_def canon_reorder_args intro: sorted_join_map_cong)

lemma mset_Nil_iff: "mset xs = mset ys \<Longrightarrow> xs = [] \<longleftrightarrow> ys = []"
  by (metis mset_zero_iff)

lemma canon_reorder_selection:
  "reorder_selection s t \<Longrightarrow> canon_selection pr s = canon_selection pr t"
  "reorder_set ss ts \<Longrightarrow> canon_set pr ss = canon_set pr ts \<and> (ss = [] \<longleftrightarrow> ts = [])"
proof (induction rule: reorder_selection_reorder_set.inducts)
  case (rs_perm ss ts)
  then show ?case by (auto simp: canon_set_def intro: sorted_join_map_cong)
qed (simp_all add: canon_set_def canon_reorder_args canon_reorder_directives)

lemma canon_reorder_definition:
  "reorder_definition d e \<Longrightarrow> canon_definition pr d = canon_definition pr e"
  by (induction rule: reorder_definition.induct)
    (auto simp: canon_reorder_directives canon_reorder_selection canon_reorder_value canon_variables_def
      canon_variable_def intro: sorted_join_map_cong)

lemma canon_reorder_document:
  "reorder_document ds es \<Longrightarrow> canon_document pr ds = canon_document pr es"
  by (induction rule: reorder_document.induct)
    (auto simp: canon_document_def canon_reorder_definition intro: sorted_join_map_cong)

lemma list_all_mset_cong: "mset xs = mset ys \<Longrightarrow> list_all P xs = list_all P ys"
  by (simp add: list_all_iff flip: set_mset_mset)

lemma wf_reorder_selection:
  "reorder_selection s t \<Longrightarrow> wf_selection s \<Longrightarrow> wf_selection t"
  "reorder_set ss ts \<Longrightarrow> list_all wf_selection ss \<Longrightarrow> list_all wf_selection ts \<and> (ss = [] \<longleftrightarrow> ts = [])"
proof (induction rule: reorder_selection_reorder_set.inducts)
  case (rs_perm ss ts)
  then show ?case by (metis list_all_mset_cong mset_Nil_iff)
qed auto

lemma wf_reorder_definition: "reorder_definition d e \<Longrightarrow> wf_definition d \<Longrightarrow> wf_definition e"
  by (induction rule: reorder_definition.induct) (auto simp: wf_set_def dest: wf_reorder_selection)

lemma wf_reorder_document:
  "reorder_document ds es \<Longrightarrow> list_all wf_definition ds \<Longrightarrow> list_all wf_definition es"
proof (induction rule: reorder_document.induct)
  case (ro_perm ds es)
  then show ?case using list_all_mset_cong by blast
qed (auto dest: wf_reorder_definition)

lemma reorders_canon_wf:
  "reorder_document\<^sup>*\<^sup>* ds es \<Longrightarrow> list_all wf_definition ds \<Longrightarrow>
   canon_document pr ds = canon_document pr es \<and> list_all wf_definition es"
  by (induction rule: rtranclp_induct) (auto simp: canon_reorder_document dest: wf_reorder_document)

lemma reorders_Nil: "reorder_document\<^sup>*\<^sup>* ds es \<Longrightarrow> ds \<noteq> [] \<Longrightarrow> es \<noteq> []"
proof (induction rule: rtranclp_induct)
  case (step es fs)
  from step(2) show ?case using step.IH [OF step.prems]
    by (cases rule: reorder_document.cases) auto
qed

lemma parse_document_reorder:
  "reorder_document\<^sup>*\<^sup>* ds es \<Longrightarrow> list_all wf_definition ds \<Longrightarrow>
   parse_document pr (document_tokens es) = parse_document pr (document_tokens ds)"
  using reorders_canon_wf parse_document_tokens by metis

end
