(* ===== verification/GraphQL_Matcher.thy ===== *)
theory GraphQL_Matcher
  imports GraphQL_Spec
begin

text \<open>
  The custom matcher of \<^verbatim>\<open>internal/matcher/graphql.go\<close> (\<^verbatim>\<open>graphql-body-matcher\<close>): parsing it from
  a stub mapping and matching it with a request body.
\<close>

text \<open>The flag and value pairs \<^verbatim>\<open>hasVariables, variables\<close> and \<^verbatim>\<open>hasOperation, operation\<close> of the code.\<close>

record graphql_body_matcher =
  gm_query :: string
  gm_has_variables :: bool
  gm_variables :: string
  gm_has_operation :: bool
  gm_operation :: string

record graphql_request_body =
  gr_query :: string
  gr_has_variables :: bool
  gr_variables :: string
  gr_has_operation :: bool
  gr_operation :: string

text \<open>\<^verbatim>\<open>CustomMatcher\<close> holds a pointer that every constructor sets.\<close>

type_synonym custom_matcher = graphql_body_matcher

definition string_raw :: "string \<Rightarrow> string \<Rightarrow> string res" where
  "string_raw raw field = res_of_option (field @ '' must be a string'') (unmarshal_string raw)"

definition string_from_object :: "(string \<times> string) list \<Rightarrow> string \<Rightarrow> bool \<Rightarrow> string res" where
  "string_from_object obj field required =
     (if raw_absent (map_of obj field) then
        (if required then Err (field @ '' is required'') else Ok [])
      else string_raw (the (map_of obj field)) field)"

text \<open>The optional \<^verbatim>\<open>variables\<close> object, normalised, and the optional \<^verbatim>\<open>operationName\<close>.\<close>

definition graphql_variables :: "golib \<Rightarrow> string \<Rightarrow> (string \<times> string) list \<Rightarrow> (bool \<times> string) res" where
  "graphql_variables L e obj =
     (case map_of obj ''variables'' of
        None \<Rightarrow> Ok (False, [])
      | Some raw \<Rightarrow>
          if raw_is_null raw then Ok (False, [])
          else (case normalize_raw_json L raw of None \<Rightarrow> Err e | Some normalized \<Rightarrow> Ok (True, normalized)))"

definition graphql_operation :: "string \<Rightarrow> (string \<times> string) list \<Rightarrow> (bool \<times> string) res" where
  "graphql_operation field obj =
     (case map_of obj ''operationName'' of
        None \<Rightarrow> Ok (False, [])
      | Some raw \<Rightarrow>
          if raw_is_null raw then Ok (False, [])
          else bind_res (string_raw raw field) (\<lambda>name. Ok (True, name)))"

definition parse_graphql_body_matcher :: "golib \<Rightarrow> string option \<Rightarrow> graphql_body_matcher res" where
  "parse_graphql_body_matcher L raw =
     (if raw_absent raw then Err ''request.customMatcher.parameters is required''
      else
        (case unmarshal_object (the raw) of
           None \<Rightarrow> Err ''request.customMatcher.parameters must be a JSON object''
         | Some parameters \<Rightarrow>
             bind_res (string_from_object parameters ''query'' True) (\<lambda>query.
             bind_res (wrap_err ''request.customMatcher.parameters.query: '' (parse_graphql_document (is_print L) query))
               (\<lambda>document.
             bind_res (graphql_variables L ''request.customMatcher.parameters.variables must be valid JSON'' parameters)
               (\<lambda>(has_variables, variables).
             bind_res (graphql_operation ''request.customMatcher.parameters.operationName'' parameters)
               (\<lambda>(has_operation, operation).
             Ok \<lparr>gm_query = document, gm_has_variables = has_variables, gm_variables = variables,
                 gm_has_operation = has_operation, gm_operation = operation\<rparr>))))))"

definition parse_custom_matcher :: "golib \<Rightarrow> string option \<Rightarrow> custom_matcher option res" where
  "parse_custom_matcher L raw =
     (if raw_absent raw then Ok None
      else
        (case unmarshal_object (the raw) of
           None \<Rightarrow> Err ''request.customMatcher must be a JSON object''
         | Some obj \<Rightarrow>
             bind_res (string_from_object obj ''name'' True) (\<lambda>name.
             if name \<noteq> ''graphql-body-matcher'' then
               Err (''unsupported request.customMatcher.name '' @ go_quote (is_print L) name)
             else bind_res (parse_graphql_body_matcher L (map_of obj ''parameters'')) (\<lambda>m. Ok (Some m)))))"

definition parse_graphql_request_body :: "golib \<Rightarrow> string \<Rightarrow> graphql_request_body res" where
  "parse_graphql_request_body L raw =
     (case unmarshal_object raw of
        None \<Rightarrow> Err ''GraphQL request body must be a JSON object''
      | Some obj \<Rightarrow>
          bind_res (string_from_object obj ''query'' True) (\<lambda>query.
          bind_res (graphql_variables L ''invalid JSON'' obj) (\<lambda>(has_variables, variables).
          bind_res (graphql_operation ''operationName'' obj) (\<lambda>(has_operation, operation).
          Ok \<lparr>gr_query = query, gr_has_variables = has_variables, gr_variables = variables,
              gr_has_operation = has_operation, gr_operation = operation\<rparr>))))"

text \<open>An error of either parser is a mismatch; neither panics (\<open>parse_graphql_document_no_panic\<close>).\<close>

definition graphql_matches :: "golib \<Rightarrow> graphql_body_matcher \<Rightarrow> body_context \<Rightarrow> bool" where
  "graphql_matches L m body =
     (case parse_graphql_request_body L (body_raw body) of
        Ok parsed \<Rightarrow>
          (case parse_graphql_document (is_print L) (gr_query parsed) of
             Ok canonical \<Rightarrow>
               if gm_query m \<noteq> canonical then False
               else if gm_has_variables m \<noteq> gr_has_variables parsed then False
               else if gm_has_variables m \<and> gm_variables m \<noteq> gr_variables parsed then False
               else if gm_has_operation m \<noteq> gr_has_operation parsed then False
               else if gm_has_operation m \<and> gm_operation m \<noteq> gr_operation parsed then False
               else True
           | _ \<Rightarrow> False)
      | _ \<Rightarrow> False)"

definition custom_matches :: "golib \<Rightarrow> custom_matcher option \<Rightarrow> body_context \<Rightarrow> bool" where
  "custom_matches L cm body = (case cm of None \<Rightarrow> True | Some m \<Rightarrow> graphql_matches L m body)"

section \<open>No panic\<close>

lemma string_from_object_no_panic [simp]: "string_from_object obj field required \<noteq> Panic"
  by (simp add: string_from_object_def string_raw_def)

lemma graphql_variables_no_panic [simp]: "graphql_variables L e obj \<noteq> Panic"
  by (simp add: graphql_variables_def split: option.split)

lemma graphql_operation_no_panic [simp]: "graphql_operation field obj \<noteq> Panic"
  by (auto simp: graphql_operation_def string_raw_def res_simps split: option.split)

lemma parse_graphql_body_matcher_no_panic [simp]: "parse_graphql_body_matcher L raw \<noteq> Panic"
  by (auto simp: parse_graphql_body_matcher_def res_simps parse_graphql_document_no_panic
      split: option.split)

lemma parse_graphql_request_body_no_panic [simp]: "parse_graphql_request_body L raw \<noteq> Panic"
  by (auto simp: parse_graphql_request_body_def res_simps split: option.split)

lemma parse_custom_matcher_no_panic: "parse_custom_matcher L raw \<noteq> Panic"
  by (auto simp: parse_custom_matcher_def res_simps split: option.split)

section \<open>What a match means\<close>

text \<open>The option behind a flag and a value.\<close>

definition flagged :: "bool \<Rightarrow> 'a \<Rightarrow> 'a option" where
  "flagged b x = (if b then Some x else None)"

lemma graphql_matches_iff:
  "graphql_matches L m body \<longleftrightarrow>
     (\<exists>p. parse_graphql_request_body L (body_raw body) = Ok p
        \<and> parse_graphql_document (is_print L) (gr_query p) = Ok (gm_query m)
        \<and> flagged (gm_has_variables m) (gm_variables m) = flagged (gr_has_variables p) (gr_variables p)
        \<and> flagged (gm_has_operation m) (gm_operation m) = flagged (gr_has_operation p) (gr_operation p))"
  by (auto simp: graphql_matches_def flagged_def split: res.splits)

text \<open>A matcher built from a document accepts the request that carries the same document.\<close>

lemma flagged_self: "graphql_variables L e obj = Ok (b, v) \<Longrightarrow> graphql_variables L e' obj = Ok (b, v)"
  by (auto simp: graphql_variables_def split: option.splits if_splits)

lemma graphql_operation_field:
  "graphql_operation f obj = Ok (b, v) \<Longrightarrow> graphql_operation f' obj = Ok (b, v)"
  by (auto simp: graphql_operation_def string_raw_def res_simps split: option.splits if_splits)

lemma graphql_matches_self:
  assumes "parse_graphql_body_matcher L (Some raw) = Ok m"
  shows "graphql_matches L m (Some raw)"
proof -
  from assms obtain ps q d hv v ho op where
    ps: "unmarshal_object raw = Some ps" "string_from_object ps ''query'' True = Ok q"
    and d: "parse_graphql_document (is_print L) q = Ok d"
    and v: "graphql_variables L ''request.customMatcher.parameters.variables must be valid JSON'' ps = Ok (hv, v)"
    and op: "graphql_operation ''request.customMatcher.parameters.operationName'' ps = Ok (ho, op)"
    and m: "m = \<lparr>gm_query = d, gm_has_variables = hv, gm_variables = v, gm_has_operation = ho, gm_operation = op\<rparr>"
    unfolding parse_graphql_body_matcher_def
    by (auto simp: res_simps split: if_splits option.splits)
  have "parse_graphql_request_body L raw = Ok \<lparr>gr_query = q, gr_has_variables = hv, gr_variables = v,
      gr_has_operation = ho, gr_operation = op\<rparr>"
    using ps flagged_self [OF v] graphql_operation_field [OF op]
    by (simp add: parse_graphql_request_body_def)
  with d m show ?thesis by (simp add: graphql_matches_iff body_raw_def)
qed

text \<open>Two queries whose token sequences are reorderings of one document have one canonical string.\<close>

lemma reordered_queries:
  assumes "tokenize_graphql q = Ok (document_tokens ds)" "tokenize_graphql q' = Ok (document_tokens es)"
    and "reorder_document\<^sup>*\<^sup>* ds es" and "list_all wf_definition ds" and "ds \<noteq> []"
  shows "parse_graphql_document pr q' = parse_graphql_document pr q"
    and "parse_graphql_document pr q = Ok (canon_document pr ds)"
proof -
  have es: "list_all wf_definition es" "canon_document pr ds = canon_document pr es"
    using reorders_canon_wf assms by blast+
  have nonempty: "document_tokens xs \<noteq> []" if "xs \<noteq> []" for xs
    using that definition_tokens_nonempty [of "hd xs"] by (cases xs) (auto simp: document_tokens_def)
  have es_ne: "es \<noteq> []" using reorders_Nil assms(3,5) .
  show "parse_graphql_document pr q = Ok (canon_document pr ds)"
    using assms nonempty
    by (simp add: parse_graphql_document_def new_graphql_parser_def parse_document_tokens)
  then show "parse_graphql_document pr q' = parse_graphql_document pr q"
    using assms es nonempty es_ne
    by (simp add: parse_graphql_document_def new_graphql_parser_def parse_document_tokens)
qed

end
