(* ===== verification/Go_Base64.thy ===== *)
theory Go_Base64
  imports Go_Strings
begin

text \<open>
  \<^verbatim>\<open>base64.StdEncoding\<close>: the decoder that \<^verbatim>\<open>mapping/model.go\<close> calls for \<^verbatim>\<open>base64Body\<close> and the encoder
  that the recorder and the gRPC error path call. Decoding skips line breaks, wants the padding and
  does not look at the unused bits of the last sextet.
\<close>

definition sextet_char :: "nat \<Rightarrow> char" where
  "sextet_char n =
     (if n < 26 then chr (65 + n) else if n < 52 then chr (71 + n)
      else if n < 62 then chr (n - 4) else if n = 62 then CHR ''+'' else CHR ''/'')"

definition sextet_val :: "char \<Rightarrow> nat option" where
  "sextet_val c =
     (if is_upper c then Some (byte c - 65) else if is_lower c then Some (byte c - 71)
      else if is_digit c then Some (byte c + 4)
      else if c = CHR ''+'' then Some 62 else if c = CHR ''/'' then Some 63 else None)"

text \<open>\<^verbatim>\<open>Encoding.EncodeToString\<close>\<close>

fun base64_encode :: "string \<Rightarrow> string" where
  "base64_encode [] = []"
| "base64_encode [a] =
     [sextet_char (byte a div 4), sextet_char (byte a mod 4 * 16), CHR ''='', CHR ''='']"
| "base64_encode [a, b] =
     [sextet_char (byte a div 4), sextet_char (byte a mod 4 * 16 + byte b div 16),
      sextet_char (byte b mod 16 * 4), CHR ''='']"
| "base64_encode (a # b # c # s) =
     sextet_char (byte a div 4) # sextet_char (byte a mod 4 * 16 + byte b div 16)
     # sextet_char (byte b mod 16 * 4 + byte c div 64) # sextet_char (byte c mod 64) # base64_encode s"

text \<open>Four characters of input are a quantum; the padding ends the input.\<close>

fun decode_quanta :: "string \<Rightarrow> string option" where
  "decode_quanta [] = Some []"
| "decode_quanta (a # b # c # d # s) =
     (case (sextet_val a, sextet_val b) of
        (Some w, Some x) \<Rightarrow>
          if c = CHR ''='' then
            (if d = CHR ''='' \<and> s = [] then Some [chr (w * 4 + x div 16)] else None)
          else
            (case sextet_val c of
               None \<Rightarrow> None
             | Some y \<Rightarrow>
                 if d = CHR ''='' then
                   (if s = [] then Some [chr (w * 4 + x div 16), chr (x mod 16 * 16 + y div 4)] else None)
                 else
                   (case sextet_val d of
                      None \<Rightarrow> None
                    | Some z \<Rightarrow>
                        map_option (\<lambda>t. chr (w * 4 + x div 16) # chr (x mod 16 * 16 + y div 4)
                            # chr (y mod 4 * 64 + z) # t) (decode_quanta s)))
      | _ \<Rightarrow> None)"
| "decode_quanta _ = None"

definition not_line_break :: "char \<Rightarrow> bool" where
  "not_line_break c \<longleftrightarrow> byte c \<noteq> 10 \<and> byte c \<noteq> 13"

definition base64_decode :: "string \<Rightarrow> string option" where
  "base64_decode s = decode_quanta (filter not_line_break s)"

section \<open>Round trip\<close>

lemma byte_less: "byte c < 256"
  using range_nat_of_char by (metis atLeastLessThan_iff rangeI)

lemma byte_sextet_char:
  "n < 64 \<Longrightarrow> byte (sextet_char n) =
     (if n < 26 then 65 + n else if n < 52 then 71 + n else if n < 62 then n - 4 else if n = 62 then 43 else 47)"
  by (auto simp: sextet_char_def byte_chr)

lemma sextet_val_char [simp]: "n < 64 \<Longrightarrow> sextet_val (sextet_char n) = Some n"
  by (auto simp: sextet_val_def is_upper_def is_lower_def is_digit_def byte_sextet_char char_eq_byte
      simp del: of_char_eq_iff)

lemma sextet_char_plain [simp]:
  "n < 64 \<Longrightarrow> sextet_char n \<noteq> CHR ''=''" "n < 64 \<Longrightarrow> not_line_break (sextet_char n)"
  by (auto simp: not_line_break_def byte_sextet_char char_eq_byte simp del: of_char_eq_iff)

lemma sextets_less [simp]:
  "byte a div 4 < 64" "byte a mod 4 * 16 < 64" "byte a mod 4 * 16 + byte b div 16 < 64"
  "byte a mod 16 * 4 < 64" "byte a mod 16 * 4 + byte b div 64 < 64" "byte a mod 64 < 64"
  using byte_less [of a] byte_less [of b] by linarith+

lemma chr_byte [simp]: "chr (byte a) = a"
  by simp

lemma first_byte: "chr (byte a div 4 * 4 + (byte a mod 4 * 16 + m) div 16) = a" if "m < 16"
proof -
  have "(byte a mod 4 * 16 + m) div 16 = byte a mod 4" using that by simp
  then show ?thesis by simp
qed

lemma second_byte: "chr ((m * 16 + byte b div 16) mod 16 * 16 + (byte b mod 16 * 4 + k) div 4) = b"
  if "k < 4"
proof -
  have "byte b div 16 < 16" using byte_less [of b] by linarith
  moreover have "(byte b mod 16 * 4 + k) div 4 = byte b mod 16" using that by simp
  ultimately show ?thesis by simp
qed

lemma third_byte: "chr ((m * 4 + byte c div 64) mod 4 * 64 + byte c mod 64) = c"
proof -
  have "byte c div 64 < 4" using byte_less [of c] by linarith
  then show ?thesis by simp
qed

lemma div_less_bytes [simp]: "byte b div 16 < 16" "byte b div 64 < 4"
  using byte_less [of b] by linarith+

lemma not_line_break_pad [simp]: "not_line_break (CHR ''='')"
  by (simp add: not_line_break_def)

lemma filter_encode: "filter not_line_break (base64_encode s) = base64_encode s"
  by (induction s rule: base64_encode.induct) simp_all

lemma decode_quanta_encode: "decode_quanta (base64_encode s) = Some s"
proof (induction s rule: base64_encode.induct)
  case (2 a)
  show ?case using first_byte [of 0 a] by simp
next
  case (3 a b)
  show ?case using second_byte [of 0 "byte a mod 4" b] by (simp add: first_byte)
next
  case (4 a b c s)
  then show ?case by (simp add: first_byte second_byte third_byte)
qed simp

lemma base64_decode_encode: "base64_decode (base64_encode s) = Some s"
  by (simp add: base64_decode_def filter_encode decode_quanta_encode)

end
