(* ===== verification/Mapping_Model.thy ===== *)
theory Mapping_Model
  imports GraphQL_Matcher Go_Base64
begin

text \<open>
  The data of \<^verbatim>\<open>internal/mapping/model.go\<close>: stub mappings, request patterns, response definitions
  and their parsing from JSON. A nil slice or pointer the code tells apart from an empty one is
  \<open>None\<close>. The random bytes of \<^verbatim>\<open>rand.Read\<close> are an argument (\<open>None\<close> where reading them fails).
\<close>

section \<open>Data\<close>

record scenario_info =
  sc_name :: string
  sc_required_state :: string
  sc_new_state :: string

record request_pattern =
  rp_method :: string
  rp_url :: string
  rp_url_path :: string
  rp_url_pattern :: string
  rp_url_path_pattern :: string
  rp_body_patterns :: "body_pattern list"
  rp_query_parameters :: equal_to_map
  rp_headers :: equal_to_map
  rp_custom_matcher :: "custom_matcher option"
  rp_url_regex :: "string option"
  rp_path_regex :: "string option"

text \<open>\<^verbatim>\<open>ResponseTemplateSegment\<close>: the flag \<^verbatim>\<open>Helper\<close> tells which of the other two fields is used.\<close>

datatype template_segment = SegLiteral string | SegHelper json_path

record delay_distribution =
  dd_type :: string
  dd_lower :: int
  dd_upper :: int
  dd_median :: int
  dd_sigma :: f64

record chunked_dribble_delay =
  cd_number_of_chunks :: int
  cd_total_duration :: int

record response_definition =
  rd_status :: int
  rd_headers :: header_map
  rd_body :: "string option"
  rd_json :: bool
  rd_body_file :: string
  rd_transformers :: "string list"
  rd_template :: "template_segment list option"
  rd_proxy_base_url :: string
  rd_proxy_url_prefix_to_remove :: string
  rd_fixed_delay :: int
  rd_delay_distribution :: "delay_distribution option"
  rd_chunked_dribble_delay :: "chunked_dribble_delay option"

text \<open>The raw members of the JSON object the mapping came from, in one order of the Go map.\<close>

type_synonym raw_map = "(string \<times> string) list"

record mapping_stub =
  m_id :: string
  m_name :: string
  m_persistent :: bool
  m_priority :: int
  m_scenario :: scenario_info
  m_request :: request_pattern
  m_response :: response_definition
  m_raw :: raw_map
  m_sequence :: "64 word"

definition default_priority :: int where
  "default_priority = 5"

definition http_status_ok :: int where
  "http_status_ok = 200"

section \<open>Identifiers\<close>

definition hex_byte :: "8 word \<Rightarrow> string" where
  "hex_byte b = [hex_digit (unat b div 16), hex_digit (unat b mod 16)]"

definition hex_encode :: "8 word list \<Rightarrow> string" where
  "hex_encode bs = concat (map hex_byte bs)"

unbundle bit_operations_syntax

text \<open>\<^verbatim>\<open>NewID\<close> on sixteen random bytes.\<close>

definition new_id :: "8 word list option \<Rightarrow> string res" where
  "new_id rand =
     (case rand of
        None \<Rightarrow> Err ''rand''
      | Some b0 \<Rightarrow>
          (let b1 = b0[6 := (b0 ! 6 AND 0x0f) OR 0x40];
               b = b1[8 := (b1 ! 8 AND 0x3f) OR 0x80]
           in Ok (hex_encode (take 4 b) @ ''-'' @ hex_encode (take 2 (drop 4 b)) @ ''-''
                  @ hex_encode (take 2 (drop 6 b)) @ ''-'' @ hex_encode (take 2 (drop 8 b)) @ ''-''
                  @ hex_encode (drop 10 b))))"

definition is_valid_id :: "string \<Rightarrow> bool" where
  "is_valid_id ident \<longleftrightarrow>
     length ident = 36
     \<and> list_all (\<lambda>i. if i \<in> set [8, 13, 18, 23] then ident ! i = CHR ''-'' else is_hex (ident ! i)) [0..<36]"

definition validate_id :: "string \<Rightarrow> unit res" where
  "validate_id ident = guard_res (is_valid_id ident) (ident @ '' is not a valid UUID'')"

section \<open>Fields of a JSON object\<close>

definition typed_field :: "(string \<Rightarrow> 'a option) \<Rightarrow> string \<Rightarrow> raw_map \<Rightarrow> string \<Rightarrow> 'a \<Rightarrow> 'a res" where
  "typed_field decode kind raw field fallback =
     (if raw_absent (map_of raw field) then Ok fallback
      else res_of_option (field @ '' must be '' @ kind) (decode (the (map_of raw field))))"

definition string_field :: "raw_map \<Rightarrow> string \<Rightarrow> string res" where
  "string_field raw field = typed_field unmarshal_string ''a string'' raw field []"

definition bool_field :: "raw_map \<Rightarrow> string \<Rightarrow> bool res" where
  "bool_field raw field = typed_field unmarshal_bool ''a boolean'' raw field False"

definition int_field :: "raw_map \<Rightarrow> string \<Rightarrow> int \<Rightarrow> int res" where
  "int_field raw field fallback = typed_field unmarshal_int ''an integer'' raw field fallback"

definition float_field :: "raw_map \<Rightarrow> string \<Rightarrow> f64 \<Rightarrow> f64 res" where
  "float_field raw field fallback = typed_field unmarshal_float ''a number'' raw field fallback"

definition parse_string_array_field :: "raw_map \<Rightarrow> string \<Rightarrow> string list res" where
  "parse_string_array_field raw field = typed_field unmarshal_strings ''a string array'' raw field []"

definition validate_object_field :: "raw_map \<Rightarrow> string \<Rightarrow> bool \<Rightarrow> unit res" where
  "validate_object_field raw field required =
     (case map_of raw field of
        None \<Rightarrow> if required then Err (field @ '' is required'') else Ok ()
      | Some value \<Rightarrow>
          (case unmarshal_object value of
             None \<Rightarrow> Err (field @ '' must be a JSON object'')
           | Some obj \<Rightarrow> Ok ()))"

text \<open>
  One JSON object and nothing after it, as \<^verbatim>\<open>decodeObject\<close> checks it: \<^verbatim>\<open>Decoder.More\<close> answers false
  for a closing bracket or brace, and the second \<^verbatim>\<open>Decode\<close> then fails as it does at the end.
\<close>

definition decoder_more :: "string \<Rightarrow> bool" where
  "decoder_more rest =
     (case skip_ws rest of [] \<Rightarrow> False | c # _ \<Rightarrow> c \<noteq> CHR '']'' \<and> c \<noteq> CHR ''}'')"

definition decode_object :: "string \<Rightarrow> raw_map res" where
  "decode_object data =
     (case decode_stream data of
        None \<Rightarrow> Err ''mapping body must be a valid JSON object: ''
      | Some (JObj ms, rest) \<Rightarrow>
          if decoder_more rest then Err ''mapping body must contain a single JSON object''
          else if decode_stream rest \<noteq> None then Err ''mapping body must contain a single JSON object''
          else Ok (members_of ms)
      | Some (JNull, rest) \<Rightarrow> Err ''mapping body must be a JSON object''
      | Some (_, rest) \<Rightarrow> Err ''mapping body must be a valid JSON object: '')"

definition parse_scenario :: "raw_map \<Rightarrow> scenario_info res" where
  "parse_scenario raw =
     bind_res (string_field raw ''scenarioName'') (\<lambda>name.
     bind_res (string_field raw ''requiredScenarioState'') (\<lambda>required_state.
     bind_res (string_field raw ''newScenarioState'') (\<lambda>new_state.
     Ok \<lparr>sc_name = name, sc_required_state = required_state, sc_new_state = new_state\<rparr>)))"

section \<open>Requests\<close>

definition parse_body_patterns :: "golib \<Rightarrow> string option \<Rightarrow> body_pattern list res" where
  "parse_body_patterns L raw =
     (if raw_absent raw then Ok []
      else (case unmarshal_array (the raw) of
              None \<Rightarrow> Err ''request.bodyPatterns must be a JSON array''
            | Some entries \<Rightarrow> map_res (parse_body_pattern L) entries))"

text \<open>\<^verbatim>\<open>regexp.Compile\<close> of a pattern, unless it is empty.\<close>

definition compile_pattern :: "golib \<Rightarrow> string \<Rightarrow> string \<Rightarrow> string option res" where
  "compile_pattern L field pattern =
     (if pattern = [] then Ok None
      else if re_compiles L pattern then Ok (Some pattern)
      else Err (field @ '' must be a valid regexp: ''))"

definition parse_request :: "golib \<Rightarrow> string \<Rightarrow> request_pattern res" where
  "parse_request L raw =
     (case unmarshal_object raw of
        None \<Rightarrow> Err ''request must be a JSON object''
      | Some obj \<Rightarrow>
          bind_res (string_field obj ''method'') (\<lambda>meth.
          bind_res (string_field obj ''url'') (\<lambda>url.
          bind_res (string_field obj ''urlPath'') (\<lambda>url_path.
          bind_res (string_field obj ''urlPattern'') (\<lambda>url_pattern.
          bind_res (string_field obj ''urlPathPattern'') (\<lambda>url_path_pattern.
          bind_res (parse_body_patterns L (map_of obj ''bodyPatterns'')) (\<lambda>body_patterns.
          bind_res (parse_equal_to_map (map_of obj ''queryParameters'') ''request.queryParameters'')
            (\<lambda>query_parameters.
          bind_res (parse_equal_to_map (map_of obj ''headers'') ''request.headers'') (\<lambda>headers.
          bind_res (parse_custom_matcher L (map_of obj ''customMatcher'')) (\<lambda>custom_matcher.
          bind_res (compile_pattern L ''request.urlPattern'' url_pattern) (\<lambda>url_regex.
          bind_res (compile_pattern L ''request.urlPathPattern'' url_path_pattern) (\<lambda>path_regex.
          Ok \<lparr>rp_method = to_upper meth, rp_url = url, rp_url_path = url_path,
              rp_url_pattern = url_pattern, rp_url_path_pattern = url_path_pattern,
              rp_body_patterns = body_patterns, rp_query_parameters = query_parameters,
              rp_headers = headers, rp_custom_matcher = custom_matcher,
              rp_url_regex = url_regex, rp_path_regex = path_regex\<rparr>))))))))))))"

definition uses_query :: "request_pattern \<Rightarrow> bool" where
  "uses_query p \<longleftrightarrow> 0 < length (rp_query_parameters p)"

definition requires_body :: "request_pattern \<Rightarrow> bool" where
  "requires_body p \<longleftrightarrow> 0 < length (rp_body_patterns p) \<or> rp_custom_matcher p \<noteq> None"

definition matches_method :: "request_pattern \<Rightarrow> string \<Rightarrow> bool" where
  "matches_method p meth =
     (if rp_method p = ''ANY'' then True
      else if rp_method p = '''' then False
      else equal_fold (rp_method p) meth)"

text \<open>The leftmost match covers the whole text.\<close>

definition regex_covers :: "golib \<Rightarrow> string \<Rightarrow> string \<Rightarrow> bool" where
  "regex_covers L pattern s =
     (case re_find L pattern s of
        None \<Rightarrow> False
      | Some (from, to) \<Rightarrow> from = 0 \<and> to = length s)"

definition matches_url :: "golib \<Rightarrow> request_pattern \<Rightarrow> string \<Rightarrow> string \<Rightarrow> bool" where
  "matches_url L p request_uri path =
     (if rp_url p \<noteq> [] then request_uri = rp_url p
      else if rp_url_path p \<noteq> [] then path = rp_url_path p
      else (case rp_url_regex p of
              Some re \<Rightarrow> regex_covers L re request_uri
            | None \<Rightarrow>
                (case rp_path_regex p of
                   Some re \<Rightarrow> regex_covers L re path
                 | None \<Rightarrow> False)))"

text \<open>
  \<^verbatim>\<open>MatchesLazy\<close>. The query is a pure function of the URL. The body provider works on a state: it
  is called for a pattern that needs the body, and only once everything else has matched.
\<close>

definition matches_lazy ::
  "golib \<Rightarrow> request_pattern \<Rightarrow> string \<Rightarrow> string \<Rightarrow> string \<Rightarrow> header_map \<Rightarrow> header_map
    \<Rightarrow> ('s \<Rightarrow> body_context \<times> 's) \<Rightarrow> 's \<Rightarrow> bool \<times> 's" where
  "matches_lazy L p meth request_uri path query headers body s =
     (if \<not> matches_method p meth then (False, s)
      else if \<not> matches_url L p request_uri path then (False, s)
      else if 0 < length (rp_query_parameters p) \<and> \<not> match_query (rp_query_parameters p) query
      then (False, s)
      else if \<not> match_headers (rp_headers p) headers then (False, s)
      else if requires_body p then
        (case body s of
           (None, s') \<Rightarrow> (False, s')
         | (Some raw, s') \<Rightarrow>
             if \<not> match_body_patterns_with_context L (rp_body_patterns p) (Some raw) then (False, s')
             else if rp_custom_matcher p \<noteq> None \<and> \<not> custom_matches L (rp_custom_matcher p) (Some raw)
             then (False, s')
             else (True, s'))
      else (True, s))"

definition request_matches ::
  "golib \<Rightarrow> request_pattern \<Rightarrow> string \<Rightarrow> string \<Rightarrow> string \<Rightarrow> header_map \<Rightarrow> header_map
    \<Rightarrow> body_context \<Rightarrow> bool" where
  "request_matches L p meth request_uri path query headers body =
     fst (matches_lazy L p meth request_uri path query headers (\<lambda>u. (body, u)) ())"

section \<open>Response templates\<close>

text \<open>
  The helper pattern: two opening braces, the word jsonPath, the word request.body and an expression in
  quotes, with white space between, and two closing braces. Every part starts with a character the
  part before it cannot take, so a match attempt never backtracks.
\<close>

definition re_space :: "char \<Rightarrow> bool" where
  "re_space c \<longleftrightarrow> byte c \<in> {9, 10, 12, 13, 32}"

definition eat :: "string \<Rightarrow> string \<Rightarrow> string option" where
  "eat p s = (if prefix p s then Some (drop (length p) s) else None)"

definition eat_spaces1 :: "string \<Rightarrow> string option" where
  "eat_spaces1 s =
     (case s of c # r \<Rightarrow> if re_space c then Some (dropWhile re_space r) else None | [] \<Rightarrow> None)"

definition eat_quoted :: "string \<Rightarrow> (string \<times> string) option" where
  "eat_quoted s =
     (case s of
        [] \<Rightarrow> None
      | q # r \<Rightarrow>
          if q = CHR 0x27 \<or> q = CHR 0x22 then
            (case dropWhile (\<lambda>c. c \<noteq> q) r of
               [] \<Rightarrow> None
             | _ # r' \<Rightarrow> Some (takeWhile (\<lambda>c. c \<noteq> q) r, r'))
          else None)"

text \<open>A match at the front: the expression and what follows the match.\<close>

definition match_helper :: "string \<Rightarrow> (string \<times> string) option" where
  "match_helper s =
     Option.bind (eat ''{{'' s) (\<lambda>s1.
     Option.bind (eat ''jsonPath'' (dropWhile re_space s1)) (\<lambda>s2.
     Option.bind (eat_spaces1 s2) (\<lambda>s3.
     Option.bind (eat ''request.body'' s3) (\<lambda>s4.
     Option.bind (eat_spaces1 s4) (\<lambda>s5.
     Option.bind (eat_quoted s5) (\<lambda>(expression, s6).
     Option.bind (eat ''}}'' (dropWhile re_space s6)) (\<lambda>s7.
     Some (expression, s7))))))))"

fun find_helper :: "string \<Rightarrow> (string \<times> string \<times> string) option" where
  "find_helper [] = None"
| "find_helper (c # cs) =
     (case match_helper (c # cs) of
        Some (e, r) \<Rightarrow> Some ([], e, r)
      | None \<Rightarrow> map_option (\<lambda>(lit, e, r). (c # lit, e, r)) (find_helper cs))"

lemma eat_length: "eat p s = Some r \<Longrightarrow> length r \<le> length s"
  by (auto simp: eat_def split: if_splits)

lemma eat_spaces1_length: "eat_spaces1 s = Some r \<Longrightarrow> length r < length s"
  by (auto simp: eat_spaces1_def le_imp_less_Suc length_dropWhile_le split: list.splits if_splits)

lemma eat_quoted_length: "eat_quoted s = Some (e, r) \<Longrightarrow> length r < length s"
proof (cases s)
  case (Cons q t)
  assume eq: "eat_quoted s = Some (e, r)"
  then obtain x where "dropWhile (\<lambda>c. c \<noteq> q) t = x # r"
    by (auto simp: eat_quoted_def Cons split: if_splits list.splits)
  then have "length (x # r) \<le> length t" by (metis length_dropWhile_le)
  then show ?thesis by (simp add: Cons)
qed (simp add: eat_quoted_def)

lemma match_helper_length:
  assumes "match_helper s = Some (e, r)"
  shows "length r < length s"
proof -
  from assms obtain s1 s2 s3 s4 s5 s6 where
    eats: "eat ''{{'' s = Some s1" "eat ''jsonPath'' (dropWhile re_space s1) = Some s2"
      "eat ''request.body'' s3 = Some s4" "eat ''}}'' (dropWhile re_space s6) = Some r"
    and spaces: "eat_spaces1 s2 = Some s3" "eat_spaces1 s4 = Some s5"
    and quoted: "eat_quoted s5 = Some (e, s6)"
    by (auto simp: match_helper_def bind_eq_Some_conv)
  show ?thesis
    using eats [THEN eat_length] spaces [THEN eat_spaces1_length] eat_quoted_length [OF quoted]
      length_dropWhile_le [of re_space s1] length_dropWhile_le [of re_space s6] by linarith
qed

lemma find_helper_length: "find_helper s = Some (lit, e, r) \<Longrightarrow> length r < length s"
  by (induction s arbitrary: lit)
    (force split: option.splits dest: match_helper_length)+

text \<open>\<^verbatim>\<open>FindAll\<close>: for each match the text between the last match and it, and its expression.\<close>

function find_helpers :: "string \<Rightarrow> (string \<times> string) list \<times> string" where
  "find_helpers s =
     (case find_helper s of
        None \<Rightarrow> ([], s)
      | Some (lit, e, r) \<Rightarrow> (case find_helpers r of (ms, t) \<Rightarrow> ((lit, e) # ms, t)))"
  by pat_completeness auto
termination
  by (relation "measure length") (auto dest: find_helper_length)

declare find_helpers.simps [simp del]

definition has_template_transformer :: "string list \<Rightarrow> bool" where
  "has_template_transformer transformers \<longleftrightarrow> list_ex (\<lambda>t. t = ''response-template'') transformers"

definition literal_segment :: "string \<Rightarrow> template_segment list" where
  "literal_segment lit = (if lit = [] then [] else [SegLiteral lit])"

fun template_segments :: "(string \<times> string) list \<Rightarrow> string \<Rightarrow> template_segment list res" where
  "template_segments [] tail = Ok (literal_segment tail)"
| "template_segments ((lit, expression) # ms) tail =
     bind_res (compile_json_path expression) (\<lambda>compiled.
     bind_res (template_segments ms tail) (\<lambda>segments.
     Ok (literal_segment lit @ SegHelper compiled # segments)))"

definition compile_response_template ::
  "string option \<Rightarrow> string list \<Rightarrow> template_segment list option res" where
  "compile_response_template body transformers =
     (case body of
        None \<Rightarrow> Ok None
      | Some b \<Rightarrow>
          if b = [] \<or> \<not> has_template_transformer transformers then Ok None
          else (case find_helpers b of (ms, tail) \<Rightarrow>
            if ms = [] then Ok None
            else (case template_segments ms tail of
                    Ok segments \<Rightarrow> Ok (Some segments)
                  | Err e \<Rightarrow> Ok None
                  | Panic \<Rightarrow> Panic)))"

section \<open>Responses\<close>

definition parse_header_entry :: "string \<times> string \<Rightarrow> (string \<times> string list) res" where
  "parse_header_entry entry =
     (case entry of (name, raw_value) \<Rightarrow>
      case unmarshal_string raw_value of
        Some value \<Rightarrow> Ok (name, [value])
      | None \<Rightarrow>
          (case unmarshal_strings raw_value of
             Some values \<Rightarrow> Ok (name, values)
           | None \<Rightarrow> Err (''response.headers.'' @ name @ '' must be a string or string array'')))"

definition parse_headers :: "string option \<Rightarrow> header_map res" where
  "parse_headers raw =
     (if raw_absent raw then Ok []
      else (case unmarshal_object (the raw) of
              None \<Rightarrow> Err ''response.headers must be a JSON object''
            | Some obj \<Rightarrow> map_res parse_header_entry obj))"

text \<open>The body and whether it is JSON.\<close>

definition parse_response_body :: "raw_map \<Rightarrow> (string option \<times> bool) res" where
  "parse_response_body obj =
     (case map_of obj ''jsonBody'' of
        Some raw \<Rightarrow> Ok (Some raw, True)
      | None \<Rightarrow>
          (case map_of obj ''base64Body'' of
             Some raw \<Rightarrow>
               bind_res (res_of_option ''response.base64Body must be a string'' (unmarshal_string raw)) (\<lambda>encoded.
               bind_res (res_of_option ''response.base64Body must be valid base64: '' (base64_decode encoded))
                 (\<lambda>body. Ok (Some body, False)))
           | None \<Rightarrow>
               (if raw_absent (map_of obj ''body'') then Ok (None, False)
                else bind_res (res_of_option ''response.body must be a string''
                                 (unmarshal_string (the (map_of obj ''body''))))
                       (\<lambda>body. Ok (Some body, False)))))"

text \<open>The sign of a double: \<open>m * 2 ^ e\<close> is negative when \<open>m\<close> is.\<close>

definition f64_negative :: "f64 \<Rightarrow> bool" where
  "f64_negative x = (case x of F64 m e \<Rightarrow> m < 0)"

definition parse_delay_distribution :: "golib \<Rightarrow> string option \<Rightarrow> delay_distribution option res" where
  "parse_delay_distribution L raw =
     (if raw_absent raw then Ok None
      else (case unmarshal_object (the raw) of
        None \<Rightarrow> Err ''response.delayDistribution must be a JSON object''
      | Some obj \<Rightarrow>
          bind_res (string_field obj ''type'') (\<lambda>type_name.
          if type_name = [] then Err ''response.delayDistribution.type is required''
          else if type_name = ''uniform'' then
            bind_res (int_field obj ''lower'' 0) (\<lambda>lower.
            bind_res (int_field obj ''upper'' 0) (\<lambda>upper.
            if lower < 0 \<or> upper < lower then Err ''response.delayDistribution uniform bounds are invalid''
            else Ok (Some \<lparr>dd_type = type_name, dd_lower = lower, dd_upper = upper, dd_median = 0,
                           dd_sigma = F64 0 0\<rparr>)))
          else if type_name = ''lognormal'' then
            bind_res (int_field obj ''median'' 0) (\<lambda>median.
            bind_res (float_field obj ''sigma'' (F64 0 0)) (\<lambda>sigma.
            if median \<le> 0 \<or> f64_negative sigma
            then Err ''response.delayDistribution lognormal parameters are invalid''
            else Ok (Some \<lparr>dd_type = type_name, dd_lower = 0, dd_upper = 0, dd_median = median,
                           dd_sigma = sigma\<rparr>)))
          else Err (''response.delayDistribution.type '' @ go_quote (is_print L) type_name
                    @ '' is not supported''))))"

definition parse_chunked_dribble_delay :: "string option \<Rightarrow> chunked_dribble_delay option res" where
  "parse_chunked_dribble_delay raw =
     (if raw_absent raw then Ok None
      else (case unmarshal_object (the raw) of
        None \<Rightarrow> Err ''response.chunkedDribbleDelay must be a JSON object''
      | Some obj \<Rightarrow>
          bind_res (int_field obj ''numberOfChunks'' 0) (\<lambda>number_of_chunks.
          bind_res (int_field obj ''totalDuration'' 0) (\<lambda>total_duration.
          if number_of_chunks \<le> 0 \<or> total_duration < 0
          then Err ''response.chunkedDribbleDelay parameters are invalid''
          else Ok (Some \<lparr>cd_number_of_chunks = number_of_chunks, cd_total_duration = total_duration\<rparr>)))))"

definition parse_response :: "golib \<Rightarrow> string \<Rightarrow> response_definition res" where
  "parse_response L raw =
     (case unmarshal_object raw of
        None \<Rightarrow> Err ''response must be a JSON object''
      | Some obj \<Rightarrow>
          bind_res (int_field obj ''status'' http_status_ok) (\<lambda>status.
          if status < 100 \<or> 999 < status then Err ''response.status must be between 100 and 999''
          else
          bind_res (parse_headers (map_of obj ''headers'')) (\<lambda>headers.
          bind_res (parse_response_body obj) (\<lambda>(body, is_json).
          bind_res (string_field obj ''bodyFileName'') (\<lambda>body_file.
          bind_res (parse_string_array_field obj ''transformers'') (\<lambda>transformers.
          bind_res (compile_response_template body transformers) (\<lambda>template.
          bind_res (string_field obj ''proxyBaseUrl'') (\<lambda>proxy_base_url.
          bind_res (string_field obj ''proxyUrlPrefixToRemove'') (\<lambda>proxy_url_prefix.
          bind_res (int_field obj ''fixedDelayMilliseconds'' 0) (\<lambda>fixed_delay.
          if fixed_delay < 0 then Err ''response.fixedDelayMilliseconds must be non-negative''
          else
          bind_res (parse_delay_distribution L (map_of obj ''delayDistribution'')) (\<lambda>delay.
          bind_res (parse_chunked_dribble_delay (map_of obj ''chunkedDribbleDelay'')) (\<lambda>dribble.
          Ok \<lparr>rd_status = status, rd_headers = headers, rd_body = body, rd_json = is_json,
              rd_body_file = body_file, rd_transformers = transformers, rd_template = template,
              rd_proxy_base_url = proxy_base_url, rd_proxy_url_prefix_to_remove = proxy_url_prefix,
              rd_fixed_delay = fixed_delay, rd_delay_distribution = delay,
              rd_chunked_dribble_delay = dribble\<rparr>))))))))))))"

definition uses_response_template :: "response_definition \<Rightarrow> bool" where
  "uses_response_template d \<longleftrightarrow> rd_template d \<noteq> None \<or> has_template_transformer (rd_transformers d)"

definition requires_request_body :: "response_definition \<Rightarrow> bool" where
  "requires_request_body d \<longleftrightarrow>
     rd_proxy_base_url d \<noteq> [] \<or> (rd_body d \<noteq> None \<and> uses_response_template d)"

section \<open>Mappings\<close>

definition set_raw_id :: "string \<Rightarrow> raw_map \<Rightarrow> raw_map" where
  "set_raw_id ident raw = aput ''id'' (marshal_string ident) raw"

text \<open>The identifier of \<^verbatim>\<open>ParseJSONWithID\<close>: the override, else the one in the object, else a fresh one.\<close>

definition choose_id :: "string \<Rightarrow> string \<Rightarrow> 8 word list option \<Rightarrow> string res" where
  "choose_id ident override_id rand =
     bind_res (if ident \<noteq> [] then wrap_err ''id: '' (validate_id ident) else Ok ()) (\<lambda>_.
     bind_res (if override_id \<noteq> [] then validate_id override_id else Ok ()) (\<lambda>_.
     let id1 = (if override_id \<noteq> [] then override_id else ident) in
     if id1 = [] then wrap_err ''generate id: '' (new_id rand) else Ok id1))"

definition parse_json_with_id ::
  "golib \<Rightarrow> 8 word list option \<Rightarrow> string \<Rightarrow> string \<Rightarrow> mapping_stub res" where
  "parse_json_with_id L rand data override_id =
     bind_res (decode_object data) (\<lambda>raw.
     bind_res (string_field raw ''id'') (\<lambda>id0.
     bind_res (choose_id id0 override_id rand) (\<lambda>ident.
     bind_res (string_field raw ''name'') (\<lambda>name.
     bind_res (bool_field raw ''persistent'') (\<lambda>persistent.
     bind_res (int_field raw ''priority'' default_priority) (\<lambda>priority.
     bind_res (parse_scenario raw) (\<lambda>scenario.
     bind_res (validate_object_field raw ''request'' True) (\<lambda>_.
     bind_res (validate_object_field raw ''response'' True) (\<lambda>_.
     bind_res (validate_object_field raw ''metadata'' False) (\<lambda>_.
     bind_res (parse_request L (the (map_of raw ''request''))) (\<lambda>request.
     bind_res (parse_response L (the (map_of raw ''response''))) (\<lambda>response.
     Ok \<lparr>m_id = ident, m_name = name, m_persistent = persistent, m_priority = priority,
         m_scenario = scenario, m_request = request, m_response = response,
         m_raw = set_raw_id ident raw, m_sequence = 0\<rparr>))))))))))))"

definition parse_json :: "golib \<Rightarrow> 8 word list option \<Rightarrow> string \<Rightarrow> mapping_stub res" where
  "parse_json L rand data = parse_json_with_id L rand data []"

definition with_id :: "mapping_stub \<Rightarrow> string \<Rightarrow> mapping_stub res" where
  "with_id m ident =
     bind_res (validate_id ident) (\<lambda>_. Ok (m\<lparr>m_id := ident, m_raw := set_raw_id ident (m_raw m)\<rparr>))"

text \<open>
  \<^verbatim>\<open>json.Marshal\<close> of a \<^verbatim>\<open>RawMessage\<close>: white space between tokens goes, and the characters that are
  unsafe in HTML are escaped. The flag tells whether the scan is inside a string.
\<close>

fun compact_raw :: "bool \<Rightarrow> string \<Rightarrow> string" where
  "compact_raw q [] = []"
| "compact_raw q (c # s) =
     (if c \<in> set ''<>&'' then [CHR 0x5C] @ ''u00'' @ hex_fixed 2 (byte c) @ compact_raw q s
      else if byte c = 0xE2 \<and> prefix [chr 0x80, chr 0xA8] s
      then [CHR 0x5C] @ ''u2028'' @ compact_raw q (drop 2 s)
      else if byte c = 0xE2 \<and> prefix [chr 0x80, chr 0xA9] s
      then [CHR 0x5C] @ ''u2029'' @ compact_raw q (drop 2 s)
      else if \<not> q \<and> byte c \<in> {9, 10, 13, 32} then compact_raw q s
      else if q \<and> c = CHR 0x5C then
        (case s of [] \<Rightarrow> [c] | d # s' \<Rightarrow> c # d # compact_raw q s')
      else if c = CHR 0x22 then c # compact_raw (\<not> q) s
      else c # compact_raw q s)"

definition marshal_mapping :: "mapping_stub \<Rightarrow> string" where
  "marshal_mapping m =
     ''{'' @ join_with '','' (map (\<lambda>(k, v). marshal_string k @ '':'' @ compact_raw False v)
               (sort_keys (set_raw_id (m_id m) (m_raw m)))) @ ''}''"

end
