(* ===== verification/Mapping_Facts.thy ===== *)
theory Mapping_Facts
  imports Mapping_Model
begin

text \<open>
  What parsing a stub mapping guarantees (\<open>wf_mapping\<close>), what a request match means, the form of
  generated identifiers and the shape of a compiled response template.
\<close>

section \<open>Identifiers\<close>

lemma unat_byte_less: "unat (b :: 8 word) < 256"
  using unsigned_less [of b] by simp

lemma hex_byte_nibbles [simp]: "unat (b :: 8 word) div 16 < 16" "unat b mod 16 < 16"
  using unat_byte_less [of b] by linarith+

lemma hex_encode_simps [simp]:
  "hex_encode [] = []"
  "hex_encode (b # bs) = hex_digit (unat b div 16) # hex_digit (unat b mod 16) # hex_encode bs"
  by (simp_all add: hex_encode_def hex_byte_def)

lemma length_16E:
  assumes "length bs = 16"
  obtains a0 a1 a2 a3 a4 a5 a6 a7 a8 a9 a10 a11 a12 a13 a14 a15
  where "bs = [a0, a1, a2, a3, a4, a5, a6, a7, a8, a9, a10, a11, a12, a13, a14, a15]"
  using assms by (auto simp: numeral_eq_Suc length_Suc_conv)

lemma upt_36: "[0..<36] = [0, 1, 2, 3, 4, 5, 6, 7, 8, 9, 10, 11, 12, 13, 14, 15, 16, 17, 18, 19, 20, 21, 22, 23,
    24, 25, 26, 27, 28, 29, 30, 31, 32, 33, 34, 35]"
  by (simp add: upt_rec)

lemma new_id_Ok: "new_id (Some bs) \<noteq> Err e" "new_id (Some bs) \<noteq> Panic"
  by (simp_all add: new_id_def Let_def)

lemma new_id_valid:
  assumes "new_id (Some bs) = Ok x" and "length bs = 16"
  shows "is_valid_id x"
proof -
  from assms(2) obtain a0 a1 a2 a3 a4 a5 a6 a7 a8 a9 a10 a11 a12 a13 a14 a15
    where bs: "bs = [a0, a1, a2, a3, a4, a5, a6, a7, a8, a9, a10, a11, a12, a13, a14, a15]"
    by (rule length_16E)
  show ?thesis
    using assms(1) unfolding bs
    by (auto simp: new_id_def Let_def is_valid_id_def upt_36)
qed

text \<open>The version digit is 4 and the variant digit one of 8, 9, a and b.\<close>

unbundle bit_operations_syntax

lemma version_nibble [simp]: "unat ((b AND 0x0f) OR 0x40 :: 8 word) div 16 = 4"
proof -
  have "drop_bit 4 ((b AND 0x0f) OR 0x40 :: 8 word) = 4"
    by (rule bit_word_eqI) (auto simp: bit_simps numeral_eq_Suc less_Suc_eq)
  then have "unat (drop_bit 4 ((b AND 0x0f) OR 0x40 :: 8 word)) = 4" by simp
  then show ?thesis by (simp add: unsigned_drop_bit_eq drop_bit_eq_div unat_div_distrib)
qed

lemma variant_nibble: "unat ((b AND 0x3f) OR 0x80 :: 8 word) div 16 \<in> {8, 9, 10, 11}"
proof -
  have "drop_bit 6 ((b AND 0x3f) OR 0x80 :: 8 word) = 2"
    by (rule bit_word_eqI) (auto simp: bit_simps numeral_eq_Suc less_Suc_eq)
  then have "unat (drop_bit 6 ((b AND 0x3f) OR 0x80 :: 8 word)) = 2" by simp
  then have "unat ((b AND 0x3f) OR 0x80 :: 8 word) div 64 = 2"
    by (simp add: unsigned_drop_bit_eq drop_bit_eq_div unat_div_distrib)
  then show ?thesis by (simp; linarith)
qed

lemma hex_digit_values:
  "hex_digit 4 = CHR ''4''" "hex_digit 8 = CHR ''8''" "hex_digit 9 = CHR ''9''"
  "hex_digit 10 = CHR ''a''" "hex_digit 11 = CHR ''b''"
  by (code_simp)+

lemma new_id_version:
  assumes "new_id (Some bs) = Ok x" and "length bs = 16"
  shows "x ! 14 = CHR ''4''" and "x ! 19 \<in> set ''89ab''"
proof -
  from assms(2) obtain a0 a1 a2 a3 a4 a5 a6 a7 a8 a9 a10 a11 a12 a13 a14 a15
    where bs: "bs = [a0, a1, a2, a3, a4, a5, a6, a7, a8, a9, a10, a11, a12, a13, a14, a15]"
    by (rule length_16E)
  have x: "x ! 14 = hex_digit (unat ((a6 AND 0x0f) OR 0x40) div 16)"
    "x ! 19 = hex_digit (unat ((a8 AND 0x3f) OR 0x80) div 16)"
    using assms(1) unfolding bs by (auto simp: new_id_def Let_def)
  show "x ! 14 = CHR ''4''" by (simp add: x hex_digit_values)
  show "x ! 19 \<in> set ''89ab''"
    using variant_nibble [of a8] unfolding x by (auto simp: hex_digit_values)
qed

section \<open>Well-formed mappings\<close>

definition wf_delay :: "delay_distribution \<Rightarrow> bool" where
  "wf_delay d \<longleftrightarrow>
     (if dd_type d = ''uniform'' then 0 \<le> dd_lower d \<and> dd_lower d \<le> dd_upper d \<and> dd_upper d < 2 ^ 63
      else dd_type d = ''lognormal'' \<and> 0 < dd_median d \<and> dd_median d < 2 ^ 63 \<and> \<not> f64_negative (dd_sigma d))"

definition wf_dribble :: "chunked_dribble_delay \<Rightarrow> bool" where
  "wf_dribble c \<longleftrightarrow>
     0 < cd_number_of_chunks c \<and> cd_number_of_chunks c < 2 ^ 63
     \<and> 0 \<le> cd_total_duration c \<and> cd_total_duration c < 2 ^ 63"

definition wf_response :: "response_definition \<Rightarrow> bool" where
  "wf_response d \<longleftrightarrow>
     100 \<le> rd_status d \<and> rd_status d \<le> 999
     \<and> 0 \<le> rd_fixed_delay d \<and> rd_fixed_delay d < 2 ^ 63
     \<and> pred_option wf_delay (rd_delay_distribution d)
     \<and> pred_option wf_dribble (rd_chunked_dribble_delay d)
     \<and> compile_response_template (rd_body d) (rd_transformers d) = Ok (rd_template d)"

definition wf_regex :: "golib \<Rightarrow> string \<Rightarrow> string option \<Rightarrow> bool" where
  "wf_regex L pattern compiled \<longleftrightarrow>
     compiled = (if pattern = [] then None else Some pattern)
     \<and> (pattern \<noteq> [] \<longrightarrow> re_compiles L pattern)"

definition wf_request :: "golib \<Rightarrow> request_pattern \<Rightarrow> bool" where
  "wf_request L p \<longleftrightarrow>
     to_upper (rp_method p) = rp_method p
     \<and> wf_regex L (rp_url_pattern p) (rp_url_regex p)
     \<and> wf_regex L (rp_url_path_pattern p) (rp_path_regex p)"

definition wf_raw :: "mapping_stub \<Rightarrow> bool" where
  "wf_raw m \<longleftrightarrow> distinct_keys (m_raw m) \<and> map_of (m_raw m) ''id'' = Some (marshal_string (m_id m))"

definition wf_mapping :: "golib \<Rightarrow> mapping_stub \<Rightarrow> bool" where
  "wf_mapping L m \<longleftrightarrow>
     is_valid_id (m_id m) \<and> in_int64 (m_priority m) \<and> wf_raw m
     \<and> wf_request L (m_request m) \<and> wf_response (m_response m)"

lemma parse_int_bounds: "unmarshal_int s = Some v \<Longrightarrow> in_int64 v"
  by (auto simp: unmarshal_int_def in_int64_def [of 0] split: option.splits json.splits dest: parse_int_range)

lemma int_field_range: "int_field raw field d = Ok v \<Longrightarrow> in_int64 d \<Longrightarrow> in_int64 v"
  by (auto simp: int_field_def typed_field_def res_simps split: if_splits dest: parse_int_bounds)

lemma int_field_less: "int_field raw field 0 = Ok v \<Longrightarrow> v < 9223372036854775808"
  using int_field_range [of raw field 0 v] by (simp add: in_int64_def)

lemma wf_parse_delay: "parse_delay_distribution L raw = Ok d \<Longrightarrow> pred_option wf_delay d"
  by (auto simp: parse_delay_distribution_def wf_delay_def res_simps split: if_splits option.splits
      dest: int_field_less)

lemma wf_parse_dribble: "parse_chunked_dribble_delay raw = Ok d \<Longrightarrow> pred_option wf_dribble d"
  by (auto simp: parse_chunked_dribble_delay_def wf_dribble_def res_simps split: if_splits option.splits
      dest: int_field_less)

lemma wf_parse_response:
  assumes "parse_response L raw = Ok d"
  shows "wf_response d"
proof -
  from assms obtain obj status headers body is_json body_file trs template base prefix fixed delay dribble where
    "100 \<le> status" "status \<le> 999" and fixed: "int_field obj ''fixedDelayMilliseconds'' 0 = Ok fixed" "0 \<le> fixed"
    and template: "compile_response_template body trs = Ok template"
    and delay: "parse_delay_distribution L (map_of obj ''delayDistribution'') = Ok delay"
    and dribble: "parse_chunked_dribble_delay (map_of obj ''chunkedDribbleDelay'') = Ok dribble"
    and d: "d = \<lparr>rd_status = status, rd_headers = headers, rd_body = body, rd_json = is_json,
      rd_body_file = body_file, rd_transformers = trs, rd_template = template,
      rd_proxy_base_url = base, rd_proxy_url_prefix_to_remove = prefix,
      rd_fixed_delay = fixed, rd_delay_distribution = delay, rd_chunked_dribble_delay = dribble\<rparr>"
    unfolding parse_response_def by (auto simp: res_simps split: option.splits if_splits)
  then show ?thesis
    using wf_parse_delay [OF delay] wf_parse_dribble [OF dribble] int_field_less [OF fixed(1)]
    by (simp add: wf_response_def)
qed

lemma compile_pattern_wf: "compile_pattern L field pattern = Ok c \<Longrightarrow> wf_regex L pattern c"
  by (auto simp: compile_pattern_def wf_regex_def split: if_splits)

lemma wf_parse_request:
  assumes "parse_request L raw = Ok p"
  shows "wf_request L p"
  using assms unfolding parse_request_def
  by (auto simp: res_simps wf_request_def dest: compile_pattern_wf split: option.splits)

lemma wf_set_raw_id:
  assumes "distinct_keys raw"
  shows "distinct_keys (set_raw_id i raw)" and "map_of (set_raw_id i raw) ''id'' = Some (marshal_string i)"
    and "k \<noteq> ''id'' \<Longrightarrow> map_of (set_raw_id i raw) k = map_of raw k"
  using assms by (simp_all add: set_raw_id_def distinct_update update_conv')

lemma decode_object_distinct: "decode_object data = Ok raw \<Longrightarrow> distinct_keys raw"
  by (auto simp: decode_object_def members_of_def split: option.splits json.splits if_splits)

lemma choose_id_valid:
  assumes "choose_id i j rand = Ok k" and "\<And>bs. rand = Some bs \<Longrightarrow> length bs = 16"
  shows "is_valid_id k"
proof -
  have "is_valid_id k" if "new_id rand = Ok k"
    using that assms(2) new_id_valid by (cases rand) (simp add: new_id_def, blast)
  with assms(1) show ?thesis
    by (auto simp: choose_id_def validate_id_def res_simps Let_def split: if_splits)
qed

lemma parse_json_with_id_OkE:
  assumes "parse_json_with_id L rand data i = Ok m"
  obtains raw id0 where "decode_object data = Ok raw" "string_field raw ''id'' = Ok id0"
    "choose_id id0 i rand = Ok (m_id m)" "int_field raw ''priority'' 5 = Ok (m_priority m)"
    "string_field raw ''name'' = Ok (m_name m)" "bool_field raw ''persistent'' = Ok (m_persistent m)"
    "parse_scenario raw = Ok (m_scenario m)"
    "parse_request L (the (map_of raw ''request'')) = Ok (m_request m)"
    "parse_response L (the (map_of raw ''response'')) = Ok (m_response m)"
    "m_raw m = set_raw_id (m_id m) raw" "m_sequence m = 0"
  using assms unfolding parse_json_with_id_def by (auto simp: res_simps default_priority_def)

lemma parse_json_wf:
  assumes "parse_json_with_id L rand data i = Ok m" and "\<And>bs. rand = Some bs \<Longrightarrow> length bs = 16"
  shows "wf_mapping L m"
proof -
  from assms(1) obtain raw id0 where raw: "decode_object data = Ok raw"
    and i: "choose_id id0 i rand = Ok (m_id m)" and p: "int_field raw ''priority'' 5 = Ok (m_priority m)"
    and req: "parse_request L (the (map_of raw ''request'')) = Ok (m_request m)"
    and resp: "parse_response L (the (map_of raw ''response'')) = Ok (m_response m)"
    and mraw: "m_raw m = set_raw_id (m_id m) raw"
    by (rule parse_json_with_id_OkE)
  have "in_int64 (m_priority m)" using int_field_range [OF p] by (simp add: in_int64_def)
  then show ?thesis
    using choose_id_valid [OF i assms(2)] wf_parse_request [OF req] wf_parse_response [OF resp]
      wf_set_raw_id [OF decode_object_distinct [OF raw]]
    by (simp add: wf_mapping_def wf_raw_def mraw)
qed

lemma with_id_wf: "with_id m i = Ok m' \<Longrightarrow> wf_mapping L m \<Longrightarrow> wf_mapping L m' \<and> m_id m' = i"
  by (auto simp: with_id_def validate_id_def res_simps wf_mapping_def wf_raw_def wf_set_raw_id)

section \<open>What a match means\<close>

definition url_condition :: "golib \<Rightarrow> request_pattern \<Rightarrow> string \<Rightarrow> string \<Rightarrow> bool" where
  "url_condition L p request_uri path \<longleftrightarrow>
     (if rp_url p \<noteq> [] then request_uri = rp_url p
      else if rp_url_path p \<noteq> [] then path = rp_url_path p
      else if rp_url_pattern p \<noteq> [] then regex_covers L (rp_url_pattern p) request_uri
      else rp_url_path_pattern p \<noteq> [] \<and> regex_covers L (rp_url_path_pattern p) path)"

lemma matches_url_wf: "wf_request L p \<Longrightarrow> matches_url L p uri path = url_condition L p uri path"
  by (auto simp: matches_url_def url_condition_def wf_request_def wf_regex_def)

definition head_condition ::
  "golib \<Rightarrow> request_pattern \<Rightarrow> string \<Rightarrow> string \<Rightarrow> string \<Rightarrow> header_map \<Rightarrow> header_map \<Rightarrow> bool" where
  "head_condition L p meth uri path query headers \<longleftrightarrow>
     matches_method p meth \<and> matches_url L p uri path
     \<and> match_query (rp_query_parameters p) query \<and> match_headers (rp_headers p) headers"

definition body_condition :: "golib \<Rightarrow> request_pattern \<Rightarrow> body_context \<Rightarrow> bool" where
  "body_condition L p body \<longleftrightarrow>
     (requires_body p \<longrightarrow>
        body \<noteq> None \<and> match_body_patterns_with_context L (rp_body_patterns p) body
        \<and> custom_matches L (rp_custom_matcher p) body)"

lemma custom_matches_None [simp]: "custom_matches L None body"
  by (simp add: custom_matches_def)

lemma empty_query: "\<not> 0 < length (rp_query_parameters p) \<Longrightarrow> match_query (rp_query_parameters p) query"
  by simp

lemma matches_lazy_fst:
  "fst (matches_lazy L p meth uri path query headers body s) \<longleftrightarrow>
     head_condition L p meth uri path query headers \<and> body_condition L p (fst (body s))"
  by (auto simp: matches_lazy_def head_condition_def body_condition_def
      split: prod.splits option.splits)

text \<open>The body is read exactly when everything else matches and the pattern looks at the body.\<close>

lemma matches_lazy_snd:
  "snd (matches_lazy L p meth uri path query headers body s) =
     (if head_condition L p meth uri path query headers \<and> requires_body p then snd (body s) else s)"
  by (auto simp: matches_lazy_def head_condition_def split: prod.splits option.splits)

lemma request_matches_iff:
  "request_matches L p meth uri path query headers body \<longleftrightarrow>
     head_condition L p meth uri path query headers \<and> body_condition L p body"
  by (simp add: request_matches_def matches_lazy_fst)

end
