(* ===== verification/Request_Body.thy ===== *)
theory Request_Body
  imports Mapping_Facts
begin

text \<open>
  The lazily read request body (\<^verbatim>\<open>requestBodyCache\<close> of \<^verbatim>\<open>internal/server/runtime.go\<close>) and the contract
  under which the matchers use it.
\<close>

section \<open>The cache\<close>

text \<open>
  What the connection still has to give: no body, the rest of a body, or some bytes and then an error.
  Reading to the end leaves an empty rest, so a second read would see nothing.
\<close>

datatype body_source = NoBody | BodyRest string | BodyFails string

record request_body_cache =
  bc_source :: body_source
  bc_content_length :: int
  bc_body :: string
  bc_context :: body_context
  bc_failed :: bool
  bc_read :: bool

definition new_body_cache :: "body_source \<Rightarrow> int \<Rightarrow> request_body_cache" where
  "new_body_cache source len = \<lparr>bc_source = source, bc_content_length = len, bc_body = [],
     bc_context = None, bc_failed = False, bc_read = False\<rparr>"

text \<open>\<^verbatim>\<open>io.ReadAll\<close>: the bytes, whether it failed, and what is left.\<close>

fun read_all :: "body_source \<Rightarrow> string \<times> bool \<times> body_source" where
  "read_all NoBody = ([], False, NoBody)"
| "read_all (BodyRest s) = (s, False, BodyRest [])"
| "read_all (BodyFails s) = (s, True, BodyFails [])"

text \<open>\<^verbatim>\<open>bytes\<close>: the body and whether reading it failed.\<close>

definition cache_bytes :: "request_body_cache \<Rightarrow> (string \<times> bool) \<times> request_body_cache" where
  "cache_bytes c =
     (if bc_read c then ((bc_body c, bc_failed c), c)
      else
        (let c1 = c\<lparr>bc_read := True\<rparr> in
         if bc_source c = NoBody then (([], False), c1)
         else (case read_all (bc_source c) of (s, failed, rest) \<Rightarrow>
                 ((s, failed), c1\<lparr>bc_body := s, bc_failed := failed, bc_source := rest\<rparr>))))"

definition cache_context :: "request_body_cache \<Rightarrow> body_context \<times> request_body_cache" where
  "cache_context c =
     (if bc_context c \<noteq> None then (bc_context c, c)
      else (case cache_bytes c of ((body, failed), c1) \<Rightarrow>
              if failed then (None, c1)
              else (new_body_context body, c1\<lparr>bc_context := new_body_context body\<rparr>)))"

definition cache_bytes_for_recording :: "request_body_cache \<Rightarrow> string \<times> request_body_cache" where
  "cache_bytes_for_recording c =
     (if bc_read c then (bc_body c, c)
      else if bc_source c = NoBody \<or> bc_content_length c = 0 then ([], c)
      else (case cache_bytes c of ((body, failed), c1) \<Rightarrow> (if failed then [] else body, c1)))"

section \<open>The contract of a body provider\<close>

text \<open>
  Asking for the body gives one value, however often and in whatever order it is asked for:
  \<open>value\<close> is that answer as a function of the state, and asking does not change it.
\<close>

locale body_provider =
  fixes provide :: "'s \<Rightarrow> body_context \<times> 's"
    and body_value :: "'s \<Rightarrow> body_context"
  assumes provide_fst: "fst (provide s) = body_value s"
    and provide_snd: "body_value (snd (provide s)) = body_value s"
begin

lemma matches_lazy_eager:
  "fst (matches_lazy L p meth uri path query headers provide s)
     = request_matches L p meth uri path query headers (body_value s)"
  by (simp add: matches_lazy_fst request_matches_iff provide_fst)

lemma matches_lazy_value:
  "body_value (snd (matches_lazy L p meth uri path query headers provide s)) = body_value s"
  by (simp add: matches_lazy_snd provide_snd)

text \<open>A run over many patterns sees the same body each time.\<close>

lemma fold_matches:
  "fst (fold (\<lambda>m (ms, s). case matches_lazy L (f m) meth uri path query headers provide s of
          (ok, s') \<Rightarrow> (if ok then ms @ [m] else ms, s')) xs (acc, s))
     = acc @ filter (\<lambda>m. request_matches L (f m) meth uri path query headers (body_value s)) xs"
proof (induction xs arbitrary: acc s)
  case (Cons m xs)
  obtain ok s' where ml: "matches_lazy L (f m) meth uri path query headers provide s = (ok, s')" by fastforce
  have "ok = request_matches L (f m) meth uri path query headers (body_value s)" "body_value s' = body_value s"
    using matches_lazy_eager [of L "f m" meth uri path query headers s]
      matches_lazy_value [of L "f m" meth uri path query headers s] by (simp_all add: ml)
  then show ?case using Cons by (simp add: ml)
qed simp

end

section \<open>The cache keeps the contract\<close>

text \<open>What the body is, before and after it was read.\<close>

definition cache_value :: "request_body_cache \<Rightarrow> body_context" where
  "cache_value c =
     (if bc_context c \<noteq> None then bc_context c
      else if bc_read c then (if bc_failed c then None else Some (bc_body c))
      else (case bc_source c of NoBody \<Rightarrow> Some [] | BodyRest s \<Rightarrow> Some s | BodyFails s \<Rightarrow> None))"

interpretation bc: body_provider cache_context cache_value
proof unfold_locales
  fix c
  show "fst (cache_context c) = cache_value c"
    by (cases "bc_source c")
      (auto simp: cache_context_def cache_value_def cache_bytes_def new_body_context_def Let_def)
  show "cache_value (snd (cache_context c)) = cache_value c"
    by (cases "bc_source c")
      (auto simp: cache_context_def cache_value_def cache_bytes_def new_body_context_def Let_def)
qed

text \<open>The gRPC handler matches on a body it has at hand (\<^verbatim>\<open>findMatch\<close>).\<close>

definition given_body :: "body_context \<Rightarrow> 's \<Rightarrow> body_context \<times> 's" where
  "given_body body s = (body, s)"

interpretation gb: body_provider "given_body body" "\<lambda>s. body" for body
  by unfold_locales (simp_all add: given_body_def)

text \<open>The value of a fresh cache, and that reading the bytes agrees with it.\<close>

lemma cache_value_new:
  "cache_value (new_body_cache source len) =
     (case source of NoBody \<Rightarrow> Some [] | BodyRest s \<Rightarrow> Some s | BodyFails s \<Rightarrow> None)"
  by (simp add: cache_value_def new_body_cache_def)

text \<open>A context, once made, is the one of the bytes that were read.\<close>

definition cache_inv :: "request_body_cache \<Rightarrow> bool" where
  "cache_inv c \<longleftrightarrow> (\<forall>raw. bc_context c = Some raw \<longrightarrow> bc_read c \<and> \<not> bc_failed c \<and> bc_body c = raw)
     \<and> (\<not> bc_read c \<longrightarrow> bc_body c = [] \<and> \<not> bc_failed c)"

lemma cache_inv_new [wf_intros]: "cache_inv (new_body_cache source len)"
  by (simp add: cache_inv_def new_body_cache_def)

lemma cache_inv_bytes [wf_intros]: "cache_inv c \<Longrightarrow> cache_inv (snd (cache_bytes c))"
  by (cases "bc_source c") (auto simp: cache_inv_def cache_bytes_def Let_def)

lemma cache_inv_context [wf_intros]: "cache_inv c \<Longrightarrow> cache_inv (snd (cache_context c))"
  by (cases "bc_source c") (auto simp: cache_inv_def cache_context_def cache_bytes_def new_body_context_def Let_def)

lemma cache_inv_recording [wf_intros]: "cache_inv c \<Longrightarrow> cache_inv (snd (cache_bytes_for_recording c))"
  using cache_inv_bytes [of c]
  by (auto simp: cache_bytes_for_recording_def split: prod.splits)

lemma cache_bytes_value:
  assumes "cache_inv c"
  shows "cache_value c = (case fst (cache_bytes c) of (body, failed) \<Rightarrow> if failed then None else Some body)"
    and "cache_value (snd (cache_bytes c)) = cache_value c"
  using assms
  by (cases "bc_source c"; auto simp: cache_inv_def cache_value_def cache_bytes_def Let_def)+

end
