(* ===== verification/Mapping_Store.thy ===== *)
theory Mapping_Store
  imports Mapping_Facts
begin

text \<open>
  \<^verbatim>\<open>internal/mapping/store.go\<close>: the table of mappings under the mutex, the immutable snapshot that
  readers load, and the index of the snapshot by method and exact URL or path. Every operation is
  one critical section, so a state is the pair of the table and the last published snapshot.
\<close>

type_synonym index_key = "string \<times> string"

type_synonym stub_index = "index_key \<Rightarrow> mapping_stub list"

record mapping_snapshot =
  sn_mappings :: "mapping_stub list"
  sn_by_id :: "string \<Rightarrow> mapping_stub option"
  sn_by_exact_url :: stub_index
  sn_by_exact_path :: stub_index
  sn_fallback :: "mapping_stub list"
  sn_has_scenarios :: bool

record mapping_store =
  ms_by_id :: "string \<Rightarrow> mapping_stub option"
  ms_order :: "string list"
  ms_next_seq :: "64 word"
  ms_snapshot :: mapping_snapshot

definition empty_snapshot :: mapping_snapshot where
  "empty_snapshot = \<lparr>sn_mappings = [], sn_by_id = (\<lambda>_. None), sn_by_exact_url = (\<lambda>_. []),
     sn_by_exact_path = (\<lambda>_. []), sn_fallback = [], sn_has_scenarios = False\<rparr>"

definition new_store :: mapping_store where
  "new_store = \<lparr>ms_by_id = (\<lambda>_. None), ms_order = [], ms_next_seq = 0, ms_snapshot = empty_snapshot\<rparr>"

section \<open>Publishing a snapshot\<close>

text \<open>A missing key of the Go index reads as the nil slice.\<close>

definition index_add :: "index_key \<Rightarrow> mapping_stub \<Rightarrow> stub_index \<Rightarrow> stub_index" where
  "index_add key stub ix = ix(key := ix key @ [stub])"

definition index_mapping :: "mapping_stub \<Rightarrow> mapping_snapshot \<Rightarrow> mapping_snapshot" where
  "index_mapping stub sn =
     (let request = m_request stub in
      if rp_url request \<noteq> [] then
        sn\<lparr>sn_by_exact_url := index_add (rp_method request, rp_url request) stub (sn_by_exact_url sn)\<rparr>
      else if rp_url_path request \<noteq> [] then
        sn\<lparr>sn_by_exact_path := index_add (rp_method request, rp_url_path request) stub (sn_by_exact_path sn)\<rparr>
      else sn\<lparr>sn_fallback := sn_fallback sn @ [stub]\<rparr>)"

definition publish_one ::
  "(string \<Rightarrow> mapping_stub option) \<Rightarrow> string \<Rightarrow> mapping_snapshot \<Rightarrow> mapping_snapshot" where
  "publish_one by_id i sn =
     (case by_id i of
        None \<Rightarrow> sn
      | Some m \<Rightarrow>
          index_mapping m
            (sn\<lparr>sn_mappings := sn_mappings sn @ [m], sn_by_id := (sn_by_id sn)(i \<mapsto> m),
                sn_has_scenarios := sn_has_scenarios sn \<or> sc_name (m_scenario m) \<noteq> []\<rparr>))"

definition publish_locked :: "mapping_store \<Rightarrow> mapping_store" where
  "publish_locked s =
     s\<lparr>ms_snapshot := fold (publish_one (ms_by_id s)) (ms_order s) empty_snapshot\<rparr>"

section \<open>Operations\<close>

definition store_create :: "mapping_stub \<Rightarrow> mapping_store \<Rightarrow> mapping_stub \<times> mapping_store" where
  "store_create m s =
     (let (m', s') =
        (case ms_by_id s (m_id m) of
           Some existing \<Rightarrow> (m\<lparr>m_sequence := m_sequence existing\<rparr>, s)
         | None \<Rightarrow>
             (let next = ms_next_seq s + 1 in
              (m\<lparr>m_sequence := next\<rparr>,
               s\<lparr>ms_next_seq := next, ms_order := ms_order s @ [m_id m]\<rparr>)))
      in (m', publish_locked (s'\<lparr>ms_by_id := (ms_by_id s')(m_id m \<mapsto> m')\<rparr>)))"

definition store_replace ::
  "string \<Rightarrow> mapping_stub \<Rightarrow> mapping_store \<Rightarrow> mapping_stub option \<times> mapping_store" where
  "store_replace i m s =
     (case ms_by_id s i of
        None \<Rightarrow> (None, s)
      | Some existing \<Rightarrow>
          (let m' = m\<lparr>m_id := i, m_raw := set_raw_id i (m_raw m), m_sequence := m_sequence existing\<rparr>
           in (Some m', publish_locked (s\<lparr>ms_by_id := (ms_by_id s)(i \<mapsto> m')\<rparr>))))"

text \<open>The loop of \<^verbatim>\<open>Delete\<close> drops the first occurrence of the identifier.\<close>

definition store_delete :: "string \<Rightarrow> mapping_store \<Rightarrow> bool \<times> mapping_store" where
  "store_delete i s =
     (case ms_by_id s i of
        None \<Rightarrow> (False, s)
      | Some _ \<Rightarrow>
          (True, publish_locked (s\<lparr>ms_by_id := (ms_by_id s)(i := None), ms_order := remove1 i (ms_order s)\<rparr>)))"

definition store_list :: "mapping_store \<Rightarrow> mapping_stub list" where
  "store_list s = sn_mappings (ms_snapshot s)"

definition store_get :: "mapping_store \<Rightarrow> string \<Rightarrow> mapping_stub option" where
  "store_get s i = sn_by_id (ms_snapshot s) i"

definition store_count :: "mapping_store \<Rightarrow> nat" where
  "store_count s = length (sn_mappings (ms_snapshot s))"

definition store_has_scenarios :: "mapping_store \<Rightarrow> bool" where
  "store_has_scenarios s = sn_has_scenarios (ms_snapshot s)"

text \<open>The iteration functions; the callback works on a state and stops the loop with \<open>False\<close>.\<close>

fun range_mapping_list ::
  "mapping_stub list \<Rightarrow> (mapping_stub \<Rightarrow> 's \<Rightarrow> bool \<times> 's) \<Rightarrow> 's \<Rightarrow> bool \<times> 's" where
  "range_mapping_list [] yield s = (True, s)"
| "range_mapping_list (m # ms) yield s =
     (case yield m s of (go, s') \<Rightarrow> if \<not> go then (False, s') else range_mapping_list ms yield s')"

definition store_range :: "mapping_store \<Rightarrow> (mapping_stub \<Rightarrow> 's \<Rightarrow> bool \<times> 's) \<Rightarrow> 's \<Rightarrow> 's" where
  "store_range s yield st = snd (range_mapping_list (sn_mappings (ms_snapshot s)) yield st)"

definition range_candidates ::
  "mapping_snapshot \<Rightarrow> string \<Rightarrow> string \<Rightarrow> string \<Rightarrow> (mapping_stub \<Rightarrow> 's \<Rightarrow> bool \<times> 's) \<Rightarrow> 's \<Rightarrow> 's" where
  "range_candidates sn meth0 uri path yield s0 =
     (let meth = to_upper meth0;
          (go1, s1) = range_mapping_list (sn_by_exact_url sn (meth, uri)) yield s0
      in if \<not> go1 then s1 else
         let (go2, s2) = (if meth \<noteq> ''ANY''
                          then range_mapping_list (sn_by_exact_url sn (''ANY'', uri)) yield s1 else (True, s1))
         in if \<not> go2 then s2 else
            let (go3, s3) = range_mapping_list (sn_by_exact_path sn (meth, path)) yield s2
            in if \<not> go3 then s3 else
               let (go4, s4) = (if meth \<noteq> ''ANY''
                                then range_mapping_list (sn_by_exact_path sn (''ANY'', path)) yield s3
                                else (True, s3))
               in if \<not> go4 then s4 else snd (range_mapping_list (sn_fallback sn) yield s4))"

definition store_range_candidates ::
  "mapping_store \<Rightarrow> string \<Rightarrow> string \<Rightarrow> string \<Rightarrow> (mapping_stub \<Rightarrow> 's \<Rightarrow> bool \<times> 's) \<Rightarrow> 's \<Rightarrow> 's" where
  "store_range_candidates s meth uri path yield st = range_candidates (ms_snapshot s) meth uri path yield st"

text \<open>The same candidates as a list.\<close>

definition candidates :: "mapping_snapshot \<Rightarrow> string \<Rightarrow> string \<Rightarrow> string \<Rightarrow> mapping_stub list" where
  "candidates sn meth0 uri path =
     (let meth = to_upper meth0; any = (if meth \<noteq> ''ANY'' then [''ANY''] else []) in
      concat (map (\<lambda>k. sn_by_exact_url sn (k, uri)) (meth # any))
      @ concat (map (\<lambda>k. sn_by_exact_path sn (k, path)) (meth # any)) @ sn_fallback sn)"

lemma range_mapping_list_append:
  "range_mapping_list (xs @ ys) yield s =
     (case range_mapping_list xs yield s of (go, s') \<Rightarrow> if \<not> go then (False, s') else range_mapping_list ys yield s')"
  by (induction xs arbitrary: s) (auto split: prod.splits)

lemma range_candidates_list:
  "range_candidates sn meth uri path yield s = snd (range_mapping_list (candidates sn meth uri path) yield s)"
  by (simp add: range_candidates_def candidates_def Let_def range_mapping_list_append split: prod.splits)

lemma range_mapping_list_fold:
  "(\<And>m s. fst (yield m s)) \<Longrightarrow> range_mapping_list ms yield s = (True, fold (\<lambda>m s. snd (yield m s)) ms s)"
proof (induction ms arbitrary: s)
  case (Cons m ms)
  obtain go t where y: "yield m s = (go, t)" by fastforce
  with Cons.prems [of m s] have "go" by simp
  with y Cons show ?case by simp
qed simp

section \<open>What a published snapshot holds\<close>

definition stored :: "mapping_store \<Rightarrow> mapping_stub list" where
  "stored s = map (\<lambda>i. the (ms_by_id s i)) (ms_order s)"

definition by_url :: "index_key \<Rightarrow> mapping_stub \<Rightarrow> bool" where
  "by_url k m \<longleftrightarrow> rp_url (m_request m) \<noteq> [] \<and> (rp_method (m_request m), rp_url (m_request m)) = k"

definition by_path :: "index_key \<Rightarrow> mapping_stub \<Rightarrow> bool" where
  "by_path k m \<longleftrightarrow>
     rp_url (m_request m) = [] \<and> rp_url_path (m_request m) \<noteq> []
     \<and> (rp_method (m_request m), rp_url_path (m_request m)) = k"

definition by_pattern :: "mapping_stub \<Rightarrow> bool" where
  "by_pattern m \<longleftrightarrow> rp_url (m_request m) = [] \<and> rp_url_path (m_request m) = []"

definition snapshot_of :: "(string \<Rightarrow> mapping_stub option) \<Rightarrow> mapping_stub list \<Rightarrow> mapping_snapshot" where
  "snapshot_of by_id ms =
     \<lparr>sn_mappings = ms, sn_by_id = by_id,
      sn_by_exact_url = (\<lambda>k. filter (by_url k) ms), sn_by_exact_path = (\<lambda>k. filter (by_path k) ms),
      sn_fallback = filter by_pattern ms,
      sn_has_scenarios = list_ex (\<lambda>m. sc_name (m_scenario m) \<noteq> []) ms\<rparr>"

lemma publish_one_snapshot:
  assumes "by_id i = Some m"
  shows "publish_one by_id i (snapshot_of f ms) = snapshot_of (f(i \<mapsto> m)) (ms @ [m])"
  using assms
  by (auto simp: publish_one_def snapshot_of_def index_mapping_def index_add_def Let_def
      by_url_def by_path_def by_pattern_def fun_eq_iff)

lemma publish_fold:
  assumes "set order \<subseteq> dom by_id"
  shows "fold (publish_one by_id) order (snapshot_of f ms)
    = snapshot_of (\<lambda>i. if i \<in> set order then by_id i else f i) (ms @ map (\<lambda>i. the (by_id i)) order)"
  using assms
proof (induction order arbitrary: f ms)
  case Nil
  then show ?case by simp
next
  case (Cons i order)
  then obtain m where m: "by_id i = Some m" by auto
  have eq: "(\<lambda>j. if j \<in> set order then by_id j else (f(i \<mapsto> m)) j)
      = (\<lambda>j. if j \<in> set (i # order) then by_id j else f j)"
    by (auto simp: fun_eq_iff m)
  show ?case using Cons by (simp add: publish_one_snapshot [of by_id i m] m eq del: fun_upd_apply)
qed

lemma empty_snapshot_eq: "empty_snapshot = snapshot_of (\<lambda>_. None) []"
  by (simp add: empty_snapshot_def snapshot_of_def)

lemma published_snapshot:
  assumes "set (ms_order s) = dom (ms_by_id s)"
  shows "ms_snapshot (publish_locked s) = snapshot_of (ms_by_id s) (stored s)"
proof -
  have "(\<lambda>i. if i \<in> set (ms_order s) then ms_by_id s i else None) = ms_by_id s"
    using assms by (auto simp: fun_eq_iff domIff)
  then show ?thesis using assms
    by (simp add: publish_locked_def empty_snapshot_eq publish_fold stored_def)
qed

section \<open>The invariant\<close>

text \<open>
  The order lists the stored identifiers once each, a mapping is stored under its identifier, the
  snapshot is the one of the table, and sequence numbers grow along the order up to the counter.
\<close>

definition store_inv :: "mapping_store \<Rightarrow> bool" where
  "store_inv s \<longleftrightarrow>
     distinct (ms_order s) \<and> set (ms_order s) = dom (ms_by_id s)
     \<and> (\<forall>i m. ms_by_id s i = Some m \<longrightarrow> m_id m = i)
     \<and> ms_snapshot s = snapshot_of (ms_by_id s) (stored s)
     \<and> sorted_wrt (<) (map m_sequence (stored s))
     \<and> (\<forall>m \<in> set (stored s). m_sequence m \<le> ms_next_seq s)"

lemma store_invD:
  assumes "store_inv s"
  shows "distinct (ms_order s)" and "set (ms_order s) = dom (ms_by_id s)"
    and "ms_by_id s i = Some m \<Longrightarrow> m_id m = i"
    and "ms_snapshot s = snapshot_of (ms_by_id s) (stored s)"
    and "sorted_wrt (<) (map m_sequence (stored s))"
    and "m \<in> set (stored s) \<Longrightarrow> m_sequence m \<le> ms_next_seq s"
  using assms by (auto simp: store_inv_def)

lemma new_store_inv: "store_inv new_store"
  by (simp add: store_inv_def new_store_def stored_def empty_snapshot_eq)

lemma publish_simps [simp]:
  "ms_by_id (publish_locked s) = ms_by_id s" "ms_order (publish_locked s) = ms_order s"
  "ms_next_seq (publish_locked s) = ms_next_seq s" "stored (publish_locked s) = stored s"
  by (simp_all add: publish_locked_def stored_def)

text \<open>Publishing establishes the invariant once the table satisfies its part of it.\<close>

lemma publish_inv:
  assumes "distinct (ms_order s)" and "set (ms_order s) = dom (ms_by_id s)"
    and "\<And>i m. ms_by_id s i = Some m \<Longrightarrow> m_id m = i"
    and "sorted_wrt (<) (map m_sequence (stored s))"
    and "\<And>m. m \<in> set (stored s) \<Longrightarrow> m_sequence m \<le> ms_next_seq s"
  shows "store_inv (publish_locked s)"
  using assms by (simp add: store_inv_def published_snapshot)

text \<open>Overwriting a stored mapping keeps its place and, with the old sequence number, the order.\<close>

lemma stored_overwrite:
  assumes "store_inv s" and "ms_by_id s i = Some old"
  shows "stored (s\<lparr>ms_by_id := (ms_by_id s)(i \<mapsto> m)\<rparr>) = map (\<lambda>x. if m_id x = i then m else x) (stored s)"
  unfolding stored_def using store_invD(2) [OF assms(1)] store_invD(3) [OF assms(1)]
  by (auto simp: domIff)

lemma overwrite_inv:
  assumes inv: "store_inv s" and old: "ms_by_id s i = Some old"
    and m: "m_id m = i" "m_sequence m = m_sequence old"
  shows "store_inv (publish_locked (s\<lparr>ms_by_id := (ms_by_id s)(i \<mapsto> m)\<rparr>))"
proof (rule publish_inv)
  let ?s = "s\<lparr>ms_by_id := (ms_by_id s)(i \<mapsto> m)\<rparr>"
  have seq: "m_sequence x = m_sequence old" if "x \<in> set (stored s)" "m_id x = i" for x
    using that inv old store_invD(2,3) [OF inv] by (auto simp: stored_def domIff)
  have seqs: "map m_sequence (stored ?s) = map m_sequence (stored s)"
    unfolding stored_overwrite [OF inv old] using seq m by simp
  show "sorted_wrt (<) (map m_sequence (stored ?s))"
    unfolding seqs by (rule store_invD(5) [OF inv])
  show "m_sequence x \<le> ms_next_seq ?s" if "x \<in> set (stored ?s)" for x
  proof -
    have "m_sequence x \<in> m_sequence ` set (stored s)"
      using that seqs by (metis image_eqI list.set_map)
    then show ?thesis using store_invD(6) [OF inv] by auto
  qed
qed (use inv m old store_invD(1,2,3) [OF inv] in \<open>auto split: if_splits\<close>)

text \<open>The sequence counter does not wrap before \<open>2 ^ 64 - 1\<close> mappings were created.\<close>

definition seq_room :: "mapping_store \<Rightarrow> bool" where
  "seq_room s \<longleftrightarrow> ms_next_seq s < - 1"

lemma less_succ_word: "(x :: 64 word) < - 1 \<Longrightarrow> x < x + 1"
proof -
  assume "x < - 1"
  then have "unat x < unat (- 1 :: 64 word)" by (simp add: word_less_nat_alt)
  also have "unat (- 1 :: 64 word) = 2 ^ 64 - 1" by (simp add: unsigned_minus_1_eq_mask mask_eq_exp_minus_1)
  finally have "unat (x + 1) = unat x + 1" by (simp add: unat_word_ariths)
  then show ?thesis by (simp add: word_less_nat_alt)
qed

lemma create_inv:
  assumes inv: "store_inv s" and room: "seq_room s"
  shows "store_inv (snd (store_create m s))"
proof (cases "ms_by_id s (m_id m)")
  case (Some old)
  show ?thesis
    using overwrite_inv [OF inv Some, of "m\<lparr>m_sequence := m_sequence old\<rparr>"]
    by (simp add: store_create_def Some)
next
  case None
  let ?m = "m\<lparr>m_sequence := ms_next_seq s + 1\<rparr>"
  let ?s = "s\<lparr>ms_next_seq := ms_next_seq s + 1, ms_order := ms_order s @ [m_id m],
      ms_by_id := (ms_by_id s)(m_id m \<mapsto> ?m)\<rparr>"
  have fresh: "m_id m \<notin> set (ms_order s)" using None store_invD(2) [OF inv] by (auto simp: domIff)
  then have st: "stored ?s = stored s @ [?m]" by (auto simp: stored_def)
  have less: "m_sequence x < ms_next_seq s + 1" if "x \<in> set (stored s)" for x
    using store_invD(6) [OF inv that] less_succ_word room unfolding seq_room_def
    by (meson le_less_trans)
  have "store_inv (publish_locked ?s)"
  proof (rule publish_inv)
    show "sorted_wrt (<) (map m_sequence (stored ?s))"
      unfolding st using store_invD(5) [OF inv] less by (simp add: sorted_wrt_append)
    show "m_sequence x \<le> ms_next_seq ?s" if "x \<in> set (stored ?s)" for x
      using that less unfolding st by (auto simp: less_imp_le)
  qed (use fresh store_invD(1,2,3) [OF inv] in \<open>auto split: if_splits\<close>)
  then show ?thesis by (simp add: store_create_def None Let_def)
qed

lemma replace_inv:
  assumes "store_inv s"
  shows "store_inv (snd (store_replace i m s))"
proof (cases "ms_by_id s i")
  case (Some old)
  show ?thesis
    using overwrite_inv [OF assms Some, of "m\<lparr>m_id := i, m_raw := set_raw_id i (m_raw m),
        m_sequence := m_sequence old\<rparr>"]
    by (simp add: store_replace_def Some Let_def)
qed (simp add: store_replace_def assms)

lemma stored_remove:
  assumes "distinct (ms_order s)"
  shows "stored (s\<lparr>ms_by_id := (ms_by_id s)(i := None), ms_order := remove1 i (ms_order s)\<rparr>)
    = map (\<lambda>j. the (ms_by_id s j)) (filter (\<lambda>j. j \<noteq> i) (ms_order s))"
proof -
  have "remove1 i (ms_order s) = filter (\<lambda>j. j \<noteq> i) (ms_order s)"
    using assms by (simp add: distinct_remove1_removeAll removeAll_filter_not_eq neq_commute)
  then show ?thesis by (simp add: stored_def cong: map_cong)
qed

lemma delete_inv:
  assumes inv: "store_inv s"
  shows "store_inv (snd (store_delete i s))"
proof (cases "ms_by_id s i")
  case (Some old)
  let ?s = "s\<lparr>ms_by_id := (ms_by_id s)(i := None), ms_order := remove1 i (ms_order s)\<rparr>"
  have st: "stored ?s = map (\<lambda>j. the (ms_by_id s j)) (filter (\<lambda>j. j \<noteq> i) (ms_order s))"
    by (rule stored_remove [OF store_invD(1) [OF inv]])
  have "store_inv (publish_locked ?s)"
  proof (rule publish_inv)
    show "sorted_wrt (<) (map m_sequence (stored ?s))"
      unfolding st using store_invD(5) [OF inv]
      by (simp add: stored_def sorted_wrt_map sorted_wrt_filter)
    show "m_sequence x \<le> ms_next_seq ?s" if "x \<in> set (stored ?s)" for x
      using that store_invD(6) [OF inv] unfolding st by (auto simp: stored_def)
  qed (use store_invD(1,2,3) [OF inv] in \<open>auto split: if_splits\<close>)
  then show ?thesis by (simp add: store_delete_def Some)
qed (simp add: store_delete_def inv)

end
