(* ===== verification/Mapping_Store_Facts.thy ===== *)
theory Mapping_Store_Facts
  imports Mapping_Store
begin

text \<open>
  The contract of the mapping store: an insertion-ordered map from identifiers to mappings, which
  \<open>Mapping_Store\<close> refines, and the soundness and completeness of the candidate index.
\<close>

section \<open>The contract\<close>

text \<open>
  \<open>entries\<close> is the abstract value: what a client sees of the mappings, by identifier in insertion
  order. \<open>room\<close> bounds the number of creations. The clients are the admin API, the runtime and the recorder.
\<close>

locale ordered_store =
  fixes inv :: "'s \<Rightarrow> bool"
    and room :: "'s \<Rightarrow> bool"
    and entries :: "'s \<Rightarrow> (string \<times> 'v) list"
    and create :: "'m \<Rightarrow> 's \<Rightarrow> 's"
    and replace :: "string \<Rightarrow> 'm \<Rightarrow> 's \<Rightarrow> 's"
    and delete :: "string \<Rightarrow> 's \<Rightarrow> 's"
    and get :: "'s \<Rightarrow> string \<Rightarrow> 'v option"
    and key :: "'m \<Rightarrow> string"
    and view :: "'m \<Rightarrow> 'v"
    and rekeyed :: "string \<Rightarrow> 'm \<Rightarrow> 'v"
  assumes inv_distinct: "inv s \<Longrightarrow> distinct_keys (entries s)"
    and get_entries: "inv s \<Longrightarrow> get s i = map_of (entries s) i"
    and create_inv: "inv s \<Longrightarrow> room s \<Longrightarrow> inv (create m s)"
    and create_entries: "inv s \<Longrightarrow> entries (create m s) = aput (key m) (view m) (entries s)"
    and replace_inv: "inv s \<Longrightarrow> inv (replace i m s)"
    and replace_entries: "inv s \<Longrightarrow>
      entries (replace i m s) = (if get s i = None then entries s else aput i (rekeyed i m) (entries s))"
    and delete_inv: "inv s \<Longrightarrow> inv (delete i s)"
    and delete_entries: "inv s \<Longrightarrow> entries (delete i s) = AList.delete i (entries s)"
begin

lemma get_create: "inv s \<Longrightarrow> room s \<Longrightarrow> get (create m s) j = (if j = key m then Some (view m) else get s j)"
  by (simp add: get_entries create_inv create_entries update_conv')

lemma get_replace:
  "inv s \<Longrightarrow> get (replace i m s) j = (if j = i \<and> get s i \<noteq> None then Some (rekeyed i m) else get s j)"
  by (auto simp: get_entries replace_inv replace_entries update_conv')

lemma get_delete: "inv s \<Longrightarrow> get (delete i s) j = (if j = i then None else get s j)"
  by (simp add: get_entries delete_inv delete_entries delete_conv')

text \<open>A new identifier goes to the end, a known one keeps its place.\<close>

lemma keys_create:
  assumes "inv s"
  shows "map fst (entries (create m s))
    = (if get s (key m) = None then map fst (entries s) @ [key m] else map fst (entries s))"
proof -
  have "map fst (aput k v xs) = (if k \<in> fst ` set xs then map fst xs else map fst xs @ [k])" for k v and xs :: "(string \<times> 'v) list"
    by (induction xs) auto
  then show ?thesis
    by (simp add: create_entries assms get_entries map_of_eq_None_iff)
qed

lemma keys_delete: "inv s \<Longrightarrow> map fst (entries (delete i s)) = filter (\<lambda>k. k \<noteq> i) (map fst (entries s))"
  by (simp add: delete_entries delete_keys removeAll_filter_not_eq neq_commute)

text \<open>Deleting what was created last gives back the store, if the identifier was new.\<close>

lemma delete_create:
  assumes "inv s" "room s" "get s (key m) = None"
  shows "entries (delete (key m) (create m s)) = entries s"
proof -
  have "key m \<notin> fst ` set (entries s)" using assms by (simp add: get_entries map_of_eq_None_iff)
  then have "AList.delete (key m) (aput (key m) (view m) (entries s)) = entries s"
    by (induction "entries s") (auto simp: delete_update_same delete_id)
  then show ?thesis using assms by (simp add: delete_entries create_inv create_entries)
qed

end

section \<open>The model refines the contract\<close>

text \<open>Clients do not see the sequence number in the abstract value.\<close>

definition unsequenced :: "mapping_stub \<Rightarrow> mapping_stub" where
  "unsequenced m = m\<lparr>m_sequence := 0\<rparr>"

definition store_entries :: "mapping_store \<Rightarrow> (string \<times> mapping_stub) list" where
  "store_entries s = map (\<lambda>m. (m_id m, unsequenced m)) (store_list s)"

definition rekey :: "string \<Rightarrow> mapping_stub \<Rightarrow> mapping_stub" where
  "rekey i m = unsequenced (m\<lparr>m_id := i, m_raw := set_raw_id i (m_raw m)\<rparr>)"

lemma snapshot_of_simps [simp]:
  "sn_mappings (snapshot_of f ms) = ms" "sn_by_id (snapshot_of f ms) = f"
  "sn_by_exact_url (snapshot_of f ms) k = filter (by_url k) ms"
  "sn_by_exact_path (snapshot_of f ms) k = filter (by_path k) ms"
  "sn_fallback (snapshot_of f ms) = filter by_pattern ms"
  "sn_has_scenarios (snapshot_of f ms) = list_ex (\<lambda>m. sc_name (m_scenario m) \<noteq> []) ms"
  by (simp_all add: snapshot_of_def)

lemma store_views:
  assumes "store_inv s"
  shows "store_list s = stored s" and "store_get s i = ms_by_id s i" and "store_count s = length (ms_order s)"
    and "store_has_scenarios s \<longleftrightarrow> (\<exists>m \<in> set (stored s). sc_name (m_scenario m) \<noteq> [])"
  using store_invD(4) [OF assms]
  by (simp_all add: store_list_def store_get_def store_count_def store_has_scenarios_def stored_def list_ex_iff)

lemma store_entries_alt:
  assumes "store_inv s"
  shows "store_entries s = map (\<lambda>i. (i, unsequenced (the (ms_by_id s i)))) (ms_order s)"
  using store_invD(2,3) [OF assms]
  by (auto simp: store_entries_def store_views [OF assms] stored_def domIff)

lemma store_entries_keys: "store_inv s \<Longrightarrow> map fst (store_entries s) = ms_order s"
  by (simp add: store_entries_alt comp_def)

lemma map_of_store_entries:
  assumes "store_inv s"
  shows "map_of (store_entries s) i = map_option unsequenced (ms_by_id s i)"
proof -
  have "i \<in> set (ms_order s) \<longleftrightarrow> ms_by_id s i \<noteq> None"
    using store_invD(2) [OF assms] by (auto simp: domIff)
  then show ?thesis
    by (cases "ms_by_id s i") (auto simp: store_entries_alt [OF assms] map_of_map_keys map_of_map_restrict restrict_map_def)
qed

lemma aput_map_known:
  "i \<in> set ks \<Longrightarrow> distinct ks \<Longrightarrow>
   aput i v (map (\<lambda>j. (j, f j)) ks) = map (\<lambda>j. (j, if j = i then v else f j)) ks"
  by (induction ks) (auto intro!: map_cong)

lemma aput_map_fresh: "i \<notin> set ks \<Longrightarrow> aput i v (map (\<lambda>j. (j, f j)) ks) = map (\<lambda>j. (j, f j)) ks @ [(i, v)]"
  by (induction ks) auto

lemma unsequenced_simps [simp]:
  "m_id (unsequenced m) = m_id m" "unsequenced (unsequenced m) = unsequenced m"
  "unsequenced (m\<lparr>m_sequence := q\<rparr>) = unsequenced m"
  by (simp_all add: unsequenced_def)

text \<open>The table of the store after an overwrite, as entries.\<close>

lemma entries_overwrite:
  assumes inv: "store_inv s" and old: "ms_by_id s i = Some old" and m: "m_id m = i" "m_sequence m = m_sequence old"
  shows "store_entries (publish_locked (s\<lparr>ms_by_id := (ms_by_id s)(i \<mapsto> m)\<rparr>)) = aput i (unsequenced m) (store_entries s)"
proof -
  have i: "i \<in> set (ms_order s)" using old store_invD(2) [OF inv] by auto
  have "store_inv (publish_locked (s\<lparr>ms_by_id := (ms_by_id s)(i \<mapsto> m)\<rparr>))"
    by (rule overwrite_inv [OF inv old m])
  then show ?thesis
    using i store_invD(1) [OF inv] by (simp add: store_entries_alt inv aput_map_known if_distrib cong: if_cong)
qed

lemma entries_create:
  assumes inv: "store_inv s"
  shows "store_entries (snd (store_create m s)) = aput (m_id m) (unsequenced m) (store_entries s)"
proof (cases "ms_by_id s (m_id m)")
  case (Some old)
  show ?thesis
    using entries_overwrite [OF inv Some, of "m\<lparr>m_sequence := m_sequence old\<rparr>"]
    by (simp add: store_create_def Some)
next
  case None
  let ?m = "m\<lparr>m_sequence := ms_next_seq s + 1\<rparr>"
  let ?s = "s\<lparr>ms_next_seq := ms_next_seq s + 1, ms_order := ms_order s @ [m_id m],
      ms_by_id := (ms_by_id s)(m_id m \<mapsto> ?m)\<rparr>"
  have fresh: "m_id m \<notin> set (ms_order s)" using None store_invD(2) [OF inv] by (auto simp: domIff)
  have dom: "set (ms_order ?s) = dom (ms_by_id ?s)" using store_invD(2) [OF inv] by auto
  have "store_list (publish_locked ?s) = stored s @ [?m]"
    using fresh by (auto simp: store_list_def published_snapshot [OF dom] stored_def)
  then have "store_entries (publish_locked ?s) = store_entries s @ [(m_id m, unsequenced m)]"
    by (simp add: store_entries_def store_views [OF inv])
  also have "\<dots> = aput (m_id m) (unsequenced m) (store_entries s)"
    using fresh by (simp add: store_entries_alt inv aput_map_fresh)
  finally show ?thesis by (simp add: store_create_def None Let_def)
qed

lemma entries_replace:
  assumes inv: "store_inv s"
  shows "store_entries (snd (store_replace i m s))
    = (if ms_by_id s i = None then store_entries s else aput i (rekey i m) (store_entries s))"
proof (cases "ms_by_id s i")
  case (Some old)
  show ?thesis
    using entries_overwrite [OF inv Some, of "m\<lparr>m_id := i, m_raw := set_raw_id i (m_raw m),
        m_sequence := m_sequence old\<rparr>"]
    by (simp add: store_replace_def Some Let_def rekey_def unsequenced_def)
qed (simp add: store_replace_def)

lemma entries_delete:
  assumes inv: "store_inv s"
  shows "store_entries (snd (store_delete i s)) = AList.delete i (store_entries s)"
proof (cases "ms_by_id s i")
  case None
  then have "i \<notin> set (ms_order s)" using store_invD(2) [OF inv] by (auto simp: domIff)
  then show ?thesis
    by (simp add: store_delete_def None delete_id store_entries_keys inv flip: list.set_map)
next
  case (Some old)
  let ?s = "s\<lparr>ms_by_id := (ms_by_id s)(i := None), ms_order := remove1 i (ms_order s)\<rparr>"
  have inv': "store_inv (publish_locked ?s)"
    using delete_inv [OF inv, of i] by (simp add: store_delete_def Some)
  have rm: "remove1 i (ms_order s) = filter (\<lambda>j. j \<noteq> i) (ms_order s)"
    using store_invD(1) [OF inv] by (simp add: distinct_remove1_removeAll removeAll_filter_not_eq neq_commute)
  have "store_entries (publish_locked ?s)
      = map (\<lambda>j. (j, unsequenced (the (ms_by_id s j)))) (filter (\<lambda>j. j \<noteq> i) (ms_order s))"
    unfolding store_entries_alt [OF inv'] by (simp add: rm cong: map_cong)
  also have "\<dots> = AList.delete i (store_entries s)"
    by (simp add: store_entries_alt inv AList.delete_eq filter_map comp_def neq_commute)
  finally show ?thesis by (simp add: store_delete_def Some)
qed

definition sequenced_get :: "mapping_store \<Rightarrow> string \<Rightarrow> mapping_stub option" where
  "sequenced_get s i = map_option unsequenced (store_get s i)"

interpretation ms: ordered_store store_inv seq_room store_entries "\<lambda>m s. snd (store_create m s)"
  "\<lambda>i m s. snd (store_replace i m s)" "\<lambda>i s. snd (store_delete i s)" sequenced_get m_id
  unsequenced rekey
proof unfold_locales
  fix s i m assume inv: "store_inv s"
  show "distinct_keys (store_entries s)"
    using inv by (simp add: store_entries_keys store_invD(1))
  show get: "sequenced_get s i = map_of (store_entries s) i"
    using inv by (simp add: sequenced_get_def map_of_store_entries store_views)
  show "store_entries (snd (store_replace i m s))
      = (if sequenced_get s i = None then store_entries s else aput i (rekey i m) (store_entries s))"
    using inv by (simp add: entries_replace sequenced_get_def store_views)
qed (simp_all add: create_inv entries_create replace_inv delete_inv entries_delete)

section \<open>The candidate index\<close>

text \<open>What the index lists for a request: \<open>candidate\<close> says for one mapping that it is listed.\<close>

definition candidate :: "string \<Rightarrow> string \<Rightarrow> string \<Rightarrow> mapping_stub \<Rightarrow> bool" where
  "candidate meth uri path m \<longleftrightarrow>
     (let p = m_request m; known = rp_method p = to_upper meth \<or> rp_method p = ''ANY'' in
      if rp_url p \<noteq> [] then known \<and> rp_url p = uri
      else if rp_url_path p \<noteq> [] then known \<and> rp_url_path p = path
      else True)"

lemma mset_filter_disjoint:
  "(\<And>x. \<not> (P x \<and> Q x)) \<Longrightarrow> mset (filter P xs) + mset (filter Q xs) = mset (filter (\<lambda>x. P x \<or> Q x) xs)"
  by (induction xs) auto

text \<open>The candidates are the stored mappings of their kind, each once, in some order.\<close>

lemma mset_candidates:
  "mset (candidates (snapshot_of f ms) meth uri path) = mset (filter (candidate meth uri path) ms)"
proof -
  let ?u = "to_upper meth"
  let ?U = "\<lambda>x. by_url (?u, uri) x \<or> by_url (''ANY'', uri) x"
  let ?P = "\<lambda>x. by_path (?u, path) x \<or> by_path (''ANY'', path) x"
  have pair: "mset (filter (g (?u, t)) ms) + (if ?u \<noteq> ''ANY'' then mset (filter (g (''ANY'', t)) ms) else {#})
      = mset (filter (\<lambda>x. g (?u, t) x \<or> g (''ANY'', t) x) ms)"
    if "\<And>k l x. g k x \<Longrightarrow> g l x \<Longrightarrow> k = l" for g :: "index_key \<Rightarrow> mapping_stub \<Rightarrow> bool" and t
  proof (cases "?u = ''ANY''")
    case False
    then have "mset (filter (g (?u, t)) ms) + mset (filter (g (''ANY'', t)) ms)
        = mset (filter (\<lambda>x. g (?u, t) x \<or> g (''ANY'', t) x) ms)"
      by (intro mset_filter_disjoint) (use that in blast)
    with False show ?thesis by simp
  qed simp
  have U: "mset (filter (by_url (?u, uri)) ms) + (if ?u \<noteq> ''ANY'' then mset (filter (by_url (''ANY'', uri)) ms) else {#})
      = mset (filter ?U ms)"
    by (rule pair) (auto simp: by_url_def)
  have P: "mset (filter (by_path (?u, path)) ms) + (if ?u \<noteq> ''ANY'' then mset (filter (by_path (''ANY'', path)) ms) else {#})
      = mset (filter ?P ms)"
    by (rule pair) (auto simp: by_path_def)
  have "mset (candidates (snapshot_of f ms) meth uri path)
      = mset (filter ?U ms) + (mset (filter ?P ms) + mset (filter by_pattern ms))"
    unfolding U [symmetric] P [symmetric]
    by (cases "?u = ''ANY''") (simp_all add: candidates_def Let_def)
  also have "mset (filter ?P ms) + mset (filter by_pattern ms) = mset (filter (\<lambda>x. ?P x \<or> by_pattern x) ms)"
    by (rule mset_filter_disjoint) (auto simp: by_path_def by_pattern_def)
  also have "mset (filter ?U ms) + \<dots> = mset (filter (\<lambda>x. ?U x \<or> ?P x \<or> by_pattern x) ms)"
    by (rule mset_filter_disjoint) (auto simp: by_url_def by_path_def by_pattern_def)
  also have "filter (\<lambda>x. ?U x \<or> ?P x \<or> by_pattern x) ms = filter (candidate meth uri path) ms"
    by (rule filter_cong) (auto simp: candidate_def by_url_def by_path_def by_pattern_def Let_def)
  finally show ?thesis .
qed

text \<open>A mapping whose method and URL match the request is a candidate.\<close>

lemma candidate_complete:
  assumes "wf_request L (m_request m)" and "matches_method (m_request m) meth"
    and "matches_url L (m_request m) uri path"
  shows "candidate meth uri path m"
  using assms
  by (auto simp: candidate_def matches_method_def matches_url_def wf_request_def equal_fold_upper Let_def
      split: if_splits)

lemma candidates_of_store:
  assumes inv: "store_inv s"
    and complete: "\<And>m. m \<in> set (store_list s) \<Longrightarrow> P m \<Longrightarrow> candidate meth uri path m"
  shows "mset (filter P (candidates (ms_snapshot s) meth uri path)) = mset (filter P (store_list s))"
proof -
  have "mset (filter P (candidates (ms_snapshot s) meth uri path))
      = filter_mset P (mset (filter (candidate meth uri path) (stored s)))"
    by (simp only: mset_filter store_invD(4) [OF inv] mset_candidates)
  also have "\<dots> = mset (filter (\<lambda>m. candidate meth uri path m \<and> P m) (stored s))"
    by (simp only: mset_filter [symmetric] filter_filter conj_commute)
  also have "filter (\<lambda>m. candidate meth uri path m \<and> P m) (stored s) = filter P (store_list s)"
    unfolding store_views(1) [OF inv]
    by (rule filter_cong) (use complete store_views(1) [OF inv] in auto)
  finally show ?thesis .
qed

end
