(* ===== verification/Stub_Order.thy ===== *)
theory Stub_Order
  imports Mapping_Store_Facts
begin

text \<open>
  The order in which matching mappings are preferred (\<^verbatim>\<open>compareStubOrder\<close> of
  \<^verbatim>\<open>internal/server/runtime.go\<close>) and the selection loop that the runtime and the scenario store
  share (\<^verbatim>\<open>selectBestStub\<close>, \<^verbatim>\<open>selectBest\<close>).
\<close>

section \<open>Comparison and selection\<close>

text \<open>The subtraction of priorities is 64-bit arithmetic and may wrap.\<close>

definition compare_stub_order :: "mapping_stub \<Rightarrow> mapping_stub \<Rightarrow> int" where
  "compare_stub_order left right =
     (if m_priority left \<noteq> m_priority right then int64 (m_priority left - m_priority right)
      else if m_sequence left < m_sequence right then - 1
      else if m_sequence left > m_sequence right then 1
      else 0)"

text \<open>One turn of the loop: \<open>None\<close> is \<^verbatim>\<open>found = false\<close>.\<close>

definition better :: "('m \<Rightarrow> 'm \<Rightarrow> int) \<Rightarrow> 'm \<Rightarrow> 'm option \<Rightarrow> 'm option" where
  "better compare stub selected =
     (case selected of
        None \<Rightarrow> Some stub
      | Some best \<Rightarrow> if compare stub best < 0 then Some stub else selected)"

definition select_best :: "('m \<Rightarrow> 'm \<Rightarrow> int) \<Rightarrow> 'm list \<Rightarrow> 'm option" where
  "select_best compare cands = fold (better compare) cands None"

definition select_best_stub :: "mapping_stub list \<Rightarrow> mapping_stub option" where
  "select_best_stub cands = select_best compare_stub_order cands"

lemma fold_better_mem:
  "fold (better compare) xs sel = Some b \<Longrightarrow> b \<in> set xs \<or> sel = Some b"
  by (induction xs arbitrary: sel) (auto simp: better_def split: option.splits if_splits)

lemma select_best_mem: "select_best compare xs = Some b \<Longrightarrow> b \<in> set xs"
  using fold_better_mem [of compare xs None b] by (simp add: select_best_def)

section \<open>Ranks\<close>

text \<open>The rank of a mapping: priority first, then creation order.\<close>

datatype stub_rank = Rank int "64 word"

instantiation stub_rank :: linorder
begin

fun less_eq_stub_rank :: "stub_rank \<Rightarrow> stub_rank \<Rightarrow> bool" where
  "less_eq_stub_rank (Rank p s) (Rank q t) \<longleftrightarrow> p < q \<or> (p = q \<and> s \<le> t)"

definition less_stub_rank :: "stub_rank \<Rightarrow> stub_rank \<Rightarrow> bool" where
  "less_stub_rank a b \<longleftrightarrow> a \<le> b \<and> \<not> b \<le> a"

instance
proof
  fix x y z :: stub_rank
  show "x < y \<longleftrightarrow> x \<le> y \<and> \<not> y \<le> x" by (simp add: less_stub_rank_def)
  show "x \<le> x" by (cases x) simp
  show "x \<le> y \<Longrightarrow> y \<le> z \<Longrightarrow> x \<le> z" by (cases x; cases y; cases z) auto
  show "x \<le> y \<Longrightarrow> y \<le> x \<Longrightarrow> x = y" by (cases x; cases y) auto
  show "x \<le> y \<or> y \<le> x" by (cases x; cases y) auto
qed

end

lemma less_rank [simp]: "Rank p s < Rank q t \<longleftrightarrow> p < q \<or> (p = q \<and> s < t)"
  by (auto simp: less_stub_rank_def)

definition stub_rank_of :: "mapping_stub \<Rightarrow> stub_rank" where
  "stub_rank_of m = Rank (m_priority m) (m_sequence m)"

text \<open>Priorities whose difference is a 64-bit integer, whatever the two are.\<close>

definition small_priority :: "mapping_stub \<Rightarrow> bool" where
  "small_priority m \<longleftrightarrow> - (2 ^ 62) \<le> m_priority m \<and> m_priority m < 2 ^ 62"

lemma compare_less_iff:
  assumes "small_priority a" and "small_priority b"
  shows "compare_stub_order a b < 0 \<longleftrightarrow> stub_rank_of a < stub_rank_of b"
proof -
  have "in_int64 (m_priority a - m_priority b)"
    using assms by (simp add: small_priority_def in_int64_def)
  then show ?thesis by (auto simp: compare_stub_order_def stub_rank_of_def)
qed

section \<open>The contract of a comparison\<close>

text \<open>On the elements of \<open>ok\<close> the comparison is the strict order of a rank.\<close>

locale ranked_compare =
  fixes compare :: "'m \<Rightarrow> 'm \<Rightarrow> int"
    and rank :: "'m \<Rightarrow> 'r :: linorder"
    and ok :: "'m \<Rightarrow> bool"
  assumes compare_rank: "ok a \<Longrightarrow> ok b \<Longrightarrow> compare a b < 0 \<longleftrightarrow> rank a < rank b"
begin

lemma fold_better:
  assumes "list_all ok xs" and "ok m"
  shows "\<exists>b. fold (better compare) xs (Some m) = Some b \<and> b \<in> insert m (set xs) \<and> ok b
    \<and> (\<forall>x \<in> insert m (set xs). rank b \<le> rank x)"
  using assms
proof (induction xs arbitrary: m)
  case (Cons x xs)
  have step: "fold (better compare) (x # xs) (Some m) = fold (better compare) xs (Some (if rank x < rank m then x else m))"
    using Cons.prems compare_rank by (simp add: better_def)
  show ?case
  proof (cases "rank x < rank m")
    case True
    then obtain b where "fold (better compare) xs (Some x) = Some b" "b \<in> insert x (set xs)" "ok b"
      "\<forall>y \<in> insert x (set xs). rank b \<le> rank y"
      using Cons.IH [of x] Cons.prems by auto
    with True show ?thesis unfolding step by (auto intro: order_trans less_imp_le)
  next
    case False
    then obtain b where "fold (better compare) xs (Some m) = Some b" "b \<in> insert m (set xs)" "ok b"
      "\<forall>y \<in> insert m (set xs). rank b \<le> rank y"
      using Cons.IH [of m] Cons.prems by auto
    with False show ?thesis unfolding step by (auto intro: order_trans)
  qed
qed simp

lemma select_best_Some:
  assumes "list_all ok xs" and "select_best compare xs = Some b"
  shows "b \<in> set xs" and "x \<in> set xs \<Longrightarrow> rank b \<le> rank x"
proof -
  from assms(2) obtain y ys where xs: "xs = y # ys" by (cases xs) (auto simp: select_best_def)
  have "select_best compare xs = fold (better compare) ys (Some y)"
    by (simp add: xs select_best_def better_def)
  with fold_better [of ys y] assms xs show "b \<in> set xs" and "x \<in> set xs \<Longrightarrow> rank b \<le> rank x"
    by auto
qed

lemma select_best_None_iff: "select_best compare xs = None \<longleftrightarrow> xs = []"
proof (cases xs)
  case (Cons y ys)
  have "fold (better compare) ys (Some z) \<noteq> None" for z
    by (induction ys arbitrary: z) (auto simp: better_def)
  with Cons show ?thesis by (simp add: select_best_def better_def)
qed (simp add: select_best_def)

text \<open>With distinct ranks the choice does not depend on the order of the candidates.\<close>

lemma select_best_mset:
  assumes ok: "list_all ok xs" and inj: "inj_on rank (set xs)" and eq: "mset xs = mset ys"
  shows "select_best compare xs = select_best compare ys"
proof (cases "xs = []")
  case True
  with eq show ?thesis by simp
next
  case False
  have set_eq: "set ys = set xs" using eq by (metis set_mset_mset)
  with False have "ys \<noteq> []" by auto
  with False obtain a b where a: "select_best compare xs = Some a" and b: "select_best compare ys = Some b"
    by (meson select_best_None_iff not_None_eq)
  have ok': "list_all ok ys" using ok set_eq by (simp add: list_all_iff)
  have "rank a = rank b"
    using select_best_Some [OF ok a] select_best_Some [OF ok' b] set_eq by (auto intro!: order_antisym)
  then have "a = b"
    using inj select_best_Some(1) [OF ok a] select_best_Some(1) [OF ok' b] set_eq by (auto dest: inj_onD)
  with a b show ?thesis by simp
qed

end

interpretation so: ranked_compare compare_stub_order stub_rank_of small_priority
  by unfold_locales (rule compare_less_iff)

text \<open>Stored mappings have distinct ranks.\<close>

lemma stored_ranks_inj:
  assumes "store_inv s"
  shows "inj_on stub_rank_of (set (stored s))"
proof -
  have "distinct (map m_sequence (stored s))"
    using store_invD(5) [OF assms] by (simp add: strict_sorted_iff sorted_wrt_map flip: sorted_wrt_map)
  then show ?thesis by (auto simp: distinct_map inj_on_def stub_rank_of_def)
qed

end
