(* ===== verification/Scenario_Store.thy ===== *)
theory Scenario_Store
  imports Stub_Order
begin

text \<open>
  \<^verbatim>\<open>internal/scenario/store.go\<close>: the states of the scenarios and which mappings belong to each. Every
  method locks the store, so it is one step; on a nil store it does what the \<open>None\<close> case says.
\<close>

record scenario_store =
  ss_states :: "string \<Rightarrow> string option"
  ss_members :: "string \<Rightarrow> string set option"

definition started :: string where
  "started = ''Started''"

definition new_scenario_store :: scenario_store where
  "new_scenario_store = \<lparr>ss_states = (\<lambda>_. None), ss_members = (\<lambda>_. None)\<rparr>"

abbreviation scenario_name :: "mapping_stub \<Rightarrow> string" where
  "scenario_name m \<equiv> sc_name (m_scenario m)"

section \<open>States\<close>

definition state_locked :: "scenario_store \<Rightarrow> string \<Rightarrow> string" where
  "state_locked s name =
     (case ss_states s name of
        Some state \<Rightarrow> if state \<noteq> [] then state else started
      | None \<Rightarrow> started)"

definition matches_state_locked :: "scenario_store \<Rightarrow> mapping_stub \<Rightarrow> bool" where
  "matches_state_locked s stub =
     (let d = m_scenario stub in
      if sc_name d = [] \<or> sc_required_state d = [] then True
      else state_locked s (sc_name d) = sc_required_state d)"

text \<open>The loop of \<^verbatim>\<open>selectBestMatchingStateLocked\<close>.\<close>

fun select_matching_from ::
  "(mapping_stub \<Rightarrow> mapping_stub \<Rightarrow> int) \<Rightarrow> scenario_store \<Rightarrow> mapping_stub list \<Rightarrow> mapping_stub option
    \<Rightarrow> mapping_stub option" where
  "select_matching_from compare s [] selected = selected"
| "select_matching_from compare s (stub # stubs) selected =
     (if \<not> matches_state_locked s stub then select_matching_from compare s stubs selected
      else select_matching_from compare s stubs (better compare stub selected))"

definition select_best_matching_state_locked ::
  "(mapping_stub \<Rightarrow> mapping_stub \<Rightarrow> int) \<Rightarrow> scenario_store \<Rightarrow> mapping_stub list \<Rightarrow> mapping_stub option" where
  "select_best_matching_state_locked compare s cands = select_matching_from compare s cands None"

definition transition_locked :: "mapping_stub \<Rightarrow> scenario_store \<Rightarrow> scenario_store" where
  "transition_locked stub s =
     (let d = m_scenario stub in
      if sc_name d = [] \<or> sc_new_state d = [] then s
      else if sc_required_state d \<noteq> [] \<and> state_locked s (sc_name d) \<noteq> sc_required_state d then s
      else s\<lparr>ss_states := (ss_states s)(sc_name d \<mapsto> sc_new_state d)\<rparr>)"

section \<open>Membership\<close>

definition add_mapping_locked :: "mapping_stub \<Rightarrow> scenario_store \<Rightarrow> scenario_store" where
  "add_mapping_locked stub s =
     (let name = scenario_name stub in
      if name = [] then s
      else let members = (case ss_members s name of None \<Rightarrow> {} | Some ms \<Rightarrow> ms) in
        s\<lparr>ss_members := (ss_members s)(name \<mapsto> insert (m_id stub) members)\<rparr>)"

definition remove_mapping_locked :: "mapping_stub \<Rightarrow> scenario_store \<Rightarrow> scenario_store" where
  "remove_mapping_locked stub s =
     (let name = scenario_name stub in
      if name = [] then s
      else (case ss_members s name of
              None \<Rightarrow> s\<lparr>ss_states := (ss_states s)(name := None)\<rparr>
            | Some members \<Rightarrow>
                (let left = members - {m_id stub} in
                 if left = {} then
                   s\<lparr>ss_members := (ss_members s)(name := None), ss_states := (ss_states s)(name := None)\<rparr>
                 else s\<lparr>ss_members := (ss_members s)(name \<mapsto> left)\<rparr>)))"

section \<open>The methods\<close>

definition select_and_transition ::
  "(mapping_stub \<Rightarrow> mapping_stub \<Rightarrow> int) \<Rightarrow> mapping_stub list \<Rightarrow> scenario_store option
    \<Rightarrow> mapping_stub option \<times> scenario_store option" where
  "select_and_transition compare cands store =
     (case store of
        None \<Rightarrow> (select_best compare cands, None)
      | Some s \<Rightarrow>
          (let selected = select_best_matching_state_locked compare s cands in
           (selected, Some (case selected of None \<Rightarrow> s | Some stub \<Rightarrow> transition_locked stub s))))"

definition scenario_state :: "scenario_store option \<Rightarrow> string \<Rightarrow> string" where
  "scenario_state store name = (case store of None \<Rightarrow> started | Some s \<Rightarrow> state_locked s name)"

definition scenario_reset :: "scenario_store option \<Rightarrow> scenario_store option" where
  "scenario_reset store = map_option (\<lambda>s. s\<lparr>ss_states := (\<lambda>_. None)\<rparr>) store"

definition mapping_created :: "mapping_stub \<Rightarrow> scenario_store option \<Rightarrow> scenario_store option" where
  "mapping_created stub store = map_option (add_mapping_locked stub) store"

definition mapping_updated ::
  "mapping_stub \<Rightarrow> mapping_stub \<Rightarrow> scenario_store option \<Rightarrow> scenario_store option" where
  "mapping_updated old_stub new_stub store =
     map_option (\<lambda>s.
       if scenario_name old_stub = scenario_name new_stub then add_mapping_locked new_stub s
       else add_mapping_locked new_stub (remove_mapping_locked old_stub s)) store"

definition mapping_deleted :: "mapping_stub \<Rightarrow> scenario_store option \<Rightarrow> scenario_store option" where
  "mapping_deleted stub store = map_option (remove_mapping_locked stub) store"

section \<open>Selection and transition\<close>

lemma select_matching_filter:
  "select_matching_from compare s stubs selected =
     fold (better compare) (filter (matches_state_locked s) stubs) selected"
  by (induction stubs arbitrary: selected) auto

lemma select_best_matching_state_eq:
  "select_best_matching_state_locked compare s cands = select_best compare (filter (matches_state_locked s) cands)"
  by (simp add: select_best_matching_state_locked_def select_matching_filter select_best_def)

lemma state_locked_transition:
  assumes "matches_state_locked s stub"
  shows "state_locked (transition_locked stub s) name =
     (if name = scenario_name stub \<and> name \<noteq> [] \<and> sc_new_state (m_scenario stub) \<noteq> []
      then sc_new_state (m_scenario stub) else state_locked s name)"
  using assms by (auto simp: transition_locked_def state_locked_def matches_state_locked_def Let_def)

lemma members_transition [simp]: "ss_members (transition_locked stub s) = ss_members s"
  by (simp add: transition_locked_def Let_def)

lemma states_add [simp]: "ss_states (add_mapping_locked stub s) = ss_states s"
  by (simp add: add_mapping_locked_def Let_def)

lemma scenario_reset_state: "scenario_state (scenario_reset store) name = started"
  by (cases store) (simp_all add: scenario_reset_def scenario_state_def state_locked_def)

section \<open>Members\<close>

definition members_of_scenario :: "scenario_store \<Rightarrow> string \<Rightarrow> string set" where
  "members_of_scenario s name = (case ss_members s name of None \<Rightarrow> {} | Some ms \<Rightarrow> ms)"

text \<open>No scenario without a name, none with an empty set of members.\<close>

definition scenario_inv :: "scenario_store \<Rightarrow> bool" where
  "scenario_inv s \<longleftrightarrow> ss_members s [] = None \<and> ss_states s [] = None \<and> (\<forall>n. ss_members s n \<noteq> Some {})"

lemma members_add:
  "members_of_scenario (add_mapping_locked stub s) name =
     (if name = scenario_name stub \<and> name \<noteq> [] then insert (m_id stub) (members_of_scenario s name)
      else members_of_scenario s name)"
  by (auto simp: add_mapping_locked_def members_of_scenario_def Let_def)

lemma members_remove:
  assumes "scenario_inv s"
  shows "members_of_scenario (remove_mapping_locked stub s) name =
     (if name = scenario_name stub then members_of_scenario s name - {m_id stub}
      else members_of_scenario s name)"
  using assms
  by (auto simp: remove_mapping_locked_def members_of_scenario_def Let_def scenario_inv_def split: option.splits)

lemma states_remove:
  "scenario_inv s \<Longrightarrow>
   ss_states (remove_mapping_locked stub s) name =
     (if name = scenario_name stub \<and> members_of_scenario s name \<subseteq> {m_id stub} then None else ss_states s name)"
  by (auto simp: remove_mapping_locked_def members_of_scenario_def Let_def scenario_inv_def split: option.splits)

lemma scenario_inv_new [wf_intros]: "scenario_inv new_scenario_store"
  by (simp add: scenario_inv_def new_scenario_store_def)

lemma scenario_inv_add [wf_intros]: "scenario_inv s \<Longrightarrow> scenario_inv (add_mapping_locked stub s)"
  by (auto simp: scenario_inv_def add_mapping_locked_def Let_def)

lemma scenario_inv_remove [wf_intros]: "scenario_inv s \<Longrightarrow> scenario_inv (remove_mapping_locked stub s)"
  by (auto simp: scenario_inv_def remove_mapping_locked_def Let_def split: option.splits)

lemma scenario_inv_transition [wf_intros]: "scenario_inv s \<Longrightarrow> scenario_inv (transition_locked stub s)"
  by (auto simp: scenario_inv_def transition_locked_def Let_def)

section \<open>The contract of a state store\<close>

text \<open>
  \<^verbatim>\<open>StateStore\<close>, the interface the runtime calls, with what it relies on: the answer is the best
  candidate whose required state is the current one, and serving it moves its scenario only.
\<close>

locale state_store = ranked_compare compare rank ok
  for compare :: "mapping_stub \<Rightarrow> mapping_stub \<Rightarrow> int" and rank :: "mapping_stub \<Rightarrow> 'r :: linorder"
    and ok :: "mapping_stub \<Rightarrow> bool" +
  fixes state :: "'s \<Rightarrow> string \<Rightarrow> string"
    and select :: "mapping_stub list \<Rightarrow> 's \<Rightarrow> mapping_stub option \<times> 's"
  assumes select_eq: "fst (select cands s) = select_best compare
      (filter (\<lambda>m. scenario_name m = [] \<or> sc_required_state (m_scenario m) = []
          \<or> state s (scenario_name m) = sc_required_state (m_scenario m)) cands)"
    and select_state: "state (snd (select cands s)) name =
      (case fst (select cands s) of
         None \<Rightarrow> state s name
       | Some m \<Rightarrow> if name = scenario_name m \<and> name \<noteq> [] \<and> sc_new_state (m_scenario m) \<noteq> []
                   then sc_new_state (m_scenario m) else state s name)"
begin

definition eligible :: "'s \<Rightarrow> mapping_stub \<Rightarrow> bool" where
  "eligible s m \<longleftrightarrow> scenario_name m = [] \<or> sc_required_state (m_scenario m) = []
     \<or> state s (scenario_name m) = sc_required_state (m_scenario m)"

lemma select_Some:
  assumes "list_all ok cands" and "fst (select cands s) = Some m"
  shows "m \<in> set cands" and "eligible s m"
    and "x \<in> set cands \<Longrightarrow> eligible s x \<Longrightarrow> rank m \<le> rank x"
proof -
  have "list_all ok (filter (eligible s) cands)" using assms(1) by (auto simp: list_all_iff)
  moreover have "select_best compare (filter (eligible s) cands) = Some m"
    using assms(2) unfolding select_eq eligible_def [symmetric] .
  ultimately have "m \<in> set (filter (eligible s) cands)"
    and "\<And>x. x \<in> set (filter (eligible s) cands) \<Longrightarrow> rank m \<le> rank x"
    by (rule select_best_Some)+
  then show "m \<in> set cands" and "eligible s m"
    and "x \<in> set cands \<Longrightarrow> eligible s x \<Longrightarrow> rank m \<le> rank x"
    by auto
qed

lemma select_None: "fst (select cands s) = None \<longleftrightarrow> (\<forall>m \<in> set cands. \<not> eligible s m)"
  unfolding select_eq select_best_None_iff eligible_def by (auto simp: filter_empty_conv)

text \<open>A request that finds nothing changes no state.\<close>

lemma select_None_state: "fst (select cands s) = None \<Longrightarrow> state (snd (select cands s)) name = state s name"
  by (simp add: select_state)

text \<open>Another scenario is never touched.\<close>

lemma select_other_state:
  "fst (select cands s) = Some m \<Longrightarrow> name \<noteq> scenario_name m \<Longrightarrow> state (snd (select cands s)) name = state s name"
  by (simp add: select_state)

end

interpretation scn: state_store compare_stub_order stub_rank_of small_priority state_locked
  "\<lambda>cands s. map_prod id the (select_and_transition compare_stub_order cands (Some s))"
proof unfold_locales
  fix cands s name
  have filter_eq: "filter (\<lambda>m. scenario_name m = [] \<or> sc_required_state (m_scenario m) = []
      \<or> state_locked s (scenario_name m) = sc_required_state (m_scenario m)) cands
      = filter (matches_state_locked s) cands"
    by (rule filter_cong) (auto simp: matches_state_locked_def Let_def)
  show first: "fst (map_prod id the (select_and_transition compare_stub_order cands (Some s)))
      = select_best compare_stub_order (filter (\<lambda>m. scenario_name m = []
          \<or> sc_required_state (m_scenario m) = []
          \<or> state_locked s (scenario_name m) = sc_required_state (m_scenario m)) cands)"
    unfolding filter_eq by (simp add: select_and_transition_def select_best_matching_state_eq Let_def)
  show "state_locked (snd (map_prod id the (select_and_transition compare_stub_order cands (Some s)))) name =
      (case fst (map_prod id the (select_and_transition compare_stub_order cands (Some s))) of
         None \<Rightarrow> state_locked s name
       | Some m \<Rightarrow> if name = scenario_name m \<and> name \<noteq> [] \<and> sc_new_state (m_scenario m) \<noteq> []
                   then sc_new_state (m_scenario m) else state_locked s name)"
  proof (cases "select_best_matching_state_locked compare_stub_order s cands")
    case (Some m)
    then have "matches_state_locked s m"
      unfolding select_best_matching_state_eq by (auto dest: select_best_mem)
    with Some show ?thesis by (simp add: select_and_transition_def Let_def state_locked_transition)
  qed (simp add: select_and_transition_def Let_def)
qed

end
