(* ===== verification/Response_Render.thy ===== *)
theory Response_Render
  imports Mapping_Facts
begin

text \<open>
  The body files of \<^verbatim>\<open>internal/files/store.go\<close>, the renderer of \<^verbatim>\<open>internal/response/render.go\<close> and the
  delays of \<^verbatim>\<open>internal/delay/delay.go\<close>.
\<close>

section \<open>Body files\<close>

type_synonym memory_store = "string \<Rightarrow> string option"

definition new_memory_store :: memory_store where
  "new_memory_store = (\<lambda>_. None)"

definition file_get :: "memory_store \<Rightarrow> string \<Rightarrow> string option" where
  "file_get s name = s name"

definition file_put :: "string \<Rightarrow> string \<Rightarrow> memory_store \<Rightarrow> memory_store" where
  "file_put name data s = s(name \<mapsto> data)"

text \<open>The interface \<^verbatim>\<open>files.Store\<close>.\<close>

locale files =
  fixes get :: "'f \<Rightarrow> string \<Rightarrow> string option"
    and put :: "string \<Rightarrow> string \<Rightarrow> 'f \<Rightarrow> 'f"
  assumes get_put: "get (put name data s) n = (if n = name then Some data else get s n)"
begin

lemma put_twice: "get (put name d2 (put name d1 s)) n = get (put name d2 s) n"
  by (simp add: get_put)

text \<open>A batch of files: the last one under a name wins.\<close>

lemma get_fold_put:
  "get (fold (\<lambda>(n, d). put n d) fs s) name =
     (case map_of (rev fs) name of Some d \<Rightarrow> Some d | None \<Rightarrow> get s name)"
proof (induction fs arbitrary: s)
  case (Cons f fs)
  then show ?case by (cases f) (auto simp: get_put split: option.splits)
qed simp

end

interpretation mem: files file_get file_put
  by unfold_locales (simp add: file_get_def file_put_def)

section \<open>Rendering\<close>

record rendered =
  rr_status :: int
  rr_headers :: header_map
  rr_body :: string
  rr_json :: bool

text \<open>\<^verbatim>\<open>stringify\<close>: a number keeps the text it had in the request.\<close>

definition stringify :: "golib \<Rightarrow> gval \<Rightarrow> string" where
  "stringify L v =
     (case v of GNil \<Rightarrow> [] | GStr s \<Rightarrow> s | GNumber t \<Rightarrow> t | _ \<Rightarrow> marshal (fmt_float L) v)"

text \<open>\<^verbatim>\<open>strconv.Quote\<close> without the quotes.\<close>

definition escape_json_string_content :: "golib \<Rightarrow> string \<Rightarrow> string" where
  "escape_json_string_content L value =
     (let quoted = go_quote (is_print L) value in take (length quoted - 2) (drop 1 quoted))"

definition escaped_value :: "golib \<Rightarrow> bool \<Rightarrow> string \<Rightarrow> string" where
  "escaped_value L escape value = (if escape then escape_json_string_content L value else value)"

definition json_path_value :: "golib \<Rightarrow> body_context \<Rightarrow> string \<Rightarrow> string option res" where
  "json_path_value L body expression =
     (case compile_json_path expression of
        Panic \<Rightarrow> Panic
      | Err e \<Rightarrow> Ok None
      | Ok compiled \<Rightarrow>
          (case body_parsed body of
             None \<Rightarrow> Ok None
           | Some parsed \<Rightarrow>
               (case path_values compiled parsed of
                  [] \<Rightarrow> Ok None
                | v # _ \<Rightarrow> Ok (Some (stringify L v)))))"

text \<open>\<^verbatim>\<open>renderTemplate\<close>: every match is replaced, by nothing where the expression has no value.\<close>

fun render_matches ::
  "golib \<Rightarrow> body_context \<Rightarrow> bool \<Rightarrow> (string \<times> string) list \<Rightarrow> string \<Rightarrow> string res" where
  "render_matches L body escape [] tail = Ok tail"
| "render_matches L body escape ((lit, expression) # ms) tail =
     bind_res (json_path_value L body expression) (\<lambda>value.
     bind_res (render_matches L body escape ms tail) (\<lambda>rest.
     Ok (lit @ (case value of None \<Rightarrow> [] | Some v \<Rightarrow> escaped_value L escape v) @ rest)))"

definition render_template :: "golib \<Rightarrow> string \<Rightarrow> body_context \<Rightarrow> bool \<Rightarrow> string res" where
  "render_template L template body escape =
     (case find_helpers template of (ms, tail) \<Rightarrow> render_matches L body escape ms tail)"

fun render_segments :: "golib \<Rightarrow> gval \<Rightarrow> bool \<Rightarrow> template_segment list \<Rightarrow> string" where
  "render_segments L parsed escape [] = []"
| "render_segments L parsed escape (SegLiteral lit # segs) = lit @ render_segments L parsed escape segs"
| "render_segments L parsed escape (SegHelper p # segs) =
     (case first_value p parsed of None \<Rightarrow> [] | Some v \<Rightarrow> escaped_value L escape (stringify L v))
     @ render_segments L parsed escape segs"

definition render_compiled_template ::
  "golib \<Rightarrow> template_segment list \<Rightarrow> body_context \<Rightarrow> bool \<Rightarrow> string" where
  "render_compiled_template L segments body escape =
     (case body of
        None \<Rightarrow> []
      | Some raw \<Rightarrow>
          (case body_parsed body of
             None \<Rightarrow> []
           | Some parsed \<Rightarrow> render_segments L parsed escape segments))"

definition render_body :: "golib \<Rightarrow> response_definition \<Rightarrow> body_context \<Rightarrow> string \<Rightarrow> string res" where
  "render_body L d request_body body =
     (if uses_response_template d \<and> 0 < length body then
        (case rd_template d of
           Some segments \<Rightarrow> Ok (render_compiled_template L segments request_body (rd_json d))
         | None \<Rightarrow> render_template L body request_body (rd_json d))
      else Ok body)"

definition render :: "golib \<Rightarrow> memory_store \<Rightarrow> response_definition \<Rightarrow> body_context \<Rightarrow> rendered res" where
  "render L fs d request_body =
     (let base = \<lparr>rr_status = rd_status d, rr_headers = rd_headers d, rr_body = [], rr_json = rd_json d\<rparr> in
      if rd_body_file d \<noteq> [] then
        (case file_get fs (rd_body_file d) of
           None \<Rightarrow> Err (''response body file '' @ go_quote (is_print L) (rd_body_file d) @ '' not found'')
         | Some body \<Rightarrow> Ok (base\<lparr>rr_body := body\<rparr>))
      else
        (case rd_body d of
           None \<Rightarrow> Ok base
         | Some b \<Rightarrow> bind_res (render_body L d request_body b) (\<lambda>body. Ok (base\<lparr>rr_body := body\<rparr>))))"

section \<open>Compiled and uncompiled templates\<close>

lemma render_literal_segment [simp]:
  "render_segments L parsed escape (literal_segment lit @ segs) = lit @ render_segments L parsed escape segs"
  by (simp add: literal_segment_def)

lemma render_literal_tail [simp]: "render_segments L parsed escape (literal_segment lit) = lit"
  by (simp add: literal_segment_def)

fun segment_wildcard_free :: "template_segment \<Rightarrow> bool" where
  "segment_wildcard_free (SegHelper p) = (TokenWildcard \<notin> set (jp_path p))"
| "segment_wildcard_free (SegLiteral lit) = True"

lemma render_segments_matches:
  assumes "template_segments ms tail = Ok segs" and "list_all segment_wildcard_free segs"
    and "body_parsed body = Some parsed"
  shows "render_matches L body escape ms tail = Ok (render_segments L parsed escape segs)"
  using assms(1,2)
proof (induction ms arbitrary: segs)
  case (Cons m ms)
  obtain lit expression where m: "m = (lit, expression)" by (cases m)
  from Cons.prems(1) obtain p segs' where p: "compile_json_path expression = Ok p"
    and segs': "template_segments ms tail = Ok segs'" and segs: "segs = literal_segment lit @ SegHelper p # segs'"
    by (auto simp: m res_simps)
  have "list_all segment_wildcard_free segs'" and wf: "TokenWildcard \<notin> set (jp_path p)"
    using Cons.prems(2) by (simp_all add: segs)
  with Cons.IH [OF segs'] have IH: "render_matches L body escape ms tail = Ok (render_segments L parsed escape segs')"
    by simp
  show ?case
    by (simp add: m segs IH json_path_value_def p assms(3) first_value_eq_hd_values [OF wf] split: list.split)
qed simp

text \<open>
  On a JSON request body, and where no expression has a wildcard, the template compiled at parse
  time renders what the interpreter renders.
\<close>

lemma render_compiled_eq:
  assumes "compile_response_template (Some b) trs = Ok (Some segs)"
    and "list_all segment_wildcard_free segs" and "body_parsed body = Some parsed"
  shows "render_template L b body escape = Ok (render_compiled_template L segs body escape)"
proof -
  obtain ms tail where ms: "find_helpers b = (ms, tail)" by fastforce
  with assms(1) have "template_segments ms tail = Ok segs"
    by (auto simp: compile_response_template_def split: if_splits res.splits)
  moreover obtain raw where raw: "body = Some raw" using assms(3) by (cases body) (auto simp: body_parsed_def)
  ultimately show ?thesis
    using render_segments_matches [OF _ assms(2,3)]
    by (simp add: render_template_def ms render_compiled_template_def raw assms(3) [unfolded raw])
qed

section \<open>Delays\<close>

text \<open>
  The draws of \<^verbatim>\<open>math/rand\<close>: \<^verbatim>\<open>Intn\<close>, and the logarithmic normal one with the conversion of the
  double to \<^verbatim>\<open>time.Duration\<close>.
\<close>

record random_source =
  rnd_intn :: "int \<Rightarrow> int"
  rnd_lognormal :: "int \<Rightarrow> f64 \<Rightarrow> int"

definition milliseconds :: "int \<Rightarrow> int" where
  "milliseconds value = int64 (value * 1000000)"

text \<open>\<^verbatim>\<open>Intn\<close> panics on an argument that is not positive.\<close>

definition go_intn :: "random_source \<Rightarrow> int \<Rightarrow> int res" where
  "go_intn rnd n = (if n \<le> 0 then Panic else Ok (rnd_intn rnd n))"

definition initial_duration :: "random_source \<Rightarrow> response_definition \<Rightarrow> int res" where
  "initial_duration rnd d =
     (if 0 < rd_fixed_delay d then Ok (milliseconds (rd_fixed_delay d))
      else
        (case rd_delay_distribution d of
           None \<Rightarrow> Ok 0
         | Some dist \<Rightarrow>
             if dd_type dist = ''uniform'' then
               (let lower = dd_lower dist; upper = dd_upper dist in
                if upper \<le> lower then Ok (milliseconds lower)
                else bind_res (go_intn rnd (int64 (int64 (upper - lower) + 1))) (\<lambda>n.
                     Ok (milliseconds (int64 (lower + n)))))
             else if dd_type dist = ''lognormal'' then
               Ok (int64 (rnd_lognormal rnd (dd_median dist) (dd_sigma dist) * 1000000))
             else Ok 0))"

definition chunked_interval :: "response_definition \<Rightarrow> int \<times> int" where
  "chunked_interval d =
     (case rd_chunked_dribble_delay d of
        None \<Rightarrow> (0, 0)
      | Some c \<Rightarrow>
          (let chunks = cd_number_of_chunks c in
           if chunks \<le> 1 then (chunks, 0)
           else (chunks, go_div (milliseconds (cd_total_duration c)) (chunks - 1))))"

text \<open>\<^verbatim>\<open>Sleep\<close> waits only for a positive duration.\<close>

definition slept :: "int \<Rightarrow> int" where
  "slept duration = max 0 duration"

text \<open>Milliseconds that fit 64 bits when counted in nanoseconds.\<close>

definition short_delay :: "int \<Rightarrow> bool" where
  "short_delay ms \<longleftrightarrow> 0 \<le> ms \<and> ms * 1000000 < 2 ^ 63"

lemma milliseconds_short [simp]: "short_delay ms \<Longrightarrow> milliseconds ms = ms * 1000000"
  by (simp add: milliseconds_def short_delay_def in_int64_def)

text \<open>The bounds of the initial delay, in milliseconds.\<close>

definition delay_bounds :: "response_definition \<Rightarrow> (int \<times> int) option" where
  "delay_bounds d =
     (if 0 < rd_fixed_delay d then Some (rd_fixed_delay d, rd_fixed_delay d)
      else (case rd_delay_distribution d of
              None \<Rightarrow> Some (0, 0)
            | Some dist \<Rightarrow> if dd_type dist = ''uniform'' then Some (dd_lower dist, dd_upper dist) else None))"

lemma initial_duration_bounds:
  assumes wf: "wf_response d" and b: "delay_bounds d = Some (lo, hi)" and short: "short_delay hi"
    and rnd: "\<And>n. 0 < n \<Longrightarrow> 0 \<le> rnd_intn rnd n \<and> rnd_intn rnd n < n"
  shows "\<exists>t. initial_duration rnd d = Ok t \<and> lo * 1000000 \<le> t \<and> t \<le> hi * 1000000"
proof (cases "0 < rd_fixed_delay d")
  case True
  with b short show ?thesis by (auto simp: initial_duration_def delay_bounds_def)
next
  case False
  show ?thesis
  proof (cases "rd_delay_distribution d")
    case None
    with False b show ?thesis by (auto simp: initial_duration_def delay_bounds_def)
  next
    case (Some dist)
    with False b have uniform: "dd_type dist = ''uniform''" "lo = dd_lower dist" "hi = dd_upper dist"
      by (auto simp: delay_bounds_def split: if_splits)
    with wf Some have ord: "0 \<le> lo" "lo \<le> hi" by (auto simp: wf_response_def wf_delay_def)
    let ?n = "hi - lo + 1"
    have small: "hi < 2 ^ 62" using short by (simp add: short_delay_def)
    with ord have n: "int64 (int64 (hi - lo) + 1) = ?n" by (simp add: in_int64_def)
    show ?thesis
    proof (cases "hi \<le> lo")
      case True
      with ord have eq: "hi = lo" by simp
      show ?thesis using False Some uniform short eq by (simp add: initial_duration_def)
    next
      case less: False
      obtain r where r: "rnd_intn rnd ?n = r" "0 \<le> r" "r < ?n" using rnd [of ?n] less by auto
      have in64: "in_int64 (lo + r)" using r ord small by (simp add: in_int64_def)
      have "short_delay (lo + r)" using r ord short by (simp add: short_delay_def)
      then show ?thesis
        using False Some uniform less r n in64
        by (simp add: initial_duration_def go_intn_def Let_def)
    qed
  qed
qed

text \<open>The pauses between the chunks add up to no more than the total duration.\<close>

lemma chunked_interval_bounds:
  assumes "chunked_interval d = (chunks, interval)" and "1 < chunks"
    and "rd_chunked_dribble_delay d = Some c" and "short_delay (cd_total_duration c)"
  shows "0 \<le> interval \<and> (chunks - 1) * interval \<le> cd_total_duration c * 1000000
    \<and> cd_total_duration c * 1000000 < (chunks - 1) * (interval + 1)"
proof -
  let ?t = "cd_total_duration c * 1000000" and ?k = "cd_number_of_chunks c - 1"
  from assms have k: "0 < ?k" and c: "chunks = cd_number_of_chunks c"
    and "interval = go_div (milliseconds (cd_total_duration c)) ?k"
    by (auto simp: chunked_interval_def Let_def split: if_splits)
  then have i: "interval = ?t div ?k" using assms(4) by (simp add: short_delay_def)
  have "?t = ?k * (?t div ?k) + ?t mod ?k" "0 \<le> ?t mod ?k" "?t mod ?k < ?k"
    using k by simp_all
  then show ?thesis unfolding i c
    using assms(4) k by (simp add: short_delay_def pos_imp_zdiv_nonneg_iff algebra_simps)
qed

text \<open>The widest uniform distribution makes \<^verbatim>\<open>Intn\<close> panic.\<close>

lemma initial_duration_panic:
  assumes "rd_fixed_delay d = 0" and "rd_delay_distribution d = Some dist" and "dd_type dist = ''uniform''"
    and "dd_lower dist = 0" and "dd_upper dist = 2 ^ 63 - 1"
  shows "initial_duration rnd d = Panic"
  using assms by (simp add: initial_duration_def go_intn_def int64_def)

end
