(* ===== verification/Http_Headers.thy ===== *)
theory Http_Headers
  imports Request_Matcher
begin

text \<open>
  \<^verbatim>\<open>http.Header\<close>: a map from canonical names to value lists, as the handlers read and write it.
\<close>

definition header_get :: "header_map \<Rightarrow> string \<Rightarrow> string" where
  "header_get headers name =
     (case map_of headers (canonical_header_key name) of Some (v # _) \<Rightarrow> v | _ \<Rightarrow> [])"

definition header_values :: "header_map \<Rightarrow> string \<Rightarrow> string list" where
  "header_values headers key = (case map_of headers key of None \<Rightarrow> [] | Some vs \<Rightarrow> vs)"

definition header_add :: "string \<Rightarrow> string \<Rightarrow> header_map \<Rightarrow> header_map" where
  "header_add name value headers =
     (let key = canonical_header_key name in aput key (header_values headers key @ [value]) headers)"

definition header_set :: "string \<Rightarrow> string \<Rightarrow> header_map \<Rightarrow> header_map" where
  "header_set name value headers = aput (canonical_header_key name) [value] headers"

definition header_del :: "string \<Rightarrow> header_map \<Rightarrow> header_map" where
  "header_del name headers = AList.delete (canonical_header_key name) headers"

text \<open>The loop that adds every value of every entry of a map.\<close>

definition add_all_headers :: "header_map \<Rightarrow> header_map \<Rightarrow> header_map" where
  "add_all_headers source target =
     fold (\<lambda>(name, values) h. fold (\<lambda>value. header_add name value) values h) source target"

lemma header_values_Nil [simp]: "header_values [] key = []"
  by (simp add: header_values_def)

lemma header_values_add:
  "header_values (header_add name value h) key =
     (if key = canonical_header_key name then header_values h key @ [value] else header_values h key)"
  by (simp add: header_add_def header_values_def update_conv' Let_def)

lemma header_values_fold_add:
  "header_values (fold (\<lambda>value. header_add name value) vs h) key =
     (if key = canonical_header_key name then header_values h key @ vs else header_values h key)"
  by (induction vs arbitrary: h) (auto simp: header_values_add)

text \<open>Values added under one canonical name keep the order of the source.\<close>

lemma header_values_add_all:
  "header_values (add_all_headers source h) key =
     header_values h key @ concat (map snd (filter (\<lambda>(name, _). canonical_header_key name = key) source))"
proof (induction source arbitrary: h)
  case (Cons e source)
  obtain name vs where e: "e = (name, vs)" by (cases e)
  have "add_all_headers (e # source) h
      = add_all_headers source (fold (\<lambda>value. header_add name value) vs h)"
    by (simp add: add_all_headers_def e)
  with Cons show ?case by (simp add: header_values_fold_add e)
qed (simp add: add_all_headers_def)

lemma canonical_loop_lower_eq [simp]: "to_lower (canonical_loop u s) = to_lower s"
  by (induction s arbitrary: u) (auto simp: to_lower_def)

lemma to_lower_canonical [simp]: "to_lower (canonical_header_key s) = to_lower s"
  by (simp add: canonical_header_key_def)

lemma keys_header_add: "fst ` set (header_add name value h) = insert (canonical_header_key name) (fst ` set h)"
  by (simp add: header_add_def Let_def dom_update)

lemma keys_fold_add:
  "fst ` set (fold (\<lambda>value. header_add name value) vs h) \<subseteq> insert (canonical_header_key name) (fst ` set h)"
proof (induction vs arbitrary: h)
  case (Cons v vs)
  then show ?case using Cons.IH [of "header_add name v h"] by (simp add: keys_header_add)
qed (simp add: subset_insertI)

lemma keys_add_all:
  "fst ` set (add_all_headers source h) \<subseteq> canonical_header_key ` fst ` set source \<union> fst ` set h"
proof (induction source arbitrary: h)
  case (Cons e source)
  obtain name vs where e: "e = (name, vs)" by (cases e)
  let ?h = "fold (\<lambda>value. header_add name value) vs h"
  have "fst ` set (add_all_headers (e # source) h) = fst ` set (add_all_headers source ?h)"
    by (simp add: add_all_headers_def e)
  also have "\<dots> \<subseteq> canonical_header_key ` fst ` set source \<union> fst ` set ?h"
    by (rule Cons)
  also have "\<dots> \<subseteq> canonical_header_key ` fst ` set source \<union> insert (canonical_header_key name) (fst ` set h)"
    by (rule Un_mono [OF order_refl keys_fold_add])
  also have "\<dots> = canonical_header_key ` fst ` set (e # source) \<union> fst ` set h"
    by (simp add: e)
  finally show ?case .
qed (simp add: add_all_headers_def)

end
