(* ===== verification/Recording_Store.thy ===== *)
theory Recording_Store
  imports Mapping_Facts Http_Headers
begin

text \<open>
  \<^verbatim>\<open>internal/recording/store.go\<close>: the bounded journal of served requests, the recording session and the
  translation of recorded events to stub mappings. What the program takes from \<^verbatim>\<open>net/url\<close> and
  \<^verbatim>\<open>mime\<close> is \<open>netlib\<close>; the last field of \<open>url_parts\<close> holds the user information and the other parts that the
  program passes on. Times are numbers; 0 is the zero time.
\<close>

record url_parts =
  up_scheme :: string
  up_host :: string
  up_path :: string
  up_raw_query :: string
  up_fragment :: string
  up_other :: string

record netlib =
  parse_url :: "string \<Rightarrow> url_parts option"
  url_string :: "url_parts \<Rightarrow> string"
  parse_media_type :: "string \<Rightarrow> string option"

section \<open>Data\<close>

record recording_spec =
  spec_target_base_url :: string
  spec_output_format :: string
  spec_capture_headers :: raw_map
  spec_request_body_pattern :: string
  spec_repeats_as_scenarios :: bool
  spec_persist :: bool
  spec_extract_body_criteria :: gval

record serve_event =
  se_method :: string
  se_url :: string
  se_path :: string
  se_raw_query :: string
  se_request_headers :: header_map
  se_request_body :: string
  se_response_status :: int
  se_response_headers :: header_map
  se_response_body :: string
  se_source :: string
  se_protocol :: string
  se_recorded_at :: nat

record recording_session =
  sess_spec :: recording_spec
  sess_events :: "serve_event list"

record recording_store =
  rec_active :: "recording_session option"
  rec_serve_events :: "serve_event list"
  rec_max_events :: nat

record recording_snapshot =
  snap_mappings :: "mapping_stub list"
  snap_total :: nat

definition new_recording_store :: recording_store where
  "new_recording_store = \<lparr>rec_active = None, rec_serve_events = [], rec_max_events = 1000\<rparr>"

section \<open>Headers\<close>

definition header_value :: "header_map \<Rightarrow> string \<Rightarrow> string" where
  "header_value headers name =
     (if header_get headers name \<noteq> [] then header_get headers name
      else (case find (\<lambda>(candidate, values). equal_fold candidate name \<and> 0 < length values) headers of
              Some (_, v # _) \<Rightarrow> v
            | _ \<Rightarrow> []))"

definition is_excluded_response_header :: "string \<Rightarrow> bool" where
  "is_excluded_response_header name \<longleftrightarrow>
     to_lower name \<in> set [''content-length'', ''connection'', ''date'', ''transfer-encoding'']"

section \<open>Recorded mappings\<close>

definition recorded_name :: "serve_event \<Rightarrow> string" where
  "recorded_name e =
     (if se_url e \<noteq> [] then ''Recorded '' @ se_method e @ '' '' @ se_url e
      else if se_raw_query e \<noteq> []
      then ''Recorded '' @ se_method e @ '' '' @ se_path e @ ''?'' @ se_raw_query e
      else ''Recorded '' @ se_method e @ '' '' @ se_path e)"

definition captured_request_headers :: "header_map \<Rightarrow> raw_map \<Rightarrow> (string \<times> gval) list" where
  "captured_request_headers headers capture =
     (if headers = [] \<or> capture = [] then []
      else concat (map (\<lambda>(name, _).
             (let value = header_value headers name in
              if value \<noteq> [] then [(name, GObj [(''equalTo'', GStr value)])] else [])) capture))"

definition request_body_patterns :: "string \<Rightarrow> recording_spec \<Rightarrow> gval list" where
  "request_body_patterns body spec =
     (if body = [] then []
      else if spec_request_body_pattern spec \<noteq> [] \<and> spec_request_body_pattern spec \<noteq> ''equalToJson'' then []
      else if json_parse body = None then []
      else [GObj [(''equalToJson'', GStr body)]])"

definition recorded_url :: "serve_event \<Rightarrow> string \<times> gval" where
  "recorded_url e =
     (if se_raw_query e \<noteq> [] then (''url'', GStr (se_path e @ ''?'' @ se_raw_query e))
      else if se_url e \<noteq> [] then (''url'', GStr (se_url e))
      else (''urlPath'', GStr (se_path e)))"

definition recorded_request :: "serve_event \<Rightarrow> recording_spec \<Rightarrow> gval" where
  "recorded_request e spec =
     (let headers = captured_request_headers (se_request_headers e) (spec_capture_headers spec);
          patterns = request_body_patterns (se_request_body e) spec
      in GObj ([(''method'', GStr (se_method e)), recorded_url e]
           @ (if 0 < length headers then [(''headers'', GObj headers)] else [])
           @ (if 0 < length patterns then [(''bodyPatterns'', GArr patterns)] else [])))"

definition recorded_response_headers :: "serve_event \<Rightarrow> (string \<times> gval) list" where
  "recorded_response_headers e =
     (let kept = filter (\<lambda>(name, values). \<not> (is_excluded_response_header name \<or> values = []))
                   (se_response_headers e);
          headers = map (\<lambda>(name, values).
              (name, if length values = 1 then GStr (hd values) else GArr (map GStr values))) kept
      in if se_protocol e = ''grpc'' \<and> header_value (se_response_headers e) ''grpc-status-name'' = []
         then aput ''grpc-status-name'' (GStr ''OK'') headers
         else headers)"

definition is_json_response :: "netlib \<Rightarrow> header_map \<Rightarrow> string \<Rightarrow> bool" where
  "is_json_response N headers body \<longleftrightarrow>
     (let content_type = header_get headers ''Content-Type'';
          media_type = (case parse_media_type N content_type of None \<Rightarrow> content_type | Some t \<Rightarrow> t)
      in str_contains (to_lower media_type) ''json'' \<and> json_parse body \<noteq> None)"

definition is_text_body :: "header_map \<Rightarrow> string \<Rightarrow> bool" where
  "is_text_body headers body \<longleftrightarrow>
     (let content_type = to_lower (header_get headers ''Content-Type'') in
      utf8_valid body \<and> chr 0 \<notin> set body
      \<and> (content_type = [] \<or> has_prefix content_type ''text/'' \<or> str_contains content_type ''json''
         \<or> str_contains content_type ''xml''))"

definition recorded_response_body :: "netlib \<Rightarrow> serve_event \<Rightarrow> (string \<times> gval) list" where
  "recorded_response_body N e =
     (let body = se_response_body e; headers = se_response_headers e in
      if body = [] then []
      else
        (case (if is_json_response N headers body then unmarshal_any body else None) of
           Some v \<Rightarrow> [(''jsonBody'', v)]
         | None \<Rightarrow>
             if is_text_body headers body then [(''body'', GStr body)]
             else [(''base64Body'', GStr (base64_encode body))]))"

definition recorded_response :: "netlib \<Rightarrow> serve_event \<Rightarrow> gval" where
  "recorded_response N e =
     (let headers = recorded_response_headers e in
      GObj ([(''status'', GInt (se_response_status e))]
        @ (if 0 < length headers then [(''headers'', GObj headers)] else [])
        @ recorded_response_body N e))"

definition recorded_mapping_json :: "golib \<Rightarrow> netlib \<Rightarrow> serve_event \<Rightarrow> recording_spec \<Rightarrow> string" where
  "recorded_mapping_json L N e spec =
     marshal (fmt_float L) (GObj
       [(''name'', GStr (recorded_name e)),
        (''persistent'', GBool (spec_persist spec)),
        (''request'', recorded_request e spec),
        (''response'', recorded_response N e)])"

text \<open>\<open>rand\<close> gives the random bytes of the \<open>n\<close>-th identifier.\<close>

fun build_mappings ::
  "golib \<Rightarrow> netlib \<Rightarrow> (nat \<Rightarrow> 8 word list option) \<Rightarrow> recording_spec \<Rightarrow> nat \<Rightarrow> serve_event list
    \<Rightarrow> mapping_stub list res" where
  "build_mappings L N rand spec n [] = Ok []"
| "build_mappings L N rand spec n (e # es) =
     bind_res (wrap_err ''build recorded mapping: ''
                 (parse_json L (rand n) (recorded_mapping_json L N e spec))) (\<lambda>stub.
     bind_res (build_mappings L N rand spec (Suc n) es) (\<lambda>stubs. Ok (stub # stubs)))"

definition build_snapshot ::
  "golib \<Rightarrow> netlib \<Rightarrow> (nat \<Rightarrow> 8 word list option) \<Rightarrow> serve_event list \<Rightarrow> recording_spec
    \<Rightarrow> recording_snapshot res" where
  "build_snapshot L N rand events spec =
     bind_res (build_mappings L N rand spec 0 events) (\<lambda>mappings.
     Ok \<lparr>snap_mappings = mappings, snap_total = length mappings\<rparr>)"

section \<open>The store\<close>

definition validate_target_base_url :: "netlib \<Rightarrow> string \<Rightarrow> unit res" where
  "validate_target_base_url N value =
     (case parse_url N value of
        None \<Rightarrow> Err ''targetBaseUrl is invalid: ''
      | Some parsed \<Rightarrow>
          if up_scheme parsed = [] \<or> up_host parsed = []
          then Err ''targetBaseUrl must include scheme and host'' else Ok ())"

definition recording_start ::
  "netlib \<Rightarrow> recording_spec \<Rightarrow> recording_store \<Rightarrow> unit res \<times> recording_store" where
  "recording_start N spec s =
     (if trim_space (spec_target_base_url spec) = [] then (Err ''targetBaseUrl is required'', s)
      else
        (case validate_target_base_url N (spec_target_base_url spec) of
           Err e \<Rightarrow> (Err e, s)
         | Panic \<Rightarrow> (Panic, s)
         | Ok u \<Rightarrow> (Ok (), s\<lparr>rec_active := Some \<lparr>sess_spec = spec, sess_events = []\<rparr>\<rparr>)))"

definition recording_stop ::
  "golib \<Rightarrow> netlib \<Rightarrow> (nat \<Rightarrow> 8 word list option) \<Rightarrow> recording_store
    \<Rightarrow> recording_snapshot res \<times> recording_store" where
  "recording_stop L N rand s =
     (case rec_active s of
        None \<Rightarrow> (Err ''recording is not running'', s)
      | Some active \<Rightarrow>
          (build_snapshot L N rand (sess_events active) (sess_spec active), s\<lparr>rec_active := None\<rparr>))"

definition recording_take_snapshot ::
  "golib \<Rightarrow> netlib \<Rightarrow> (nat \<Rightarrow> 8 word list option) \<Rightarrow> recording_spec \<Rightarrow> recording_store
    \<Rightarrow> recording_snapshot res" where
  "recording_take_snapshot L N rand spec s = build_snapshot L N rand (rec_serve_events s) spec"

definition active_spec :: "recording_store \<Rightarrow> recording_spec option" where
  "active_spec s = map_option sess_spec (rec_active s)"

definition complete_event :: "nat \<Rightarrow> serve_event \<Rightarrow> serve_event" where
  "complete_event now event0 =
     (let event1 = (if se_protocol event0 = [] then event0\<lparr>se_protocol := ''http''\<rparr> else event0)
      in if se_recorded_at event1 = 0 then event1\<lparr>se_recorded_at := now\<rparr> else event1)"

definition add_event :: "nat \<Rightarrow> serve_event \<Rightarrow> bool \<Rightarrow> recording_store \<Rightarrow> recording_store" where
  "add_event now event0 recording_event s =
     (let event = complete_event now event0;
          events = rec_serve_events s @ [event];
          events' = (if 0 < rec_max_events s \<and> rec_max_events s < length events
                     then drop (length events - rec_max_events s) events else events);
          s' = s\<lparr>rec_serve_events := events'\<rparr>
      in (case rec_active s' of
            Some active \<Rightarrow>
              if recording_event
              then s'\<lparr>rec_active := Some (active\<lparr>sess_events := sess_events active @ [event]\<rparr>)\<rparr>
              else s'
          | None \<Rightarrow> s'))"

definition add_serve_event :: "nat \<Rightarrow> serve_event \<Rightarrow> recording_store \<Rightarrow> recording_store" where
  "add_serve_event now event s = add_event now event False s"

definition add_recording_event :: "nat \<Rightarrow> serve_event \<Rightarrow> recording_store \<Rightarrow> recording_store" where
  "add_recording_event now event s = add_event now event True s"

section \<open>The journal\<close>

text \<open>The most recent \<open>n\<close> elements.\<close>

definition latest :: "nat \<Rightarrow> 'a list \<Rightarrow> 'a list" where
  "latest n xs = drop (length xs - n) xs"

lemma latest_rev: "latest n xs = rev (take n (rev xs))"
  by (simp add: latest_def take_rev)

lemma latest_append: "latest n (latest n xs @ ys) = latest n (xs @ ys)"
  by (simp add: latest_rev min_def)

lemma length_latest [simp]: "length (latest n xs) = min n (length xs)"
  by (simp add: latest_def)

lemma latest_short [simp]: "length xs \<le> n \<Longrightarrow> latest n xs = xs"
  by (simp add: latest_def)

lemma add_event_journal:
  assumes "0 < rec_max_events s"
  shows "rec_serve_events (add_event now e b s)
    = latest (rec_max_events s) (rec_serve_events s @ [complete_event now e])"
  using assms by (auto simp: add_event_def Let_def latest_def split: option.split)

lemma add_event_max [simp]: "rec_max_events (add_event now e b s) = rec_max_events s"
  by (simp add: add_event_def Let_def split: option.split)

lemma add_event_session:
  "rec_active (add_event now e b s) =
     map_option (\<lambda>a. if b then a\<lparr>sess_events := sess_events a @ [complete_event now e]\<rparr> else a) (rec_active s)"
  by (simp add: add_event_def Let_def split: option.split)

text \<open>A run of the recorder: events with their time and whether the recording proxy served them.\<close>

definition add_events :: "(nat \<times> serve_event \<times> bool) list \<Rightarrow> recording_store \<Rightarrow> recording_store" where
  "add_events es s = fold (\<lambda>(now, e, b). add_event now e b) es s"

lemma add_events_journal:
  assumes "0 < rec_max_events s" and "length (rec_serve_events s) \<le> rec_max_events s"
  shows "rec_serve_events (add_events es s)
    = latest (rec_max_events s) (rec_serve_events s @ map (\<lambda>(now, e, b). complete_event now e) es)"
  using assms
proof (induction es arbitrary: s)
  case Nil
  then show ?case by (simp add: add_events_def)
next
  case (Cons x es)
  obtain now e b where x: "x = (now, e, b)" by (cases x)
  let ?s = "add_event now e b s" and ?n = "rec_max_events s"
  have step: "rec_serve_events ?s = latest ?n (rec_serve_events s @ [complete_event now e])"
    by (rule add_event_journal [OF Cons.prems(1)])
  have "rec_serve_events (add_events es ?s)
      = latest ?n (rec_serve_events ?s @ map (\<lambda>(now, e, b). complete_event now e) es)"
    using Cons.IH [of ?s] Cons.prems(1) by (simp add: step)
  also have "\<dots> = latest ?n (rec_serve_events s @ map (\<lambda>(now, e, b). complete_event now e) (x # es))"
    unfolding step latest_append by (simp add: x)
  finally show ?case by (simp add: add_events_def x)
qed

lemma add_events_session:
  "rec_active (add_events es s) =
     map_option (\<lambda>a. a\<lparr>sess_events := sess_events a @
         map (\<lambda>(now, e, b). complete_event now e) (filter (\<lambda>(now, e, b). b) es)\<rparr>) (rec_active s)"
proof (induction es arbitrary: s)
  case Nil
  then show ?case by (simp add: add_events_def option.map_ident)
next
  case (Cons x es)
  obtain now e b where x: "x = (now, e, b)" by (cases x)
  show ?case
    using Cons [of "add_event now e b s"]
    by (simp add: add_events_def x add_event_session option.map_comp comp_def)
qed

text \<open>The session that \<^verbatim>\<open>Stop\<close> turns into mappings: the events recorded since \<^verbatim>\<open>Start\<close>, in order.\<close>

lemma recording_session_events:
  assumes "recording_start N spec s = (Ok u, s1)"
  shows "recording_stop L N rand (add_events es s1) =
     (build_snapshot L N rand
        (map (\<lambda>(now, e, b). complete_event now e) (filter (\<lambda>(now, e, b). b) es)) spec,
      (add_events es s1)\<lparr>rec_active := None\<rparr>)"
proof -
  have "rec_active s1 = Some \<lparr>sess_spec = spec, sess_events = []\<rparr>"
    using assms by (auto simp: recording_start_def split: if_splits res.splits)
  then show ?thesis by (simp add: recording_stop_def add_events_session)
qed

lemma build_snapshot_wf:
  assumes "build_snapshot L N rand events spec = Ok snap" and "\<And>n bs. rand n = Some bs \<Longrightarrow> length bs = 16"
  shows "list_all (wf_mapping L) (snap_mappings snap) \<and> snap_total snap = length events"
proof -
  have "build_mappings L N rand spec n es = Ok ms \<Longrightarrow> list_all (wf_mapping L) ms \<and> length ms = length es" for n es ms
  proof (induction es arbitrary: n ms)
    case (Cons e es)
    then show ?case
      using parse_json_wf assms(2) by (fastforce simp: res_simps parse_json_def)
  qed simp
  with assms(1) show ?thesis by (auto simp: build_snapshot_def res_simps)
qed

end
