(* ===== verification/Proxy_Forward.thy ===== *)
theory Proxy_Forward
  imports Recording_Store
begin

text \<open>
  \<^verbatim>\<open>internal/proxy/proxy.go\<close>: the target URL of a proxied request and the headers that pass. The HTTP
  client is a parameter that answers a request with a response or an error.
\<close>

record http_url =
  hu_path :: string
  hu_raw_query :: string

record proxy_response =
  px_status :: int
  px_headers :: header_map
  px_body :: string

record proxy_request =
  pq_method :: string
  pq_target :: string
  pq_headers :: header_map
  pq_body :: string

type_synonym http_client = "proxy_request \<Rightarrow> proxy_response res"

definition is_hop_by_hop_header :: "string \<Rightarrow> bool" where
  "is_hop_by_hop_header name \<longleftrightarrow>
     to_lower name \<in> set [''connection'', ''keep-alive'', ''proxy-authenticate'', ''proxy-authorization'',
       ''proxy-connection'', ''te'', ''trailer'', ''transfer-encoding'', ''upgrade'']"

definition copy_headers :: "header_map \<Rightarrow> header_map \<Rightarrow> header_map" where
  "copy_headers target source =
     fold (\<lambda>(name, values) h.
         if is_hop_by_hop_header name then h
         else fold (\<lambda>value. header_add name value) values h) source target"

definition clone_headers :: "header_map \<Rightarrow> header_map" where
  "clone_headers source =
     fold (\<lambda>(name, values) h. if is_hop_by_hop_header name then h else aput name values h) source []"

definition join_url_path :: "string \<Rightarrow> string \<Rightarrow> string" where
  "join_url_path base_path request_path =
     (if base_path = [] \<or> base_path = ''/'' then request_path
      else if request_path = [] \<or> request_path = ''/'' then base_path
      else if has_suffix base_path ''/'' \<and> has_prefix request_path ''/''
      then base_path @ trim_prefix request_path ''/''
      else if \<not> has_suffix base_path ''/'' \<and> \<not> has_prefix request_path ''/''
      then base_path @ ''/'' @ request_path
      else base_path @ request_path)"

definition join_raw_query :: "string \<Rightarrow> string \<Rightarrow> string" where
  "join_raw_query base_query request_query =
     (if base_query = [] then request_query
      else if request_query = [] then base_query
      else base_query @ ''&'' @ request_query)"

text \<open>The path of the original request without the prefix, with a leading slash.\<close>

definition forwarded_path :: "string \<Rightarrow> string \<Rightarrow> string" where
  "forwarded_path prefix_to_remove path0 =
     (let path1 = (if prefix_to_remove \<noteq> [] \<and> has_prefix path0 prefix_to_remove
                   then (let p = trim_prefix path0 prefix_to_remove in if p = [] then ''/'' else p)
                   else path0)
      in if \<not> has_prefix path1 ''/'' then ''/'' @ path1 else path1)"

definition target_url :: "netlib \<Rightarrow> string \<Rightarrow> string \<Rightarrow> http_url \<Rightarrow> string res" where
  "target_url N base_url prefix_to_remove original =
     (case parse_url N base_url of
        None \<Rightarrow> Err ''parse proxyBaseUrl: ''
      | Some base \<Rightarrow>
          if up_scheme base = [] \<or> up_host base = [] then Err ''proxyBaseUrl must include scheme and host''
          else Ok (url_string N (base
            \<lparr>up_path := join_url_path (up_path base) (forwarded_path prefix_to_remove (hu_path original)),
             up_raw_query := join_raw_query (up_raw_query base) (hu_raw_query original),
             up_fragment := []\<rparr>)))"

definition forward ::
  "netlib \<Rightarrow> http_client \<Rightarrow> string \<Rightarrow> http_url \<Rightarrow> header_map \<Rightarrow> string \<Rightarrow> response_definition
    \<Rightarrow> proxy_response res" where
  "forward N client meth url headers body d =
     bind_res (target_url N (rd_proxy_base_url d) (rd_proxy_url_prefix_to_remove d) url) (\<lambda>target.
     bind_res (wrap_err ''proxy request: ''
                 (client \<lparr>pq_method = meth, pq_target = target,
                          pq_headers = copy_headers [] headers, pq_body = body\<rparr>)) (\<lambda>resp.
     Ok \<lparr>px_status = px_status resp, px_headers = clone_headers (px_headers resp), px_body = px_body resp\<rparr>))"

section \<open>Paths\<close>

lemma has_prefix_slash: "has_prefix s ''/'' \<longleftrightarrow> (\<exists>t. s = CHR ''/'' # t)"
  by (auto simp: has_prefix_def prefix_def)

lemma has_suffix_slash: "has_suffix s ''/'' \<longleftrightarrow> (\<exists>t. s = t @ ''/'')"
  by (auto simp: has_suffix_def suffix_def)

lemma forwarded_path_slash: "has_prefix (forwarded_path p path) ''/''"
  by (auto simp: forwarded_path_def Let_def has_prefix_def)

text \<open>One slash stands between the base path and the request path.\<close>

lemma join_url_path_slash:
  assumes "base \<noteq> []" "base \<noteq> ''/''" "path \<noteq> []"
  shows "join_url_path base (CHR ''/'' # path) = trim_suffix base ''/'' @ CHR ''/'' # path"
proof (cases "has_suffix base ''/''")
  case True
  then obtain b where b: "base = b @ ''/''" by (auto simp: has_suffix_slash)
  then have "trim_suffix base ''/'' = b" by (simp add: trim_suffix_def has_suffix_def)
  with True b assms show ?thesis
    by (simp add: join_url_path_def has_prefix_def trim_prefix_def)
next
  case False
  with assms show ?thesis by (simp add: join_url_path_def has_prefix_def trim_suffix_def)
qed

section \<open>Headers\<close>

lemma copy_headers_filter:
  "copy_headers target source = add_all_headers (filter (\<lambda>(name, _). \<not> is_hop_by_hop_header name) source) target"
  unfolding copy_headers_def add_all_headers_def
proof (induction source arbitrary: target)
  case (Cons e source)
  then show ?case by (cases e) simp
qed simp

lemma hop_by_hop_canonical [simp]: "is_hop_by_hop_header (canonical_header_key s) = is_hop_by_hop_header s"
  by (simp add: is_hop_by_hop_header_def)

lemma copy_headers_no_hop:
  "\<forall>name \<in> fst ` set (copy_headers [] source). \<not> is_hop_by_hop_header name"
proof
  fix name assume "name \<in> fst ` set (copy_headers [] source)"
  then have "name \<in> canonical_header_key ` fst ` set (filter (\<lambda>(name, _). \<not> is_hop_by_hop_header name) source)"
    using keys_add_all [of "filter (\<lambda>(name, _). \<not> is_hop_by_hop_header name) source" "[]"]
    by (auto simp: copy_headers_filter)
  then show "\<not> is_hop_by_hop_header name" by auto
qed

lemma clone_headers_filter:
  assumes "distinct_keys source"
  shows "clone_headers source = filter (\<lambda>(name, _). \<not> is_hop_by_hop_header name) source"
proof -
  have "fold (\<lambda>(name, values) h. if is_hop_by_hop_header name then h else aput name values h) source h
      = h @ filter (\<lambda>(name, _). \<not> is_hop_by_hop_header name) source"
    if "distinct_keys (h @ source)" for h
    using that
  proof (induction source arbitrary: h)
    case (Cons e source)
    obtain name vs where e: "e = (name, vs)" by (cases e)
    have "aput name vs h = h @ [(name, vs)]"
      using Cons.prems by (induction h) (auto simp: e)
    with Cons show ?case by (auto simp: e)
  qed simp
  from this [of "[]"] assms show ?thesis by (simp add: clone_headers_def)
qed

lemma copy_headers_values:
  "header_values (copy_headers [] source) key =
     concat (map snd (filter (\<lambda>(name, _). canonical_header_key name = key \<and> \<not> is_hop_by_hop_header name) source))"
  by (simp add: copy_headers_filter header_values_add_all case_prod_beta' conj_commute)

lemma forward_headers:
  assumes "forward N client meth url headers body d = Ok p"
    and "\<And>q r. client q = Ok r \<Longrightarrow> distinct_keys (px_headers r)"
  shows "\<forall>name \<in> fst ` set (px_headers p). \<not> is_hop_by_hop_header name"
  using assms by (auto simp: forward_def res_simps clone_headers_filter)

end
