(* ===== verification/Grpc_Descriptors.thy ===== *)
theory Grpc_Descriptors
  imports Request_Matcher
begin

text \<open>
  \<^verbatim>\<open>internal/grpcdesc/store.go\<close>: the uploaded descriptor files and the active registry, which only
  \<^verbatim>\<open>Reset\<close> rebuilds. The protobuf library is the parameter \<open>protolib\<close>: it parses descriptor sets,
  links them to files and converts messages from and to JSON.
\<close>

section \<open>The library\<close>

datatype message_desc = MessageDesc string "message_desc list"

record method_desc =
  md_name :: string
  md_input :: string
  md_output :: string

record service_desc =
  sd_name :: string
  sd_methods :: "method_desc list"

record file_desc =
  fd_services :: "service_desc list"
  fd_messages :: "message_desc list"

record descriptor_registry =
  rg_generation :: "64 word"
  rg_files :: nat
  rg_services :: "string list"
  rg_messages :: "string list"
  rg_linked :: "file_desc list option"
  rg_types :: "string list option"

text \<open>\<open>'d\<close> is an unlinked file descriptor (\<^verbatim>\<open>FileDescriptorProto\<close>).\<close>

record 'd protolib =
  pl_parse_set :: "string \<Rightarrow> 'd list option"
  pl_new_files :: "'d list \<Rightarrow> file_desc list option"
  pl_to_json :: "descriptor_registry \<Rightarrow> string \<Rightarrow> string \<Rightarrow> string option"
  pl_from_json :: "descriptor_registry \<Rightarrow> string \<Rightarrow> string \<Rightarrow> string option"
  pl_empty :: "descriptor_registry \<Rightarrow> string \<Rightarrow> string option"

section \<open>State\<close>

datatype descriptor_kind = KindDescriptorSet | KindProtoSource

record descriptor_blob =
  db_name :: string
  db_kind :: descriptor_kind
  db_data :: string
  db_updated_at :: nat

record descriptor_store =
  ds_blobs :: "(string \<times> descriptor_blob) list"
  ds_active :: descriptor_registry
  ds_generation :: "64 word"

record descriptor_file_info =
  fi_name :: string
  fi_kind :: descriptor_kind
  fi_size :: nat
  fi_loadable :: bool
  fi_updated_at :: nat

definition empty_registry :: descriptor_registry where
  "empty_registry = \<lparr>rg_generation = 0, rg_files = 0, rg_services = [], rg_messages = [],
     rg_linked = None, rg_types = None\<rparr>"

definition new_descriptor_store :: descriptor_store where
  "new_descriptor_store = \<lparr>ds_blobs = [], ds_active = empty_registry, ds_generation = 0\<rparr>"

section \<open>File names\<close>

text \<open>\<^verbatim>\<open>filepath.Ext\<close>: the suffix from the last dot of the last path element.\<close>

definition file_ext :: "string \<Rightarrow> string" where
  "file_ext path =
     (let r = rev path; stem = takeWhile (\<lambda>c. c \<noteq> CHR ''.'' \<and> c \<noteq> CHR ''/'') r in
      case drop (length stem) r of
        c # _ \<Rightarrow> if c = CHR ''.'' then CHR ''.'' # rev stem else []
      | [] \<Rightarrow> [])"

definition descriptor_file_name :: "golib \<Rightarrow> string \<Rightarrow> (string \<times> descriptor_kind) res" where
  "descriptor_file_name L name0 =
     (let name = trim_space name0 in
      if name = [] then Err ''descriptor file name is required''
      else if name = ''.'' \<or> name = ''..'' \<or> contains_any name [CHR ''/'', CHR 0x5C] \<or> chr 0 \<in> set name
      then Err (''invalid descriptor file name '' @ go_quote (is_print L) name)
      else
        (let extension = to_lower (file_ext name) in
         if extension = ''.dsc'' \<or> extension = ''.desc'' then Ok (name, KindDescriptorSet)
         else if extension = ''.proto'' then Ok (name, KindProtoSource)
         else Err (''descriptor file '' @ go_quote (is_print L) name
                   @ '' must have .dsc, .desc or .proto extension'')))"

section \<open>Operations\<close>

definition parse_descriptor_set :: "'d protolib \<Rightarrow> string \<Rightarrow> 'd list res" where
  "parse_descriptor_set P data =
     (case pl_parse_set P data of
        None \<Rightarrow> Err ''parse FileDescriptorSet: ''
      | Some files \<Rightarrow>
          if files = [] then Err ''FileDescriptorSet must contain at least one file'' else Ok files)"

definition validate_blob :: "'d protolib \<Rightarrow> descriptor_kind \<Rightarrow> string \<Rightarrow> unit res" where
  "validate_blob P kind data =
     (if data = [] then Err ''descriptor file body must not be empty''
      else (case kind of
              KindDescriptorSet \<Rightarrow> bind_res (parse_descriptor_set P data) (\<lambda>_. Ok ())
            | KindProtoSource \<Rightarrow> guard_res (utf8_valid data) ''proto source must be valid UTF-8''))"

definition descriptor_put ::
  "golib \<Rightarrow> 'd protolib \<Rightarrow> nat \<Rightarrow> string \<Rightarrow> string \<Rightarrow> descriptor_store \<Rightarrow> bool res \<times> descriptor_store" where
  "descriptor_put L P now name0 data s =
     (case bind_res (descriptor_file_name L name0) (\<lambda>(name, kind).
           bind_res (validate_blob P kind data) (\<lambda>_. Ok (name, kind))) of
        Err e \<Rightarrow> (Err e, s)
      | Panic \<Rightarrow> (Panic, s)
      | Ok (name, kind) \<Rightarrow>
          (Ok (map_of (ds_blobs s) name \<noteq> None),
           s\<lparr>ds_blobs := aput name \<lparr>db_name = name, db_kind = kind, db_data = data, db_updated_at = now\<rparr>
                          (ds_blobs s)\<rparr>))"

text \<open>\<^verbatim>\<open>PutLegacy\<close> on a store pointer; the answer says whether the file was taken.\<close>

definition descriptor_put_legacy ::
  "golib \<Rightarrow> 'd protolib \<Rightarrow> nat \<Rightarrow> string \<Rightarrow> string \<Rightarrow> descriptor_store option
    \<Rightarrow> bool \<times> descriptor_store option" where
  "descriptor_put_legacy L P now name data store =
     (case store of
        None \<Rightarrow> (False, None)
      | Some s \<Rightarrow>
          (case descriptor_file_name L name of
             Ok (_, kind) \<Rightarrow>
               if kind = KindProtoSource then (False, Some s)
               else (case validate_blob P KindDescriptorSet data of
                       Ok _ \<Rightarrow>
                         (case descriptor_put L P now name data s of
                            (Ok _, s') \<Rightarrow> (True, Some s')
                          | (_, s') \<Rightarrow> (False, Some s'))
                     | _ \<Rightarrow> (False, Some s))
           | _ \<Rightarrow> (False, Some s)))"

definition descriptor_delete :: "golib \<Rightarrow> string \<Rightarrow> descriptor_store \<Rightarrow> bool \<times> descriptor_store" where
  "descriptor_delete L name0 s =
     (case descriptor_file_name L name0 of
        Ok (name, _) \<Rightarrow>
          if map_of (ds_blobs s) name = None then (False, s)
          else (True, s\<lparr>ds_blobs := AList.delete name (ds_blobs s)\<rparr>)
      | _ \<Rightarrow> (False, s))"

definition file_info :: "descriptor_blob \<Rightarrow> descriptor_file_info" where
  "file_info b = \<lparr>fi_name = db_name b, fi_kind = db_kind b, fi_size = length (db_data b),
     fi_loadable = (db_kind b = KindDescriptorSet), fi_updated_at = db_updated_at b\<rparr>"

definition descriptor_list ::
  "descriptor_store option \<Rightarrow> descriptor_file_info list \<times> descriptor_registry" where
  "descriptor_list store =
     (case store of
        None \<Rightarrow> ([], empty_registry)
      | Some s \<Rightarrow> (sort_key fi_name (map (\<lambda>(_, b). file_info b) (ds_blobs s)), ds_active s))"

subsection \<open>Building the registry\<close>

text \<open>
  \<^verbatim>\<open>registerMessages\<close>: a message before its nested ones; \<^verbatim>\<open>RegisterMessage\<close> rejects a name that is
  registered. The accumulator is the list of registered names.
\<close>

fun register_message :: "message_desc \<Rightarrow> string list \<Rightarrow> string list res"
and register_messages :: "message_desc list \<Rightarrow> string list \<Rightarrow> string list res" where
  "register_message (MessageDesc name nested) names =
     (if name \<in> set names then Err (''register message '' @ name)
      else register_messages nested (names @ [name]))"
| "register_messages [] names = Ok names"
| "register_messages (m # ms) names = bind_res (register_message m names) (register_messages ms)"

fun register_files :: "file_desc list \<Rightarrow> string list \<Rightarrow> string list res" where
  "register_files [] names = Ok names"
| "register_files (f # fs) names = bind_res (register_messages (fd_messages f) names) (register_files fs)"

definition build_registry :: "'d protolib \<Rightarrow> 'd list \<Rightarrow> descriptor_registry res" where
  "build_registry P descriptor_set =
     (if descriptor_set = [] then Ok (empty_registry\<lparr>rg_linked := Some [], rg_types := Some []\<rparr>)
      else
        (case pl_new_files P descriptor_set of
           None \<Rightarrow> Err ''build descriptor registry: ''
         | Some files \<Rightarrow>
             bind_res (register_files files []) (\<lambda>messages.
             Ok \<lparr>rg_generation = 0, rg_files = length files,
                 rg_services = sort (concat (map (\<lambda>f. map sd_name (fd_services f)) files)),
                 rg_messages = sort messages, rg_linked = Some files, rg_types = Some messages\<rparr>)))"

text \<open>The loop of \<^verbatim>\<open>Reset\<close> over the blobs in the order of their names.\<close>

fun combine_sets :: "'d protolib \<Rightarrow> (string \<times> descriptor_blob) list \<Rightarrow> 'd list res" where
  "combine_sets P [] = Ok []"
| "combine_sets P ((name, stored) # bs) =
     (if db_kind stored \<noteq> KindDescriptorSet then combine_sets P bs
      else bind_res (wrap_err (name @ '': '') (parse_descriptor_set P (db_data stored))) (\<lambda>parsed.
           bind_res (combine_sets P bs) (\<lambda>rest. Ok (parsed @ rest))))"

definition reset_locked :: "'d protolib \<Rightarrow> descriptor_store \<Rightarrow> descriptor_registry res \<times> descriptor_store" where
  "reset_locked P s =
     (case bind_res (combine_sets P (sort_keys (ds_blobs s))) (build_registry P) of
        Err e \<Rightarrow> (Err e, s)
      | Panic \<Rightarrow> (Panic, s)
      | Ok registry \<Rightarrow>
          (let generation = ds_generation s + 1; registry' = registry\<lparr>rg_generation := generation\<rparr>
           in (Ok registry', s\<lparr>ds_generation := generation, ds_active := registry'\<rparr>)))"

definition descriptor_reset ::
  "'d protolib \<Rightarrow> descriptor_store option \<Rightarrow> descriptor_registry res \<times> descriptor_store option" where
  "descriptor_reset P store =
     (case store of
        None \<Rightarrow> (Ok empty_registry, None)
      | Some s \<Rightarrow> (case reset_locked P s of (r, s') \<Rightarrow> (r, Some s')))"

definition descriptor_active :: "descriptor_store option \<Rightarrow> descriptor_registry" where
  "descriptor_active store = (case store of None \<Rightarrow> empty_registry | Some s \<Rightarrow> ds_active s)"

definition find_service :: "descriptor_registry \<Rightarrow> string \<Rightarrow> service_desc option" where
  "find_service r name =
     (case rg_linked r of
        None \<Rightarrow> None
      | Some files \<Rightarrow> find (\<lambda>s. sd_name s = name) (concat (map fd_services files)))"

definition find_message_type :: "descriptor_registry \<Rightarrow> string \<Rightarrow> string option" where
  "find_message_type r name =
     (case rg_types r of None \<Rightarrow> None | Some names \<Rightarrow> find (\<lambda>n. n = name) names)"

section \<open>The invariant\<close>

text \<open>Stored files passed validation, under the name they carry.\<close>

definition descriptor_inv :: "golib \<Rightarrow> 'd protolib \<Rightarrow> descriptor_store \<Rightarrow> bool" where
  "descriptor_inv L P s \<longleftrightarrow>
     distinct_keys (ds_blobs s)
     \<and> (\<forall>(name, b) \<in> set (ds_blobs s). db_name b = name \<and> validate_blob P (db_kind b) (db_data b) = Ok ())
     \<and> distinct (rg_messages (ds_active s))"

lemma descriptor_inv_new: "descriptor_inv L P new_descriptor_store"
  by (simp add: descriptor_inv_def new_descriptor_store_def empty_registry_def)

lemma descriptor_put_cases:
  obtains "fst (descriptor_put L P now name data s) \<noteq> Ok b" "snd (descriptor_put L P now name data s) = s"
  | n k where "descriptor_put L P now name data s = (Ok (map_of (ds_blobs s) n \<noteq> None),
      s\<lparr>ds_blobs := aput n \<lparr>db_name = n, db_kind = k, db_data = data, db_updated_at = now\<rparr> (ds_blobs s)\<rparr>)"
    "validate_blob P k data = Ok ()"
proof (cases "bind_res (descriptor_file_name L name) (\<lambda>(n, k). bind_res (validate_blob P k data) (\<lambda>_. Ok (n, k)))")
  case (Ok nk)
  then obtain n k where "nk = (n, k)" "validate_blob P k data = Ok ()" by (auto simp: res_simps)
  with Ok that(2) [of n k] show ?thesis by (simp add: descriptor_put_def)
qed (use that(1) in \<open>simp_all add: descriptor_put_def\<close>)

lemma descriptor_inv_put:
  assumes "descriptor_inv L P s"
  shows "descriptor_inv L P (snd (descriptor_put L P now name data s))"
proof (cases rule: descriptor_put_cases [of L P now name data s])
  case (2 n k)
  show ?thesis using assms 2 set_aput_subset
    by (fastforce simp: descriptor_inv_def distinct_update)
qed (use assms in simp)

lemma descriptor_inv_delete:
  assumes "descriptor_inv L P s"
  shows "descriptor_inv L P (snd (descriptor_delete L name s))"
proof (cases "snd (descriptor_delete L name s) = s")
  case False
  then obtain n where s': "snd (descriptor_delete L name s) = s\<lparr>ds_blobs := AList.delete n (ds_blobs s)\<rparr>"
    by (auto simp: descriptor_delete_def split: res.splits if_splits prod.splits)
  have "set (AList.delete n (ds_blobs s)) \<subseteq> set (ds_blobs s)" by (auto simp: AList.delete_eq)
  with assms show ?thesis
    unfolding s' by (simp add: descriptor_inv_def distinct_delete) blast
qed (use assms in simp)

lemma register_distinct:
  "register_message m names = Ok out \<Longrightarrow> distinct names \<Longrightarrow> distinct out"
  "register_messages ms names = Ok out \<Longrightarrow> distinct names \<Longrightarrow> distinct out"
  by (induction m names and ms names arbitrary: out and out rule: register_message_register_messages.induct)
    (auto simp: res_simps split: if_splits)

lemma register_files_distinct: "register_files fs names = Ok out \<Longrightarrow> distinct names \<Longrightarrow> distinct out"
  by (induction fs names arbitrary: out rule: register_files.induct) (auto simp: res_simps dest: register_distinct)

lemma build_registry_distinct: "build_registry P fs = Ok r \<Longrightarrow> distinct (rg_messages r)"
  by (auto simp: build_registry_def empty_registry_def res_simps split: if_splits option.splits
      dest: register_files_distinct)

lemma descriptor_inv_reset:
  assumes "descriptor_inv L P s"
  shows "descriptor_inv L P (snd (reset_locked P s))"
  using assms
  by (auto simp: reset_locked_def descriptor_inv_def Let_def res_simps split: res.split
      dest: build_registry_distinct)

section \<open>Reset\<close>

text \<open>Stored sets parse again, so only linking can fail.\<close>

definition parsed_sets :: "'d protolib \<Rightarrow> descriptor_store \<Rightarrow> 'd list" where
  "parsed_sets P s =
     concat (map (\<lambda>(_, b). the (pl_parse_set P (db_data b)))
       (filter (\<lambda>(_, b). db_kind b = KindDescriptorSet) (sort_keys (ds_blobs s))))"

lemma combine_sets_parsed:
  assumes "\<forall>(name, b) \<in> set bs. validate_blob P (db_kind b) (db_data b) = Ok ()"
  shows "combine_sets P bs = Ok (concat (map (\<lambda>(_, b). the (pl_parse_set P (db_data b)))
       (filter (\<lambda>(_, b). db_kind b = KindDescriptorSet) bs)))"
  using assms
proof (induction bs)
  case (Cons x bs)
  obtain name b where x: "x = (name, b)" by (cases x)
  show ?case
  proof (cases "db_kind b")
    case KindDescriptorSet
    with Cons.prems obtain files where "pl_parse_set P (db_data b) = Some files" "files \<noteq> []"
      by (auto simp: x validate_blob_def parse_descriptor_set_def res_simps split: if_splits option.splits)
    with Cons KindDescriptorSet show ?thesis by (simp add: x parse_descriptor_set_def)
  next
    case KindProtoSource
    with Cons show ?thesis by (simp add: x)
  qed
qed simp

lemma reset_spec:
  assumes "descriptor_inv L P s"
  shows "reset_locked P s =
     (case build_registry P (parsed_sets P s) of
        Ok r \<Rightarrow> (Ok (r\<lparr>rg_generation := ds_generation s + 1\<rparr>),
                 s\<lparr>ds_generation := ds_generation s + 1,
                   ds_active := r\<lparr>rg_generation := ds_generation s + 1\<rparr>\<rparr>)
      | Err e \<Rightarrow> (Err e, s)
      | Panic \<Rightarrow> (Panic, s))"
proof -
  have "combine_sets P (sort_keys (ds_blobs s)) = Ok (parsed_sets P s)"
    unfolding parsed_sets_def by (rule combine_sets_parsed) (use assms in \<open>auto simp: descriptor_inv_def\<close>)
  then show ?thesis by (simp add: reset_locked_def Let_def split: res.split)
qed

text \<open>Uploading and deleting files leave the active registry alone.\<close>

lemma active_put: "ds_active (snd (descriptor_put L P now name data s)) = ds_active s"
  by (cases rule: descriptor_put_cases [of L P now name data s]) auto

lemma active_delete: "ds_active (snd (descriptor_delete L name s)) = ds_active s"
  by (simp add: descriptor_delete_def split: res.split)

end
