(* ===== verification/Runtime_Api.thy ===== *)
theory Runtime_Api
  imports Request_Body Scenario_Store Response_Render Proxy_Forward Grpc_Descriptors
begin

text \<open>
  The mock endpoint of \<^verbatim>\<open>internal/server/runtime.go\<close>: choosing the stub for a request, serving it or
  proxying, and writing the response with its delays. \<open>environment\<close> collects what the handlers take
  from outside the source: the libraries, the HTTP client, the timer and the random numbers.
\<close>

record 'd environment =
  env_lib :: golib
  env_net :: netlib
  env_proto :: "'d protolib"
  env_client :: http_client
  env_sleeper :: "int \<Rightarrow> bool"
  env_random :: random_source
  env_rand_bytes :: "nat \<Rightarrow> 8 word list option"
  env_now :: nat
  env_time_text :: "nat \<Rightarrow> string"

record server_state =
  sv_mappings :: mapping_store
  sv_scenarios :: "scenario_store option"
  sv_files :: memory_store
  sv_descriptors :: "descriptor_store option"
  sv_recorder :: "recording_store option"

record http_request =
  hr_method :: string
  hr_url :: http_url
  hr_request_uri :: string
  hr_query :: header_map
  hr_headers :: header_map
  hr_body :: body_source
  hr_content_length :: int

text \<open>
  What a handler sends: the status and headers at \<^verbatim>\<open>WriteHeader\<close>, what follows, and the headers set
  afterwards (trailers). \<open>NoReply\<close> is a return without a write, \<open>Crash\<close> a run-time panic.
\<close>

datatype io_event = IoWrite string | IoFlush | IoSleep int

record http_reply =
  hp_status :: int
  hp_headers :: header_map
  hp_events :: "io_event list"
  hp_trailers :: header_map

datatype outcome = Reply http_reply | NoReply | Crash

definition simple_reply :: "int \<Rightarrow> header_map \<Rightarrow> string \<Rightarrow> outcome" where
  "simple_reply status headers body =
     Reply \<lparr>hp_status = status, hp_headers = headers, hp_events = [IoWrite body], hp_trailers = []\<rparr>"

text \<open>\<^verbatim>\<open>http.Error\<close> and \<^verbatim>\<open>http.NotFound\<close>\<close>

definition http_error :: "string \<Rightarrow> int \<Rightarrow> outcome" where
  "http_error msg code =
     simple_reply code [(''Content-Type'', [''text/plain; charset=utf-8'']),
       (''X-Content-Type-Options'', [''nosniff''])] (msg @ [CHR 0x0A])"

section \<open>Choosing the stub\<close>

definition find_match_lazy ::
  "golib \<Rightarrow> mapping_store \<Rightarrow> scenario_store option \<Rightarrow> http_request \<Rightarrow> ('s \<Rightarrow> body_context \<times> 's) \<Rightarrow> 's
    \<Rightarrow> mapping_stub option \<times> scenario_store option \<times> 's" where
  "find_match_lazy L mappings scenarios r body s =
     (let uri = hr_request_uri r; path = hu_path (hr_url r); meth = hr_method r;
          matches = (\<lambda>stub. matches_lazy L (m_request stub) meth uri path (hr_query r) (hr_headers r) body)
      in if scenarios = None \<or> \<not> store_has_scenarios mappings then
           (case store_range_candidates mappings meth uri path
                   (\<lambda>stub (selected, s). case matches stub s of (ok, s') \<Rightarrow>
                      (True, (if ok then better compare_stub_order stub selected else selected, s')))
                   (None, s) of
              (selected, s') \<Rightarrow> (selected, scenarios, s'))
         else
           (case store_range_candidates mappings meth uri path
                   (\<lambda>stub (cands, s). case matches stub s of (ok, s') \<Rightarrow>
                      (True, (if ok then cands @ [stub] else cands, s')))
                   ([], s) of
              (cands, s') \<Rightarrow>
                (case select_and_transition compare_stub_order cands scenarios of
                   (selected, scenarios') \<Rightarrow> (selected, scenarios', s'))))"

definition find_match ::
  "golib \<Rightarrow> mapping_store \<Rightarrow> scenario_store option \<Rightarrow> http_request \<Rightarrow> body_context
    \<Rightarrow> mapping_stub option \<times> scenario_store option" where
  "find_match L mappings scenarios r body =
     (case find_match_lazy L mappings scenarios r (given_body body) () of (m, sc, u) \<Rightarrow> (m, sc))"

section \<open>Writing the response\<close>

definition slice :: "string \<Rightarrow> int \<Rightarrow> int \<Rightarrow> string" where
  "slice s from to = take (nat (to - from)) (drop (nat from) s)"

text \<open>The chunk bounds are computed with 64-bit integers.\<close>

definition chunk_bound :: "string \<Rightarrow> int \<Rightarrow> int \<Rightarrow> int" where
  "chunk_bound body chunks index = go_div (int64 (index * int (length body))) chunks"

definition split_body :: "string \<Rightarrow> int \<Rightarrow> string list" where
  "split_body body chunks =
     (if chunks \<le> 1 \<or> int (length body) \<le> chunks then map (\<lambda>c. [c]) body
      else map (\<lambda>index. slice body (chunk_bound body chunks (int index))
                 (chunk_bound body chunks (int index + 1))) [0..<nat chunks])"

text \<open>\<open>flusher\<close>: does the response writer implement \<^verbatim>\<open>http.Flusher\<close>?\<close>

fun write_parts :: "(int \<Rightarrow> bool) \<Rightarrow> bool \<Rightarrow> int \<Rightarrow> string list \<Rightarrow> io_event list" where
  "write_parts sleeper flusher interval [] = []"
| "write_parts sleeper flusher interval (chunk # parts) =
     (if chunk = [] then write_parts sleeper flusher interval parts
      else
        [IoWrite chunk] @ (if flusher then [IoFlush] else [])
        @ (if parts \<noteq> [] then
             IoSleep interval # (if sleeper interval then write_parts sleeper flusher interval parts else [])
           else []))"

definition write_response_body ::
  "(int \<Rightarrow> bool) \<Rightarrow> bool \<Rightarrow> string \<Rightarrow> response_definition \<Rightarrow> io_event list" where
  "write_response_body sleeper flusher body d =
     (if length body = 0 then []
      else (case chunked_interval d of (chunks, interval) \<Rightarrow>
        if chunks \<le> 1 \<or> length body = 1 then [IoWrite body]
        else write_parts sleeper flusher interval (split_body body chunks)))"

definition write_stub_response ::
  "(int \<Rightarrow> bool) \<Rightarrow> bool \<Rightarrow> rendered \<Rightarrow> response_definition \<Rightarrow> outcome" where
  "write_stub_response sleeper flusher rd d =
     (let h = add_all_headers (rr_headers rd) [];
          h' = (if rr_json rd \<and> header_get h ''Content-Type'' = []
                then header_set ''Content-Type'' ''application/json'' h else h)
      in Reply \<lparr>hp_status = rr_status rd, hp_headers = h',
                hp_events = write_response_body sleeper flusher (rr_body rd) d, hp_trailers = []\<rparr>)"

definition write_proxy_response ::
  "(int \<Rightarrow> bool) \<Rightarrow> bool \<Rightarrow> proxy_response \<Rightarrow> response_definition \<Rightarrow> outcome" where
  "write_proxy_response sleeper flusher px d =
     (let h = add_all_headers (px_headers px) [];
          h' = (if rd_chunked_dribble_delay d \<noteq> None then header_del ''Content-Length'' h else h)
      in Reply \<lparr>hp_status = px_status px, hp_headers = h',
                hp_events = write_response_body sleeper flusher (px_body px) d, hp_trailers = []\<rparr>)"

definition no_mappings_message :: string where
  "no_mappings_message =
     ''No response could be served as there are no stub mappings in this WireMock instance.''"

definition write_no_match :: "mapping_store \<Rightarrow> outcome" where
  "write_no_match mappings =
     simple_reply 404 [(''Content-Type'', [''text/plain; charset=utf-8''])]
       (if store_count mappings = 0 then no_mappings_message
        else ''No response could be served as the request was not matched by any stub mapping.'')"

definition write_proxy_error :: "string \<Rightarrow> outcome" where
  "write_proxy_error e = http_error e 502"

definition write_response_render_error :: "string \<Rightarrow> outcome" where
  "write_response_render_error e = http_error e 500"

text \<open>\<^verbatim>\<open>sleep\<close> with \<^verbatim>\<open>Sleep\<close> as the sleeper: only a positive duration waits, and only waiting can fail.\<close>

definition sleep_ok :: "'d environment \<Rightarrow> int \<Rightarrow> bool" where
  "sleep_ok E duration \<longleftrightarrow> duration \<le> 0 \<or> env_sleeper E duration"

section \<open>Recording\<close>

definition new_serve_event ::
  "http_request \<Rightarrow> string \<Rightarrow> int \<Rightarrow> header_map \<Rightarrow> string \<Rightarrow> string \<Rightarrow> serve_event" where
  "new_serve_event r request_body status headers response_body source =
     \<lparr>se_method = hr_method r, se_url = hr_request_uri r, se_path = hu_path (hr_url r),
      se_raw_query = hu_raw_query (hr_url r), se_request_headers = hr_headers r,
      se_request_body = request_body, se_response_status = status, se_response_headers = headers,
      se_response_body = response_body, se_source = source, se_protocol = ''http'', se_recorded_at = 0\<rparr>"

definition record_serve_event ::
  "nat \<Rightarrow> http_request \<Rightarrow> string \<Rightarrow> int \<Rightarrow> header_map \<Rightarrow> string \<Rightarrow> string \<Rightarrow> server_state \<Rightarrow> server_state" where
  "record_serve_event now r request_body status headers response_body source st =
     st\<lparr>sv_recorder := map_option
          (add_serve_event now (new_serve_event r request_body status headers response_body source))
          (sv_recorder st)\<rparr>"

text \<open>\<^verbatim>\<open>mapping.ResponseDefinition{}\<close> with a proxy URL\<close>

definition proxy_definition :: "string \<Rightarrow> response_definition" where
  "proxy_definition base =
     \<lparr>rd_status = 0, rd_headers = [], rd_body = None, rd_json = False, rd_body_file = [],
      rd_transformers = [], rd_template = None, rd_proxy_base_url = base,
      rd_proxy_url_prefix_to_remove = [], rd_fixed_delay = 0, rd_delay_distribution = None,
      rd_chunked_dribble_delay = None\<rparr>"

text \<open>\<open>None\<close> is the answer false: no recording session is active.\<close>

definition try_serve_recording_proxy ::
  "'d environment \<Rightarrow> bool \<Rightarrow> http_request \<Rightarrow> request_body_cache \<Rightarrow> server_state
    \<Rightarrow> outcome option \<times> server_state" where
  "try_serve_recording_proxy E flusher r cache st =
     (case sv_recorder st of
        None \<Rightarrow> (None, st)
      | Some recorder \<Rightarrow>
          (case active_spec recorder of
             None \<Rightarrow> (None, st)
           | Some spec \<Rightarrow>
               (case fst (cache_bytes cache) of (body, failed) \<Rightarrow>
                  if failed then (Some (write_proxy_error ''read body''), st)
                  else
                    (case forward (env_net E) (env_client E) (hr_method r) (hr_url r) (hr_headers r) body
                            (proxy_definition (spec_target_base_url spec)) of
                       Err e \<Rightarrow> (Some (write_proxy_error e), st)
                     | Panic \<Rightarrow> (Some Crash, st)
                     | Ok px \<Rightarrow>
                         (Some (write_proxy_response (sleep_ok E) flusher px (proxy_definition [])),
                          st\<lparr>sv_recorder := Some (add_recording_event (env_now E)
                               (new_serve_event r body (px_status px) (px_headers px) (px_body px) ''recording'')
                               recorder)\<rparr>)))))"

section \<open>The handler\<close>

definition is_admin_path :: "string \<Rightarrow> bool" where
  "is_admin_path path \<longleftrightarrow> path = ''/__admin'' \<or> has_prefix path ''/__admin/''"

definition is_grpc_request :: "http_request \<Rightarrow> bool" where
  "is_grpc_request r \<longleftrightarrow>
     hr_method r = ''POST''
     \<and> has_prefix (to_lower (header_get (hr_headers r) ''Content-Type'')) ''application/grpc''"

text \<open>The proxy branch of \<^verbatim>\<open>serveHTTP\<close>.\<close>

definition serve_proxy ::
  "'d environment \<Rightarrow> bool \<Rightarrow> http_request \<Rightarrow> response_definition \<Rightarrow> request_body_cache \<Rightarrow> server_state
    \<Rightarrow> outcome \<times> server_state" where
  "serve_proxy E flusher r d cache st =
     (case fst (cache_bytes cache) of (body, failed) \<Rightarrow>
        if failed then (write_no_match (sv_mappings st), st)
        else
          (case forward (env_net E) (env_client E) (hr_method r) (hr_url r) (hr_headers r) body d of
             Err e \<Rightarrow> (write_proxy_error e, st)
           | Panic \<Rightarrow> (Crash, st)
           | Ok px \<Rightarrow>
               (write_proxy_response (sleep_ok E) flusher px d,
                record_serve_event (env_now E) r body (px_status px) (px_headers px) (px_body px)
                  ''proxy'' st)))"

text \<open>The branch that renders a stub response.\<close>

definition serve_stub ::
  "'d environment \<Rightarrow> bool \<Rightarrow> http_request \<Rightarrow> response_definition \<Rightarrow> request_body_cache \<Rightarrow> server_state
    \<Rightarrow> outcome \<times> server_state" where
  "serve_stub E flusher r d cache st =
     (let needs_body = rd_body d \<noteq> None \<and> uses_response_template d;
          (context, cache1) = (if needs_body then cache_context cache else (None, cache))
      in if needs_body \<and> context = None then (write_no_match (sv_mappings st), st)
         else
           (case render (env_lib E) (sv_files st) d context of
              Err e \<Rightarrow> (write_response_render_error e, st)
            | Panic \<Rightarrow> (Crash, st)
            | Ok rd \<Rightarrow>
                (write_stub_response (sleep_ok E) flusher rd d,
                 record_serve_event (env_now E) r (fst (cache_bytes_for_recording cache1)) (rr_status rd)
                   (rr_headers rd) (rr_body rd) ''stub'' st)))"

text \<open>\<open>grpc\<close> is the gRPC handler, defined in its own theory.\<close>

definition serve_http ::
  "('d environment \<Rightarrow> http_request \<Rightarrow> server_state \<Rightarrow> outcome \<times> server_state)
    \<Rightarrow> 'd environment \<Rightarrow> bool \<Rightarrow> http_request \<Rightarrow> server_state \<Rightarrow> outcome \<times> server_state" where
  "serve_http grpc E flusher r st =
     (if is_admin_path (hu_path (hr_url r)) then (http_error ''404 page not found'' 404, st)
      else if is_grpc_request r then grpc E r st
      else
        (case find_match_lazy (env_lib E) (sv_mappings st) (sv_scenarios st) r cache_context
                (new_body_cache (hr_body r) (hr_content_length r)) of
           (None, scenarios, cache) \<Rightarrow>
             (case try_serve_recording_proxy E flusher r cache (st\<lparr>sv_scenarios := scenarios\<rparr>) of
                (Some out, st') \<Rightarrow> (out, st')
              | (None, st') \<Rightarrow> (write_no_match (sv_mappings st'), st'))
         | (Some stub, scenarios, cache) \<Rightarrow>
             (let st1 = st\<lparr>sv_scenarios := scenarios\<rparr>; d = m_response stub in
              case initial_duration (env_random E) d of
                Panic \<Rightarrow> (Crash, st1)
              | Err e \<Rightarrow> (Crash, st1)
              | Ok duration \<Rightarrow>
                  if \<not> sleep_ok E duration then (NoReply, st1)
                  else if rd_proxy_base_url d \<noteq> [] then serve_proxy E flusher r d cache st1
                  else serve_stub E flusher r d cache st1)))"

end
