(* ===== verification/Runtime_Facts.thy ===== *)
theory Runtime_Facts
  imports Runtime_Api
begin

text \<open>
  What the mock endpoint guarantees: the stub it chooses is the best of all stored mappings that
  match the request and are in their state, the chunks it writes make up the body, and the pauses
  stay within the configured duration.
\<close>

section \<open>The chosen stub\<close>

text \<open>The reference: filter the whole table, take the best.\<close>

definition eligible_in :: "scenario_store option \<Rightarrow> mapping_stub \<Rightarrow> bool" where
  "eligible_in scenarios m = (case scenarios of None \<Rightarrow> True | Some ss \<Rightarrow> matches_state_locked ss m)"

definition stub_matches :: "golib \<Rightarrow> http_request \<Rightarrow> body_context \<Rightarrow> mapping_stub \<Rightarrow> bool" where
  "stub_matches L r body m \<longleftrightarrow>
     request_matches L (m_request m) (hr_method r) (hr_request_uri r) (hu_path (hr_url r)) (hr_query r)
       (hr_headers r) body"

definition reference_match ::
  "golib \<Rightarrow> mapping_store \<Rightarrow> scenario_store option \<Rightarrow> http_request \<Rightarrow> body_context \<Rightarrow> mapping_stub option" where
  "reference_match L mappings scenarios r body =
     select_best compare_stub_order
       (filter (\<lambda>m. stub_matches L r body m \<and> eligible_in scenarios m) (store_list mappings))"

definition after_match :: "scenario_store option \<Rightarrow> mapping_stub option \<Rightarrow> scenario_store option" where
  "after_match scenarios selected =
     map_option (\<lambda>ss. case selected of None \<Rightarrow> ss | Some m \<Rightarrow> transition_locked m ss) scenarios"

lemma after_match_None [simp]: "after_match scenarios None = scenarios"
  by (simp add: after_match_def option.map_ident)

text \<open>Mappings the parser has made, with priorities whose difference does not wrap.\<close>

definition good_store :: "golib \<Rightarrow> mapping_store \<Rightarrow> bool" where
  "good_store L s \<longleftrightarrow>
     store_inv s \<and> (\<forall>m \<in> set (store_list s). wf_request L (m_request m) \<and> small_priority m)"

lemma stub_matches_candidate:
  "wf_request L (m_request m) \<Longrightarrow> stub_matches L r body m \<Longrightarrow>
   candidate (hr_method r) (hr_request_uri r) (hu_path (hr_url r)) m"
  by (rule candidate_complete) (auto simp: stub_matches_def request_matches_iff head_condition_def)

lemma select_candidates:
  assumes good: "good_store L s" and "\<And>m. P m \<Longrightarrow> stub_matches L r body m"
  shows "select_best compare_stub_order
      (filter P (candidates (ms_snapshot s) (hr_method r) (hr_request_uri r) (hu_path (hr_url r))))
    = select_best compare_stub_order (filter P (store_list s))"
proof (rule so.select_best_mset)
  have inv: "store_inv s" using good by (simp add: good_store_def)
  show eq: "mset (filter P (candidates (ms_snapshot s) (hr_method r) (hr_request_uri r) (hu_path (hr_url r))))
      = mset (filter P (store_list s))"
    by (rule candidates_of_store [OF inv])
      (rule stub_matches_candidate [of L _ r body], use assms in \<open>auto simp: good_store_def\<close>)
  then have sets: "set (filter P (candidates (ms_snapshot s) (hr_method r) (hr_request_uri r) (hu_path (hr_url r))))
      = set (filter P (store_list s))"
    by (metis set_mset_mset)
  show "list_all small_priority
      (filter P (candidates (ms_snapshot s) (hr_method r) (hr_request_uri r) (hu_path (hr_url r))))"
    using good by (simp only: list_all_iff sets) (auto simp: good_store_def)
  show "inj_on stub_rank_of
      (set (filter P (candidates (ms_snapshot s) (hr_method r) (hr_request_uri r) (hu_path (hr_url r)))))"
    unfolding sets by (rule inj_on_subset [OF stored_ranks_inj [OF inv]]) (auto simp: store_views [OF inv])
qed

text \<open>The reference choice is the best of what matches and is eligible.\<close>

lemma reference_match_best:
  assumes good: "good_store L mappings" and some: "reference_match L mappings scenarios r body = Some m"
  shows "m \<in> set (store_list mappings) \<and> stub_matches L r body m \<and> eligible_in scenarios m
    \<and> (\<forall>x \<in> set (store_list mappings). stub_matches L r body x \<and> eligible_in scenarios x
         \<longrightarrow> stub_rank_of m \<le> stub_rank_of x)"
proof -
  let ?xs = "filter (\<lambda>m. stub_matches L r body m \<and> eligible_in scenarios m) (store_list mappings)"
  have ok: "list_all small_priority ?xs" using good by (auto simp: good_store_def list_all_iff)
  have sel: "select_best compare_stub_order ?xs = Some m" using some by (simp add: reference_match_def)
  from so.select_best_Some(1) [OF ok sel] so.select_best_Some(2) [OF ok sel] show ?thesis by auto
qed

lemma reference_match_None:
  "reference_match L mappings scenarios r body = None \<longleftrightarrow>
     (\<forall>m \<in> set (store_list mappings). \<not> (stub_matches L r body m \<and> eligible_in scenarios m))"
  unfolding reference_match_def so.select_best_None_iff by (auto simp: filter_empty_conv)

text \<open>Without scenarios every mapping is eligible, and serving it changes no state.\<close>

lemma no_scenarios:
  assumes "store_inv s" and "\<not> store_has_scenarios s" and "m \<in> set (store_list s)"
  shows "eligible_in scenarios m" and "transition_locked m ss = ss"
  using assms
  by (auto simp: store_views eligible_in_def matches_state_locked_def transition_locked_def Let_def
      split: option.split)

lemma range_fold:
  assumes "\<And>m s. fst (yield m s)"
  shows "store_range_candidates st meth uri path yield s
    = fold (\<lambda>m s. snd (yield m s)) (candidates (ms_snapshot st) meth uri path) s"
  by (simp add: store_range_candidates_def range_candidates_list range_mapping_list_fold assms)

context body_provider
begin

lemma fold_select:
  "\<exists>s'. fold (\<lambda>stub (selected, s). case matches_lazy L (m_request stub) meth uri path query headers provide s of
        (ok, s') \<Rightarrow> (if ok then better compare_stub_order stub selected else selected, s')) xs (sel, s)
     = (fold (better compare_stub_order)
          (filter (\<lambda>m. request_matches L (m_request m) meth uri path query headers (body_value s)) xs) sel, s')
     \<and> body_value s' = body_value s"
proof (induction xs arbitrary: sel s)
  case (Cons m xs)
  obtain ok s' where ml: "matches_lazy L (m_request m) meth uri path query headers provide s = (ok, s')" by fastforce
  have ok: "ok = request_matches L (m_request m) meth uri path query headers (body_value s)"
    and v: "body_value s' = body_value s"
    using matches_lazy_eager [of L "m_request m" meth uri path query headers s]
      matches_lazy_value [of L "m_request m" meth uri path query headers s] by (simp_all add: ml)
  show ?case
  proof (cases ok)
    case True
    with Cons [of "better compare_stub_order m sel" s'] ok show ?thesis by (simp add: ml v)
  next
    case False
    with Cons [of sel s'] ok show ?thesis by (simp add: ml v)
  qed
qed simp

lemma fold_collect:
  "\<exists>s'. fold (\<lambda>stub (cands, s). case matches_lazy L (m_request stub) meth uri path query headers provide s of
        (ok, s') \<Rightarrow> (if ok then cands @ [stub] else cands, s')) xs (acc, s)
     = (acc @ filter (\<lambda>m. request_matches L (m_request m) meth uri path query headers (body_value s)) xs, s')
     \<and> body_value s' = body_value s"
proof (induction xs arbitrary: acc s)
  case (Cons m xs)
  obtain ok s' where ml: "matches_lazy L (m_request m) meth uri path query headers provide s = (ok, s')" by fastforce
  have ok: "ok = request_matches L (m_request m) meth uri path query headers (body_value s)"
    and v: "body_value s' = body_value s"
    using matches_lazy_eager [of L "m_request m" meth uri path query headers s]
      matches_lazy_value [of L "m_request m" meth uri path query headers s] by (simp_all add: ml)
  show ?case
  proof (cases ok)
    case True
    with Cons [of "acc @ [m]" s'] ok show ?thesis by (simp add: ml v)
  next
    case False
    with Cons [of acc s'] ok show ?thesis by (simp add: ml v)
  qed
qed simp

lemma find_match_lazy_stateless:
  assumes good: "good_store L mappings" and none: "scenarios = None \<or> \<not> store_has_scenarios mappings"
  shows "\<exists>s'. find_match_lazy L mappings scenarios r provide s
      = (reference_match L mappings scenarios r (body_value s),
         after_match scenarios (reference_match L mappings scenarios r (body_value s)), s')
    \<and> body_value s' = body_value s"
proof -
  let ?cands = "candidates (ms_snapshot mappings) (hr_method r) (hr_request_uri r) (hu_path (hr_url r))"
  let ?P = "stub_matches L r (body_value s)"
  have inv: "store_inv mappings" using good by (simp add: good_store_def)
  obtain s' where "fold (\<lambda>stub (selected, s). case matches_lazy L (m_request stub) (hr_method r)
          (hr_request_uri r) (hu_path (hr_url r)) (hr_query r) (hr_headers r) provide s of
        (ok, s') \<Rightarrow> (if ok then better compare_stub_order stub selected else selected, s')) ?cands (None, s)
      = (fold (better compare_stub_order) (filter ?P ?cands) None, s')" and v: "body_value s' = body_value s"
    using fold_select [of L "hr_method r" "hr_request_uri r" "hu_path (hr_url r)" "hr_query r"
        "hr_headers r" ?cands None s] unfolding stub_matches_def by blast
  then have "find_match_lazy L mappings scenarios r provide s
      = (select_best compare_stub_order (filter ?P ?cands), scenarios, s')"
    using none
    by (simp add: find_match_lazy_def Let_def range_fold prod.case_distrib [of snd] select_best_def
        stub_matches_def split: prod.split)
  moreover have all: "filter (\<lambda>m. ?P m \<and> eligible_in scenarios m) (store_list mappings)
      = filter ?P (store_list mappings)"
  proof (cases "scenarios = None")
    case False
    with none no_scenarios(1) [OF inv, of _ scenarios] show ?thesis by (intro filter_cong) auto
  qed (simp add: eligible_in_def)
  moreover have "select_best compare_stub_order (filter ?P ?cands) = reference_match L mappings scenarios r (body_value s)"
    unfolding reference_match_def all by (rule select_candidates [OF good])
  moreover have "after_match scenarios (reference_match L mappings scenarios r (body_value s)) = scenarios"
  proof (cases "reference_match L mappings scenarios r (body_value s)")
    case (Some m)
    then have "m \<in> set (store_list mappings)"
      unfolding reference_match_def by (auto dest: select_best_mem)
    with Some none no_scenarios(2) [OF inv] show ?thesis
      by (cases scenarios) (auto simp: after_match_def)
  qed (simp add: after_match_def option.map_ident)
  ultimately show ?thesis using v by auto
qed

lemma find_match_lazy_stateful:
  assumes good: "good_store L mappings" and ss: "scenarios = Some ss" and has: "store_has_scenarios mappings"
  shows "\<exists>s'. find_match_lazy L mappings scenarios r provide s
      = (reference_match L mappings scenarios r (body_value s),
         after_match scenarios (reference_match L mappings scenarios r (body_value s)), s')
    \<and> body_value s' = body_value s"
proof -
  let ?cands = "candidates (ms_snapshot mappings) (hr_method r) (hr_request_uri r) (hu_path (hr_url r))"
  let ?P = "stub_matches L r (body_value s)"
  have False: "\<not> (scenarios = None \<or> \<not> store_has_scenarios mappings)" using ss has by simp
  obtain s' where "fold (\<lambda>stub (cands, s). case matches_lazy L (m_request stub) (hr_method r)
          (hr_request_uri r) (hu_path (hr_url r)) (hr_query r) (hr_headers r) provide s of
        (ok, s') \<Rightarrow> (if ok then cands @ [stub] else cands, s')) ?cands ([], s)
      = (filter ?P ?cands, s')" and v: "body_value s' = body_value s"
    using fold_collect [of L "hr_method r" "hr_request_uri r" "hu_path (hr_url r)" "hr_query r"
        "hr_headers r" ?cands "[]" s] unfolding stub_matches_def append_Nil by blast
  then have "find_match_lazy L mappings scenarios r provide s
      = (case select_and_transition compare_stub_order (filter ?P ?cands) scenarios of
           (selected, scenarios') \<Rightarrow> (selected, scenarios', s'))"
    unfolding find_match_lazy_def Let_def if_not_P [OF False]
    by (subst range_fold) (simp_all add: prod.case_distrib [of snd] stub_matches_def split: prod.split)
  moreover have "select_best compare_stub_order (filter (matches_state_locked ss) (filter ?P ?cands))
      = reference_match L mappings scenarios r (body_value s)"
    using select_candidates [OF good, of "\<lambda>m. ?P m \<and> eligible_in scenarios m" r "body_value s"]
    unfolding reference_match_def by (simp add: ss eligible_in_def conj_commute)
  ultimately show ?thesis
    using v by (simp add: ss select_and_transition_def select_best_matching_state_eq after_match_def Let_def)
qed

lemma find_match_lazy_reference:
  assumes good: "good_store L mappings"
  shows "\<exists>s'. find_match_lazy L mappings scenarios r provide s
      = (reference_match L mappings scenarios r (body_value s),
         after_match scenarios (reference_match L mappings scenarios r (body_value s)), s')
    \<and> body_value s' = body_value s"
proof (cases "scenarios = None \<or> \<not> store_has_scenarios mappings")
  case False
  then obtain ss where "scenarios = Some ss" "store_has_scenarios mappings" by auto
  then show ?thesis by (rule find_match_lazy_stateful [OF good])
qed (rule find_match_lazy_stateless [OF good])

end

end
