(* ===== verification/Grpc_Runtime.thy ===== *)
theory Grpc_Runtime
  imports Runtime_Facts
begin

text \<open>
  The unary gRPC endpoint of \<^verbatim>\<open>internal/server/grpc_runtime.go\<close>: framing, matching on the JSON form of
  the message, gRPC status from stub headers or from the HTTP status, and trailers.
\<close>

section \<open>Frames\<close>

definition be_uint32 :: "string \<Rightarrow> 32 word" where
  "be_uint32 bs = of_nat (foldl (\<lambda>n c. 256 * n + byte c) 0 (take 4 bs))"

definition put_uint32 :: "32 word \<Rightarrow> string" where
  "put_uint32 w =
     (let n = unat w in
      [chr (n div 16777216), chr (n div 65536 mod 256), chr (n div 256 mod 256), chr (n mod 256)])"

text \<open>The size is converted to a 64-bit integer, so it is not negative.\<close>

definition decode_unary_grpc_frame :: "string \<Rightarrow> string res" where
  "decode_unary_grpc_frame body =
     (if length body < 5 then Err ''gRPC request frame is too short''
      else if body ! 0 \<noteq> chr 0 then Err ''compressed gRPC messages are not supported''
      else
        (let size = unat (be_uint32 (drop 1 body)); end_pos = 5 + size in
         if length body < end_pos then Err ''gRPC request frame length exceeds body size''
         else if end_pos \<noteq> length body then Err ''only unary gRPC requests are supported''
         else Ok (drop 5 body)))"

definition encode_grpc_frame :: "string \<Rightarrow> string" where
  "encode_grpc_frame payload = chr 0 # put_uint32 (of_nat (length payload)) @ payload"

section \<open>Headers\<close>

definition grpc_header_value :: "header_map \<Rightarrow> string \<Rightarrow> string" where
  "grpc_header_value headers name = (if headers = [] then [] else header_value headers name)"

text \<open>\<^verbatim>\<open>base64.RawStdEncoding\<close>: no padding.\<close>

fun decode_quanta_raw :: "string \<Rightarrow> string option" where
  "decode_quanta_raw [] = Some []"
| "decode_quanta_raw [a] = None"
| "decode_quanta_raw [a, b] =
     (case (sextet_val a, sextet_val b) of
        (Some w, Some x) \<Rightarrow> Some [chr (w * 4 + x div 16)]
      | _ \<Rightarrow> None)"
| "decode_quanta_raw [a, b, c] =
     (case (sextet_val a, sextet_val b, sextet_val c) of
        (Some w, Some x, Some y) \<Rightarrow> Some [chr (w * 4 + x div 16), chr (x mod 16 * 16 + y div 4)]
      | _ \<Rightarrow> None)"
| "decode_quanta_raw (a # b # c # d # s) =
     (case (sextet_val a, sextet_val b, sextet_val c, sextet_val d) of
        (Some w, Some x, Some y, Some z) \<Rightarrow>
          map_option (\<lambda>t. chr (w * 4 + x div 16) # chr (x mod 16 * 16 + y div 4)
              # chr (y mod 4 * 64 + z) # t) (decode_quanta_raw s)
      | _ \<Rightarrow> None)"

definition decode_grpc_binary_header :: "string \<Rightarrow> string option" where
  "decode_grpc_binary_header value =
     (case base64_decode value of
        Some decoded \<Rightarrow> Some decoded
      | None \<Rightarrow> decode_quanta_raw (filter not_line_break value))"

text \<open>Java's \<^verbatim>\<open>Arrays.toString\<close> of signed bytes.\<close>

definition signed_byte :: "char \<Rightarrow> int" where
  "signed_byte c = (if 127 < byte c then int (byte c) - 256 else int (byte c))"

definition format_byte_array :: "string \<Rightarrow> string" where
  "format_byte_array data =
     (if data = [] then ''[]'' else ''['' @ join_with '', '' (map (\<lambda>c. itoa (signed_byte c)) data) @ '']'')"

definition grpc_matcher_value :: "string \<Rightarrow> string \<Rightarrow> string" where
  "grpc_matcher_value name value =
     (if has_suffix (to_lower name) ''-bin'' then
        (case decode_grpc_binary_header value of Some decoded \<Rightarrow> format_byte_array decoded | None \<Rightarrow> value)
      else value)"

definition grpc_matcher_headers :: "header_map \<Rightarrow> header_map" where
  "grpc_matcher_headers headers = map (\<lambda>(name, values). (name, map (grpc_matcher_value name) values)) headers"

definition is_internal_grpc_mapping_header :: "string \<Rightarrow> bool" where
  "is_internal_grpc_mapping_header name \<longleftrightarrow>
     to_lower name \<in> set [''grpc-status-name'', ''grpc-status-reason'', ''content-length'']"

text \<open>\<^verbatim>\<open>url.QueryEscape\<close> with spaces as \<^verbatim>\<open>%20\<close>\<close>

definition unreserved :: "char \<Rightarrow> bool" where
  "unreserved c \<longleftrightarrow> is_digit c \<or> is_lower c \<or> is_upper c \<or> c \<in> set ''-_.~''"

definition upper_hex_digit :: "nat \<Rightarrow> char" where
  "upper_hex_digit n = (if n < 10 then chr (48 + n) else chr (55 + n))"

definition query_escape_char :: "char \<Rightarrow> string" where
  "query_escape_char c =
     (if unreserved c then [c] else if c = CHR '' '' then ''+''
      else [CHR ''%'', upper_hex_digit (byte c div 16), upper_hex_digit (byte c mod 16)])"

definition query_escape :: "string \<Rightarrow> string" where
  "query_escape s = concat (map query_escape_char s)"

definition encode_grpc_message :: "string \<Rightarrow> string" where
  "encode_grpc_message message = replace_char (query_escape message) (CHR ''+'') ''%20''"

section \<open>Status\<close>

text \<open>The names the stub may use, with \<^verbatim>\<open>-\<close> for \<^verbatim>\<open>_\<close> and in any case.\<close>

definition grpc_status_names :: "(string \<times> int) list" where
  "grpc_status_names =
     [(''OK'', 0), (''CANCELED'', 1), (''CANCELLED'', 1), (''UNKNOWN'', 2), (''INVALID_ARGUMENT'', 3),
      (''NOT_FOUND'', 5), (''PERMISSION_DENIED'', 7), (''UNIMPLEMENTED'', 12), (''INTERNAL'', 13),
      (''UNAVAILABLE'', 14), (''UNAUTHENTICATED'', 16)]"

definition grpc_status_code_by_name :: "string \<Rightarrow> int option" where
  "grpc_status_code_by_name name =
     map_of grpc_status_names (to_upper (replace_char (trim_space name) (CHR ''-'') ''_''))"

text \<open>\<open>None\<close> is the answer false.\<close>

definition grpc_status_from_headers :: "header_map \<Rightarrow> (int \<times> string) option" where
  "grpc_status_from_headers headers =
     (let status_name = trim_space (grpc_header_value headers ''grpc-status-name'') in
      if status_name = [] then None
      else
        (case grpc_status_code_by_name status_name of
           None \<Rightarrow> Some (13, ''unsupported grpc-status-name: '' @ status_name)
         | Some code \<Rightarrow> Some (code, grpc_header_value headers ''grpc-status-reason'')))"

text \<open>\<^verbatim>\<open>http.StatusText\<close> for the codes from 400 on.\<close>

definition error_texts :: "(int \<times> string) list" where
  "error_texts =
     [(400, ''Bad Request''), (401, ''Unauthorized''), (402, ''Payment Required''), (403, ''Forbidden''),
      (404, ''Not Found''), (405, ''Method Not Allowed''), (406, ''Not Acceptable''),
      (407, ''Proxy Authentication Required''), (408, ''Request Timeout''), (409, ''Conflict''),
      (410, ''Gone''), (411, ''Length Required''), (412, ''Precondition Failed''),
      (413, ''Request Entity Too Large''), (414, ''Request URI Too Long''),
      (415, ''Unsupported Media Type''), (416, ''Requested Range Not Satisfiable''),
      (417, ''Expectation Failed''), (418, ''I'' @ [CHR 0x27] @ ''m a teapot''),
      (421, ''Misdirected Request''), (422, ''Unprocessable Entity''), (423, ''Locked''),
      (424, ''Failed Dependency''), (425, ''Too Early''), (426, ''Upgrade Required''),
      (428, ''Precondition Required''), (429, ''Too Many Requests''),
      (431, ''Request Header Fields Too Large''), (451, ''Unavailable For Legal Reasons''),
      (500, ''Internal Server Error''), (501, ''Not Implemented''), (502, ''Bad Gateway''),
      (503, ''Service Unavailable''), (504, ''Gateway Timeout''), (505, ''HTTP Version Not Supported''),
      (506, ''Variant Also Negotiates''), (507, ''Insufficient Storage''), (508, ''Loop Detected''),
      (510, ''Not Extended''), (511, ''Network Authentication Required'')]"

definition status_text :: "int \<Rightarrow> string" where
  "status_text status = (case map_of error_texts status of None \<Rightarrow> [] | Some t \<Rightarrow> t)"

definition grpc_status_from_http :: "int \<Rightarrow> (int \<times> string) option" where
  "grpc_status_from_http status =
     (if status = 200 then None
      else if status = 400 then Some (13, status_text status)
      else if status = 401 then Some (16, status_text status)
      else if status = 403 then Some (7, status_text status)
      else if status = 404 then Some (12, status_text status)
      else if status \<in> set [429, 502, 503, 504] then Some (14, status_text status)
      else if 400 \<le> status then Some (2, status_text status)
      else None)"

section \<open>Writing\<close>

definition prepare_grpc_response :: "header_map \<Rightarrow> header_map" where
  "prepare_grpc_response headers =
     header_set ''Trailer'' ''Grpc-Status, Grpc-Message''
       (header_set ''Content-Type'' ''application/grpc''
         (fold (\<lambda>(name, values) h.
             if is_internal_grpc_mapping_header name then h
             else fold (\<lambda>value. header_add name value) values h) headers []))"

definition grpc_trailers :: "int \<Rightarrow> string \<Rightarrow> header_map" where
  "grpc_trailers code message =
     (''Grpc-Status'', [itoa code])
     # (if message \<noteq> [] then [(''Grpc-Message'', [encode_grpc_message message])] else [])"

definition write_grpc_message :: "header_map \<Rightarrow> string \<Rightarrow> outcome" where
  "write_grpc_message headers payload =
     Reply \<lparr>hp_status = 200, hp_headers = prepare_grpc_response headers,
       hp_events = [IoWrite (encode_grpc_frame payload)], hp_trailers = grpc_trailers 0 []\<rparr>"

definition write_grpc_error_with_headers :: "header_map \<Rightarrow> int \<Rightarrow> string \<Rightarrow> outcome" where
  "write_grpc_error_with_headers headers code message =
     Reply \<lparr>hp_status = 200, hp_headers = prepare_grpc_response headers,
       hp_events = [], hp_trailers = grpc_trailers code message\<rparr>"

definition write_grpc_error :: "int \<Rightarrow> string \<Rightarrow> outcome" where
  "write_grpc_error code message = write_grpc_error_with_headers [] code message"

section \<open>The handler\<close>

definition split_grpc_path :: "string \<Rightarrow> (string \<times> string) option" where
  "split_grpc_path path0 =
     (case str_cut (trim_prefix path0 ''/'') ''/'' of (service_name, method_name, ok) \<Rightarrow>
        if \<not> ok \<or> service_name = [] \<or> method_name = [] \<or> str_contains method_name ''/'' then None
        else Some (service_name, method_name))"

definition find_grpc_method :: "descriptor_registry \<Rightarrow> string \<Rightarrow> method_desc option" where
  "find_grpc_method registry path =
     (case split_grpc_path path of
        None \<Rightarrow> None
      | Some (service_name, method_name) \<Rightarrow>
          (case find_service registry service_name of
             None \<Rightarrow> None
           | Some service \<Rightarrow> find (\<lambda>m. md_name m = method_name) (sd_methods service)))"

definition max_grpc_request_body_size :: nat where
  "max_grpc_request_body_size = 67108864"

text \<open>\<^verbatim>\<open>io.ReadAll\<close> behind \<^verbatim>\<open>http.MaxBytesReader\<close>: the whole body, or an error and whether it is the limit's.\<close>

datatype limited_read = ReadOk string | ReadTooLarge | ReadFailed

definition read_limited :: "nat \<Rightarrow> body_source \<Rightarrow> limited_read" where
  "read_limited limit source =
     (case read_all source of (s, failed, _) \<Rightarrow>
        if limit < length s then ReadTooLarge else if failed then ReadFailed else ReadOk s)"

definition decode_proto_json :: "'d protolib \<Rightarrow> descriptor_registry \<Rightarrow> string \<Rightarrow> string \<Rightarrow> string res" where
  "decode_proto_json P registry type_name payload =
     res_of_option ''decode gRPC request protobuf: '' (pl_to_json P registry type_name payload)"

definition encode_proto_json :: "'d protolib \<Rightarrow> descriptor_registry \<Rightarrow> string \<Rightarrow> string \<Rightarrow> string res" where
  "encode_proto_json P registry type_name body =
     (if 0 < length (trim_space body)
      then res_of_option ''encode gRPC response protobuf: '' (pl_from_json P registry type_name body)
      else res_of_option ''marshal gRPC response protobuf: '' (pl_empty P registry type_name))"

definition record_grpc_serve_event ::
  "nat \<Rightarrow> http_request \<Rightarrow> string \<Rightarrow> int \<Rightarrow> header_map \<Rightarrow> string \<Rightarrow> server_state \<Rightarrow> server_state" where
  "record_grpc_serve_event now r request_json status headers response_json st =
     st\<lparr>sv_recorder := map_option (add_serve_event now
          \<lparr>se_method = ''POST'', se_url = hu_path (hr_url r), se_path = hu_path (hr_url r),
           se_raw_query = [], se_request_headers = hr_headers r, se_request_body = request_json,
           se_response_status = status, se_response_headers = headers,
           se_response_body = response_json, se_source = ''stub'', se_protocol = ''grpc'',
           se_recorded_at = 0\<rparr>) (sv_recorder st)\<rparr>"

text \<open>The part of \<^verbatim>\<open>serveGRPC\<close> after the response is rendered.\<close>

definition finish_grpc ::
  "'d environment \<Rightarrow> http_request \<Rightarrow> descriptor_registry \<Rightarrow> method_desc \<Rightarrow> string \<Rightarrow> rendered
    \<Rightarrow> server_state \<Rightarrow> outcome \<times> server_state" where
  "finish_grpc E r registry m request_json rd st =
     (let headers = rr_headers rd;
          failing = (case grpc_status_from_headers headers of
              Some (code, reason) \<Rightarrow> if code \<noteq> 0 then Some (code, reason) else None
            | None \<Rightarrow> grpc_status_from_http (rr_status rd))
      in case failing of
           Some (code, reason) \<Rightarrow>
             (write_grpc_error_with_headers headers code reason,
              record_grpc_serve_event (env_now E) r request_json (rr_status rd) headers [] st)
         | None \<Rightarrow>
             (case encode_proto_json (env_proto E) registry (md_output m) (rr_body rd) of
                Ok payload \<Rightarrow>
                  (write_grpc_message headers payload,
                   record_grpc_serve_event (env_now E) r request_json (rr_status rd) headers (rr_body rd) st)
              | Err e \<Rightarrow> (write_grpc_error_with_headers headers 13 e, st)
              | Panic \<Rightarrow> (Crash, st)))"

text \<open>The part of \<^verbatim>\<open>serveGRPC\<close> from the decoded request on.\<close>

definition answer_grpc ::
  "'d environment \<Rightarrow> http_request \<Rightarrow> descriptor_registry \<Rightarrow> method_desc \<Rightarrow> string \<Rightarrow> server_state
    \<Rightarrow> outcome \<times> server_state" where
  "answer_grpc E r registry m request_json st =
     (let body_context = new_body_context request_json;
          match_request = r\<lparr>hr_headers := grpc_matcher_headers (hr_headers r)\<rparr>
      in case find_match (env_lib E) (sv_mappings st) (sv_scenarios st) match_request body_context of
           (None, scenarios) \<Rightarrow>
             (write_grpc_error 12 ''No matching stub mapping found for gRPC request'',
              st\<lparr>sv_scenarios := scenarios\<rparr>)
         | (Some stub, scenarios) \<Rightarrow>
             (let st1 = st\<lparr>sv_scenarios := scenarios\<rparr>; d = m_response stub in
              case initial_duration (env_random E) d of
                Panic \<Rightarrow> (Crash, st1)
              | Err e \<Rightarrow> (Crash, st1)
              | Ok duration \<Rightarrow>
                  if \<not> sleep_ok E duration then (NoReply, st1)
                  else if rd_proxy_base_url d \<noteq> [] then
                    (write_grpc_error 12 ''gRPC proxy is not implemented'', st1)
                  else
                    (case render (env_lib E) (sv_files st1) d body_context of
                       Err e \<Rightarrow> (write_grpc_error 13 e, st1)
                     | Panic \<Rightarrow> (Crash, st1)
                     | Ok rd \<Rightarrow> finish_grpc E r registry m request_json rd st1)))"

definition serve_grpc ::
  "'d environment \<Rightarrow> http_request \<Rightarrow> server_state \<Rightarrow> outcome \<times> server_state" where
  "serve_grpc E r st =
     (case sv_descriptors st of
        None \<Rightarrow> (write_grpc_error 12 ''gRPC descriptor registry is not configured'', st)
      | Some ds \<Rightarrow>
          (let registry = descriptor_active (Some ds) in
           case find_grpc_method registry (hu_path (hr_url r)) of
             None \<Rightarrow> (write_grpc_error 12 ''No matching gRPC service method found'', st)
           | Some m \<Rightarrow>
               (case read_limited max_grpc_request_body_size (hr_body r) of
                  ReadOk framed_body \<Rightarrow>
                    (case bind_res (decode_unary_grpc_frame framed_body)
                            (decode_proto_json (env_proto E) registry (md_input m)) of
                       Ok request_json \<Rightarrow> answer_grpc E r registry m request_json st
                     | Err e \<Rightarrow> (write_grpc_error 13 e, st)
                     | Panic \<Rightarrow> (Crash, st))
                | _ \<Rightarrow> (write_grpc_error 13 ''read gRPC request: '', st))))"

section \<open>Framing\<close>

lemma four_bytes:
  "((n div 16777216 * 256 + n div 65536 mod 256) * 256 + n div 256 mod 256) * 256 + n mod 256 = (n :: nat)"
proof -
  have 1: "n div 16777216 * 256 + n div 65536 mod 256 = n div 65536"
    using div_mult_mod_eq [of "n div 65536" 256] by (simp add: div_mult2_eq [symmetric])
  have 2: "n div 65536 * 256 + n div 256 mod 256 = n div 256"
    using div_mult_mod_eq [of "n div 256" 256] by (simp add: div_mult2_eq [symmetric])
  have 3: "n div 256 * 256 + n mod 256 = n" by simp
  show ?thesis unfolding 1 2 3 ..
qed

lemma be_put_uint32: "be_uint32 (put_uint32 w @ r) = w"
proof -
  have less: "unat w < 2 ^ 32" using unsigned_less [of w] by simp
  then have "unat w div 16777216 < 256" by (simp add: less_mult_imp_div_less)
  then show ?thesis
    using four_bytes [of "unat w"]
    by (simp add: be_uint32_def put_uint32_def Let_def byte_chr mult.commute)
qed

lemma length_put_uint32 [simp]: "length (put_uint32 w) = 4"
  by (simp add: put_uint32_def Let_def)

lemma decode_encode_frame:
  assumes "length p < 2 ^ 32"
  shows "decode_unary_grpc_frame (encode_grpc_frame p) = Ok p"
proof -
  have "unat (of_nat (length p) :: 32 word) = length p"
    using assms by (simp add: unsigned_of_nat take_bit_nat_eq_self)
  then show ?thesis
    by (simp add: decode_unary_grpc_frame_def encode_grpc_frame_def be_put_uint32 Let_def)
qed

lemma join_bytes:
  fixes a b c d :: nat
  assumes "a < 256" "b < 256" "c < 256" "d < 256"
  defines "n \<equiv> ((a * 256 + b) * 256 + c) * 256 + d"
  shows "n < 4294967296" "n div 16777216 = a" "n div 65536 mod 256 = b" "n div 256 mod 256 = c" "n mod 256 = d"
proof -
  have last: "(x * 256 + y) div 256 = x" "(x * 256 + y) mod 256 = y" if "y < 256" for x y :: nat
    using that by (simp_all add: mod_mult_self3)
  have "a * 256 + b < 65536" using assms(1,2) by simp
  then have "(a * 256 + b) * 256 + c < 16777216" using assms(3) by simp
  then show "n < 4294967296" unfolding n_def using assms(4) by simp
  have 1: "n div 256 = (a * 256 + b) * 256 + c" unfolding n_def by (rule last) fact
  have "n div 65536 = n div 256 div 256" by (simp add: div_mult2_eq [symmetric])
  then have 2: "n div 65536 = a * 256 + b" unfolding 1 using last(1) [OF assms(3)] by simp
  have "n div 16777216 = n div 65536 div 256" by (simp add: div_mult2_eq [symmetric])
  then show "n div 16777216 = a" unfolding 2 using last(1) [OF assms(2)] by simp
  show "n div 65536 mod 256 = b" "n div 256 mod 256 = c" unfolding 1 2 by (rule last, fact)+
  show "n mod 256 = d" unfolding n_def by (rule last) fact
qed

text \<open>The decoder accepts nothing but what the encoder writes.\<close>

lemma put_be_uint32:
  assumes "length bs = 4"
  shows "put_uint32 (be_uint32 bs) = bs"
proof -
  from assms obtain a b c d where bs: "bs = [a, b, c, d]"
    by (auto simp: numeral_eq_Suc length_Suc_conv)
  let ?n = "((byte a * 256 + byte b) * 256 + byte c) * 256 + byte d"
  note n = join_bytes [of "byte a" "byte b" "byte c" "byte d", OF byte_less byte_less byte_less byte_less]
  have be: "be_uint32 bs = of_nat ?n"
    unfolding be_uint32_def bs by (simp add: mult.commute del: of_nat_add of_nat_mult)
  have u: "unat (be_uint32 bs) = ?n"
    unfolding be unsigned_of_nat of_nat_id by (rule take_bit_nat_eq_self) (use n(1) in simp)
  show ?thesis unfolding put_uint32_def Let_def u by (simp only: n(2-5) bs chr_byte)
qed

lemma decode_frame_exact:
  assumes "decode_unary_grpc_frame body = Ok p"
  shows "body = encode_grpc_frame p"
proof -
  from assms have len: "5 \<le> length body" and z: "body ! 0 = chr 0" and p: "p = drop 5 body"
    and size: "length body = 5 + unat (be_uint32 (drop 1 body))"
    by (auto simp: decode_unary_grpc_frame_def Let_def split: if_splits)
  have body: "body = chr 0 # take 4 (drop 1 body) @ drop 5 body"
    using len z by (cases body) simp_all
  have take4: "be_uint32 (take 4 (drop 1 body)) = be_uint32 (drop 1 body)" by (simp add: be_uint32_def)
  have lp: "length p = unat (be_uint32 (drop 1 body))" unfolding p length_drop size by (rule diff_add_inverse)
  have "length (take 4 (drop 1 body)) = 4" using len by simp
  note put = put_be_uint32 [OF this, unfolded take4]
  have "(of_nat (length p) :: 32 word) = be_uint32 (drop 1 body)" unfolding lp by simp
  with put have u: "put_uint32 (of_nat (length p)) = take 4 (drop 1 body)" by simp
  show ?thesis by (rule trans [OF body]) (simp only: encode_grpc_frame_def u p [symmetric])
qed

section \<open>Messages\<close>

text \<open>What a client does with \<^verbatim>\<open>Grpc-Message\<close>: percent decoding.\<close>

fun percent_decode :: "string \<Rightarrow> string option" where
  "percent_decode [] = Some []"
| "percent_decode (c # s) =
     (if c = CHR ''%'' then
        (case s of
           h # l # t \<Rightarrow>
             (case (hex_val h, hex_val l) of
                (Some x, Some y) \<Rightarrow> map_option (\<lambda>r. chr (16 * x + y) # r) (percent_decode t)
              | _ \<Rightarrow> None)
         | _ \<Rightarrow> None)
      else map_option (\<lambda>r. c # r) (percent_decode s))"

definition escape_message_char :: "char \<Rightarrow> string" where
  "escape_message_char c =
     (if unreserved c then [c]
      else [CHR ''%'', upper_hex_digit (byte c div 16), upper_hex_digit (byte c mod 16)])"

lemma byte_upper_hex: "n < 16 \<Longrightarrow> byte (upper_hex_digit n) = (if n < 10 then 48 + n else 55 + n)"
  by (simp add: upper_hex_digit_def byte_chr)

lemma upper_hex_facts [simp]:
  "n < 16 \<Longrightarrow> hex_val (upper_hex_digit n) = Some n" "n < 16 \<Longrightarrow> upper_hex_digit n \<noteq> CHR ''+''"
  by (auto simp: hex_val_def byte_upper_hex Let_def char_eq_byte simp del: of_char_eq_iff)

lemma byte_nibbles [simp]: "byte c div 16 < 16" "byte c mod 16 < 16"
  using byte_less [of c] by linarith+

lemma unreserved_plain: "unreserved c \<Longrightarrow> c \<noteq> CHR ''%'' \<and> c \<noteq> CHR ''+'' \<and> c \<noteq> CHR '' ''"
  by (auto simp: unreserved_def is_digit_def is_lower_def is_upper_def)

lemma replace_escaped: "replace_char (query_escape_char c) (CHR ''+'') ''%20'' = escape_message_char c"
proof (cases "c = CHR '' ''")
  case True
  have "upper_hex_digit 2 = CHR ''2''" "upper_hex_digit 0 = CHR ''0''" by code_simp+
  moreover have "\<not> unreserved (CHR '' '')" using unreserved_plain by blast
  ultimately show ?thesis by (simp add: True query_escape_char_def escape_message_char_def replace_char_def)
next
  case False
  then show ?thesis
    by (auto simp: query_escape_char_def escape_message_char_def replace_char_def dest: unreserved_plain)
qed

lemma encode_grpc_message_eq: "encode_grpc_message m = concat (map escape_message_char m)"
proof (induction m)
  case (Cons c m)
  have "encode_grpc_message (c # m)
      = replace_char (query_escape_char c) (CHR ''+'') ''%20'' @ encode_grpc_message m"
    by (simp add: encode_grpc_message_def query_escape_def replace_char_def)
  with Cons show ?case by (simp add: replace_escaped)
qed (simp add: encode_grpc_message_def query_escape_def replace_char_def)

lemma percent_decode_escape: "percent_decode (escape_message_char c @ s) = map_option (\<lambda>r. c # r) (percent_decode s)"
proof (cases "unreserved c")
  case True
  with unreserved_plain [OF True] show ?thesis by (simp add: escape_message_char_def)
next
  case False
  have "16 * (byte c div 16) + byte c mod 16 = byte c" by simp
  with False show ?thesis by (simp add: escape_message_char_def)
qed

lemma percent_decode_message: "percent_decode (encode_grpc_message m) = Some m"
  by (induction m) (simp_all add: encode_grpc_message_eq percent_decode_escape)

section \<open>Every answer is a gRPC answer\<close>

definition grpc_reply :: "http_reply \<Rightarrow> bool" where
  "grpc_reply rep \<longleftrightarrow>
     hp_status rep = 200
     \<and> header_values (hp_headers rep) ''Content-Type'' = [''application/grpc'']
     \<and> header_values (hp_headers rep) ''Trailer'' = [''Grpc-Status, Grpc-Message'']
     \<and> (\<exists>code. map_of (hp_trailers rep) ''Grpc-Status'' = Some [itoa code])
     \<and> (\<forall>name \<in> fst ` set (hp_headers rep). \<not> is_internal_grpc_mapping_header name)"

lemma internal_header_canonical [simp]:
  "is_internal_grpc_mapping_header (canonical_header_key s) = is_internal_grpc_mapping_header s"
  by (simp add: is_internal_grpc_mapping_header_def)

lemma canonical_constants:
  "canonical_header_key ''Content-Type'' = ''Content-Type''" "canonical_header_key ''Trailer'' = ''Trailer''"
  "\<not> is_internal_grpc_mapping_header ''Content-Type''" "\<not> is_internal_grpc_mapping_header ''Trailer''"
  by code_simp+

lemma grpc_headers_fold:
  "fold (\<lambda>(name, values) h.
       if is_internal_grpc_mapping_header name then h
       else fold (\<lambda>value. header_add name value) values h) headers h
   = add_all_headers (filter (\<lambda>(name, _). \<not> is_internal_grpc_mapping_header name) headers) h"
  unfolding add_all_headers_def
proof (induction headers arbitrary: h)
  case (Cons e headers)
  then show ?case by (cases e) simp
qed simp

lemma prepare_grpc_internal:
  "\<forall>name \<in> fst ` set (prepare_grpc_response headers). \<not> is_internal_grpc_mapping_header name"
proof
  fix name assume "name \<in> fst ` set (prepare_grpc_response headers)"
  then have "name = ''Content-Type'' \<or> name = ''Trailer''
      \<or> name \<in> fst ` set (add_all_headers (filter (\<lambda>(name, _). \<not> is_internal_grpc_mapping_header name) headers) [])"
    by (auto simp: prepare_grpc_response_def grpc_headers_fold header_set_def canonical_constants dom_update)
  moreover have "fst ` set (add_all_headers (filter (\<lambda>(name, _). \<not> is_internal_grpc_mapping_header name) headers) [])
      \<subseteq> canonical_header_key ` fst ` set (filter (\<lambda>(name, _). \<not> is_internal_grpc_mapping_header name) headers)"
    using keys_add_all [of "filter (\<lambda>(name, _). \<not> is_internal_grpc_mapping_header name) headers" "[]"] by simp
  ultimately show "\<not> is_internal_grpc_mapping_header name" by (auto simp: canonical_constants)
qed

lemma grpc_reply_write [simp]:
  "grpc_reply \<lparr>hp_status = 200, hp_headers = prepare_grpc_response headers, hp_events = es,
     hp_trailers = grpc_trailers code message\<rparr>"
  using prepare_grpc_internal [of headers]
  by (auto simp: grpc_reply_def grpc_trailers_def prepare_grpc_response_def header_set_def canonical_constants
      header_values_def update_conv')

lemma finish_grpc_reply: "fst (finish_grpc E r registry m request_json rd st) = Reply rep \<Longrightarrow> grpc_reply rep"
  by (auto simp: finish_grpc_def Let_def write_grpc_message_def write_grpc_error_with_headers_def
      split: option.splits res.splits if_splits)

lemma answer_grpc_reply: "fst (answer_grpc E r registry m request_json st) = Reply rep \<Longrightarrow> grpc_reply rep"
  by (auto simp: answer_grpc_def Let_def write_grpc_error_def write_grpc_error_with_headers_def
      split: option.splits res.splits if_splits prod.splits dest: finish_grpc_reply)

lemma serve_grpc_reply: "fst (serve_grpc E r st) = Reply rep \<Longrightarrow> grpc_reply rep"
  by (auto simp: serve_grpc_def Let_def write_grpc_error_def write_grpc_error_with_headers_def
      split: option.splits res.splits limited_read.splits dest: answer_grpc_reply)

end
