(* ===== verification/Chunk_Facts.thy ===== *)
theory Chunk_Facts
  imports Runtime_Api
begin

text \<open>
  Chunked responses: the parts of \<^verbatim>\<open>splitBody\<close> make up the body, what is written is a prefix of it (all
  of it when no pause is cut short), and the pauses add up to at most the configured duration.
\<close>

fun written :: "io_event list \<Rightarrow> string" where
  "written [] = []"
| "written (IoWrite s # es) = s @ written es"
| "written (IoFlush # es) = written es"
| "written (IoSleep t # es) = written es"

fun paused :: "io_event list \<Rightarrow> int" where
  "paused [] = 0"
| "paused (IoWrite s # es) = paused es"
| "paused (IoFlush # es) = paused es"
| "paused (IoSleep t # es) = slept t + paused es"

fun flushes :: "io_event list \<Rightarrow> nat" where
  "flushes [] = 0"
| "flushes (IoWrite s # es) = flushes es"
| "flushes (IoFlush # es) = Suc (flushes es)"
| "flushes (IoSleep t # es) = flushes es"

section \<open>Splitting\<close>

lemma take_slice: "i \<le> j \<Longrightarrow> take i xs @ take (j - i) (drop i xs) = take j xs"
  by (metis le_add_diff_inverse take_add)

lemma concat_slices:
  assumes "mono b" and "b 0 = (0 :: nat)"
  shows "concat (map (\<lambda>i. take (b (Suc i) - b i) (drop (b i) xs)) [0..<n]) = take (b n) xs"
proof (induction n)
  case (Suc n)
  have "b n \<le> b (Suc n)" using assms(1) by (simp add: monoD)
  with Suc show ?case by (simp add: take_slice)
qed (simp add: assms(2))

text \<open>Bodies whose length squared is a 64-bit integer.\<close>

definition chunkable :: "string \<Rightarrow> bool" where
  "chunkable body \<longleftrightarrow> length body < 2 ^ 31"

lemma chunk_bound_nat:
  assumes "chunkable body" and "0 < k" and "i \<le> k" and "k \<le> length body"
  shows "chunk_bound body (int k) (int i) = int (i * length body div k)"
proof -
  have "i * length body \<le> length body * length body" using assms by simp
  also have "\<dots> < 2 ^ 31 * 2 ^ 31" using assms(1) unfolding chunkable_def by (intro mult_strict_mono) auto
  finally have "i * length body < 2 ^ 62" by simp
  then have "in_int64 (int (i * length body))" by (simp add: in_int64_def del: of_nat_mult)
  then have "in_int64 (int i * int (length body))" by simp
  then show ?thesis using assms(2) by (simp add: chunk_bound_def zdiv_int)
qed

lemma nat_int_diff [simp]: "nat (int a - int b) = a - b"
  by simp

lemma split_body_slices:
  assumes "chunkable body" and "1 < k" and "k < length body"
  shows "split_body body (int k) = map (\<lambda>i. take (Suc i * length body div k - i * length body div k)
    (drop (i * length body div k) body)) [0..<k]"
proof -
  have "chunk_bound body (int k) (int i + 1) = int (Suc i * length body div k)" if "i < k" for i
    using chunk_bound_nat [of body k "Suc i"] assms that by (simp add: add.commute)
  moreover have "chunk_bound body (int k) (int i) = int (i * length body div k)" if "i < k" for i
    using chunk_bound_nat [of body k i] assms that by simp
  ultimately show ?thesis
    using assms by (auto simp: split_body_def slice_def intro!: map_cong)
qed

lemma concat_split_body:
  assumes "chunkable body"
  shows "concat (split_body body chunks) = body"
proof (cases "chunks \<le> 1 \<or> int (length body) \<le> chunks")
  case True
  have "concat (map (\<lambda>c. [c]) s) = s" for s :: string by (induction s) auto
  with True show ?thesis by (simp add: split_body_def)
next
  case False
  define k where "k = nat chunks"
  from False have k: "chunks = int k" "1 < k" "k < length body" by (auto simp: k_def)
  have "mono (\<lambda>i. i * length body div k)" by (intro monoI div_le_mono mult_le_mono1)
  then show ?thesis
    unfolding k(1) split_body_slices [OF assms k(2,3)] using k
    by (subst concat_slices [where b = "\<lambda>i. i * length body div k"]) simp_all
qed

lemma split_body_parts:
  assumes "chunkable body" and "1 < chunks"
  shows "int (length (split_body body chunks)) \<le> chunks" and "list_all (\<lambda>p. p \<noteq> []) (split_body body chunks)"
proof -
  have "list_all (\<lambda>p. p \<noteq> []) (split_body body chunks)" if less: "chunks < int (length body)"
  proof -
    define k where "k = nat chunks"
    from less assms(2) have k: "chunks = int k" "1 < k" "k < length body" by (auto simp: k_def)
    have "i * length body div k < Suc i * length body div k \<and> i * length body div k < length body" if "i < k" for i
    proof -
      have "(i * length body + k) div k \<le> Suc i * length body div k"
        using k(3) by (intro div_le_mono) simp
      moreover have "(i * length body + k) div k = Suc (i * length body div k)" using k(2) by (subst div_add_self2) auto
      ultimately have "i * length body div k < Suc i * length body div k" by linarith
      moreover have "Suc i * length body div k \<le> k * length body div k"
        using that by (intro div_le_mono mult_le_mono1) simp
      ultimately show ?thesis using k(2) by simp
    qed
    then show ?thesis
      unfolding k(1) split_body_slices [OF assms(1) k(2,3)]
      by (auto simp: list_all_iff simp del: mult_Suc) (metis leD)+
  qed
  then show "list_all (\<lambda>p. p \<noteq> []) (split_body body chunks)"
    by (cases "chunks < int (length body)") (auto simp: split_body_def list_all_iff)
  show "int (length (split_body body chunks)) \<le> chunks"
    using assms(2) by (simp add: split_body_def)
qed

section \<open>Writing\<close>

lemma written_append [simp]: "written (es @ fs) = written es @ written fs"
  by (induction es rule: written.induct) simp_all

lemma paused_append [simp]: "paused (es @ fs) = paused es + paused fs"
  by (induction es rule: paused.induct) simp_all

lemma written_parts_prefix: "prefix (written (write_parts sleeper flusher interval parts)) (concat parts)"
  by (induction parts) auto

lemma written_parts:
  "sleeper interval \<Longrightarrow> written (write_parts sleeper flusher interval parts) = concat parts"
  by (induction parts) auto

lemma paused_nonneg: "0 \<le> paused es"
  by (induction es rule: paused.induct) (auto simp: slept_def)

lemma paused_flush [simp]: "paused (if b then [IoFlush] else []) = 0"
  by simp

lemma paused_parts:
  assumes "0 \<le> interval"
  shows "paused (write_parts sleeper flusher interval parts) \<le> int (length parts - 1) * interval"
proof (induction parts)
  case (Cons p parts)
  have "0 \<le> int (length parts - 1) * interval" using assms by simp
  with Cons assms show ?case
    by (cases parts) (auto simp: slept_def algebra_simps)
qed simp

lemma flushes_parts: "flushes (write_parts sleeper False interval parts) = 0"
  by (induction parts) auto

lemma written_response_body:
  assumes "chunkable body"
  shows "prefix (written (write_response_body sleeper flusher body d)) body"
    and "(\<And>t. sleeper t) \<Longrightarrow> written (write_response_body sleeper flusher body d) = body"
  using written_parts_prefix written_parts concat_split_body [OF assms]
  by (auto simp: write_response_body_def split: prod.split) metis

lemma paused_response_body:
  assumes "chunkable body" and "rd_chunked_dribble_delay d = Some c" and "short_delay (cd_total_duration c)"
  shows "paused (write_response_body sleeper flusher body d) \<le> cd_total_duration c * 1000000"
proof -
  obtain chunks interval where ci: "chunked_interval d = (chunks, interval)" by fastforce
  have nonneg: "0 \<le> cd_total_duration c * 1000000" using assms(3) by (simp add: short_delay_def)
  show ?thesis
  proof (cases "body = [] \<or> chunks \<le> 1 \<or> length body = 1")
    case True
    with nonneg show ?thesis by (auto simp: write_response_body_def ci)
  next
    case False
    then have chunks: "1 < chunks" and parts: "write_response_body sleeper flusher body d
        = write_parts sleeper flusher interval (split_body body chunks)"
      by (auto simp: write_response_body_def ci)
    have i: "0 \<le> interval" "(chunks - 1) * interval \<le> cd_total_duration c * 1000000"
      using chunked_interval_bounds [OF ci chunks assms(2,3)] by auto
    have "int (length (split_body body chunks) - 1) \<le> chunks - 1"
      using split_body_parts(1) [OF assms(1) chunks] chunks by linarith
    then have "int (length (split_body body chunks) - 1) * interval \<le> (chunks - 1) * interval"
      using i(1) by (rule mult_right_mono)
    with paused_parts [OF i(1), of sleeper flusher "split_body body chunks"] i(2) show ?thesis
      unfolding parts by linarith
  qed
qed

end
