(* ===== verification/Utf8_Facts.thy ===== *)
theory Utf8_Facts
  imports Go_Strings
begin

text \<open>
  Valid UTF-8 is a sequence of encoded scalar values: encoding and decoding are inverse to each other, and
  valid strings have the induction over their scalar values.
\<close>

definition scalar :: "nat \<Rightarrow> bool" where
  "scalar r \<longleftrightarrow> r < 0xD800 \<or> (0xE000 \<le> r \<and> r \<le> 0x10FFFF)"

lemma split_digits: "y < k \<Longrightarrow> (x * k + y) div k = (x :: nat)" "y < k \<Longrightarrow> (x * k + y) mod k = y"
  by simp_all

lemma chr_of_byte: "byte c = n \<Longrightarrow> c = chr n"
  by auto

section \<open>Decoding, then encoding\<close>

lemma encode_decode2:
  assumes "0xC2 \<le> n" "n \<le> 0xDF" and "decode_rune2 n t = (r, w)" and "(r, w) \<noteq> (rune_error, 1)"
  shows "scalar r \<and> w = 2 \<and> chr n # take 1 t = encode_rune r"
proof -
  obtain b u where t: "t = b # u" using assms by (cases t) auto
  with assms have b: "0x80 \<le> byte b" "byte b \<le> 0xBF" and w: "w = 2"
    and r: "r = (n - 0xC0) * 64 + (byte b - 0x80)"
    by (auto simp: is_cont_def split: if_splits)
  have y: "byte b - 0x80 < 64" using b by simp
  have "r div 64 = n - 0xC0" "r mod 64 = byte b - 0x80" "0x80 \<le> r" "r < 0x800"
    using split_digits [OF y, of "n - 0xC0"] assms(1,2) y by (auto simp: r)
  then show ?thesis using assms(1) b w t by (simp add: scalar_def encode_rune_def)
qed

lemma encode_decode3:
  assumes "0xE0 \<le> n" "n \<le> 0xEF" and "decode_rune3 n t = (r, w)" and "(r, w) \<noteq> (rune_error, 1)"
  shows "scalar r \<and> w = 3 \<and> chr n # take 2 t = encode_rune r"
proof -
  obtain b c u where t: "t = b # c # u" using assms by (cases "(n, t)" rule: decode_rune3.cases) auto
  with assms have b: "(if n = 0xE0 then 0xA0 else 0x80) \<le> byte b" "byte b \<le> (if n = 0xED then 0x9F else 0xBF)"
    and c: "0x80 \<le> byte c" "byte c \<le> 0xBF" and w: "w = 3"
    and r: "r = (n - 0xE0) * 4096 + (byte b - 0x80) * 64 + (byte c - 0x80)"
    by (auto simp: is_cont_def between_def split: if_splits)
  define x y z where "x = n - 0xE0" and "y = byte b - 0x80" and "z = byte c - 0x80"
  have y: "y < 64" and z: "z < 64" using b c by (auto simp: y_def z_def split: if_splits)
  have r': "r = (x * 64 + y) * 64 + z" using r by (simp add: x_def y_def z_def algebra_simps)
  have d: "r div 64 = x * 64 + y" "r mod 64 = z" using split_digits [OF z, of "x * 64 + y"] by (auto simp: r')
  have e: "r div 4096 = x" "r div 64 mod 64 = y"
    using split_digits [OF y, of x] d by (auto simp: div_mult2_eq [of _ 64 64, simplified])
  have "x < 16" using assms(2) by (simp add: x_def)
  have "n = 0xE0 + x" "byte b = 0x80 + y" "byte c = 0x80 + z"
    using assms(1) b c by (auto simp: x_def y_def z_def split: if_splits)
  moreover have "1 \<le> x \<or> 32 \<le> y"
    using b assms(1) unfolding x_def y_def by (cases "n = 0xE0") (simp_all, linarith)
  then have "0x800 \<le> r" "r < 0x10000" using \<open>x < 16\<close> y z by (auto simp: r')
  moreover have "\<not> (0xD800 \<le> r \<and> r < 0xE000)"
  proof (cases "n = 0xED")
    case True
    then have "x = 13" "y < 32" using b by (auto simp: x_def y_def)
    then show ?thesis using z by (simp add: r')
  next
    case False
    then have "x \<noteq> 13" using assms(1) by (auto simp: x_def)
    then have "x \<le> 12 \<or> 14 \<le> x" by auto
    then show ?thesis using y z by (auto simp: r')
  qed
  ultimately show ?thesis
    using d e w t chr_of_byte [of b "0x80 + y"] chr_of_byte [of c "0x80 + z"]
    by (auto simp: scalar_def encode_rune_def)
qed

lemma encode_decode4:
  assumes "0xF0 \<le> n" "n \<le> 0xF4" and "decode_rune4 n t = (r, w)" and "(r, w) \<noteq> (rune_error, 1)"
  shows "scalar r \<and> w = 4 \<and> chr n # take 3 t = encode_rune r"
proof -
  obtain b c d u where t: "t = b # c # d # u" using assms by (cases "(n, t)" rule: decode_rune4.cases) auto
  with assms have b: "(if n = 0xF0 then 0x90 else 0x80) \<le> byte b" "byte b \<le> (if n = 0xF4 then 0x8F else 0xBF)"
    and c: "0x80 \<le> byte c" "byte c \<le> 0xBF" and d: "0x80 \<le> byte d" "byte d \<le> 0xBF" and w: "w = 4"
    and r: "r = (n - 0xF0) * 262144 + (byte b - 0x80) * 4096 + (byte c - 0x80) * 64 + (byte d - 0x80)"
    by (auto simp: is_cont_def between_def split: if_splits)
  define x y z v where "x = n - 0xF0" and "y = byte b - 0x80" and "z = byte c - 0x80" and "v = byte d - 0x80"
  have y: "y < 64" and z: "z < 64" and v: "v < 64" using b c d by (auto simp: y_def z_def v_def split: if_splits)
  have r': "r = ((x * 64 + y) * 64 + z) * 64 + v" using r by (simp add: x_def y_def z_def v_def algebra_simps)
  have d1: "r div 64 = (x * 64 + y) * 64 + z" "r mod 64 = v"
    using split_digits [OF v, of "(x * 64 + y) * 64 + z"] by (auto simp: r')
  have d2: "r div 4096 = x * 64 + y" "r div 64 mod 64 = z"
    using split_digits [OF z, of "x * 64 + y"] d1 by (auto simp: div_mult2_eq [of _ 64 64, simplified])
  have d3: "r div 262144 = x" "r div 4096 mod 64 = y"
    using split_digits [OF y, of x] d2 by (auto simp: div_mult2_eq [of _ 4096 64, simplified])
  have "x \<le> 4" using assms(2) by (simp add: x_def)
  have "n = 0xF0 + x" "byte b = 0x80 + y" "byte c = 0x80 + z" "byte d = 0x80 + v"
    using assms(1) b c d by (auto simp: x_def y_def z_def v_def split: if_splits)
  moreover have "1 \<le> x \<or> 16 \<le> y" and "x \<le> 3 \<or> y \<le> 15" using b assms(1,2) unfolding x_def y_def by ((cases "n = 0xF0"; simp; linarith), (cases "n = 0xF4"; simp; linarith))
  then have "0x10000 \<le> r" "r \<le> 0x10FFFF" using \<open>x \<le> 4\<close> y z v by (auto simp: r')
  ultimately show ?thesis
    using d1 d2 d3 w t chr_of_byte [of b "0x80 + y"] chr_of_byte [of c "0x80 + z"] chr_of_byte [of d "0x80 + v"]
    by (simp add: scalar_def encode_rune_def)
qed

lemma encode_decode:
  assumes "decode_rune (a # t) = (r, w)" and "(r, w) \<noteq> (rune_error, 1)"
  shows "scalar r \<and> take w (a # t) = encode_rune r"
proof -
  let ?n = "byte a"
  consider "?n < 0x80" | "0xC2 \<le> ?n" "?n \<le> 0xDF" | "0xE0 \<le> ?n" "?n \<le> 0xEF" | "0xF0 \<le> ?n" "?n \<le> 0xF4"
    using assms by (auto simp: decode_rune.simps Let_def split: if_splits)
  then show ?thesis
  proof cases
    case 1
    with assms show ?thesis by (auto simp: decode_rune.simps scalar_def encode_rune_def)
  next
    case 2
    then have "decode_rune2 ?n t = (r, w)" using assms(1) by (simp add: decode_rune.simps)
    from encode_decode2 [OF 2 this assms(2)] show ?thesis by auto
  next
    case 3
    then have "decode_rune3 ?n t = (r, w)" using assms(1) by (simp add: decode_rune.simps)
    from encode_decode3 [OF 3 this assms(2)] show ?thesis by simp
  next
    case 4
    then have "decode_rune4 ?n t = (r, w)" using assms(1) by (simp add: decode_rune.simps)
    from encode_decode4 [OF 4 this assms(2)] show ?thesis by simp
  qed
qed

section \<open>Encoding, then decoding\<close>

lemma mod64_less: "n mod 64 < (64 :: nat)"
  by simp

lemma decode_encode:
  assumes "scalar r"
  shows "decode_rune (encode_rune r @ t) = (r, length (encode_rune r))"
proof -
  have small: "0x80 + n mod 64 < (256 :: nat)" for n using mod64_less [of n] by linarith
  consider "r < 0x80" | "0x80 \<le> r" "r < 0x800" | "0x800 \<le> r" "r < 0x10000" | "0x10000 \<le> r" "r \<le> 0x10FFFF"
    using assms unfolding scalar_def by linarith
  then show ?thesis
  proof cases
    case 1
    then show ?thesis by (simp add: encode_rune_def decode_rune.simps)
  next
    case 2
    have "r = r div 64 * 64 + r mod 64" by simp
    moreover have "2 \<le> r div 64" "r div 64 < 32" using 2 by auto
    ultimately show ?thesis
      using 2 small by (simp add: encode_rune_def decode_rune.simps is_cont_def Let_def)
  next
    case 3
    define x y z where "x = r div 4096" and "y = r div 64 mod 64" and "z = r mod 64"
    have "r div 64 = x * 64 + y" by (simp add: x_def y_def div_mult2_eq [of r 64 64, simplified])
    then have r: "r = (x * 64 + y) * 64 + z" by (metis div_mult_mod_eq z_def)
    have less: "x < 16" "y < 64" "z < 64" using 3 by (auto simp: x_def y_def z_def)
    have y: "x = 0 \<Longrightarrow> 32 \<le> y" "x = 13 \<Longrightarrow> y < 32"
      using r 3 assms less by (auto simp: scalar_def)
    have enc: "encode_rune r = [chr (0xE0 + x), chr (0x80 + y), chr (0x80 + z)]"
      using 3 assms by (auto simp: encode_rune_def scalar_def x_def y_def z_def)
    have "between (if 0xE0 + x = 0xE0 then 0xA0 else 0x80) (if 0xE0 + x = 0xED then 0x9F else 0xBF) (chr (0x80 + y))"
      using y less by (auto simp: between_def)
    moreover have "is_cont (chr (0x80 + z))" using less by (simp add: is_cont_def)
    moreover have "x * 4096 + y * 64 + z = r" using r by (simp add: algebra_simps)
    ultimately have dec: "decode_rune3 (0xE0 + x) (chr (0x80 + y) # chr (0x80 + z) # t) = (r, 3)"
      using less by (simp del: One_nat_def)
    show ?thesis using less dec unfolding enc by (simp add: decode_rune.simps)
  next
    case 4
    define x y z v where "x = r div 262144" and "y = r div 4096 mod 64" and "z = r div 64 mod 64" and "v = r mod 64"
    have "r div 4096 = x * 64 + y" by (simp add: x_def y_def div_mult2_eq [of r 4096 64, simplified])
    moreover have "r div 64 = r div 4096 * 64 + z" by (simp add: z_def div_mult2_eq [of r 64 64, simplified])
    ultimately have r: "r = ((x * 64 + y) * 64 + z) * 64 + v" by (metis div_mult_mod_eq v_def)
    have less: "x \<le> 4" "y < 64" "z < 64" "v < 64" using 4 by (auto simp: x_def y_def z_def v_def)
    have y: "x = 0 \<Longrightarrow> 16 \<le> y" "x = 4 \<Longrightarrow> y < 16" using r 4 less by auto
    have enc: "encode_rune r = [chr (0xF0 + x), chr (0x80 + y), chr (0x80 + z), chr (0x80 + v)]"
      using 4 by (simp add: encode_rune_def x_def y_def z_def v_def)
    have "between (if 0xF0 + x = 0xF0 then 0x90 else 0x80) (if 0xF0 + x = 0xF4 then 0x8F else 0xBF) (chr (0x80 + y))"
      using y less by (auto simp: between_def)
    moreover have "is_cont (chr (0x80 + z))" "is_cont (chr (0x80 + v))" using less by (simp_all add: is_cont_def)
    moreover have "x * 262144 + y * 4096 + z * 64 + v = r" using r by (simp add: algebra_simps)
    ultimately have dec: "decode_rune4 (0xF0 + x) (chr (0x80 + y) # chr (0x80 + z) # chr (0x80 + v) # t) = (r, 4)"
      using less by (simp del: One_nat_def)
    show ?thesis using less dec unfolding enc by (simp add: decode_rune.simps)
  qed
qed

lemma encode_rune_nonempty [simp]: "encode_rune r \<noteq> []"
  by (simp add: encode_rune_def Let_def)

lemma rune_error_width: "length (encode_rune rune_error) = 3"
  by (simp add: encode_rune_def rune_error_def)

section \<open>Valid strings\<close>

lemma utf8_valid_Nil [simp]: "utf8_valid []"
  by (simp add: utf8_valid.simps)

lemma utf8_valid_encode [simp]: "scalar r \<Longrightarrow> utf8_valid (encode_rune r @ t) = utf8_valid t"
  using rune_error_width
  by (subst utf8_valid.simps) (cases "r = rune_error"; simp add: decode_encode)

lemma utf8_induct [consumes 1, case_names Nil rune]:
  assumes "utf8_valid s" and "P []"
    and "\<And>r t. scalar r \<Longrightarrow> utf8_valid t \<Longrightarrow> P t \<Longrightarrow> P (encode_rune r @ t)"
  shows "P s"
  using assms(1)
proof (induction s rule: length_induct)
  case (1 s)
  show ?case
  proof (cases s)
    case Nil
    with assms(2) show ?thesis by simp
  next
    case (Cons a t)
    obtain r w where d: "decode_rune s = (r, w)" by fastforce
    have ok: "(r, w) \<noteq> (rune_error, 1)" and rest: "utf8_valid (drop w s)"
      using 1(2) utf8_valid.simps [of s] d Cons by (auto split: if_splits)
    have r: "scalar r" "take w s = encode_rune r" using encode_decode [of a t r w] d ok Cons by auto
    have "0 < w" using d Cons decode_rune_width_pos [of a t] by simp
    then have "length (drop w s) < length s" using Cons by simp
    with 1(1) rest have "P (drop w s)" by blast
    from assms(3) [OF r(1) rest this] show ?thesis by (metis r(2) append_take_drop_id)
  qed
qed

lemma utf8_valid_ascii: "list_all (\<lambda>c. byte c < 0x80) s \<Longrightarrow> utf8_valid s"
proof (induction s)
  case (Cons c s)
  then have "c # s = encode_rune (byte c) @ s" and "scalar (byte c)"
    by (simp_all add: encode_rune_def scalar_def)
  with Cons show ?case by (metis utf8_valid_encode list.pred_inject(2))
qed simp

lemma utf8_valid_ascii_Cons: "byte c < 0x80 \<Longrightarrow> utf8_valid (c # s) = utf8_valid s"
  using utf8_valid_encode [of "byte c" s] by (simp add: encode_rune_def scalar_def)

end
