(* ===== verification/Json_Roundtrip.thy ===== *)
theory Json_Roundtrip
  imports Json_Path_Facts Utf8_Facts
begin

text \<open>
  \<^verbatim>\<open>json.Marshal\<close> followed by \<^verbatim>\<open>json.Unmarshal\<close>: what the program writes as JSON, the reader reads back as
  the same value.
\<close>

section \<open>Strings\<close>

definition plain_char :: "char \<Rightarrow> bool" where
  "plain_char c \<longleftrightarrow> 32 \<le> byte c \<and> byte c \<noteq> 0x22 \<and> byte c \<noteq> 0x5C"

lemma lex_string_plain:
  "list_all plain_char p \<Longrightarrow> lex_string (p @ t) = map_option (\<lambda>(u, v). (p @ u, v)) (lex_string t)"
proof (induction p)
  case Nil
  then show ?case by (simp add: option.map_ident case_prod_beta')
next
  case (Cons c p)
  then have "c \<noteq> CHR 0x22" "c \<noteq> CHR 0x5C" "\<not> byte c < 32" by (auto simp: plain_char_def)
  with Cons show ?case by (simp add: option.map_comp comp_def case_prod_beta')
qed

lemma encode_rune_high:
  assumes "0x80 \<le> r" shows "list_all (\<lambda>c. 0x80 \<le> byte c) (encode_rune r)"
proof -
  have "128 + n mod 64 < (256 :: nat)" for n using mod_less_divisor [of 64 n] by linarith
  then show ?thesis using assms by (auto simp: encode_rune_def rune_error_def Let_def)
qed

lemma hex_fixed_4:
  "hex_fixed 4 r = [hex_digit (r div 4096 mod 16), hex_digit (r div 256 mod 16),
     hex_digit (r div 16 mod 16), hex_digit (r mod 16)]"
proof -
  have h: "hex_fixed (Suc (Suc (Suc (Suc 0)))) r = [hex_digit (r div 4096 mod 16), hex_digit (r div 256 mod 16),
     hex_digit (r div 16 mod 16), hex_digit (r mod 16)]"
    by (simp flip: div_mult2_eq)
  have four: "(4 :: nat) = Suc (Suc (Suc (Suc 0)))" by simp
  show ?thesis unfolding four by (rule h)
qed

lemma chr_consts:
  "chr 34 = CHR 0x22" "chr 92 = CHR 0x5C" "chr 8 = CHR 0x08" "chr 12 = CHR 0x0C" "chr 10 = CHR 0x0A"
  "chr 13 = CHR 0x0D" "chr 9 = CHR 0x09" "chr 48 = CHR ''0''"
  by code_simp+

lemma hex_digit_plain: "n < 16 \<Longrightarrow> plain_char (hex_digit n)"
  by (simp add: plain_char_def hex_digit_def)

lemma getu4_hex: "r < 65536 \<Longrightarrow> getu4 (CHR 0x5C # CHR ''u'' # hex_fixed 4 r @ t) = Some r"
proof -
  assume r: "r < 65536"
  let ?a = "r div 4096" and ?b = "r div 256 mod 16" and ?c = "r div 16 mod 16" and ?d = "r mod 16"
  have "r div 4096 < 16" using r by simp
  moreover have "((?a * 16 + ?b) * 16 + ?c) * 16 + ?d = r"
    using div_mult_mod_eq [of r 16] div_mult_mod_eq [of "r div 16" 16] div_mult_mod_eq [of "r div 256" 16]
    by (simp flip: div_mult2_eq)
  ultimately show ?thesis
    by (simp add: getu4_def hex_fixed_4 hex_val_digit algebra_simps)
qed

text \<open>What one escaped rune becomes in the reader.\<close>

lemma lex_escape_rune:
  "lex_string (json_escape_rune r @ t) = map_option (\<lambda>(u, v). (json_escape_rune r @ u, v)) (lex_string t)"
proof -
  consider "r \<in> {34, 92, 8, 12, 10, 13, 9}"
    | "r \<notin> {34, 92, 8, 12, 10, 13, 9}" "r < 32 \<or> r = 60 \<or> r = 62 \<or> r = 38 \<or> r = 0x2028 \<or> r = 0x2029"
    | "r \<notin> {34, 92, 8, 12, 10, 13, 9}" "\<not> (r < 32 \<or> r = 60 \<or> r = 62 \<or> r = 38 \<or> r = 0x2028 \<or> r = 0x2029)"
    by blast
  then show ?thesis
  proof cases
    case 1
    then show ?thesis
      by (elim insertE emptyE)
        (simp_all add: json_escape_rune_def chr_consts option.map_comp comp_def case_prod_beta')
  next
    case 2
    then have esc: "json_escape_rune r = CHR 0x5C # CHR ''u'' # hex_fixed 4 r"
      by (simp add: json_escape_rune_def)
    have plain: "list_all plain_char (hex_fixed 4 r)" by (simp add: hex_fixed_4 hex_digit_plain)
    have "lex_string (CHR 0x5C # CHR ''u'' # hex_fixed 4 r @ t)
      = map_option (\<lambda>(u, v). (CHR 0x5C # CHR ''u'' # u, v)) (lex_string (hex_fixed 4 r @ t))"
      by (simp add: hex_fixed_4)
    then show ?thesis
      by (simp add: esc lex_string_plain [OF plain] option.map_comp comp_def case_prod_beta')
  next
    case 3
    then have esc: "json_escape_rune r = encode_rune r" by (simp add: json_escape_rune_def)
    have "list_all plain_char (encode_rune r)"
    proof (cases "r < 0x80")
      case True
      with 3 show ?thesis by (simp add: encode_rune_def plain_char_def)
    next
      case False
      then show ?thesis using encode_rune_high [of r] by (auto simp: list_all_iff plain_char_def)
    qed
    then show ?thesis by (simp add: esc lex_string_plain)
  qed
qed

lemma unquote_escape_rune:
  assumes "scalar r"
  shows "unquote_json (json_escape_rune r @ t) = encode_rune r @ unquote_json t"
proof -
  consider "r \<in> {34, 92, 8, 12, 10, 13, 9}"
    | "r \<notin> {34, 92, 8, 12, 10, 13, 9}" "r < 32 \<or> r = 60 \<or> r = 62 \<or> r = 38 \<or> r = 0x2028 \<or> r = 0x2029"
    | "r \<notin> {34, 92, 8, 12, 10, 13, 9}" "\<not> (r < 32 \<or> r = 60 \<or> r = 62 \<or> r = 38 \<or> r = 0x2028 \<or> r = 0x2029)"
    by blast
  then show ?thesis
  proof cases
    case 1
    then show ?thesis
      by (elim insertE emptyE) (simp_all add: json_escape_rune_def getu4_def simple_escape_def encode_rune_def chr_consts)
  next
    case 2
    then have esc: "json_escape_rune r = CHR 0x5C # CHR ''u'' # hex_fixed 4 r"
      by (simp add: json_escape_rune_def)
    have "r < 65536" and "\<not> is_surrogate r" using 2 by (auto simp: is_surrogate_def)
    then have "getu4 (CHR 0x5C # CHR ''u'' # hex_fixed 4 r @ t) = Some r" by (intro getu4_hex)
    then show ?thesis
      using \<open>\<not> is_surrogate r\<close> by (simp add: esc hex_fixed_4)
  next
    case 3
    then have esc: "json_escape_rune r = encode_rune r" by (simp add: json_escape_rune_def)
    show ?thesis
    proof (cases "r < 0x80")
      case True
      with 3 have "chr r \<noteq> CHR 0x5C" by (auto dest!: arg_cong [of _ _ byte])
      with True show ?thesis by (simp add: esc encode_rune_def)
    next
      case False
      obtain c cs where c: "encode_rune r = c # cs" by (cases "encode_rune r") auto
      then have "0x80 \<le> byte c" using encode_rune_high [of r] False by simp
      then have "c \<noteq> CHR 0x5C" "\<not> byte c < 0x80" by auto
      moreover have "decode_rune (c # cs @ t) = (r, Suc (length cs))"
        using decode_encode [OF assms, of t] by (simp add: c)
      ultimately show ?thesis by (simp add: esc c)
    qed
  qed
qed

lemma marshal_content_rune:
  assumes "scalar r"
  shows "marshal_content (encode_rune r @ t) = json_escape_rune r @ marshal_content t"
proof (cases "r < 0x80")
  case True
  then show ?thesis by (simp add: encode_rune_def)
next
  case False
  obtain c cs where c: "encode_rune r = c # cs" by (cases "encode_rune r") auto
  then have high: "\<not> byte c < 0x80" using encode_rune_high [of r] False by simp
  have dec: "decode_rune (c # cs @ t) = (r, Suc (length cs))"
    using decode_encode [OF assms, of t] by (simp add: c)
  then have ne: "decode_rune (c # cs @ t) \<noteq> (rune_error, 1)"
    using rune_error_width c by auto
  show ?thesis
    unfolding c append_Cons
    by (subst marshal_content.simps(2)) (simp only: if_not_P [OF high] if_not_P [OF ne], simp add: dec)
qed

lemma lex_marshal_string:
  assumes "utf8_valid s"
  shows "lex_string (marshal_content s @ CHR 0x22 # t) = Some (marshal_content s, t)"
  using assms
proof (induction s rule: utf8_induct)
  case (rune r s)
  then show ?case by (simp add: marshal_content_rune lex_escape_rune)
qed simp

lemma unquote_marshal: "utf8_valid s \<Longrightarrow> unquote_json (marshal_content s) = s"
proof (induction s rule: utf8_induct)
  case (rune r s)
  then show ?case by (simp add: marshal_content_rune unquote_escape_rune)
qed simp

section \<open>Integers\<close>

definition number_end :: "string \<Rightarrow> bool" where
  "number_end t \<longleftrightarrow> (case t of [] \<Rightarrow> True | c # _ \<Rightarrow> \<not> is_digit c \<and> c \<notin> set ''.eE'')"

lemma nat_digits_digits: "list_all is_digit (nat_digits n) \<and> nat_digits n \<noteq> []
   \<and> (0 < n \<longrightarrow> hd (nat_digits n) \<noteq> CHR ''0'')"
proof (induction n rule: nat_digits.induct)
  case (1 n)
  show ?case
  proof (cases "n < 10")
    case True
    then show ?thesis
      by (auto simp: nat_digits.simps [of n] is_digit_def dest: arg_cong [of _ _ byte])
  next
    case False
    then have "0 < n div 10" by auto
    with 1 False show ?thesis by (simp add: nat_digits.simps [of n] is_digit_def)
  qed
qed

lemma digits_val_snoc: "digits_val (s @ [c]) = 10 * digits_val s + digit_val c"
  by (simp add: digits_val_def)

lemma digits_val_nat_digits: "digits_val (nat_digits n) = n"
proof (induction n rule: nat_digits.induct)
  case (1 n)
  show ?case
  proof (cases "n < 10")
    case True
    then show ?thesis by (simp add: nat_digits.simps [of n] digits_val_def digit_val_def)
  next
    case False
    with 1 show ?thesis by (simp add: nat_digits.simps [of n] digits_val_snoc digit_val_def)
  qed
qed

lemma lex_digits_nat_digits:
  assumes "number_end t"
  shows "lex_int (nat_digits n @ t) = Some (nat_digits n, t)"
proof (cases "n = 0")
  case True
  then show ?thesis by (simp add: nat_digits.simps lex_int_def chr_consts)
next
  case False
  note d = nat_digits_digits [of n]
  obtain c cs where c: "nat_digits n = c # cs" using d by (cases "nat_digits n") auto
  have "\<forall>x \<in> set (nat_digits n). is_digit x" using d by (simp add: list_all_iff)
  moreover have "takeWhile is_digit t = []" "dropWhile is_digit t = t"
    using assms by (cases t; simp add: number_end_def)+
  ultimately have "takeWhile is_digit (nat_digits n @ t) = nat_digits n" "dropWhile is_digit (nat_digits n @ t) = t"
    by (simp_all add: takeWhile_append2 dropWhile_append2)
  then show ?thesis using d c False by (simp add: lex_int_def lex_digits1_def Let_def)
qed

lemma lex_frac_end [simp]: "number_end t \<Longrightarrow> lex_frac t = Some ([], t)"
  by (cases t) (auto simp: lex_frac_def number_end_def)

lemma lex_exp_end [simp]: "number_end t \<Longrightarrow> lex_exp t = Some ([], t)"
  by (cases t) (auto simp: lex_exp_def number_end_def)

lemma lex_itoa:
  assumes "number_end t" shows "lex_number (itoa i @ t) = Some (itoa i, t)"
proof (cases "i < 0")
  case True
  then show ?thesis
    using assms by (simp add: itoa_def lex_number_def lex_sign_def lex_digits_nat_digits)
next
  case False
  note d = nat_digits_digits [of "nat i"]
  obtain c cs where c: "nat_digits (nat i) = c # cs" using d by (cases "nat_digits (nat i)") auto
  then have "c \<noteq> CHR ''-''" using d by (auto simp: is_digit_def)
  then have "lex_sign (nat_digits (nat i) @ t) = ([], nat_digits (nat i) @ t)" by (simp add: lex_sign_def c)
  with False assms show ?thesis by (simp add: itoa_def lex_number_def lex_digits_nat_digits)
qed

lemma parse_int_itoa:
  assumes "in_int64 i" shows "parse_int (itoa i) = Some i"
proof (cases "i < 0")
  case True
  then show ?thesis
    using assms nat_digits_digits [of "nat (- i)"] by (simp add: parse_int_def itoa_def digits_val_nat_digits)
next
  case False
  note d = nat_digits_digits [of "nat i"]
  obtain c cs where c: "nat_digits (nat i) = c # cs" using d by (cases "nat_digits (nat i)") auto
  then have "c \<noteq> CHR ''-''" "c \<noteq> CHR ''+''" using d by (auto simp: is_digit_def)
  with False assms d show ?thesis
    using digits_val_nat_digits [of "nat i"] by (simp add: parse_int_def itoa_def c)
qed

section \<open>Values\<close>

text \<open>
  Values whose JSON is read back: strings are valid UTF-8, integers fit 64 bits, and the keys of an object
  are distinct. A \<^verbatim>\<open>json.Number\<close> and a double must print as a JSON number.
\<close>

definition number_text :: "string \<Rightarrow> bool" where
  "number_text n \<longleftrightarrow> n \<noteq> [] \<and> (hd n = CHR ''-'' \<or> is_digit (hd n))
     \<and> (\<forall>t. number_end t \<longrightarrow> lex_number (n @ t) = Some (n, t))"

fun clean :: "(f64 \<Rightarrow> string) \<Rightarrow> gval \<Rightarrow> bool" where
  "clean ff (GNumber n) = number_text n"
| "clean ff (GInt i) = in_int64 i"
| "clean ff (GFloat f) = number_text (ff f)"
| "clean ff (GStr s) = utf8_valid s"
| "clean ff (GArr vs) = list_all (clean ff) vs"
| "clean ff (GObj ms) = (distinct_keys ms \<and> list_all (\<lambda>(k, v). utf8_valid k \<and> clean ff v) ms)"
| "clean ff v = True"

text \<open>The nesting depth, and the tree with the text of every element that the reader gives.\<close>

fun gdepth :: "gval \<Rightarrow> int" where
  "gdepth (GArr vs) = 1 + foldr (\<lambda>v. max (gdepth v)) vs 0"
| "gdepth (GObj ms) = 1 + foldr (\<lambda>(k, v). max (gdepth v)) ms 0"
| "gdepth v = 0"

fun read_back :: "(f64 \<Rightarrow> string) \<Rightarrow> gval \<Rightarrow> json" where
  "read_back ff GNil = JNull"
| "read_back ff (GBool b) = JBool b"
| "read_back ff (GNumber n) = JNum n"
| "read_back ff (GInt i) = JNum (itoa i)"
| "read_back ff (GFloat f) = JNum (ff f)"
| "read_back ff (GStr s) = JStr s"
| "read_back ff (GArr vs) = JArr (map (\<lambda>v. (marshal ff v, read_back ff v)) vs)"
| "read_back ff (GObj ms) = JObj (sort_keys (map (\<lambda>(k, v). (k, marshal ff v, read_back ff v)) ms))"

lemma foldr_max_le: "foldr (\<lambda>v. max (f v)) vs (0 :: int) \<le> d \<longleftrightarrow> 0 \<le> d \<and> (\<forall>v \<in> set vs. f v \<le> d)"
  by (induction vs) auto

lemma gdepth_members: "gdepth (GObj ms) = 1 + foldr (\<lambda>v. max (gdepth v)) (map snd ms) 0"
  by (simp add: foldr_map comp_def case_prod_beta')

lemma number_text_itoa: "number_text (itoa i)"
proof -
  have "hd (itoa i) = CHR ''-'' \<or> is_digit (hd (itoa i))" and "itoa i \<noteq> []"
    using nat_digits_digits [of "nat i"] nat_digits_digits [of "nat (- i)"]
    by (auto simp: itoa_def list_all_iff)
  then show ?thesis using lex_itoa by (auto simp: number_text_def)
qed

text \<open>No value starts with white space or with a character that ends a list or separates members.\<close>

definition value_start :: "char \<Rightarrow> bool" where
  "value_start c \<longleftrightarrow> \<not> json_ws c \<and> c \<notin> set '']},:''"

lemma value_start_consts [simp]: "value_start (CHR 0x22)" "value_start (CHR ''{'')" "value_start (CHR ''['')"
  "value_start (CHR ''t'')" "value_start (CHR ''f'')" "value_start (CHR ''n'')" "value_start (CHR ''-'')"
  by (simp_all add: value_start_def json_ws_def)

lemma value_start_digit: "is_digit c \<Longrightarrow> value_start c"
  by (auto simp: value_start_def json_ws_def is_digit_def)

lemma number_text_start: "number_text n \<Longrightarrow> \<exists>c cs. n = c # cs \<and> value_start c"
  by (cases n) (auto simp: number_text_def value_start_digit)

lemma marshal_start: "clean ff v \<Longrightarrow> \<exists>c cs. marshal ff v = c # cs \<and> value_start c"
  using number_text_start [of "itoa i" for i] number_text_itoa number_text_start
  by (cases v) (auto simp: marshal_string_def)

lemma skip_ws_start [simp]: "value_start c \<Longrightarrow> skip_ws (c # s) = c # s"
  by (simp add: skip_ws_def value_start_def)

lemma json_value_number:
  assumes "number_text n" and "number_end t"
  shows "json_value (Suc f) d (n @ t) = Some (JNum n, t)"
proof -
  obtain c cs where c: "n = c # cs" using assms by (cases n) (auto simp: number_text_def)
  have "lex_number (c # cs @ t) = Some (c # cs, t)" using assms by (auto simp: number_text_def c)
  moreover have "c \<noteq> CHR ''{''" "c \<noteq> CHR ''[''" "c \<noteq> CHR 0x22" "CHR ''t'' \<noteq> c" "CHR ''f'' \<noteq> c" "CHR ''n'' \<noteq> c"
    using assms by (auto simp: number_text_def c is_digit_def)
  ultimately show ?thesis by (simp add: c json_atom_def)
qed

section \<open>Lists and members\<close>

definition reads_back :: "(f64 \<Rightarrow> string) \<Rightarrow> gval \<Rightarrow> int \<Rightarrow> bool" where
  "reads_back ff v d \<longleftrightarrow>
     (\<forall>f t. 2 * length (marshal ff v @ t) \<le> f \<longrightarrow> number_end t
        \<longrightarrow> json_value f d (marshal ff v @ t) = Some (read_back ff v, t))"

lemma text_before_append [simp]: "text_before (s @ t) t = s"
  by (simp add: text_before_def)

lemma number_end_punct [simp]: "number_end (CHR '','' # t)" "number_end (CHR '']'' # t)"
  "number_end (CHR ''}'' # t)" "number_end []"
  by (simp_all add: number_end_def is_digit_def)

lemma skip_ws_punct [simp]: "skip_ws (CHR '','' # t) = CHR '','' # t" "skip_ws (CHR '']'' # t) = CHR '']'' # t"
  "skip_ws (CHR ''}'' # t) = CHR ''}'' # t" "skip_ws (CHR '':'' # t) = CHR '':'' # t"
  by (simp_all add: skip_ws_def json_ws_def)

lemma skip_ws_marshal: "clean ff v \<Longrightarrow> skip_ws (marshal ff v @ t) = marshal ff v @ t"
  using marshal_start [of ff v] by auto

definition array_text :: "(f64 \<Rightarrow> string) \<Rightarrow> gval list \<Rightarrow> string" where
  "array_text ff vs = join_with '','' (map (marshal ff) vs)"

definition read_items :: "(f64 \<Rightarrow> string) \<Rightarrow> gval list \<Rightarrow> (string \<times> json) list" where
  "read_items ff vs = map (\<lambda>v. (marshal ff v, read_back ff v)) vs"

lemma json_elems_back:
  "\<forall>v \<in> set vs. clean ff v \<and> reads_back ff v d \<Longrightarrow> vs \<noteq> [] \<Longrightarrow>
   2 * length (array_text ff vs @ CHR '']'' # t) < f \<Longrightarrow>
   json_elems f d (array_text ff vs @ CHR '']'' # t) = Some (read_items ff vs, t)"
proof (induction vs arbitrary: f)
  case (Cons v vs)
  obtain g where f: "f = Suc g" using Cons.prems(3) by (cases f) auto
  have cl: "clean ff v" and rb: "reads_back ff v d" using Cons.prems(1) by auto
  show ?case
  proof (cases vs)
    case Nil
    have "json_value g d (marshal ff v @ CHR '']'' # t) = Some (read_back ff v, CHR '']'' # t)"
      using rb Cons.prems(3) Nil by (simp add: reads_back_def array_text_def f)
    with Nil show ?thesis by (simp add: f array_text_def read_items_def)
  next
    case (Cons w ws)
    let ?rest = "array_text ff vs @ CHR '']'' # t"
    have wr: "array_text ff (v # vs) = marshal ff v @ CHR '','' # array_text ff vs"
      by (simp add: array_text_def Cons)
    have "json_value g d (marshal ff v @ CHR '','' # ?rest) = Some (read_back ff v, CHR '','' # ?rest)"
      using rb Cons.prems(3) by (simp add: reads_back_def wr f)
    moreover have "skip_ws ?rest = ?rest"
      using Cons.prems(1) Cons skip_ws_marshal [of ff w] by (cases ws) (auto simp: array_text_def)
    moreover have "2 * length ?rest < g" using Cons.prems(3) by (simp add: wr f)
    then have "json_elems g d ?rest = Some (read_items ff vs, t)"
      using Cons.prems(1) Cons by (intro Cons.IH) auto
    ultimately show ?thesis by (simp add: f wr read_items_def)
  qed
qed simp

definition member_text :: "(f64 \<Rightarrow> string) \<Rightarrow> string \<times> gval \<Rightarrow> string" where
  "member_text ff m = marshal_string (fst m) @ CHR '':'' # marshal ff (snd m)"

definition object_text :: "(f64 \<Rightarrow> string) \<Rightarrow> (string \<times> gval) list \<Rightarrow> string" where
  "object_text ff ms = join_with '','' (map (member_text ff) ms)"

lemma object_text_start: "ms \<noteq> [] \<Longrightarrow> \<exists>s. object_text ff ms = CHR 0x22 # s"
  by (cases ms rule: remdups_adj.cases) (simp_all add: object_text_def member_text_def marshal_string_def)

definition read_members :: "(f64 \<Rightarrow> string) \<Rightarrow> (string \<times> gval) list \<Rightarrow> (string \<times> string \<times> json) list" where
  "read_members ff ms = map (\<lambda>(k, v). (k, marshal ff v, read_back ff v)) ms"

lemma json_members_back:
  "\<forall>(k, v) \<in> set ms. utf8_valid k \<and> clean ff v \<and> reads_back ff v d \<Longrightarrow> ms \<noteq> [] \<Longrightarrow>
   2 * length (object_text ff ms @ CHR ''}'' # t) < f \<Longrightarrow>
   json_members f d (object_text ff ms @ CHR ''}'' # t) = Some (read_members ff ms, t)"
proof (induction ms arbitrary: f)
  case (Cons m ms)
  obtain k v where m: "m = (k, v)" by (cases m)
  obtain g where f: "f = Suc g" using Cons.prems(3) by (cases f) auto
  have key: "utf8_valid k" and cl: "clean ff v" and rb: "reads_back ff v d" using Cons.prems(1) m by auto
  let ?rest = "object_text ff ms @ CHR ''}'' # t"
  let ?tail = "if ms = [] then CHR ''}'' # t else CHR '','' # ?rest"
  have wr: "object_text ff (m # ms) @ CHR ''}'' # t
      = CHR 0x22 # marshal_content k @ CHR 0x22 # CHR '':'' # marshal ff v @ ?tail"
    by (cases ms) (simp_all add: object_text_def member_text_def marshal_string_def m)
  have "2 * length (marshal ff v @ ?tail) \<le> g" using Cons.prems(3) by (simp only: wr f) (simp split: if_splits)
  then have val: "json_value g d (marshal ff v @ ?tail) = Some (read_back ff v, ?tail)"
    using rb by (auto simp: reads_back_def)
  have rest: "ms \<noteq> [] \<Longrightarrow> skip_ws ?rest = ?rest"
    using object_text_start [of ms ff] by auto
  have "ms \<noteq> [] \<Longrightarrow> json_members g d ?rest = Some (read_members ff ms, t)"
    using Cons.prems by (intro Cons.IH) (auto simp only: wr f, auto)
  with val rest show ?case
    unfolding wr f
    by (cases "ms = []")
      (simp_all add: lex_marshal_string [OF key] unquote_marshal [OF key] skip_ws_marshal [OF cl] read_members_def m)
qed simp

section \<open>The round trip\<close>

lemma marshal_object:
  "marshal ff (GObj ms) = ''{'' @ object_text ff (sort_keys ms) @ ''}''"
proof -
  have "member_text ff = (\<lambda>(k, v). marshal_string k @ '':'' @ marshal ff v)"
    by (auto simp: member_text_def)
  then show ?thesis unfolding marshal.simps sort_keys_map object_text_def
    by (simp add: comp_def case_prod_beta')
qed

lemma marshal_array: "marshal ff (GArr vs) = ''['' @ array_text ff vs @ '']''"
  by (simp add: array_text_def)

lemma array_text_start:
  "vs \<noteq> [] \<Longrightarrow> list_all (clean ff) vs \<Longrightarrow> \<exists>c s. array_text ff vs = c # s \<and> value_start c"
  using marshal_start [of ff "hd vs"]
  by (cases vs rule: remdups_adj.cases) (auto simp: array_text_def)

lemma json_value_atoms:
  assumes "0 < f"
  shows "json_value f d (CHR ''n'' # CHR ''u'' # CHR ''l'' # CHR ''l'' # t) = Some (JNull, t)"
    and "json_value f d (CHR ''t'' # CHR ''r'' # CHR ''u'' # CHR ''e'' # t) = Some (JBool True, t)"
    and "json_value f d (CHR ''f'' # CHR ''a'' # CHR ''l'' # CHR ''s'' # CHR ''e'' # t) = Some (JBool False, t)"
    and "number_text n \<Longrightarrow> number_end t \<Longrightarrow> json_value f d (n @ t) = Some (JNum n, t)"
    and "utf8_valid x \<Longrightarrow> json_value f d (marshal_string x @ t) = Some (JStr x, t)"
  using assms
  by (cases f; simp add: json_atom_def json_value_number marshal_string_def lex_marshal_string unquote_marshal)+

lemma reads_back_atom:
  assumes "clean ff v"
    and "\<And>f t. 0 < f \<Longrightarrow> number_end t \<Longrightarrow> json_value f d (marshal ff v @ t) = Some (read_back ff v, t)"
  shows "reads_back ff v d"
proof -
  have "0 < length (marshal ff v)" using marshal_start [OF assms(1)] by auto
  with assms(2) show ?thesis unfolding reads_back_def by (metis length_append add_gr_0 mult_pos_pos less_le_trans zero_less_numeral)
qed

theorem json_read_back:
  "clean ff v \<Longrightarrow> gdepth v \<le> d \<Longrightarrow> reads_back ff v d"
proof (induction v arbitrary: d)
  case (GArr vs)
  have sub: "\<forall>v \<in> set vs. clean ff v \<and> reads_back ff v (d - 1)" and d: "0 < d"
    using GArr foldr_max_le [of gdepth vs "d - 1"] by (auto simp: list_all_iff)
  show ?case
    unfolding reads_back_def
  proof (intro allI impI)
    fix f t
    assume len: "2 * length (marshal ff (GArr vs) @ t) \<le> f"
    then obtain g where f: "f = Suc g" by (cases f) auto
    show "json_value f d (marshal ff (GArr vs) @ t) = Some (read_back ff (GArr vs), t)"
    proof (cases "vs = []")
      case True
      with d show ?thesis by (simp add: f)
    next
      case False
      obtain c s where c: "array_text ff vs = c # s" "value_start c"
        using array_text_start [OF False, of ff] GArr.prems by auto
      have "2 * length (array_text ff vs @ CHR '']'' # t) < g" using len by (simp only: marshal_array f) simp
      from json_elems_back [OF sub False this] show ?thesis
        using c d by (simp only: marshal_array f) (simp add: read_items_def value_start_def)
    qed
  qed
next
  case (GObj ms)
  have sub: "\<forall>(k, v) \<in> set (sort_keys ms). utf8_valid k \<and> clean ff v \<and> reads_back ff v (d - 1)" and d: "0 < d"
    using GObj foldr_max_le [of gdepth "map snd ms" "d - 1"]
    by (fastforce simp: list_all_iff gdepth_members simp del: gdepth.simps)+
  show ?case
    unfolding reads_back_def
  proof (intro allI impI)
    fix f t
    assume len: "2 * length (marshal ff (GObj ms) @ t) \<le> f"
    then obtain g where f: "f = Suc g" by (cases f) auto
    show "json_value f d (marshal ff (GObj ms) @ t) = Some (read_back ff (GObj ms), t)"
    proof (cases "ms = []")
      case True
      with d show ?thesis by (simp add: f sort_keys_def)
    next
      case False
      then have ne: "sort_keys ms \<noteq> []" by (metis length_0_conv length_sort_keys)
      obtain s where c: "object_text ff (sort_keys ms) = CHR 0x22 # s" using object_text_start [OF ne] by blast
      have "2 * length (object_text ff (sort_keys ms) @ CHR ''}'' # t) < g" using len by (simp only: marshal_object f) simp
      from json_members_back [OF sub ne this] show ?thesis
        using c d by (simp only: marshal_object f) (simp add: read_members_def sort_keys_map)
    qed
  qed
qed (rule reads_back_atom; auto intro!: json_value_atoms number_text_itoa)+

section \<open>Typed readers\<close>

lemma decode_stream_marshal:
  assumes "clean ff v" and "gdepth v \<le> max_nesting_depth"
  shows "decode_stream (marshal ff v) = Some (read_back ff v, [])"
proof -
  have rb: "2 * length (marshal ff v @ t) \<le> f \<Longrightarrow> number_end t \<Longrightarrow>
      json_value f max_nesting_depth (marshal ff v @ t) = Some (read_back ff v, t)" for f t
    using json_read_back [OF assms] unfolding reads_back_def by blast
  from rb [of "[]" "json_fuel (marshal ff v)"] skip_ws_marshal [OF assms(1), of "[]"] show ?thesis
    by (simp add: decode_stream_def json_fuel_def)
qed

lemma json_parse_marshal:
  assumes "clean ff v" and "gdepth v \<le> max_nesting_depth"
  shows "json_parse (marshal ff v) = Some (read_back ff v)"
  using decode_stream_marshal [OF assms] by (simp add: json_parse_def skip_ws_def)

lemma foldl_aput_append:
  "distinct_keys (m @ kvs) \<Longrightarrow> foldl (\<lambda>m (k, v). aput k v m) m kvs = m @ kvs"
proof (induction kvs arbitrary: m)
  case (Cons p kvs)
  obtain k v where p: "p = (k, v)" by (cases p)
  have "k \<notin> fst ` set m" using Cons.prems by (auto simp: p)
  then have "aput k v m = m @ [(k, v)]" by (induction m) auto
  then show ?case using Cons.IH [of "m @ [(k, v)]"] Cons.prems by (simp add: p)
qed simp

lemma amap_of_list_distinct: "distinct_keys kvs \<Longrightarrow> amap_of_list kvs = kvs"
  using foldl_aput_append [of "[]" kvs] by (simp add: amap_of_list_def)

definition member_texts :: "(f64 \<Rightarrow> string) \<Rightarrow> (string \<times> gval) list \<Rightarrow> (string \<times> string) list" where
  "member_texts ff ms = map (\<lambda>(k, v). (k, marshal ff v)) (sort_keys ms)"

lemma distinct_sort_keys [simp]: "distinct_keys (sort_keys ms) = distinct_keys ms"
  by (metis mset_eq_imp_distinct_iff mset_map mset_sort_keys)

lemma members_of_read_back:
  assumes "distinct_keys ms"
  shows "members_of (sort_keys (map (\<lambda>(k, v). (k, marshal ff v, read_back ff v)) ms)) = member_texts ff ms"
proof -
  have eq: "map (\<lambda>(k, t, v). (k, t)) (sort_keys (map (\<lambda>(k, v). (k, marshal ff v, read_back ff v)) ms))
      = member_texts ff ms"
    unfolding sort_keys_map [of "\<lambda>v. (marshal ff v, read_back ff v)"] member_texts_def
    by (simp add: comp_def case_prod_beta')
  have "map fst (member_texts ff ms) = map fst (sort_keys ms)" by (auto simp: member_texts_def)
  with assms have "distinct_keys (member_texts ff ms)" by simp
  then show ?thesis unfolding members_of_def eq by (rule amap_of_list_distinct)
qed

lemma map_of_member_texts:
  assumes "distinct_keys ms"
  shows "map_of (member_texts ff ms) k = map_option (marshal ff) (map_of ms k)"
proof -
  have "map_of (map (\<lambda>(k, v). (k, marshal ff v)) (sort_keys ms)) k = map_option (marshal ff) (map_of (sort_keys ms) k)"
    by (induction "sort_keys ms") (auto simp: map_of_map)
  then show ?thesis using map_of_sort_keys [OF assms] by (simp add: member_texts_def)
qed

lemma unmarshal_object_marshal:
  assumes "clean ff (GObj ms)" and "gdepth (GObj ms) \<le> max_nesting_depth"
  shows "unmarshal_object (marshal ff (GObj ms)) = Some (member_texts ff ms)"
proof -
  have "json_parse (marshal ff (GObj ms)) = Some (read_back ff (GObj ms))"
    using assms by (rule json_parse_marshal)
  moreover have "distinct_keys ms" using assms(1) by simp
  ultimately show ?thesis
    by (simp add: unmarshal_object_def members_of_read_back del: marshal.simps)
qed

lemma unmarshal_marshal_string: "utf8_valid s \<Longrightarrow> unmarshal_string (marshal_string s) = Some s"
  using json_parse_marshal [of undefined "GStr s"] by (simp add: unmarshal_string_def max_nesting_depth_def)

lemma unmarshal_marshal_bool: "unmarshal_bool (marshal ff (GBool b)) = Some b"
  using json_parse_marshal [of ff "GBool b"] by (simp add: unmarshal_bool_def max_nesting_depth_def)

lemma unmarshal_marshal_int: "in_int64 i \<Longrightarrow> unmarshal_int (itoa i) = Some i"
  using json_parse_marshal [of undefined "GInt i"]
  by (simp add: unmarshal_int_def max_nesting_depth_def parse_int_itoa)

lemma unmarshal_marshal_array:
  assumes "clean ff (GArr vs)" and "gdepth (GArr vs) \<le> max_nesting_depth"
  shows "unmarshal_array (marshal ff (GArr vs)) = Some (map (marshal ff) vs)"
  using json_parse_marshal [OF assms] by (simp add: unmarshal_array_def comp_def del: marshal.simps)

lemma all_some_map_Some [simp]: "all_some (map Some xs) = Some xs"
  by (simp add: all_some_Some)

lemma unmarshal_marshal_strings:
  assumes "list_all utf8_valid ss"
  shows "unmarshal_strings (marshal ff (GArr (map GStr ss))) = Some ss"
    and "unmarshal_string (marshal ff (GArr (map GStr ss))) = None"
proof -
  have "foldr (\<lambda>v. max (gdepth v)) (map GStr ss) 0 \<le> 0"
    using foldr_max_le [of gdepth "map GStr ss" 0] by auto
  then have p: "json_parse (marshal ff (GArr (map GStr ss))) = Some (read_back ff (GArr (map GStr ss)))"
    using assms by (intro json_parse_marshal) (simp_all add: list_all_iff max_nesting_depth_def)
  have m: "all_some (map (\<lambda>s. unmarshal_string_elem (marshal_string s, JStr s)) ss) = Some ss"
    by (simp add: unmarshal_string_elem_def)
  show "unmarshal_string (marshal ff (GArr (map GStr ss))) = None"
    using p by (simp add: unmarshal_string_def del: marshal.simps)
  show "unmarshal_strings (marshal ff (GArr (map GStr ss))) = Some ss"
    using p m by (simp add: unmarshal_strings_def comp_def del: marshal.simps(7))
qed

section \<open>Texts that are there\<close>

text \<open>A text that starts and ends with a visible ASCII character is trimmed by nothing.\<close>

definition visible :: "char \<Rightarrow> bool" where
  "visible c \<longleftrightarrow> 33 \<le> byte c \<and> byte c < 127"

lemma trim_left_none:
  assumes "visible c" and "\<forall>e \<in> set es. e \<noteq> [] \<longrightarrow> \<not> visible (hd e)"
  shows "trim_left_by es (c # s) = c # s"
proof -
  have "find (\<lambda>e. e \<noteq> [] \<and> prefix e (c # s)) es = None"
    using assms by (auto simp: find_None_iff prefix_def Cons_eq_append_conv)
  then show ?thesis by (simp add: trim_left_by.simps)
qed

lemma space_starts: "\<forall>e \<in> set space_encodings. e \<noteq> [] \<longrightarrow> \<not> visible (hd e)"
  "\<forall>e \<in> set (map rev space_encodings). e \<noteq> [] \<longrightarrow> \<not> visible (hd e)"
  by code_simp+

lemma trim_space_visible:
  assumes "s \<noteq> []" and "visible (hd s)" and "visible (last s)"
  shows "trim_space s = s"
proof -
  obtain c u where c: "s = c # u" using assms(1) by (cases s) auto
  obtain d v where d: "rev s = d # v" using assms(1) by (cases "rev s") auto
  have "d = last s" using d assms(1) by (metis hd_rev list.sel(1))
  then have "trim_left_by (map rev space_encodings) (rev s) = rev s"
    unfolding d using trim_left_none [OF _ space_starts(2), of d v] assms(3) by simp
  moreover have "trim_left_by space_encodings s = s"
    using trim_left_none [OF _ space_starts(1), of c u] assms(2) c by simp
  ultimately show ?thesis by (simp add: trim_space_def)
qed

lemma raw_present:
  assumes "s \<noteq> []" and "visible (hd s)" and "visible (last s)" and "hd s \<noteq> CHR ''n''"
  shows "\<not> raw_absent (Some s)"
  using trim_space_visible [OF assms(1-3)] assms(1,4) by (auto simp: raw_absent_def raw_is_null_def)

lemma raw_present_values [simp]:
  "\<not> raw_absent (Some (marshal_string s))" "\<not> raw_absent (Some (marshal ff (GObj ms)))"
  "\<not> raw_absent (Some (marshal ff (GArr vs)))" "\<not> raw_absent (Some (marshal ff (GBool b)))"
  "\<not> raw_absent (Some (itoa i))"
proof -
  show "\<not> raw_absent (Some (itoa i))"
  proof (rule raw_present)
    have digit: "is_digit c \<Longrightarrow> visible c" for c by (simp add: is_digit_def visible_def)
    have minus: "visible (CHR ''-'')" by (simp add: visible_def)
    have "\<forall>c \<in> set (itoa i). visible c"
      using nat_digits_digits [of "nat i"] nat_digits_digits [of "nat (- i)"] digit minus
      by (auto simp: itoa_def list_all_iff)
    moreover show "itoa i \<noteq> []" using number_text_itoa [of i] by (simp add: number_text_def)
    ultimately show "visible (hd (itoa i))" "visible (last (itoa i))" by simp_all
    show "hd (itoa i) \<noteq> CHR ''n''" using number_text_itoa [of i] by (auto simp: number_text_def is_digit_def)
  qed
qed (rule raw_present; simp add: marshal_string_def visible_def)+

end
