(* ===== verification/Record_Replay.thy ===== *)
theory Record_Replay
  imports Recording_Store Runtime_Facts Json_Roundtrip
begin

text \<open>
  Recording and replaying: the mapping that the recorder builds from a served request is accepted by the
  parser, matches that request, and renders the response that was recorded.
\<close>

section \<open>Text\<close>

lemma utf8_valid_append: "utf8_valid s \<Longrightarrow> utf8_valid (s @ t) = utf8_valid t"
  by (induction s rule: utf8_induct) simp_all

declare utf8_valid_ascii_Cons [simp]

lemma utf8_valid_base64 [simp]: "utf8_valid (base64_encode s)"
proof (rule utf8_valid_ascii)
  have "byte (sextet_char n) < 0x80" for n by (auto simp: sextet_char_def)
  then show "list_all (\<lambda>c. byte c < 0x80) (base64_encode s)"
    by (induction s rule: base64_encode.induct) simp_all
qed

lemma equal_fold_to_upper [simp]: "equal_fold (to_upper s) s"
  by (simp add: equal_fold_upper)

lemma to_upper_Nil_iff [simp]: "to_upper s = [] \<longleftrightarrow> s = []"
  by (simp add: to_upper_def)

section \<open>Fields read back\<close>

lemma string_field_back:
  assumes "map_of obj k = Some (marshal ff (GStr s))" and "utf8_valid s"
  shows "string_field obj k = Ok s"
  using assms by (simp add: string_field_def typed_field_def unmarshal_marshal_string)

lemma string_field_missing: "map_of obj k = None \<Longrightarrow> string_field obj k = Ok []"
  by (simp add: string_field_def typed_field_def raw_absent_def)

lemma int_field_back:
  assumes "map_of obj k = Some (marshal ff (GInt i))" and "in_int64 i"
  shows "int_field obj k d = Ok i"
  using assms by (simp add: int_field_def typed_field_def unmarshal_marshal_int)

lemma int_field_missing: "map_of obj k = None \<Longrightarrow> int_field obj k d = Ok d"
  by (simp add: int_field_def typed_field_def raw_absent_def)

lemma bool_field_back: "map_of obj k = Some (marshal ff (GBool b)) \<Longrightarrow> bool_field obj k = Ok b"
  by (simp only: bool_field_def typed_field_def raw_present_values) (simp add: unmarshal_marshal_bool del: marshal.simps)

lemma strings_field_missing: "map_of obj k = None \<Longrightarrow> parse_string_array_field obj k = Ok []"
  by (simp add: parse_string_array_field_def typed_field_def raw_absent_def)

lemmas fields_missing = string_field_missing int_field_missing strings_field_missing

section \<open>Headers of the request\<close>

definition clean_headers :: "header_map \<Rightarrow> bool" where
  "clean_headers h \<longleftrightarrow> distinct_keys h \<and> (\<forall>(k, vs) \<in> set h. utf8_valid k \<and> list_all utf8_valid vs)"

definition canonical_headers :: "header_map \<Rightarrow> bool" where
  "canonical_headers h \<longleftrightarrow> (\<forall>(k, vs) \<in> set h. canonical_header_key k = k \<and> list_all token_byte k)"

text \<open>The captured headers with the values a replayed request must have.\<close>

definition captured_values :: "header_map \<Rightarrow> raw_map \<Rightarrow> (string \<times> string) list" where
  "captured_values headers capture =
     filter (\<lambda>(name, value). value \<noteq> []) (map (\<lambda>(name, _). (name, header_value headers name)) capture)"

definition equal_to :: "string \<times> string \<Rightarrow> string \<times> gval" where
  "equal_to c = (fst c, GObj [(''equalTo'', GStr (snd c))])"

lemma header_value_Nil [simp]: "header_value [] name = []"
  by (simp add: header_value_def header_get_def)

lemma captured_headers_eq: "captured_request_headers headers capture = map equal_to (captured_values headers capture)"
proof (cases "headers = [] \<or> capture = []")
  case True
  then show ?thesis by (auto simp: captured_request_headers_def captured_values_def filter_empty_conv)
next
  case False
  have "concat (map (\<lambda>(name, _). (let value = header_value headers name in
          if value \<noteq> [] then [(name, GObj [(''equalTo'', GStr value)])] else [])) cs)
      = map equal_to (captured_values headers cs)" for cs
    by (induction cs) (auto simp: captured_values_def equal_to_def Let_def)
  with False show ?thesis by (simp add: captured_request_headers_def)
qed

lemma header_value_lookup:
  assumes "canonical_headers h" and "distinct_keys h" and "header_value h name \<noteq> []"
  shows "\<exists>vs. header_lookup h name = Some vs \<and> header_value h name \<in> set vs"
proof (cases "header_get h name = []")
  case False
  then obtain v vs where "map_of h (canonical_header_key name) = Some (v # vs)" and "v \<noteq> []"
    by (auto simp: header_get_def split: option.splits list.splits)
  then show ?thesis by (simp add: header_lookup_def header_value_def header_get_def)
next
  case True
  then obtain cand vs where f: "find (\<lambda>(candidate, values). equal_fold candidate name \<and> 0 < length values) h = Some (cand, vs)"
    using assms(3) by (auto simp: header_value_def split: option.splits)
  then have "(cand, vs) \<in> set h" and eq: "equal_fold cand name" and "vs \<noteq> []" by (auto dest: find_Some_in)
  then have "canonical_header_key name = cand" and m: "map_of h cand = Some vs"
    using assms(1,2) canonical_header_key_fold [OF _ eq] by (auto simp: canonical_headers_def)
  with True f \<open>vs \<noteq> []\<close> have "header_value h name = []"
    by (cases vs) (auto simp: header_value_def header_get_def)
  with assms(3) show ?thesis by simp
qed

lemma captured_match:
  assumes "canonical_headers h" and "distinct_keys h"
  shows "match_headers (sort_keys (captured_values h capture)) h"
  using header_value_lookup [OF assms] by (auto simp: match_headers_iff captured_values_def)

lemma clean_captured:
  assumes "clean_headers h" and "distinct_keys capture" and "\<forall>k \<in> fst ` set capture. utf8_valid k"
  shows "distinct_keys (captured_values h capture)
    \<and> (\<forall>(k, v) \<in> set (captured_values h capture). utf8_valid k \<and> utf8_valid v)"
proof -
  have val: "utf8_valid (header_value h name)" for name
  proof -
    have get: "utf8_valid (header_get h name)"
      using assms(1) by (auto simp: header_get_def clean_headers_def split: option.split list.split dest!: map_of_SomeD)
    moreover have "utf8_valid v" if "find P h = Some (k, v # vs)" for P k v vs
      using assms(1) find_Some_in [OF that] by (auto simp: clean_headers_def)
    ultimately show ?thesis by (auto simp: header_value_def split: option.split list.split)
  qed
  have "map fst (map (\<lambda>(name, _). (name, header_value h name)) capture) = map fst capture" by auto
  then have "distinct_keys (map (\<lambda>(name, _). (name, header_value h name)) capture)"
    using assms(2) by (simp only:)
  then have "distinct_keys (captured_values h capture)"
    unfolding captured_values_def by (rule distinct_map_filter)
  moreover have "\<forall>(k, v) \<in> set (captured_values h capture). utf8_valid k \<and> utf8_valid v"
    using assms(3) val by (auto simp: captured_values_def)
  ultimately show ?thesis by blast
qed

text \<open>An object of \<^verbatim>\<open>equalTo\<close> matchers is read back as the map it was made of.\<close>

lemma map_res_map: "(\<And>x. x \<in> set xs \<Longrightarrow> f (g x) = Ok (h x)) \<Longrightarrow> map_res f (map g xs) = Ok (map h xs)"
  by (induction xs) auto

lemma gdepth_equal_to: "gdepth (GObj (map equal_to cs)) \<le> 2"
  using foldr_max_le [of gdepth "map snd (map equal_to cs)" 1] unfolding gdepth_members
  by (auto simp: equal_to_def)

lemma parse_equal_to_back:
  assumes "distinct_keys cs" and "\<forall>(k, v) \<in> set cs. utf8_valid k \<and> utf8_valid v"
  shows "parse_equal_to_map (Some (marshal ff (GObj (map equal_to cs)))) field = Ok (sort_keys cs)"
proof -
  have keys: "map fst (map equal_to cs) = map fst cs" by (simp add: equal_to_def)
  have clean: "clean ff (GObj (map equal_to cs))"
    using assms(2) by (auto simp: list_all_iff keys assms(1) equal_to_def simp del: map_map)
  have obj: "unmarshal_object (marshal ff (GObj (map equal_to cs))) = Some (member_texts ff (map equal_to cs))"
    using unmarshal_object_marshal [OF clean] gdepth_equal_to [of cs] by (simp add: max_nesting_depth_def del: gdepth.simps)
  have "sort_keys (map equal_to cs) = map equal_to (sort_keys cs)"
    using sort_keys_map [of "\<lambda>v. GObj [(''equalTo'', GStr v)]" cs] by (simp add: equal_to_def case_prod_beta' cong: map_cong)
  then have texts: "member_texts ff (map equal_to cs)
      = map (\<lambda>c. (fst c, marshal ff (GObj [(''equalTo'', GStr (snd c))]))) (sort_keys cs)"
    by (simp add: member_texts_def equal_to_def case_prod_beta' comp_def)
  have entry: "parse_equal_to_entry field (fst c, marshal ff (GObj [(''equalTo'', GStr (snd c))])) = Ok c"
    if "c \<in> set cs" for c
  proof -
    have v: "utf8_valid (snd c)" using assms(2) that by auto
    then have "clean ff (GObj [(''equalTo'', GStr (snd c))])" by simp
    from unmarshal_object_marshal [OF this] v show ?thesis
      by (simp add: parse_equal_to_entry_def max_nesting_depth_def member_texts_def sort_keys_def
          unmarshal_marshal_string del: marshal.simps(8))
  qed
  have "map_res (parse_equal_to_entry field) (member_texts ff (map equal_to cs)) = Ok (map (\<lambda>c. c) (sort_keys cs))"
    unfolding texts by (rule map_res_map) (simp only: set_sort_keys entry)
  then show ?thesis using obj by (simp add: parse_equal_to_map_def del: marshal.simps)
qed

section \<open>The request\<close>

text \<open>A JSON body that the matcher compares as it is: a JSON string and \<^verbatim>\<open>null\<close> are unwrapped instead.\<close>

definition comparable_body :: "string \<Rightarrow> bool" where
  "comparable_body body \<longleftrightarrow> unmarshal_any body \<noteq> None \<and> unmarshal_string body = None"

definition normal_json :: "golib \<Rightarrow> string \<Rightarrow> string" where
  "normal_json L body = marshal (fmt_float L) (normalize_value (the (unmarshal_any body)))"

lemma normalize_comparable:
  assumes "comparable_body body"
  shows "normalize_raw_json L body = Some (normal_json L body)"
    and "utf8_valid body \<Longrightarrow> normalize_raw_json L (marshal_string body) = Some (normal_json L body)"
  using assms by (auto simp: normalize_raw_json_def comparable_body_def normal_json_def unmarshal_marshal_string)

definition recorded_body_patterns :: "golib \<Rightarrow> string \<Rightarrow> recording_spec \<Rightarrow> body_pattern list" where
  "recorded_body_patterns L body spec =
     (if request_body_patterns body spec = [] then []
      else [\<lparr>bp_json_path = None, bp_absent = False, bp_equal_to_json = Some (normal_json L body)\<rparr>])"

lemma request_body_patterns_cases:
  "request_body_patterns body spec \<in> {[], [GObj [(''equalToJson'', GStr body)]]}"
  by (simp add: request_body_patterns_def)

lemma parse_body_patterns_back:
  assumes "request_body_patterns body spec \<noteq> []" and "utf8_valid body" and "comparable_body body"
  shows "parse_body_patterns L (Some (marshal ff (GArr (request_body_patterns body spec))))
    = Ok (recorded_body_patterns L body spec)"
proof -
  let ?o = "GObj [(''equalToJson'', GStr body)]"
  have ps: "request_body_patterns body spec = [?o]" using request_body_patterns_cases assms(1) by blast
  have clean: "clean ff (GArr [?o])" "clean ff ?o" using assms(2) by simp_all
  have arr: "unmarshal_array (marshal ff (GArr [?o])) = Some [marshal ff ?o]"
    using unmarshal_marshal_array [OF clean(1)] by (simp add: max_nesting_depth_def del: marshal.simps)
  have obj: "unmarshal_object (marshal ff ?o) = Some [(''equalToJson'', marshal_string body)]"
    using unmarshal_object_marshal [OF clean(2)]
    by (simp add: max_nesting_depth_def member_texts_def sort_keys_def del: marshal.simps(8))
  have "parse_body_pattern L (marshal ff ?o)
      = Ok \<lparr>bp_json_path = None, bp_absent = False, bp_equal_to_json = Some (normal_json L body)\<rparr>"
    using obj normalize_comparable(2) [OF assms(3,2)] by (simp add: parse_body_pattern_def del: marshal.simps)
  then show ?thesis
    using assms(1) by (simp add: ps arr parse_body_patterns_def recorded_body_patterns_def del: marshal.simps)
qed

lemma recorded_body_matches:
  assumes "request_body_patterns body spec \<noteq> [] \<Longrightarrow> comparable_body body"
  shows "match_body_patterns_with_context L (recorded_body_patterns L body spec) (Some body)"
  using assms normalize_comparable(1) [of body L]
  by (auto simp: recorded_body_patterns_def pattern_matches_def body_raw_def)

text \<open>The URL of an event, as the recorder writes it for an event that has one.\<close>

definition event_url :: "serve_event \<Rightarrow> string" where
  "event_url e = (if se_raw_query e \<noteq> [] then se_path e @ ''?'' @ se_raw_query e else se_url e)"

definition recordable_request :: "golib \<Rightarrow> recording_spec \<Rightarrow> serve_event \<Rightarrow> bool" where
  "recordable_request L spec e \<longleftrightarrow>
     se_method e \<noteq> [] \<and> utf8_valid (se_method e) \<and> se_url e \<noteq> [] \<and> utf8_valid (se_url e)
     \<and> utf8_valid (se_path e) \<and> utf8_valid (se_raw_query e) \<and> utf8_valid (se_request_body e)
     \<and> clean_headers (se_request_headers e) \<and> canonical_headers (se_request_headers e)
     \<and> distinct_keys (spec_capture_headers spec) \<and> (\<forall>k \<in> fst ` set (spec_capture_headers spec). utf8_valid k)
     \<and> (request_body_patterns (se_request_body e) spec \<noteq> [] \<longrightarrow> comparable_body (se_request_body e))"

definition recorded_pattern :: "golib \<Rightarrow> recording_spec \<Rightarrow> serve_event \<Rightarrow> request_pattern" where
  "recorded_pattern L spec e =
     \<lparr>rp_method = to_upper (se_method e), rp_url = event_url e, rp_url_path = [], rp_url_pattern = [],
      rp_url_path_pattern = [],
      rp_body_patterns = recorded_body_patterns L (se_request_body e) spec, rp_query_parameters = [],
      rp_headers = sort_keys (captured_values (se_request_headers e) (spec_capture_headers spec)),
      rp_custom_matcher = None, rp_url_regex = None, rp_path_regex = None\<rparr>"

lemma event_url_facts:
  assumes "recordable_request L spec e"
  shows "recorded_url e = (''url'', GStr (event_url e))" and "event_url e \<noteq> []" and "utf8_valid (event_url e)"
  using assms by (auto simp: recorded_url_def event_url_def recordable_request_def utf8_valid_append)

definition request_members :: "serve_event \<Rightarrow> recording_spec \<Rightarrow> (string \<times> gval) list" where
  "request_members e spec =
     [(''method'', GStr (se_method e)), (''url'', GStr (event_url e))]
     @ (let cs = captured_values (se_request_headers e) (spec_capture_headers spec) in
        if cs = [] then [] else [(''headers'', GObj (map equal_to cs))])
     @ (let ps = request_body_patterns (se_request_body e) spec in
        if ps = [] then [] else [(''bodyPatterns'', GArr ps)])"

lemma recorded_request_eq:
  "recordable_request L spec e \<Longrightarrow> recorded_request e spec = GObj (request_members e spec)"
  by (simp add: recorded_request_def request_members_def captured_headers_eq event_url_facts Let_def)

lemma clean_request:
  assumes "recordable_request L spec e"
  shows "clean ff (GObj (request_members e spec)) \<and> gdepth (GObj (request_members e spec)) \<le> 3"
proof -
  let ?cs = "captured_values (se_request_headers e) (spec_capture_headers spec)"
  note c = clean_captured [of "se_request_headers e" "spec_capture_headers spec"]
  have cs: "distinct_keys ?cs" "\<forall>(k, v) \<in> set ?cs. utf8_valid k \<and> utf8_valid v"
    using assms c by (auto simp: recordable_request_def)
  have "map fst (map equal_to ?cs) = map fst ?cs" by (simp add: equal_to_def)
  with cs have hs: "clean ff (GObj (map equal_to ?cs))"
    by (auto simp: list_all_iff equal_to_def simp del: map_map)
  have strings: "utf8_valid (se_method e)" "utf8_valid (event_url e)" "utf8_valid (se_request_body e)"
    using assms event_url_facts(3) [OF assms] by (simp_all add: recordable_request_def)
  have body: "clean ff (GArr (request_body_patterns (se_request_body e) spec))"
    "gdepth (GArr (request_body_patterns (se_request_body e) spec)) \<le> 2"
    using request_body_patterns_cases [of "se_request_body e" spec] strings by auto
  show ?thesis
    using strings hs body gdepth_equal_to [of ?cs]
    by (auto simp: request_members_def Let_def simp del: clean.simps(5) gdepth.simps)
      (auto simp: gdepth_members simp del: gdepth.simps(1,2))
qed

lemma request_member_texts:
  fixes ff :: "f64 \<Rightarrow> string" and e :: serve_event and spec :: recording_spec
  assumes "recordable_request L spec e"
  defines "obj \<equiv> member_texts ff (request_members e spec)"
  shows "map_of obj ''method'' = Some (marshal ff (GStr (se_method e)))"
    and "map_of obj ''url'' = Some (marshal ff (GStr (event_url e)))"
    and "map_of obj ''headers'' =
      (let cs = captured_values (se_request_headers e) (spec_capture_headers spec) in
       if cs = [] then None else Some (marshal ff (GObj (map equal_to cs))))"
    and "map_of obj ''bodyPatterns'' =
      (let ps = request_body_patterns (se_request_body e) spec in
       if ps = [] then None else Some (marshal ff (GArr ps)))"
    and "k \<notin> set [''method'', ''url'', ''headers'', ''bodyPatterns''] \<Longrightarrow> map_of obj k = None"
proof -
  have d: "distinct_keys (request_members e spec)" using clean_request [OF assms(1)] by simp
  note m = map_of_member_texts [OF d, of ff]
  show "map_of obj ''method'' = Some (marshal ff (GStr (se_method e)))"
    "map_of obj ''url'' = Some (marshal ff (GStr (event_url e)))"
    "map_of obj ''headers'' =
      (let cs = captured_values (se_request_headers e) (spec_capture_headers spec) in
       if cs = [] then None else Some (marshal ff (GObj (map equal_to cs))))"
    "map_of obj ''bodyPatterns'' =
      (let ps = request_body_patterns (se_request_body e) spec in
       if ps = [] then None else Some (marshal ff (GArr ps)))"
    "k \<notin> set [''method'', ''url'', ''headers'', ''bodyPatterns''] \<Longrightarrow> map_of obj k = None"
    unfolding obj_def m by (auto simp: request_members_def Let_def simp del: marshal.simps)
qed

theorem parse_recorded_request:
  assumes "recordable_request L spec e"
  shows "parse_request L (marshal ff (recorded_request e spec)) = Ok (recorded_pattern L spec e)"
proof -
  let ?obj = "member_texts ff (request_members e spec)"
  let ?cs = "captured_values (se_request_headers e) (spec_capture_headers spec)"
  let ?ps = "request_body_patterns (se_request_body e) spec"
  note t = request_member_texts [OF assms, where ff = ff]
  have obj: "unmarshal_object (marshal ff (recorded_request e spec)) = Some ?obj"
    using clean_request [OF assms, of ff] unfolding recorded_request_eq [OF assms]
    by (intro unmarshal_object_marshal) (auto simp: max_nesting_depth_def simp del: clean.simps gdepth.simps)
  have strings: "string_field ?obj ''method'' = Ok (se_method e)" "string_field ?obj ''url'' = Ok (event_url e)"
    using t(1,2) assms event_url_facts(3) [OF assms] by (auto intro: string_field_back simp: recordable_request_def)
  have none: "string_field ?obj ''urlPath'' = Ok []" "string_field ?obj ''urlPattern'' = Ok []"
    "string_field ?obj ''urlPathPattern'' = Ok []" "map_of ?obj ''queryParameters'' = None"
    "map_of ?obj ''customMatcher'' = None"
    using t(5) by (simp_all add: string_field_missing)
  have "distinct_keys ?cs \<and> (\<forall>(k, v) \<in> set ?cs. utf8_valid k \<and> utf8_valid v)"
    using assms by (intro clean_captured) (auto simp: recordable_request_def)
  then have hs: "parse_equal_to_map (map_of ?obj ''headers'') f = Ok (sort_keys ?cs)" for f
    using parse_equal_to_back [of ?cs ff f] unfolding t(3)
    by (auto simp: Let_def parse_equal_to_map_def raw_absent_def sort_keys_def simp del: marshal.simps)
  have bs: "parse_body_patterns L (map_of ?obj ''bodyPatterns'')
      = Ok (recorded_body_patterns L (se_request_body e) spec)"
    using parse_body_patterns_back [of "se_request_body e" spec L ff] assms unfolding t(4)
    by (auto simp: Let_def parse_body_patterns_def raw_absent_def recorded_body_patterns_def recordable_request_def
        simp del: marshal.simps)
  have absent: "parse_equal_to_map None f = Ok []" "parse_custom_matcher L None = Ok None" for f
    by (simp_all add: parse_equal_to_map_def parse_custom_matcher_def raw_absent_def)
  show ?thesis
    by (simp add: parse_request_def obj strings none hs bs compile_pattern_def recorded_pattern_def absent
        del: marshal.simps)
qed

text \<open>The recorded pattern matches the request it was recorded from.\<close>

lemma recorded_pattern_matches:
  assumes "recordable_request L spec e" and "hr_method r = se_method e" and "hr_request_uri r = event_url e"
    and "hr_headers r = se_request_headers e"
  shows "request_matches L (recorded_pattern L spec e) (hr_method r) (hr_request_uri r) (hu_path (hr_url r))
    (hr_query r) (hr_headers r) (Some (se_request_body e))"
proof -
  have "matches_method (recorded_pattern L spec e) (hr_method r)"
    using assms(1,2) by (auto simp: matches_method_def recorded_pattern_def recordable_request_def)
  moreover have "matches_url L (recorded_pattern L spec e) (hr_request_uri r) (hu_path (hr_url r))"
    using assms(3) event_url_facts(2) [OF assms(1)] by (simp add: matches_url_def recorded_pattern_def)
  moreover have "match_headers (rp_headers (recorded_pattern L spec e)) (hr_headers r)"
    using assms(1,4) captured_match [of "se_request_headers e" "spec_capture_headers spec"]
    by (simp add: recorded_pattern_def recordable_request_def clean_headers_def)
  moreover have "match_body_patterns_with_context L (rp_body_patterns (recorded_pattern L spec e)) (Some (se_request_body e))"
    using assms(1) recorded_body_matches [of "se_request_body e" spec L]
    by (simp add: recorded_pattern_def recordable_request_def)
  ultimately show ?thesis
    by (simp add: request_matches_iff head_condition_def body_condition_def recorded_pattern_def)
qed

section \<open>The response\<close>

definition kept_headers :: "serve_event \<Rightarrow> header_map" where
  "kept_headers e =
     filter (\<lambda>(name, values). \<not> (is_excluded_response_header name \<or> values = [])) (se_response_headers e)"

definition header_json :: "string list \<Rightarrow> gval" where
  "header_json vs = (if length vs = 1 then GStr (hd vs) else GArr (map GStr vs))"

definition json_body :: "netlib \<Rightarrow> serve_event \<Rightarrow> gval option" where
  "json_body N e =
     (if se_response_body e = [] then None
      else if is_json_response N (se_response_headers e) (se_response_body e)
      then unmarshal_any (se_response_body e) else None)"

definition recordable_response :: "golib \<Rightarrow> netlib \<Rightarrow> serve_event \<Rightarrow> bool" where
  "recordable_response L N e \<longleftrightarrow>
     100 \<le> se_response_status e \<and> se_response_status e \<le> 999 \<and> se_protocol e \<noteq> ''grpc''
     \<and> clean_headers (se_response_headers e)
     \<and> pred_option (\<lambda>v. clean (fmt_float L) v \<and> gdepth v \<le> 9000) (json_body N e)"

lemma recorded_headers_eq:
  "recordable_response L N e \<Longrightarrow>
   recorded_response_headers e = map (\<lambda>(n, vs). (n, header_json vs)) (kept_headers e)"
  by (auto simp: recorded_response_headers_def kept_headers_def header_json_def Let_def recordable_response_def)

lemma kept_headers_clean:
  assumes "clean_headers (se_response_headers e)"
  shows "distinct_keys (kept_headers e)"
    and "(n, vs) \<in> set (kept_headers e) \<Longrightarrow> utf8_valid n \<and> list_all utf8_valid vs \<and> vs \<noteq> []"
  using assms by (auto simp: kept_headers_def clean_headers_def intro: distinct_map_filter)

lemma gdepth_strings: "gdepth (GArr (map GStr vs)) \<le> 1"
  using foldr_max_le [of gdepth "map GStr vs" 0] by simp

lemma clean_header_json: "list_all utf8_valid vs \<Longrightarrow> clean ff (header_json vs) \<and> gdepth (header_json vs) \<le> 1"
  using gdepth_strings [of vs] by (cases vs) (auto simp: header_json_def list_all_iff simp del: gdepth.simps(1))

lemma parse_header_back:
  assumes "list_all utf8_valid vs" and "vs \<noteq> []"
  shows "parse_header_entry (n, marshal ff (header_json vs)) = Ok (n, vs)"
proof (cases "length vs = 1")
  case True
  then obtain v where "vs = [v]" by (cases vs) auto
  with assms show ?thesis by (simp add: parse_header_entry_def header_json_def unmarshal_marshal_string)
next
  case False
  then have "header_json vs = GArr (map GStr vs)" by (simp add: header_json_def)
  with unmarshal_marshal_strings [OF assms(1), of ff] show ?thesis
    by (simp add: parse_header_entry_def del: marshal.simps)
qed

lemma clean_headers_object:
  assumes "clean_headers (se_response_headers e)"
  shows "clean ff (GObj (map (\<lambda>(n, vs). (n, header_json vs)) (kept_headers e)))
    \<and> gdepth (GObj (map (\<lambda>(n, vs). (n, header_json vs)) (kept_headers e))) \<le> 2"
proof
  let ?hs = "map (\<lambda>(n, vs). (n, header_json vs)) (kept_headers e)"
  have "map fst ?hs = map fst (kept_headers e)" by auto
  then have "distinct_keys ?hs" using kept_headers_clean(1) [OF assms] by (simp only:)
  then show "clean ff (GObj ?hs)"
    using kept_headers_clean(2) [OF assms] clean_header_json by (auto simp: list_all_iff simp del: map_map)
  show "gdepth (GObj ?hs) \<le> 2"
    using foldr_max_le [of gdepth "map snd ?hs" 1] kept_headers_clean(2) [OF assms] clean_header_json
    unfolding gdepth_members by fastforce
qed

lemma parse_headers_back:
  assumes "clean_headers (se_response_headers e)"
  shows "parse_headers (Some (marshal ff (GObj (map (\<lambda>(n, vs). (n, header_json vs)) (kept_headers e)))))
    = Ok (sort_keys (kept_headers e))"
proof -
  let ?hs = "map (\<lambda>(n, vs). (n, header_json vs)) (kept_headers e)"
  have obj: "unmarshal_object (marshal ff (GObj ?hs)) = Some (member_texts ff ?hs)"
    using clean_headers_object [OF assms, of ff]
    by (intro unmarshal_object_marshal) (auto simp: max_nesting_depth_def simp del: clean.simps gdepth.simps)
  have texts: "member_texts ff ?hs = map (\<lambda>h. (fst h, marshal ff (header_json (snd h)))) (sort_keys (kept_headers e))"
    unfolding member_texts_def sort_keys_map by (simp add: comp_def case_prod_beta')
  have "map_res parse_header_entry (member_texts ff ?hs) = Ok (map (\<lambda>h. h) (sort_keys (kept_headers e)))"
    unfolding texts
    by (rule map_res_map) (use kept_headers_clean(2) [OF assms] parse_header_back in \<open>auto simp del: marshal.simps\<close>)
  with obj show ?thesis by (simp add: parse_headers_def del: marshal.simps)
qed

text \<open>The body of the recorded definition, and whether it is JSON.\<close>

definition recorded_body :: "golib \<Rightarrow> netlib \<Rightarrow> serve_event \<Rightarrow> string option \<times> bool" where
  "recorded_body L N e =
     (if se_response_body e = [] then (None, False)
      else (case json_body N e of
              Some v \<Rightarrow> (Some (marshal (fmt_float L) v), True)
            | None \<Rightarrow> (Some (se_response_body e), False)))"

definition recorded_definition :: "golib \<Rightarrow> netlib \<Rightarrow> serve_event \<Rightarrow> response_definition" where
  "recorded_definition L N e =
     \<lparr>rd_status = se_response_status e, rd_headers = sort_keys (kept_headers e),
      rd_body = fst (recorded_body L N e), rd_json = snd (recorded_body L N e), rd_body_file = [],
      rd_transformers = [], rd_template = None, rd_proxy_base_url = [],
      rd_proxy_url_prefix_to_remove = [], rd_fixed_delay = 0, rd_delay_distribution = None,
      rd_chunked_dribble_delay = None\<rparr>"

definition response_members :: "netlib \<Rightarrow> serve_event \<Rightarrow> (string \<times> gval) list" where
  "response_members N e =
     (''status'', GInt (se_response_status e))
     # (if kept_headers e = [] then []
        else [(''headers'', GObj (map (\<lambda>(n, vs). (n, header_json vs)) (kept_headers e)))])
     @ recorded_response_body N e"

lemma recorded_response_eq:
  "recordable_response L N e \<Longrightarrow> recorded_response N e = GObj (response_members N e)"
  by (simp add: recorded_response_def response_members_def recorded_headers_eq Let_def)

lemma response_body_cases:
  "recorded_response_body N e =
     (if se_response_body e = [] then []
      else case json_body N e of
             Some v \<Rightarrow> [(''jsonBody'', v)]
           | None \<Rightarrow> if is_text_body (se_response_headers e) (se_response_body e)
                     then [(''body'', GStr (se_response_body e))]
                     else [(''base64Body'', GStr (base64_encode (se_response_body e)))])"
  by (simp add: recorded_response_body_def json_body_def Let_def)

lemma clean_response:
  assumes "recordable_response L N e"
  shows "clean (fmt_float L) (GObj (response_members N e)) \<and> gdepth (GObj (response_members N e)) \<le> 9001"
proof -
  note hs = clean_headers_object [of e "fmt_float L"]
  have h: "clean_headers (se_response_headers e)" "in_int64 (se_response_status e)"
    using assms by (auto simp: recordable_response_def in_int64_def)
  have "is_text_body (se_response_headers e) (se_response_body e) \<Longrightarrow> utf8_valid (se_response_body e)"
    by (simp add: is_text_body_def Let_def)
  then have body: "\<forall>(k, v) \<in> set (recorded_response_body N e).
      k \<in> set [''jsonBody'', ''body'', ''base64Body''] \<and> clean (fmt_float L) v \<and> gdepth v \<le> 9000"
    and one: "length (recorded_response_body N e) \<le> 1"
    using assms by (auto simp: response_body_cases recordable_response_def split: option.split)
  then have "distinct_keys (response_members N e)"
    by (cases "recorded_response_body N e") (auto simp: response_members_def)
  moreover have mem: "utf8_valid k \<and> clean (fmt_float L) v \<and> gdepth v \<le> 9000"
    if kv: "(k, v) \<in> set (response_members N e)" for k v
  proof -
    consider "k = ''status''" "v = GInt (se_response_status e)"
      | "k = ''headers''" "v = GObj (map (\<lambda>(n, vs). (n, header_json vs)) (kept_headers e))"
      | "(k, v) \<in> set (recorded_response_body N e)"
      using kv by (auto simp: response_members_def split: if_splits)
    then show ?thesis
    proof cases
      case 1
      with h(2) show ?thesis by simp
    next
      case 2
      have "utf8_valid ''headers''" by simp
      moreover have "gdepth v \<le> 9000" using hs [OF h(1)] unfolding 2 by linarith
      ultimately show ?thesis using hs [OF h(1)] unfolding 2 by blast
    next
      case 3
      with body show ?thesis by auto
    qed
  qed
  ultimately have "clean (fmt_float L) (GObj (response_members N e))" by (auto simp: list_all_iff)
  moreover have "gdepth (GObj (response_members N e)) \<le> 9001"
    using foldr_max_le [of gdepth "map snd (response_members N e)" 9000] mem
    unfolding gdepth_members by auto
  ultimately show ?thesis by blast
qed

lemma response_member_texts:
  fixes L :: golib
  assumes "recordable_response L N e"
  defines "obj \<equiv> member_texts (fmt_float L) (response_members N e)"
  shows "map_of obj ''status'' = Some (marshal (fmt_float L) (GInt (se_response_status e)))"
    and "map_of obj ''headers'' =
      (if kept_headers e = [] then None
       else Some (marshal (fmt_float L) (GObj (map (\<lambda>(n, vs). (n, header_json vs)) (kept_headers e)))))"
    and "k \<notin> set [''status'', ''headers''] \<Longrightarrow>
      map_of obj k = map_option (marshal (fmt_float L)) (map_of (recorded_response_body N e) k)"
proof -
  have d: "distinct_keys (response_members N e)" using clean_response [OF assms(1)] by simp
  note m = map_of_member_texts [OF d, of "fmt_float L"]
  have keys: "k \<in> fst ` set (recorded_response_body N e) \<Longrightarrow> k \<in> set [''jsonBody'', ''body'', ''base64Body'']" for k
    by (auto simp: response_body_cases split: if_splits option.splits)
  show "map_of obj ''status'' = Some (marshal (fmt_float L) (GInt (se_response_status e)))"
    unfolding obj_def m by (simp add: response_members_def)
  have "map_of (recorded_response_body N e) ''headers'' = None"
    using keys [of "''headers''"] by (auto simp: map_of_eq_None_iff)
  then show "map_of obj ''headers'' =
      (if kept_headers e = [] then None
       else Some (marshal (fmt_float L) (GObj (map (\<lambda>(n, vs). (n, header_json vs)) (kept_headers e)))))"
    unfolding obj_def m by (simp add: response_members_def del: marshal.simps)
  show "k \<notin> set [''status'', ''headers''] \<Longrightarrow>
      map_of obj k = map_option (marshal (fmt_float L)) (map_of (recorded_response_body N e) k)"
    unfolding obj_def m by (auto simp: response_members_def simp del: marshal.simps)
qed

lemma response_body_back:
  assumes "recordable_response L N e"
  shows "parse_response_body (member_texts (fmt_float L) (response_members N e)) = Ok (recorded_body L N e)"
proof -
  note t = response_member_texts(3) [OF assms]
  have "is_text_body (se_response_headers e) (se_response_body e) \<Longrightarrow> utf8_valid (se_response_body e)"
    by (simp add: is_text_body_def Let_def)
  then show ?thesis
    by (auto simp: parse_response_body_def t response_body_cases recorded_body_def unmarshal_marshal_string
        base64_decode_encode raw_absent_def [of None] split: option.split)
qed

theorem parse_recorded_response:
  assumes "recordable_response L N e"
  shows "parse_response L (marshal (fmt_float L) (recorded_response N e)) = Ok (recorded_definition L N e)"
proof -
  let ?ff = "fmt_float L"
  let ?obj = "member_texts ?ff (response_members N e)"
  note t = response_member_texts [OF assms]
  have obj: "unmarshal_object (marshal ?ff (recorded_response N e)) = Some ?obj"
    using clean_response [OF assms] unfolding recorded_response_eq [OF assms]
    by (intro unmarshal_object_marshal) (auto simp: max_nesting_depth_def simp del: clean.simps gdepth.simps)
  have status: "int_field ?obj ''status'' http_status_ok = Ok (se_response_status e)"
    "100 \<le> se_response_status e" "se_response_status e \<le> 999" "clean_headers (se_response_headers e)"
    using t(1) assms by (auto intro: int_field_back simp: recordable_response_def in_int64_def)
  have hs: "parse_headers (map_of ?obj ''headers'') = Ok (sort_keys (kept_headers e))"
    using parse_headers_back [OF status(4), of ?ff] unfolding t(2)
    by (simp add: parse_headers_def [of None] raw_absent_def [of None] sort_keys_def del: marshal.simps)
  have missing: "map_of ?obj k = None"
    if "k \<in> set [''bodyFileName'', ''transformers'', ''proxyBaseUrl'', ''proxyUrlPrefixToRemove'',
      ''fixedDelayMilliseconds'', ''delayDistribution'', ''chunkedDribbleDelay'']" for k
    using that t(3) [of k] by (auto simp: response_body_cases split: option.split)
  have none: "string_field ?obj ''bodyFileName'' = Ok []" "parse_string_array_field ?obj ''transformers'' = Ok []"
    "string_field ?obj ''proxyBaseUrl'' = Ok []" "string_field ?obj ''proxyUrlPrefixToRemove'' = Ok []"
    "int_field ?obj ''fixedDelayMilliseconds'' 0 = Ok 0" "map_of ?obj ''delayDistribution'' = None"
    "map_of ?obj ''chunkedDribbleDelay'' = None"
    by (simp_all add: fields_missing missing)
  have plain: "compile_response_template b [] = Ok None" "parse_delay_distribution L None = Ok None"
    "parse_chunked_dribble_delay None = Ok None" for b
    by (simp_all add: compile_response_template_def has_template_transformer_def parse_delay_distribution_def
        parse_chunked_dribble_delay_def raw_absent_def split: option.split)
  show ?thesis
    using status(2,3)
    by (simp add: parse_response_def obj status(1) hs none plain response_body_back [OF assms]
        recorded_definition_def case_prod_beta' del: marshal.simps)
qed

section \<open>The whole mapping\<close>

definition recordable :: "golib \<Rightarrow> netlib \<Rightarrow> recording_spec \<Rightarrow> serve_event \<Rightarrow> bool" where
  "recordable L N spec e \<longleftrightarrow> recordable_request L spec e \<and> recordable_response L N e"

definition recorded_members :: "netlib \<Rightarrow> recording_spec \<Rightarrow> serve_event \<Rightarrow> (string \<times> gval) list" where
  "recorded_members N spec e =
     [(''name'', GStr (recorded_name e)), (''persistent'', GBool (spec_persist spec)),
      (''request'', recorded_request e spec), (''response'', recorded_response N e)]"

definition recorded_mapping :: "golib \<Rightarrow> netlib \<Rightarrow> recording_spec \<Rightarrow> serve_event \<Rightarrow> string \<Rightarrow> mapping_stub" where
  "recorded_mapping L N spec e ident =
     \<lparr>m_id = ident, m_name = recorded_name e, m_persistent = spec_persist spec, m_priority = default_priority,
      m_scenario = \<lparr>sc_name = [], sc_required_state = [], sc_new_state = []\<rparr>,
      m_request = recorded_pattern L spec e, m_response = recorded_definition L N e,
      m_raw = set_raw_id ident (member_texts (fmt_float L) (recorded_members N spec e)), m_sequence = 0\<rparr>"

lemma clean_recorded:
  assumes "recordable L N spec e"
  shows "clean (fmt_float L) (GObj (recorded_members N spec e))
    \<and> gdepth (GObj (recorded_members N spec e)) \<le> max_nesting_depth"
proof -
  have rq: "recordable_request L spec e" and rs: "recordable_response L N e"
    using assms by (simp_all add: recordable_def)
  have "utf8_valid (recorded_name e)"
    using rq by (auto simp: recorded_name_def recordable_request_def utf8_valid_append)
  then have "clean (fmt_float L) (GObj (recorded_members N spec e))"
    using clean_request [OF rq, of "fmt_float L"] clean_response [OF rs]
    unfolding recorded_members_def recorded_request_eq [OF rq] recorded_response_eq [OF rs] by simp
  moreover have "\<forall>v \<in> set (map snd (recorded_members N spec e)). gdepth v \<le> 9001"
    using clean_request [OF rq, of "fmt_float L"] clean_response [OF rs]
    unfolding recorded_members_def recorded_request_eq [OF rq] recorded_response_eq [OF rs]
    by (auto simp del: gdepth.simps(2) clean.simps)
  then have "gdepth (GObj (recorded_members N spec e)) \<le> max_nesting_depth"
    using foldr_max_le [of gdepth "map snd (recorded_members N spec e)" 9001]
    unfolding gdepth_members max_nesting_depth_def by simp
  ultimately show ?thesis by blast
qed

theorem parse_recorded_mapping:
  assumes rec: "recordable L N spec e" and rand: "rand = Some bs" "length bs = 16"
  shows "\<exists>ident. is_valid_id ident
    \<and> parse_json L rand (recorded_mapping_json L N e spec) = Ok (recorded_mapping L N spec e ident)"
proof -
  let ?ff = "fmt_float L" and ?ms = "recorded_members N spec e"
  let ?obj = "member_texts ?ff ?ms"
  have rq: "recordable_request L spec e" and rs: "recordable_response L N e"
    using rec by (simp_all add: recordable_def)
  note clean = clean_recorded [OF rec]
  have distinct: "distinct_keys ?ms" using clean by simp
  note t = map_of_member_texts [OF distinct, of ?ff]
  have doc: "decode_object (recorded_mapping_json L N e spec) = Ok ?obj"
    using decode_stream_marshal [of ?ff "GObj ?ms"] clean members_of_read_back [OF distinct, of ?ff]
    by (simp add: decode_object_def recorded_mapping_json_def recorded_members_def [symmetric] decoder_more_def
        skip_ws_def decode_stream_def [of "[]"] json_fuel_def numeral_2_eq_2 del: marshal.simps clean.simps gdepth.simps)
  have "utf8_valid (recorded_name e)"
    using rq by (auto simp: recorded_name_def recordable_request_def utf8_valid_append)
  then have fields: "string_field ?obj ''name'' = Ok (recorded_name e)"
    "bool_field ?obj ''persistent'' = Ok (spec_persist spec)"
    using t by (auto intro!: string_field_back bool_field_back simp: recorded_members_def simp del: marshal.simps)
  have none: "string_field ?obj ''id'' = Ok []" "int_field ?obj ''priority'' default_priority = Ok default_priority"
    "string_field ?obj ''scenarioName'' = Ok []" "string_field ?obj ''requiredScenarioState'' = Ok []"
    "string_field ?obj ''newScenarioState'' = Ok []" "map_of ?obj ''metadata'' = None"
    using t by (auto intro!: string_field_missing int_field_missing simp: recorded_members_def simp del: marshal.simps)
  have parts: "map_of ?obj ''request'' = Some (marshal ?ff (recorded_request e spec))"
    "map_of ?obj ''response'' = Some (marshal ?ff (recorded_response N e))"
    using t by (simp_all add: recorded_members_def del: marshal.simps)
  have objects: "unmarshal_object (marshal ?ff (recorded_request e spec)) \<noteq> None"
    "unmarshal_object (marshal ?ff (recorded_response N e)) \<noteq> None"
    using parse_recorded_request [OF rq, of ?ff] parse_recorded_response [OF rs]
    by (auto simp: parse_request_def parse_response_def split: option.splits)
  obtain ident where ident: "new_id rand = Ok ident"
    using rand(1) new_id_Ok [of bs] by (cases "new_id rand") auto
  then have "is_valid_id ident" using new_id_valid [of bs ident] rand by simp
  moreover have "parse_json L rand (recorded_mapping_json L N e spec) = Ok (recorded_mapping L N spec e ident)"
    using objects
    by (auto simp: parse_json_def parse_json_with_id_def doc fields none parts choose_id_def ident
        validate_object_field_def parse_scenario_def parse_recorded_request [OF rq] parse_recorded_response [OF rs]
        recorded_mapping_def simp del: marshal.simps)
  ultimately show ?thesis by blast
qed

section \<open>Replaying\<close>

text \<open>What the recorded response renders to: status, kept headers, body and its JSON flag.\<close>

lemma recorded_definition_renders:
  "render L fs (recorded_definition L N e) ctx =
     Ok \<lparr>rr_status = se_response_status e, rr_headers = sort_keys (kept_headers e),
        rr_body = (case fst (recorded_body L N e) of None \<Rightarrow> [] | Some b \<Rightarrow> b), rr_json = snd (recorded_body L N e)\<rparr>"
  by (simp add: render_def recorded_definition_def render_body_def uses_response_template_def
      has_template_transformer_def Let_def split: option.split)

lemma recorded_bytes:
  "json_body N e = None \<Longrightarrow> (case fst (recorded_body L N e) of None \<Rightarrow> [] | Some b \<Rightarrow> b) = se_response_body e
    \<and> snd (recorded_body L N e) = False"
  by (auto simp: recorded_body_def)

lemma build_snapshot_all:
  assumes "\<forall>e \<in> set es. recordable L N spec e" and "\<And>n. \<exists>bs. rand n = Some bs \<and> length bs = 16"
  shows "\<exists>idents. length idents = length es \<and> list_all is_valid_id idents
    \<and> build_snapshot L N rand es spec
        = Ok \<lparr>snap_mappings = map (\<lambda>(e, i). recorded_mapping L N spec e i) (zip es idents), snap_total = length es\<rparr>"
proof -
  have "\<exists>idents. length idents = length es \<and> list_all is_valid_id idents
    \<and> build_mappings L N rand spec n es = Ok (map (\<lambda>(e, i). recorded_mapping L N spec e i) (zip es idents))" for n
    using assms(1)
  proof (induction es arbitrary: n)
    case (Cons e es)
    obtain bs where bs: "rand n = Some bs" "length bs = 16" using assms(2) by blast
    obtain i where i: "is_valid_id i"
      "parse_json L (rand n) (recorded_mapping_json L N e spec) = Ok (recorded_mapping L N spec e i)"
      using parse_recorded_mapping [OF _ bs, of L N spec e] Cons.prems by auto
    obtain idents where "length idents = length es" "list_all is_valid_id idents"
      "build_mappings L N rand spec (Suc n) es = Ok (map (\<lambda>(e, i). recorded_mapping L N spec e i) (zip es idents))"
      using Cons by fastforce
    with i show ?case by (intro exI [of _ "i # idents"]) simp
  qed simp
  from this [of 0] show ?thesis by (force simp: build_snapshot_def)
qed

text \<open>A mapping replays an event when it matches its request again and renders its response.\<close>

definition replays :: "golib \<Rightarrow> netlib \<Rightarrow> serve_event \<Rightarrow> mapping_stub \<Rightarrow> bool" where
  "replays L N e m \<longleftrightarrow>
     (\<forall>r. hr_method r = se_method e \<longrightarrow> hr_request_uri r = event_url e \<longrightarrow> hr_headers r = se_request_headers e
        \<longrightarrow> stub_matches L r (Some (se_request_body e)) m)
     \<and> (\<forall>fs ctx. \<exists>rd. render L fs (m_response m) ctx = Ok rd
          \<and> rr_status rd = se_response_status e \<and> rr_headers rd = sort_keys (kept_headers e)
          \<and> (json_body N e = None \<longrightarrow> rr_body rd = se_response_body e \<and> \<not> rr_json rd)
          \<and> (\<forall>v. json_body N e = Some v \<longrightarrow> rr_body rd = marshal (fmt_float L) v \<and> rr_json rd))"

lemma json_body_nonempty: "json_body N e = Some v \<Longrightarrow> se_response_body e \<noteq> []"
  by (auto simp: json_body_def)

lemma recorded_mapping_replays:
  assumes "recordable L N spec e"
  shows "replays L N e (recorded_mapping L N spec e ident)"
  unfolding replays_def
proof (intro conjI allI impI)
  fix r :: http_request
  assume "hr_method r = se_method e" "hr_request_uri r = event_url e" "hr_headers r = se_request_headers e"
  moreover have "recordable_request L spec e" using assms by (simp add: recordable_def)
  ultimately show "stub_matches L r (Some (se_request_body e)) (recorded_mapping L N spec e ident)"
    using recorded_pattern_matches [of L spec e r] by (simp add: stub_matches_def recorded_mapping_def)
next
  fix fs ctx
  show "\<exists>rd. render L fs (m_response (recorded_mapping L N spec e ident)) ctx = Ok rd
      \<and> rr_status rd = se_response_status e \<and> rr_headers rd = sort_keys (kept_headers e)
      \<and> (json_body N e = None \<longrightarrow> rr_body rd = se_response_body e \<and> \<not> rr_json rd)
      \<and> (\<forall>v. json_body N e = Some v \<longrightarrow> rr_body rd = marshal (fmt_float L) v \<and> rr_json rd)"
    using json_body_nonempty [of N e]
    by (auto simp: recorded_mapping_def recorded_definition_renders recorded_body_def)
qed

lemma snapshot_replays:
  assumes "\<forall>e \<in> set es. recordable L N spec e" and "\<And>n. \<exists>bs. rand n = Some bs \<and> length bs = 16"
  shows "\<exists>snap. build_snapshot L N rand es spec = Ok snap \<and> list_all2 (replays L N) es (snap_mappings snap)"
proof -
  obtain idents where i: "length idents = length es"
    "build_snapshot L N rand es spec
      = Ok \<lparr>snap_mappings = map (\<lambda>(e, i). recorded_mapping L N spec e i) (zip es idents), snap_total = length es\<rparr>"
    using build_snapshot_all [of es L N spec rand] assms by blast
  have "list_all2 (replays L N) es (map (\<lambda>(e, i). recorded_mapping L N spec e i) (zip es idents))"
    using i(1) assms(1) recorded_mapping_replays by (auto simp: list_all2_conv_all_nth)
  with i(2) show ?thesis by simp
qed

end
