(* ===== verification/Samples.thy ===== *)
theory Samples
  imports Grpc_Runtime Chunk_Facts Record_Replay
begin

text \<open>
  Small concrete values on which the properties are applied: a library that knows literal patterns
  only, two stub mappings on one URL, a store with both, and requests.
\<close>

definition plain_lib :: golib where
  "plain_lib = \<lparr>re_compiles = (\<lambda>_. True),
     re_find = (\<lambda>p s. if p = s then Some (0, length s) else None),
     is_print = (\<lambda>n. 32 \<le> n \<and> n < 127), fmt_float = (\<lambda>_. ''0'')\<rparr>"

definition any_request :: "string \<Rightarrow> request_pattern" where
  "any_request url = \<lparr>rp_method = ''GET'', rp_url = url, rp_url_path = [], rp_url_pattern = [],
     rp_url_path_pattern = [], rp_body_patterns = [], rp_query_parameters = [], rp_headers = [],
     rp_custom_matcher = None, rp_url_regex = None, rp_path_regex = None\<rparr>"

definition plain_response :: "string \<Rightarrow> response_definition" where
  "plain_response body =
     \<lparr>rd_status = 200, rd_headers = [], rd_body = Some body, rd_json = False, rd_body_file = [],
      rd_transformers = [], rd_template = None, rd_proxy_base_url = [],
      rd_proxy_url_prefix_to_remove = [], rd_fixed_delay = 0, rd_delay_distribution = None,
      rd_chunked_dribble_delay = None\<rparr>"

definition plain_stub :: "string \<Rightarrow> int \<Rightarrow> scenario_info \<Rightarrow> mapping_stub" where
  "plain_stub i priority sc =
     \<lparr>m_id = i, m_name = [], m_persistent = False, m_priority = priority, m_scenario = sc,
      m_request = any_request ''/a'', m_response = plain_response i, m_raw = [], m_sequence = 0\<rparr>"

definition no_scenario :: scenario_info where
  "no_scenario = \<lparr>sc_name = [], sc_required_state = [], sc_new_state = []\<rparr>"

definition two_step :: "string \<Rightarrow> string \<Rightarrow> scenario_info" where
  "two_step old new = \<lparr>sc_name = ''s'', sc_required_state = old, sc_new_state = new\<rparr>"

definition sample_store :: mapping_store where
  "sample_store = snd (store_create (plain_stub ''b'' 1 (two_step ''Started'' ''done''))
     (snd (store_create (plain_stub ''a'' 5 no_scenario) new_store)))"

definition get_a :: http_request where
  "get_a = \<lparr>hr_method = ''GET'', hr_url = \<lparr>hu_path = ''/a'', hu_raw_query = []\<rparr>,
     hr_request_uri = ''/a'', hr_query = [], hr_headers = [], hr_body = NoBody, hr_content_length = 0\<rparr>"

lemma plain_stub_simps [simp]:
  "m_id (plain_stub i p sc) = i" "m_priority (plain_stub i p sc) = p" "m_scenario (plain_stub i p sc) = sc"
  "m_request (plain_stub i p sc) = any_request ''/a''" "m_response (plain_stub i p sc) = plain_response i"
  by (simp_all add: plain_stub_def)

lemma new_store_room [simp]: "seq_room new_store"
  by (simp add: seq_room_def new_store_def word_less_nat_alt unsigned_minus_1_eq_mask
      mask_eq_exp_minus_1)

lemma sample_store_inv: "store_inv sample_store"
proof -
  have "seq_room (snd (store_create (plain_stub ''a'' 5 no_scenario) new_store))"
    by (simp add: seq_room_def store_create_def new_store_def word_less_nat_alt unsigned_minus_1_eq_mask
      mask_eq_exp_minus_1)
  then show ?thesis
    unfolding sample_store_def by (intro create_inv new_store_inv new_store_room)
qed

lemma sample_store_list:
  "store_list sample_store =
     [plain_stub ''a'' 5 no_scenario\<lparr>m_sequence := 1\<rparr>,
      plain_stub ''b'' 1 (two_step ''Started'' ''done'')\<lparr>m_sequence := 2\<rparr>]"
  unfolding store_views(1) [OF sample_store_inv]
  by (simp add: sample_store_def store_create_def new_store_def stored_def)

lemma sample_store_good: "good_store plain_lib sample_store"
  by (simp add: good_store_def sample_store_inv sample_store_list wf_request_def any_request_def
      wf_regex_def small_priority_def to_upper_def to_upper_char_def is_lower_def)

lemmas match_simps = stub_matches_def request_matches_iff head_condition_def body_condition_def
  get_a_def any_request_def matches_method_def matches_url_def requires_body_def equal_fold_def
  plain_stub_def

lemmas scenario_simps = eligible_in_def matches_state_locked_def state_locked_def two_step_def
  no_scenario_def new_scenario_store_def started_def Let_def

lemma sample_a_matches:
  "stub_matches plain_lib get_a (Some []) (plain_stub ''a'' 5 no_scenario\<lparr>m_sequence := 1\<rparr>)"
  "eligible_in scenarios (plain_stub ''a'' 5 no_scenario\<lparr>m_sequence := 1\<rparr>)"
  by (simp_all add: match_simps scenario_simps split: option.split)

text \<open>One wrap of a 64-bit integer.\<close>

lemma int64_wraps:
  "- (2 ^ 64) \<le> x \<Longrightarrow> x < - (2 ^ 63) \<Longrightarrow> int64 x = x + 2 ^ 64"
  "2 ^ 63 \<le> x \<Longrightarrow> x < 2 ^ 64 \<Longrightarrow> int64 x = x - 2 ^ 64"
proof -
  show "int64 x = x + 2 ^ 64" if "- (2 ^ 64) \<le> x" "x < - (2 ^ 63)"
  proof -
    have "(x + 2 ^ 63) mod 2 ^ 64 = (x + 2 ^ 63 + 2 ^ 64) mod (2 ^ 64 :: int)" by (simp only: mod_add_self2)
    also have "\<dots> = x + 2 ^ 63 + 2 ^ 64" using that by (intro mod_pos_pos_trivial) simp_all
    finally show ?thesis by (simp add: int64_def)
  qed
  show "int64 x = x - 2 ^ 64" if "2 ^ 63 \<le> x" "x < 2 ^ 64"
  proof -
    have "(x + 2 ^ 63) mod 2 ^ 64 = (x + 2 ^ 63 - 2 ^ 64) mod (2 ^ 64 :: int)" by (simp only: minus_mod_self2)
    also have "\<dots> = x + 2 ^ 63 - 2 ^ 64" using that by (intro mod_pos_pos_trivial) simp_all
    finally show ?thesis by (simp add: int64_def)
  qed
qed

text \<open>The text of a stub mapping and what it parses to.\<close>

definition request_text :: string where
  "request_text = ''{\"method\":\"GET\",\"url\":\"/a\"}''"

definition response_text :: string where
  "response_text = ''{\"status\":200,\"body\":\"x\"}''"

definition mapping_text :: string where
  "mapping_text = ''{\"request\":'' @ request_text @ '',\"response\":'' @ response_text @ ''}''"

definition zero_id :: string where
  "zero_id = ''00000000-0000-4000-8000-000000000000''"

lemma mapping_text_object:
  "decode_object mapping_text = Ok [(''request'', request_text), (''response'', response_text)]"
  by code_simp

lemma text_objects:
  "unmarshal_object request_text = Some [(''method'', ''\"GET\"''), (''url'', ''\"/a\"'')]"
  "unmarshal_object response_text = Some [(''status'', ''200''), (''body'', ''\"x\"'')]"
  by code_simp+

lemma text_strings:
  "unmarshal_string ''\"GET\"'' = Some ''GET''" "unmarshal_string ''\"/a\"'' = Some ''/a''"
  "unmarshal_string ''\"x\"'' = Some ''x''" "unmarshal_int ''200'' = Some 200"
  "\<not> raw_is_null ''\"GET\"''" "\<not> raw_is_null ''\"/a\"''" "\<not> raw_is_null ''\"x\"''"
  "\<not> raw_is_null ''200''"
  by code_simp+

lemmas field_simps' = string_field_def int_field_def bool_field_def typed_field_def
  parse_string_array_field_def raw_absent_def

lemma request_text_parses: "parse_request plain_lib request_text = Ok (any_request ''/a'')"
  by (simp add: parse_request_def text_objects text_strings field_simps' parse_body_patterns_def
      parse_equal_to_map_def parse_custom_matcher_def compile_pattern_def any_request_def to_upper_def
      to_upper_char_def is_lower_def)

lemma response_text_parses: "parse_response plain_lib response_text = Ok (plain_response ''x'')"
  by (simp add: parse_response_def text_objects text_strings field_simps' parse_headers_def
      parse_response_body_def compile_response_template_def has_template_transformer_def
      parse_delay_distribution_def parse_chunked_dribble_delay_def plain_response_def)

lemma zero_id_fresh: "new_id (Some (replicate 16 0)) = Ok zero_id"
  by code_simp

lemma mapping_text_parses:
  "parse_json plain_lib (Some (replicate 16 0)) mapping_text
     = Ok (plain_stub ''x'' 5 no_scenario\<lparr>m_id := zero_id,
         m_raw := set_raw_id zero_id [(''request'', request_text), (''response'', response_text)]\<rparr>)"
  by (simp add: parse_json_def parse_json_with_id_def mapping_text_object request_text_parses
      response_text_parses text_objects zero_id_fresh field_simps' choose_id_def Let_def
      validate_object_field_def parse_scenario_def plain_stub_def no_scenario_def default_priority_def)

text \<open>A recorded event, and the libraries around the recorder and the descriptors.\<close>

definition sample_event :: "string \<Rightarrow> serve_event" where
  "sample_event url = \<lparr>se_method = ''GET'', se_url = url, se_path = url, se_raw_query = [],
     se_request_headers = [], se_request_body = [], se_response_status = 200, se_response_headers = [],
     se_response_body = [], se_source = ''stub'', se_protocol = ''http'', se_recorded_at = 1\<rparr>"

definition plain_net :: netlib where
  "plain_net = \<lparr>parse_url = (\<lambda>s. Some \<lparr>up_scheme = ''http'', up_host = s, up_path = [],
     up_raw_query = [], up_fragment = [], up_other = []\<rparr>),
     url_string = (\<lambda>u. up_scheme u @ ''://'' @ up_host u @ up_path u), parse_media_type = (\<lambda>s. Some s)\<rparr>"

definition target_spec :: recording_spec where
  "target_spec = \<lparr>spec_target_base_url = ''h'', spec_output_format = [], spec_capture_headers = [],
     spec_request_body_pattern = [], spec_repeats_as_scenarios = False, spec_persist = False,
     spec_extract_body_criteria = GNil\<rparr>"

definition plain_proto :: "string protolib" where
  "plain_proto = \<lparr>pl_parse_set = (\<lambda>s. Some [s]), pl_new_files = (\<lambda>_. None),
     pl_to_json = (\<lambda>_ _ s. Some s), pl_from_json = (\<lambda>_ _ s. Some s), pl_empty = (\<lambda>_ _. Some [])\<rparr>"

end
