(* ===== verification/Props_Matching.thy ===== *)
theory Props_Matching
  imports Samples
begin

text \<open>
  Properties of the choice of the stub: the index of the mapping store, the lazily read body, the
  order of the mappings and the scenario states together choose what filtering the whole table would.
\<close>

text \<open>
  C1: For mappings that the parser made, the endpoint's search (candidate index, lazily read and cached
  request body, selection loop, scenario store) returns the mapping that filtering the whole table by
  a full match and taking the best one returns, and moves the scenario of that mapping only.
\<close>

theorem find_match_is_reference:
  assumes "good_store L mappings"
  shows "\<exists>cache. find_match_lazy L mappings scenarios r cache_context (new_body_cache src len)
      = (reference_match L mappings scenarios r (cache_value (new_body_cache src len)),
         after_match scenarios (reference_match L mappings scenarios r (cache_value (new_body_cache src len))),
         cache)
    \<and> cache_value cache = cache_value (new_body_cache src len)"
  using assms by (rule bc.find_match_lazy_reference)

lemma sample_reference:
  "reference_match plain_lib sample_store (Some new_scenario_store) get_a (Some [])
     = Some (plain_stub ''b'' 1 (two_step ''Started'' ''done'')\<lparr>m_sequence := 2\<rparr>)"
  by (simp add: reference_match_def sample_store_list match_simps scenario_simps select_best_def
      better_def compare_stub_order_def int64_def)

theorem find_match_is_reference_witness:
  "\<exists>cache. find_match_lazy plain_lib sample_store (Some new_scenario_store) get_a cache_context
        (new_body_cache NoBody 0)
      = (Some (plain_stub ''b'' 1 (two_step ''Started'' ''done'')\<lparr>m_sequence := 2\<rparr>),
         Some (transition_locked (plain_stub ''b'' 1 (two_step ''Started'' ''done'')\<lparr>m_sequence := 2\<rparr>)
                 new_scenario_store), cache)"
  using find_match_is_reference [OF sample_store_good, of "Some new_scenario_store" get_a NoBody 0]
  by (auto simp: cache_value_new sample_reference after_match_def)

text \<open>
  C10: The mapping that serves a request is stored, matches the request, is in its required scenario
  state, and no other such mapping has a smaller priority, or the same priority and an earlier creation.
\<close>

theorem find_match_best:
  assumes "good_store L mappings"
    and "find_match_lazy L mappings scenarios r cache_context (new_body_cache src len) = (Some m, rest)"
  shows "m \<in> set (store_list mappings)
    \<and> stub_matches L r (cache_value (new_body_cache src len)) m \<and> eligible_in scenarios m
    \<and> (\<forall>x \<in> set (store_list mappings).
         stub_matches L r (cache_value (new_body_cache src len)) x \<and> eligible_in scenarios x
           \<longrightarrow> stub_rank_of m \<le> stub_rank_of x)"
proof -
  have "reference_match L mappings scenarios r (cache_value (new_body_cache src len)) = Some m"
    using bc.find_match_lazy_reference [OF assms(1), of scenarios r "new_body_cache src len"] assms(2)
    by auto
  then show ?thesis by (rule reference_match_best [OF assms(1)])
qed

theorem find_match_best_witness:
  "stub_rank_of (plain_stub ''b'' 1 (two_step ''Started'' ''done'')\<lparr>m_sequence := 2\<rparr>)
     \<le> stub_rank_of (plain_stub ''a'' 5 no_scenario\<lparr>m_sequence := 1\<rparr>)"
proof -
  obtain cache where "find_match_lazy plain_lib sample_store (Some new_scenario_store) get_a cache_context
        (new_body_cache NoBody 0)
      = (Some (plain_stub ''b'' 1 (two_step ''Started'' ''done'')\<lparr>m_sequence := 2\<rparr>),
         after_match (Some new_scenario_store)
           (Some (plain_stub ''b'' 1 (two_step ''Started'' ''done'')\<lparr>m_sequence := 2\<rparr>)), cache)"
    using bc.find_match_lazy_reference [OF sample_store_good, of "Some new_scenario_store" get_a
        "new_body_cache NoBody 0"] by (auto simp: cache_value_new sample_reference)
  from find_match_best [OF sample_store_good this] show ?thesis
    by (simp add: sample_store_list sample_a_matches cache_value_new)
qed

text \<open>
  A request is left unserved only when no stored mapping both matches it and is in its scenario state;
  then no scenario changes its state.
\<close>

theorem find_match_none:
  assumes "good_store L mappings"
    and "find_match_lazy L mappings scenarios r cache_context (new_body_cache src len) = (m, scenarios', cache)"
  shows "(m = None \<longleftrightarrow>
      (\<forall>x \<in> set (store_list mappings).
         \<not> (stub_matches L r (cache_value (new_body_cache src len)) x \<and> eligible_in scenarios x)))
    \<and> (m = None \<longrightarrow> scenarios' = scenarios)"
proof -
  have "m = reference_match L mappings scenarios r (cache_value (new_body_cache src len))"
    and "scenarios' = after_match scenarios m"
    using bc.find_match_lazy_reference [OF assms(1), of scenarios r "new_body_cache src len"] assms(2)
    by auto
  then show ?thesis
    using reference_match_None [of L mappings scenarios r "cache_value (new_body_cache src len)"]
    by auto
qed

theorem find_match_none_witness:
  "fst (find_match_lazy plain_lib sample_store (Some new_scenario_store) get_a cache_context
     (new_body_cache NoBody 0)) \<noteq> None"
proof (cases "find_match_lazy plain_lib sample_store (Some new_scenario_store) get_a cache_context
    (new_body_cache NoBody 0)")
  case (fields m sc cache)
  from find_match_none [OF sample_store_good fields] show ?thesis
    using sample_a_matches
    by (auto simp: fields sample_store_list cache_value_new)
qed

text \<open>
  C20: The index finds every stored mapping that matches the request, once, and nothing else: the matching
  candidates are a permutation of the matching mappings of the table.
\<close>

theorem index_finds_matches:
  assumes "store_inv s" and "\<forall>m \<in> set (store_list s). wf_request L (m_request m)"
  shows "mset (filter (stub_matches L r body)
      (candidates (ms_snapshot s) (hr_method r) (hr_request_uri r) (hu_path (hr_url r))))
    = mset (filter (stub_matches L r body) (store_list s))"
  using assms by (intro candidates_of_store) (auto intro: stub_matches_candidate)

theorem index_finds_matches_witness:
  "mset (filter (stub_matches plain_lib get_a (Some []))
      (candidates (ms_snapshot sample_store) ''GET'' ''/a'' ''/a'')) = mset (store_list sample_store)"
proof -
  have "\<forall>m \<in> set (store_list sample_store). wf_request plain_lib (m_request m)"
    using sample_store_good by (simp add: good_store_def)
  from index_finds_matches [OF sample_store_inv this, of get_a "Some []"] show ?thesis
    by (simp add: sample_store_list match_simps)
qed

text \<open>
  Matching reads the request body only for a mapping that looks at it and whose method, URL, query
  and headers match; the answer is the one of the eager match on that body.
\<close>

theorem match_reads_body_last:
  "matches_lazy L p meth uri path query headers body s =
     (request_matches L p meth uri path query headers (fst (body s)),
      if matches_method p meth \<and> matches_url L p uri path \<and> match_query (rp_query_parameters p) query
         \<and> match_headers (rp_headers p) headers \<and> requires_body p
      then snd (body s) else s)"
proof (rule prod_eqI)
  show "fst (matches_lazy L p meth uri path query headers body s)
      = fst (request_matches L p meth uri path query headers (fst (body s)),
          if matches_method p meth \<and> matches_url L p uri path \<and> match_query (rp_query_parameters p) query
             \<and> match_headers (rp_headers p) headers \<and> requires_body p
          then snd (body s) else s)"
    by (simp add: matches_lazy_fst request_matches_iff)
qed (simp add: matches_lazy_snd head_condition_def)

text \<open>
  Two mappings of different priority are compared by priority exactly when the difference of the two
  priorities is a 64-bit integer; beyond that the subtraction wraps and the order is reversed.
\<close>

theorem compare_priority_wraps:
  assumes "in_int64 (m_priority a)" and "in_int64 (m_priority b)" and "m_priority a \<noteq> m_priority b"
  shows "(compare_stub_order a b < 0 \<longleftrightarrow> m_priority a < m_priority b)
    \<longleftrightarrow> in_int64 (m_priority a - m_priority b)"
proof (cases "in_int64 (m_priority a - m_priority b)")
  case True
  with assms(3) show ?thesis by (simp add: compare_stub_order_def)
next
  case False
  then have "m_priority a - m_priority b < - (2 ^ 63) \<or> 2 ^ 63 \<le> m_priority a - m_priority b"
    by (auto simp: in_int64_def)
  with assms False show ?thesis
    by (auto simp: compare_stub_order_def int64_wraps in_int64_def)
qed

theorem compare_priority_wraps_witness:
  "compare_stub_order (plain_stub ''a'' (2 ^ 63 - 1) no_scenario) (plain_stub ''b'' (- 2) no_scenario) < 0"
  using compare_priority_wraps [of "plain_stub ''a'' (2 ^ 63 - 1) no_scenario" "plain_stub ''b'' (- 2) no_scenario"]
  by (simp add: in_int64_def)

end
