(* ===== verification/Props_Stores.thy ===== *)
theory Props_Stores
  imports Samples
begin

text \<open>
  Properties of the stores: mappings, scenarios, recorded events and gRPC descriptors.
\<close>

section \<open>Mappings\<close>

text \<open>
  C12: The mapping store refines a map that remembers insertion order: creating overwrites in place or
  appends, replacing changes a stored mapping only and gives it the identifier, deleting removes it.
\<close>

theorem store_refines_map:
  assumes "store_inv s"
  shows "store_entries (snd (store_create m s)) = aput (m_id m) (unsequenced m) (store_entries s)
    \<and> store_entries (snd (store_replace i m s))
        = (if store_get s i = None then store_entries s else aput i (rekey i m) (store_entries s))
    \<and> store_entries (snd (store_delete i s)) = AList.delete i (store_entries s)
    \<and> map_of (store_entries s) i = map_option unsequenced (store_get s i)"
  using assms by (simp add: entries_create entries_replace entries_delete store_views map_of_store_entries)

theorem store_refines_map_witness:
  "map fst (store_entries (snd (store_delete ''a'' sample_store))) = [''b'']
   \<and> store_get sample_store ''c'' = None"
proof -
  have keys: "map fst (store_entries sample_store) = [''a'', ''b'']"
    by (simp add: store_entries_def sample_store_list)
  have "map_of (store_entries sample_store) ''c'' = None"
    by (simp add: store_entries_def sample_store_list)
  with store_refines_map [OF sample_store_inv, of undefined "''c''"]
  have c: "store_get sample_store ''c'' = None" by simp
  have "store_entries (snd (store_delete ''a'' sample_store)) = AList.delete ''a'' (store_entries sample_store)"
    using store_refines_map [OF sample_store_inv, of undefined "''a''"] by blast
  with c show ?thesis by (simp add: store_entries_def sample_store_list)
qed

text \<open>
  C16: Creating, replacing and deleting keep the invariant of the store: the published snapshot and its
  index are those of the table, the order lists every identifier once, and sequence numbers grow along it.
\<close>

theorem store_operations_inv:
  assumes "store_inv s" and "ms_next_seq s < - 1"
  shows "store_inv (snd (store_create m s)) \<and> store_inv (snd (store_replace i m s))
    \<and> store_inv (snd (store_delete i s))"
  using assms create_inv [of s m] by (simp add: seq_room_def replace_inv delete_inv)

theorem store_operations_inv_witness:
  "store_inv (snd (store_create (plain_stub ''a'' 5 no_scenario) new_store))"
  using store_operations_inv [OF new_store_inv] new_store_room by (simp add: seq_room_def)

text \<open>
  Creating a mapping under a new identifier and deleting it again leaves the visible mappings and
  their order as they were.
\<close>

theorem delete_undoes_create:
  assumes "store_inv s" and "seq_room s" and "store_get s (m_id m) = None"
  shows "store_entries (snd (store_delete (m_id m) (snd (store_create m s)))) = store_entries s"
  using ms.delete_create [OF assms(1,2), of m] assms(3) by (simp add: sequenced_get_def)

theorem delete_undoes_create_witness:
  "store_entries (snd (store_delete ''a'' (snd (store_create (plain_stub ''a'' 5 no_scenario) new_store)))) = []"
proof -
  have "store_get new_store (m_id (plain_stub ''a'' 5 no_scenario)) = None"
    by (simp add: store_get_def new_store_def empty_snapshot_def)
  from delete_undoes_create [OF new_store_inv new_store_room this] show ?thesis
    by (simp add: store_entries_def store_list_def new_store_def empty_snapshot_def)
qed

section \<open>Scenarios\<close>

text \<open>
  C23: Serving from the scenario store takes the best candidate whose required state is the current one,
  sets the state of its scenario to its new state, and touches no other scenario.
\<close>

theorem scenario_select:
  assumes "list_all small_priority cands"
    and "select_and_transition compare_stub_order cands (Some s) = (Some m, Some s')"
  shows "m \<in> set cands \<and> matches_state_locked s m
    \<and> (\<forall>x \<in> set cands. matches_state_locked s x \<longrightarrow> stub_rank_of m \<le> stub_rank_of x)
    \<and> state_locked s' name =
       (if name = scenario_name m \<and> name \<noteq> [] \<and> sc_new_state (m_scenario m) \<noteq> []
        then sc_new_state (m_scenario m) else state_locked s name)"
  using scn.select_Some [of cands s m] scn.select_state [of cands s name] assms
  by (auto simp: scn.eligible_def matches_state_locked_def Let_def)

definition step_stub :: mapping_stub where
  "step_stub = plain_stub ''b'' 1 (two_step ''Started'' ''done'')"

theorem scenario_select_witness:
  "state_locked (transition_locked step_stub new_scenario_store) ''s'' = ''done''"
proof -
  have "select_and_transition compare_stub_order [step_stub] (Some new_scenario_store)
      = (Some step_stub, Some (transition_locked step_stub new_scenario_store))"
    by (simp add: select_and_transition_def select_best_matching_state_locked_def step_stub_def
        better_def scenario_simps)
  moreover have "list_all small_priority [step_stub]"
    by (simp add: step_stub_def small_priority_def)
  ultimately show ?thesis
    using scenario_select [of "[step_stub]" new_scenario_store step_stub
        "transition_locked step_stub new_scenario_store" "''s''"]
    by (simp add: step_stub_def two_step_def)
qed

text \<open>
  C32: Deleting the last mapping of a scenario forgets its state, so it starts again at Started; as
  long as another member remains, the state stays.
\<close>

theorem deleting_last_member_resets:
  assumes "scenario_inv s"
  shows "state_locked (remove_mapping_locked m s) (scenario_name m) =
    (if members_of_scenario s (scenario_name m) \<subseteq> {m_id m} then started
     else state_locked s (scenario_name m))"
  by (simp add: state_locked_def states_remove [OF assms])

theorem deleting_last_member_resets_witness:
  "state_locked (remove_mapping_locked step_stub
     (transition_locked step_stub (add_mapping_locked step_stub new_scenario_store))) ''s'' = ''Started''"
proof -
  let ?s = "transition_locked step_stub (add_mapping_locked step_stub new_scenario_store)"
  have inv: "scenario_inv ?s"
    by (intro scenario_inv_transition scenario_inv_add scenario_inv_new)
  have "members_of_scenario ?s ''s'' \<subseteq> {''b''}"
    by (simp add: members_of_scenario_def step_stub_def two_step_def add_mapping_locked_def
        new_scenario_store_def Let_def)
  with deleting_last_member_resets [OF inv, of step_stub] show ?thesis
    by (simp add: step_stub_def two_step_def started_def)
qed

section \<open>Recorded events\<close>

text \<open>
  C27: After any run of served requests the journal holds the most recent ones, at most as many as its
  bound, in order and each completed with protocol and time.
\<close>

theorem journal_is_latest:
  assumes "0 < rec_max_events s" and "length (rec_serve_events s) \<le> rec_max_events s"
  shows "rec_serve_events (fold (\<lambda>(now, e, b). add_event now e b) es s)
    = (let all = rec_serve_events s @ map (\<lambda>(now, e, b). complete_event now e) es
       in drop (length all - rec_max_events s) all)"
  using add_events_journal [OF assms, of es] by (simp add: add_events_def latest_def Let_def)

theorem journal_is_latest_witness:
  "rec_serve_events (fold (\<lambda>(now, e, b). add_event now e b)
      [(7, sample_event ''/a'', False), (8, sample_event ''/b'', False)]
      (new_recording_store\<lparr>rec_max_events := 1\<rparr>)) = [sample_event ''/b'']"
  using journal_is_latest [of "new_recording_store\<lparr>rec_max_events := 1\<rparr>"
      "[(7, sample_event ''/a'', False), (8, sample_event ''/b'', False)]"]
  by (simp add: new_recording_store_def Let_def complete_event_def sample_event_def)

text \<open>
  C28: Stopping a recording makes mappings of exactly the events the recording proxy served since the
  start, in order, whatever other requests came in between, and ends the session.
\<close>

theorem stop_returns_session:
  assumes "recording_start N spec s = (Ok u, s1)"
  shows "recording_stop L N rand (fold (\<lambda>(now, e, b). add_event now e b) es s1) =
     (build_snapshot L N rand
        (map (\<lambda>(now, e, b). complete_event now e) (filter (\<lambda>(now, e, b). b) es)) spec,
      (fold (\<lambda>(now, e, b). add_event now e b) es s1)\<lparr>rec_active := None\<rparr>)"
  using recording_session_events [OF assms, of L rand es] by (simp add: add_events_def)

lemma target_spec_starts:
  "recording_start plain_net target_spec new_recording_store =
     (Ok (), new_recording_store\<lparr>rec_active := Some \<lparr>sess_spec = target_spec, sess_events = []\<rparr>\<rparr>)"
  by code_simp

theorem stop_returns_session_witness:
  "recording_stop plain_lib plain_net (\<lambda>_. None)
     (add_event 3 (sample_event ''/a'') False
       (new_recording_store\<lparr>rec_active := Some \<lparr>sess_spec = target_spec, sess_events = []\<rparr>\<rparr>))
   = (Ok \<lparr>snap_mappings = [], snap_total = 0\<rparr>,
      new_recording_store\<lparr>rec_serve_events := [sample_event ''/a'']\<rparr>)"
  using stop_returns_session [OF target_spec_starts, of plain_lib "\<lambda>_. None" "[(3, sample_event ''/a'', False)]"]
  by (simp add: build_snapshot_def add_event_def complete_event_def sample_event_def new_recording_store_def Let_def)








section \<open>Descriptors\<close>

text \<open>
  C33: Reset links exactly the stored descriptor sets, in the order of their file names; on success the
  active registry is the linked one under the next generation, on failure nothing changes.
\<close>

theorem reset_links_stored_sets:
  assumes "descriptor_inv L P s"
  shows "reset_locked P s =
     (case build_registry P (concat (map (\<lambda>(_, b). the (pl_parse_set P (db_data b)))
             (filter (\<lambda>(_, b). db_kind b = KindDescriptorSet) (sort_keys (ds_blobs s))))) of
        Ok r \<Rightarrow> (Ok (r\<lparr>rg_generation := ds_generation s + 1\<rparr>),
                 s\<lparr>ds_generation := ds_generation s + 1,
                   ds_active := r\<lparr>rg_generation := ds_generation s + 1\<rparr>\<rparr>)
      | Err e \<Rightarrow> (Err e, s)
      | Panic \<Rightarrow> (Panic, s))"
  using reset_spec [OF assms] by (simp add: parsed_sets_def)

theorem reset_links_stored_sets_witness:
  "reset_locked plain_proto (snd (descriptor_put plain_lib plain_proto 1 ''a.dsc'' ''x'' new_descriptor_store))
   = (Err ''build descriptor registry: '',
      snd (descriptor_put plain_lib plain_proto 1 ''a.dsc'' ''x'' new_descriptor_store))"
proof -
  let ?s = "snd (descriptor_put plain_lib plain_proto 1 ''a.dsc'' ''x'' new_descriptor_store)"
  have inv: "descriptor_inv plain_lib plain_proto ?s"
    by (intro descriptor_inv_put descriptor_inv_new)
  have blobs: "ds_blobs ?s = [(''a.dsc'', \<lparr>db_name = ''a.dsc'', db_kind = KindDescriptorSet,
      db_data = ''x'', db_updated_at = 1\<rparr>)]"
    by code_simp
  show ?thesis
    unfolding reset_links_stored_sets [OF inv] blobs
    by (simp add: sort_keys_def plain_proto_def build_registry_def)
qed

end
