(* ===== verification/Go_Quote.thy ===== *)
theory Go_Quote
  imports Utf8_Facts GraphQL_Tokens Go_Base64
begin

text \<open>
  \<^verbatim>\<open>strconv.Quote\<close> and \<^verbatim>\<open>strconv.Unquote\<close>: every string, valid UTF-8 or not, is read back from its quoted form,
  so that different strings have different quoted forms.
\<close>

section \<open>Hexadecimal digits\<close>

lemma hex_nat_snoc: "hex_nat (s @ [hex_digit d]) = 16 * hex_nat s + d" if "d < 16"
  using that by (simp add: hex_val_digit)

declare hex_nat.simps [simp del]

lemma hex_fixed_digits: "list_all is_hex (hex_fixed n v)"
  by (induction n arbitrary: v) simp_all

lemma length_hex_fixed [simp]: "length (hex_fixed n v) = n"
  by (induction n arbitrary: v) simp_all

lemma hex_nat_fixed: "v < 16 ^ n \<Longrightarrow> hex_nat (hex_fixed n v) = v"
proof (induction n arbitrary: v)
  case (Suc n)
  then have "v div 16 < 16 ^ n" by (simp add: less_mult_imp_div_less mult.commute)
  with Suc.IH have "hex_nat (hex_fixed n (v div 16)) = v div 16" .
  then show ?case by (simp only: hex_fixed.simps) (simp add: hex_nat_snoc)
qed (simp add: hex_nat.simps)

lemma read_hex_fixed: "v < 16 ^ n \<Longrightarrow> read_hex n (hex_fixed n v @ t) = Some v"
  by (simp add: read_hex_def hex_fixed_digits hex_nat_fixed)

section \<open>Runes\<close>

text \<open>An escape: a backslash and the text after it, which stands for \<open>bs\<close>.\<close>

lemma unquote_go_escape:
  assumes "unquote_escape (e @ t) = Some (bs, length e)"
  shows "unquote_go (CHR 0x5C # e @ t) = map_option (\<lambda>u. bs @ u) (unquote_go t)"
  using assms by simp

lemma unquote_go_high:
  assumes "scalar r" and "0x80 \<le> r"
  shows "unquote_go (encode_rune r @ t) = map_option (\<lambda>u. encode_rune r @ u) (unquote_go t)"
proof -
  obtain c cs where c: "encode_rune r = c # cs" by (cases "encode_rune r") auto
  have "0x80 \<le> byte c"
  proof (rule ccontr)
    assume "\<not> 0x80 \<le> byte c"
    then have "decode_rune (encode_rune r @ t) = (byte c, 1)" by (simp add: c decode_rune.simps)
    with decode_encode [OF assms(1), of t] have "r = byte c" by simp
    with assms(2) \<open>\<not> 0x80 \<le> byte c\<close> show False by simp
  qed
  moreover have "decode_rune (c # cs @ t) = (r, Suc (length cs))" using decode_encode [OF assms(1), of t] by (simp add: c)
  ultimately show ?thesis by (cases "unquote_go t") (simp_all add: c)
qed

lemma unquote_quote_rune:
  assumes "scalar r"
  shows "unquote_go (quote_rune pr r @ t) = map_option (\<lambda>u. encode_rune r @ u) (unquote_go t)"
proof -
  consider "r = 34 \<or> r = 92" | "r \<noteq> 34" "r \<noteq> 92" "r < 0x80" "0x20 \<le> r" "r < 0x7F"
    | "0x80 \<le> r" "pr r" | "r \<in> {7, 8, 12, 10, 13, 9, 11}"
    | "r \<notin> {7, 8, 12, 10, 13, 9, 11}" "r < 0x20 \<or> r = 0x7F" | "0x80 \<le> r" "r < 0x10000" "\<not> pr r"
    | "0x10000 \<le> r" "\<not> pr r"
  proof (cases "r < 0x80")
    case True
    then have "r = 34 \<or> r = 92 \<or> (r \<noteq> 34 \<and> r \<noteq> 92 \<and> 0x20 \<le> r \<and> r < 0x7F) \<or> r < 0x20 \<or> r = 0x7F"
      by presburger
    then show thesis using True that(1,2,4,5) by blast
  next
    case False
    then show thesis using that(3,6,7) by (meson not_less)
  qed
  then show ?thesis
  proof cases
    case 1
    then have q: "quote_rune pr r = CHR 0x5C # [chr r]" and e: "encode_rune r = [chr r]"
      by (auto simp: quote_rune_def encode_rune_def)
    have "chr 34 = CHR 0x22" "chr 92 = CHR 0x5C" by code_simp+
    with 1 have "chr r = CHR 0x22 \<or> chr r = CHR 0x5C" by auto
    then have "unquote_escape ([chr r] @ t) = Some ([chr r], length [chr r])"
      by (elim disjE) (simp_all add: unquote_escape_def is_octal_def)
    from unquote_go_escape [OF this] show ?thesis unfolding q e by simp
  next
    case 2
    then have "encode_rune r = [chr r]" "quote_rune pr r = [chr r]" "byte (chr r) = r"
      by (simp_all add: encode_rune_def quote_rune_def)
    moreover have "chr r \<noteq> CHR 0x5C" using 2 by (auto dest!: arg_cong [of _ _ byte])
    ultimately show ?thesis using 2 by simp
  next
    case 3
    then show ?thesis using unquote_go_high [OF assms 3(1)] by (simp add: quote_rune_def)
  next
    case 4
    then show ?thesis
      by (cases "unquote_go t"; elim insertE emptyE)
        (simp_all add: quote_rune_def encode_rune_def unquote_escape_def)
  next
    case 5
    then have "r \<noteq> 34" "r \<noteq> 92" "\<not> (0x20 \<le> r \<and> r < 0x7F)" "r < 0x80" by presburger+
    with 5 have q: "quote_rune pr r = CHR 0x5C # (CHR ''x'' # hex_fixed 2 r)" and e: "encode_rune r = [chr r]"
      by (simp_all add: quote_rune_def encode_rune_def)
    have "read_hex 2 (hex_fixed 2 r @ t) = Some r" using 5 by (intro read_hex_fixed) auto
    then have "unquote_escape ((CHR ''x'' # hex_fixed 2 r) @ t) = Some ([chr r], length (CHR ''x'' # hex_fixed 2 r))"
      by (simp add: unquote_escape_def)
    from unquote_go_escape [OF this] show ?thesis unfolding q e by simp
  next
    case 6
    then have q: "quote_rune pr r = CHR 0x5C # (CHR ''u'' # hex_fixed 4 r)" by (auto simp: quote_rune_def)
    have "read_hex 4 (hex_fixed 4 r @ t) = Some r" using 6 by (intro read_hex_fixed) auto
    moreover have "valid_rune r" using assms by (auto simp: valid_rune_def scalar_def)
    ultimately have "unquote_escape ((CHR ''u'' # hex_fixed 4 r) @ t)
        = Some (encode_rune r, length (CHR ''u'' # hex_fixed 4 r))"
      by (simp add: unquote_escape_def)
    from unquote_go_escape [OF this] show ?thesis unfolding q by simp
  next
    case 7
    then have q: "quote_rune pr r = CHR 0x5C # (CHR ''U'' # hex_fixed 8 r)" by (auto simp: quote_rune_def)
    have "r < 16 ^ 8" using assms by (auto simp: scalar_def)
    then have "read_hex 8 (hex_fixed 8 r @ t) = Some r" by (rule read_hex_fixed)
    moreover have "valid_rune r" using assms by (auto simp: valid_rune_def scalar_def)
    ultimately have "unquote_escape ((CHR ''U'' # hex_fixed 8 r) @ t)
        = Some (encode_rune r, length (CHR ''U'' # hex_fixed 8 r))"
      by (simp add: unquote_escape_def)
    from unquote_go_escape [OF this] show ?thesis unfolding q by simp
  qed
qed

text \<open>No quote ends the text early: a plain character is scanned as it is, a backslash with the next one.\<close>

definition quotable :: "char \<Rightarrow> bool" where
  "quotable c \<longleftrightarrow> c \<noteq> CHR 0x22 \<and> c \<noteq> CHR 0x5C"

lemma scan_quotable:
  "list_all quotable p \<Longrightarrow> scan_quoted (p @ t) = map_option (\<lambda>(u, r). (p @ u, r)) (scan_quoted t)"
proof (induction p)
  case Nil
  then show ?case by (cases "scan_quoted t") auto
next
  case (Cons c p)
  then show ?case by (cases "scan_quoted t") (auto simp: quotable_def)
qed

lemma scan_escape:
  assumes "list_all quotable p"
  shows "scan_quoted (CHR 0x5C # e # p @ t) = map_option (\<lambda>(u, r). (CHR 0x5C # e # p @ u, r)) (scan_quoted t)"
  by (cases "scan_quoted t") (auto simp: scan_quotable [OF assms])

lemma hex_quotable: "list_all quotable (hex_fixed n v)"
  using hex_fixed_digits [of n v] by (auto simp: list_all_iff quotable_def is_hex_def hex_val_def)

lemma rune_quotable:
  assumes "scalar r" and "r \<noteq> 34" and "r \<noteq> 92"
  shows "list_all quotable (encode_rune r)"
proof (cases "r < 0x80")
  case True
  then have "byte (chr r) = r" by simp
  then have "chr r \<noteq> CHR 0x22" "chr r \<noteq> CHR 0x5C"
    using assms(2,3) by (auto dest!: arg_cong [of _ _ byte])
  then show ?thesis using True by (simp add: encode_rune_def quotable_def)
next
  case False
  have small: "0x80 + n mod 64 < (256 :: nat)" for n using mod_less_divisor [of 64 n] by linarith
  have "list_all (\<lambda>c. 0x80 \<le> byte c) (encode_rune r)"
    using False small assms(1) by (auto simp: encode_rune_def rune_error_def Let_def scalar_def)
  then show ?thesis by (auto simp: list_all_iff quotable_def)
qed

lemma quote_rune_shape:
  "(\<exists>e p. quote_rune pr r = CHR 0x5C # e # p \<and> list_all quotable p)
   \<or> (quote_rune pr r = encode_rune r \<and> r \<noteq> 34 \<and> r \<noteq> 92)"
  by (simp add: quote_rune_def hex_quotable)

lemma scan_quote_rune:
  assumes "scalar r"
  shows "scan_quoted (quote_rune pr r @ t) = map_option (\<lambda>(u, v). (quote_rune pr r @ u, v)) (scan_quoted t)"
proof -
  consider e p where "quote_rune pr r = CHR 0x5C # e # p" "list_all quotable p"
    | "quote_rune pr r = encode_rune r" "r \<noteq> 34" "r \<noteq> 92"
    using quote_rune_shape by blast
  then show ?thesis
  proof cases
    case 1
    then show ?thesis using scan_escape [of p e t] by simp
  next
    case 2
    then show ?thesis using scan_quotable [OF rune_quotable [OF assms]] by simp
  qed
qed

section \<open>Strings\<close>

lemma quote_step:
  assumes "s = c # cs"
  obtains p q rest where "s = p @ rest" and "quote_content pr s = q @ quote_content pr rest"
    and "length rest < length s"
    and "\<And>t. unquote_go (q @ t) = map_option (\<lambda>u. p @ u) (unquote_go t)"
    and "\<And>t. scan_quoted (q @ t) = map_option (\<lambda>(u, v). (q @ u, v)) (scan_quoted t)"
proof -
  obtain r w where d: "decode_rune s = (r, w)" by fastforce
  show thesis
  proof (cases "(r, w) = (rune_error, 1)")
    case True
    let ?q = "CHR 0x5C # (CHR ''x'' # hex_fixed 2 (byte c))"
    have high: "\<not> byte c < 0x80"
    proof
      assume "byte c < 0x80"
      then have "decode_rune s = (byte c, 1)" by (simp add: assms decode_rune.simps)
      with d True \<open>byte c < 0x80\<close> show False by (simp add: rune_error_def)
    qed
    have hex: "read_hex 2 (hex_fixed 2 (byte c) @ t) = Some (byte c)" for t
      by (rule read_hex_fixed) (use byte_less [of c] in simp)
    have esc: "unquote_escape ((CHR ''x'' # hex_fixed 2 (byte c)) @ t)
        = Some ([chr (byte c)], length (CHR ''x'' # hex_fixed 2 (byte c)))" for t
      using hex by (simp add: unquote_escape_def)
    have u: "unquote_go (?q @ t) = map_option (\<lambda>u. [c] @ u) (unquote_go t)" for t
      using unquote_go_escape [OF esc, of t] by simp
    have s: "scan_quoted (?q @ t) = map_option (\<lambda>(u, v). (?q @ u, v)) (scan_quoted t)" for t
      using scan_escape [OF hex_quotable, of "CHR ''x''" 2 "byte c" t] by simp
    have "quote_content pr s = ?q @ quote_content pr cs" using high d True by (simp add: assms)
    with u s show thesis by (intro that [of "[c]" cs ?q]) (auto simp: assms)
  next
    case False
    note r = encode_decode [of c cs r w, folded assms, OF d False]
    have w: "0 < w" using decode_rune_width_pos [of c cs] d by (simp add: assms del: decode_rune_width_pos)
    have "quote_content pr s = quote_rune pr r @ quote_content pr (drop w s)"
    proof (cases "byte c < 0x80")
      case True
      then have "r = byte c" "w = 1" using d by (simp_all add: assms decode_rune.simps)
      with True show ?thesis by (simp add: assms)
    next
      case high: False
      with d False show ?thesis by (auto simp: assms)
    qed
    moreover have "s = encode_rune r @ drop w s" using r by (metis append_take_drop_id)
    moreover have "length (drop w s) < length s" using w by (simp add: assms)
    ultimately show thesis
      using unquote_quote_rune [of r pr] scan_quote_rune [of r pr] r
      by (intro that [of "encode_rune r" "drop w s" "quote_rune pr r"]) auto
  qed
qed

theorem unquote_quote: "unquote_go (quote_content pr s) = Some s"
proof (induction s rule: length_induct)
  case (1 s)
  show ?case
  proof (cases s)
    case (Cons c cs)
    then obtain p q rest where "s = p @ rest" "quote_content pr s = q @ quote_content pr rest"
      "length rest < length s" "\<And>t. unquote_go (q @ t) = map_option (\<lambda>u. p @ u) (unquote_go t)"
      using quote_step [of s c cs pr] by metis
    with 1 show ?thesis by simp
  qed simp
qed

theorem scan_quote: "scan_quoted (quote_content pr s @ CHR 0x22 # t) = Some (quote_content pr s, t)"
proof (induction s rule: length_induct)
  case (1 s)
  show ?case
  proof (cases s)
    case (Cons c cs)
    then obtain q rest where q: "quote_content pr s = q @ quote_content pr rest" "length rest < length s"
      "\<And>t. scan_quoted (q @ t) = map_option (\<lambda>(u, v). (q @ u, v)) (scan_quoted t)"
      using quote_step [of s c cs pr] by metis
    have "scan_quoted (quote_content pr rest @ CHR 0x22 # t) = Some (quote_content pr rest, t)"
      using 1 q(2) by blast
    then show ?thesis by (simp add: q(1,3))
  qed simp
qed

lemma quote_content_inj: "quote_content pr s = quote_content pr t \<Longrightarrow> s = t"
  by (metis option.inject unquote_quote)

end
