(* ===== verification/GraphQL_Layout.thy ===== *)
theory GraphQL_Layout
  imports GraphQL_Spec Go_Quote
begin

text \<open>
  How a token sequence can be written down: with any white space, commas and comments between the tokens, and
  with strings in quoted or block form. The tokenizer reads every layout of a sequence as that sequence.
\<close>

section \<open>Names and numbers\<close>

definition is_name :: "string \<Rightarrow> bool" where
  "is_name n \<longleftrightarrow> n \<noteq> [] \<and> is_name_start (hd n) \<and> list_all is_name_continue (tl n)"

definition digits :: "string \<Rightarrow> bool" where
  "digits d \<longleftrightarrow> d \<noteq> [] \<and> list_all is_digit d"

definition is_fraction :: "string \<Rightarrow> bool" where
  "is_fraction f \<longleftrightarrow> f = [] \<or> (hd f = CHR ''.'' \<and> digits (tl f))"

definition is_exponent :: "string \<Rightarrow> bool" where
  "is_exponent e \<longleftrightarrow> e = [] \<or> (\<exists>c g d. e = c # g @ d \<and> c \<in> set ''eE'' \<and> g \<in> {[], ''+'', ''-''} \<and> digits d)"

definition is_number :: "string \<Rightarrow> bool" where
  "is_number n \<longleftrightarrow> (\<exists>g i f e. n = g @ i @ f @ e \<and> g \<in> {[], ''-''} \<and> digits i \<and> is_fraction f \<and> is_exponent e)"

definition starts_with :: "(char \<Rightarrow> bool) \<Rightarrow> string \<Rightarrow> bool" where
  "starts_with P s \<longleftrightarrow> (case s of [] \<Rightarrow> False | c # _ \<Rightarrow> P c)"

definition in_number :: "char \<Rightarrow> bool" where
  "in_number c \<longleftrightarrow> is_digit c \<or> c \<in> set ''.eE''"

section \<open>Layouts\<close>

inductive layout :: "string \<Rightarrow> graphql_token list \<Rightarrow> bool" where
  nothing: "layout [] []"
| ignored: "layout s ts \<Longrightarrow> is_ignored c \<Longrightarrow> layout (c # s) ts"
| comment: "layout s ts \<Longrightarrow> list_all not_eol cm \<Longrightarrow> \<not> starts_with not_eol s \<Longrightarrow> layout (CHR ''#'' # cm @ s) ts"
| name: "layout s ts \<Longrightarrow> is_name n \<Longrightarrow> \<not> starts_with is_name_continue s \<Longrightarrow> layout (n @ s) (TokName n # ts)"
| number: "layout s ts \<Longrightarrow> is_number n \<Longrightarrow> \<not> starts_with in_number s \<Longrightarrow> layout (n @ s) (TokNumber n # ts)"
| quoted: "layout s ts \<Longrightarrow> v \<noteq> [] \<or> \<not> starts_with (\<lambda>c. c = CHR 0x22) s
    \<Longrightarrow> layout (go_quote pr v @ s) (TokString v # ts)"
| block: "layout s ts \<Longrightarrow> str_index (v @ block_quote @ s) block_quote = Some (length v)
    \<Longrightarrow> layout (block_quote @ v @ block_quote @ s) (TokString v # ts)"
| spread: "layout s ts \<Longrightarrow> layout (''...'' @ s) (TokPunct ''...'' # ts)"
| punct: "layout s ts \<Longrightarrow> c \<in> set punct_chars \<Longrightarrow> layout (c # s) (TokPunct [c] # ts)"

section \<open>The readers\<close>

lemma lex_digits1_app:
  assumes "digits d" and "\<not> starts_with is_digit s"
  shows "lex_digits1 (d @ s) = Some (d, s)"
proof -
  have "takeWhile is_digit s = []" "dropWhile is_digit s = s"
    using assms(2) by (cases s; simp add: starts_with_def)+
  moreover have "\<forall>c \<in> set d. is_digit c" using assms(1) by (simp add: digits_def list_all_iff)
  ultimately have "takeWhile is_digit (d @ s) = d" "dropWhile is_digit (d @ s) = s"
    by (simp_all add: takeWhile_append2 dropWhile_append2)
  then show ?thesis using assms(1) by (simp add: lex_digits1_def digits_def)
qed

lemma digits1_app: "digits d \<Longrightarrow> \<not> starts_with is_digit s \<Longrightarrow> digits1 e (d @ s) = Ok (d, s)"
  by (simp add: digits1_def lex_digits1_app)

lemma starts_with_simps [simp]: "\<not> starts_with P []" "starts_with P (c # s) = P c"
  by (simp_all add: starts_with_def)

lemma starts_with_append: "starts_with P (s @ t) = (if s = [] then starts_with P t else P (hd s))"
  by (cases s) simp_all

lemma digit_hd: "digits d \<Longrightarrow> d \<noteq> [] \<and> is_digit (hd d)"
  by (cases d) (auto simp: digits_def)

lemma number_fraction_app:
  assumes "is_fraction f" and "\<not> starts_with (\<lambda>c. is_digit c \<or> c = CHR ''.'') s"
  shows "number_fraction (f @ s) = Ok (f, s)"
proof (cases f)
  case Nil
  then show ?thesis using assms(2) by (cases s) (auto simp: number_fraction_def)
next
  case (Cons c d)
  then have "c = CHR ''.''" "digits d" using assms(1) by (auto simp: is_fraction_def)
  moreover have "\<not> starts_with is_digit s" using assms(2) by (cases s) auto
  ultimately show ?thesis by (simp add: Cons number_fraction_def digits1_app)
qed

lemma number_exponent_app:
  assumes "is_exponent e" and "\<not> starts_with (\<lambda>c. is_digit c \<or> c \<in> set ''eE'') s"
  shows "number_exponent (e @ s) = Ok (e, s)"
proof (cases "e = []")
  case True
  then show ?thesis using assms(2) by (cases s) (auto simp: number_exponent_def)
next
  case False
  then obtain c g d where e: "e = c # g @ d" "c \<in> set ''eE''" "g \<in> {[], ''+'', ''-''}" "digits d"
    using assms(1) by (auto simp: is_exponent_def)
  have "\<not> starts_with is_digit s" using assms(2) by (cases s) auto
  note dig = digits1_app [OF e(4) this]
  obtain x xs where d: "d = x # xs" "is_digit x" using digit_hd [OF e(4)] by (cases d) auto
  then have "x \<noteq> CHR ''+''" "x \<noteq> CHR ''-''" by (auto simp: is_digit_def)
  with dig e show ?thesis by (auto simp: number_exponent_def Let_def d(1))
qed

lemma read_number_app:
  assumes "is_number n" and "\<not> starts_with in_number s"
  shows "read_graphql_number (n @ s) = Ok (n, s)"
proof -
  obtain g i f e where n: "n = g @ i @ f @ e" and g: "g \<in> {[], ''-''}" and i: "digits i"
    and f: "is_fraction f" and e: "is_exponent e" using assms(1) by (auto simp: is_number_def)
  obtain x xs where x: "i = x # xs" "is_digit x" using digit_hd [OF i] by (cases i) auto
  then have "x \<noteq> CHR ''-''" by (auto simp: is_digit_def)
  then have sign: "lex_sign (n @ s) = (g, i @ f @ e @ s)" using g by (auto simp: n x(1) lex_sign_def)
  have s: "\<not> starts_with is_digit s" "\<not> starts_with (\<lambda>c. is_digit c \<or> c \<in> set ''eE'') s"
    "\<not> starts_with (\<lambda>c. is_digit c \<or> c = CHR ''.'') s"
    using assms(2) by (cases s; auto simp: in_number_def)+
  have "e = [] \<or> hd e = CHR ''e'' \<or> hd e = CHR ''E''" using e by (auto simp: is_exponent_def)
  then have es: "\<not> starts_with (\<lambda>c. is_digit c \<or> c = CHR ''.'') (e @ s)"
    using s(3) by (auto simp: starts_with_append is_digit_def)
  have "f = [] \<or> hd f = CHR ''.''" using f by (auto simp: is_fraction_def)
  moreover have "\<not> starts_with is_digit (e @ s)" using es by (cases "e @ s") auto
  ultimately have "\<not> starts_with is_digit (f @ e @ s)"
    by (auto simp: starts_with_append [of _ f] is_digit_def)
  from digits1_app [OF i this] number_fraction_app [OF f es] number_exponent_app [OF e s(2)] sign show ?thesis
    by (simp add: read_graphql_number_def n)
qed

lemma quote_content_start: "v \<noteq> [] \<Longrightarrow> \<exists>c t. quote_content pr v = c # t \<and> c \<noteq> CHR 0x22"
proof -
  assume "v \<noteq> []"
  then obtain c cs where v: "v = c # cs" by (cases v) auto
  have rune: "\<exists>d t. quote_rune pr r = d # t \<and> d \<noteq> CHR 0x22" if "scalar r" for r
    using quote_rune_shape [of pr r] rune_quotable [OF that] encode_rune_nonempty [of r]
    by (cases "encode_rune r") (auto simp: quotable_def)
  obtain r w where d: "decode_rune v = (r, w)" by fastforce
  show ?thesis
  proof (cases "byte c < 0x80")
    case True
    then have "scalar (byte c)" by (simp add: scalar_def)
    from rune [OF this] True show ?thesis by (auto simp: v)
  next
    case high: False
    show ?thesis
    proof (cases "(r, w) = (rune_error, 1)")
      case True
      with high d show ?thesis by (simp add: v)
    next
      case False
      then have "scalar r" using encode_decode d v by blast
      from rune [OF this] high d False show ?thesis by (auto simp: v)
    qed
  qed
qed

lemma read_quoted:
  assumes "v \<noteq> [] \<or> \<not> starts_with (\<lambda>c. c = CHR 0x22) s"
  shows "read_graphql_string (go_quote pr v @ s) = Ok (v, s)"
proof -
  have "\<not> has_prefix (go_quote pr v @ s) block_quote"
  proof (cases "v = []")
    case True
    then show ?thesis using assms by (cases s) (auto simp: go_quote_def block_quote_def has_prefix_def)
  next
    case False
    then show ?thesis using quote_content_start [OF False, of pr]
      by (auto simp: go_quote_def block_quote_def has_prefix_def)
  qed
  then show ?thesis using scan_quote [of pr v s] unquote_quote [of pr v]
    by (simp add: read_graphql_string_def go_quote_def)
qed

section \<open>The tokenizer\<close>

lemma name_start_facts:
  "is_name_start c \<Longrightarrow> \<not> is_ignored c \<and> c \<noteq> CHR ''#''"
  by (auto simp: is_name_start_def is_ignored_def latin1_letter_def latin1_space_def is_lower_def is_upper_def)

lemma number_start_facts:
  "c = CHR ''-'' \<or> is_digit c \<Longrightarrow> \<not> is_ignored c \<and> c \<noteq> CHR ''#'' \<and> \<not> is_name_start c \<and> c \<noteq> CHR 0x22"
  by (auto simp: is_name_start_def is_ignored_def latin1_letter_def latin1_space_def is_lower_def is_upper_def
      is_digit_def)

lemma punct_facts:
  "c \<in> set punct_chars \<Longrightarrow> \<not> is_ignored c \<and> c \<noteq> CHR ''#'' \<and> \<not> is_name_start c \<and> c \<noteq> CHR 0x22
     \<and> c \<noteq> CHR ''-'' \<and> \<not> is_digit c \<and> c \<noteq> CHR ''.''"
  by (auto simp: punct_chars_def is_name_start_def is_ignored_def latin1_letter_def latin1_space_def is_lower_def
      is_upper_def is_digit_def)

lemma single_chars:
  "\<not> is_ignored (CHR ''#'')" "\<not> is_ignored (CHR 0x22)" "\<not> is_name_start (CHR 0x22)"
  "\<not> is_ignored (CHR ''.'')" "\<not> is_name_start (CHR ''.'')" "\<not> is_digit (CHR ''.'')"
  by code_simp+

lemma takeWhile_stop: "list_all P p \<Longrightarrow> \<not> starts_with P s \<Longrightarrow> takeWhile P (p @ s) = p \<and> dropWhile P (p @ s) = s"
  by (cases s) (auto simp: list_all_iff takeWhile_append2 dropWhile_append2)

theorem layout_tokenize: "layout q ts \<Longrightarrow> tokenize_graphql q = Ok ts"
proof (induction rule: layout.induct)
  case (comment s ts cm)
  then show ?case using takeWhile_stop [OF comment(2,3)] by (simp add: single_chars)
next
  case (name s ts n)
  then obtain c cs where n: "n = c # cs" "is_name_start c" "list_all is_name_continue cs"
    by (cases n) (auto simp: is_name_def)
  with takeWhile_stop [OF n(3) name(3)] name_start_facts [OF n(2)] name.IH show ?case by simp
next
  case (number s ts n)
  note read = read_number_app [OF number(2,3)]
  obtain c cs where n: "n = c # cs" and c: "c = CHR ''-'' \<or> is_digit c"
    using number(2) digit_hd by (fastforce simp: is_number_def neq_Nil_conv)
  with read number_start_facts [OF c] number.IH show ?case by simp
next
  case (quoted s ts v pr)
  note read = read_quoted [OF quoted(2), of pr]
  then show ?case using quoted.IH by (simp add: go_quote_def single_chars)
next
  case (block s ts v)
  let ?p = "block_quote @ v @ block_quote"
  have "length ?p = length v + 6" by (simp add: block_quote_def)
  then have rest: "drop (length v + 6) (?p @ s) = s" by (metis append_eq_conv_conj)
  have "has_prefix (?p @ s) block_quote" "drop 3 (?p @ s) = v @ block_quote @ s"
    by (simp_all add: has_prefix_def block_quote_def)
  then have "read_graphql_string (block_quote @ v @ block_quote @ s) = Ok (v, s)"
    using block(2) rest by (simp add: read_graphql_string_def)
  then show ?case using block.IH by (simp add: block_quote_def single_chars)
next
  case (spread s ts)
  then show ?case by (simp add: single_chars has_prefix_def)
next
  case (punct s ts c)
  then show ?case using punct_facts [OF punct(2)] by (auto simp: has_prefix_def)
qed simp_all

end
