(* ===== verification/GraphQL_Unique.thy ===== *)
theory GraphQL_Unique
  imports GraphQL_Layout
begin

text \<open>
  The canonical string tells documents apart: two documents with the same canonical string are reorderings of
  each other. Every part of a canonical string can be split off where it ends, since what follows it is a
  character that it cannot continue with.
\<close>

section \<open>Splitting strings\<close>

text \<open>
  \<open>f x\<close> is found at the front of any text that goes on as \<open>F\<close> allows, among the strings of the elements in
  \<open>D\<close>, and determines \<open>x\<close> up to \<open>E\<close>.
\<close>

definition decodes ::
  "(string \<Rightarrow> bool) \<Rightarrow> ('a \<Rightarrow> bool) \<Rightarrow> ('a \<Rightarrow> string) \<Rightarrow> ('a \<Rightarrow> 'a \<Rightarrow> bool) \<Rightarrow> 'a \<Rightarrow> bool" where
  "decodes F D f E x \<longleftrightarrow>
     (\<forall>y s t. D y \<longrightarrow> f x @ s = f y @ t \<longrightarrow> F s \<longrightarrow> F t \<longrightarrow> E x y \<and> f x = f y \<and> s = t)"

lemma decodesI:
  assumes "\<And>y s t. D y \<Longrightarrow> f x @ s = f y @ t \<Longrightarrow> F s \<Longrightarrow> F t \<Longrightarrow> E x y \<and> s = t"
  shows "decodes F D f E x"
  unfolding decodes_def using assms by (metis append_same_eq)

lemma decodesD:
  assumes "decodes F D f E x" and "f x @ s = f y @ t" and "D y" and "F s" and "F t"
  shows "E x y" and "f x = f y" and "s = t"
  using assms unfolding decodes_def by blast+

text \<open>Texts that start with one of the characters, or are empty.\<close>

definition before :: "string \<Rightarrow> string \<Rightarrow> bool" where
  "before cs s \<longleftrightarrow> s = [] \<or> hd s \<in> set cs"

lemma before_simps [simp]: "before cs []" "before cs (c # s) \<longleftrightarrow> c \<in> set cs"
  by (simp_all add: before_def)

lemma span_unique:
  assumes "list_all P a" and "list_all P b" and "\<not> starts_with P s" and "\<not> starts_with P t" and "a @ s = b @ t"
  shows "a = b \<and> s = t"
  using takeWhile_stop [OF assms(1,3)] takeWhile_stop [OF assms(2,4)] assms(5) by metis

section \<open>Joined lists\<close>

lemma join_decodes:
  assumes "\<And>x. x \<in> set xs \<Longrightarrow> decodes F D f E x" and "list_all D ys"
    and "\<And>x s. D x \<Longrightarrow> \<exists>c u. f x = c # u \<and> c \<noteq> close" and "list_all D xs"
    and "\<And>s. F (sep # s)" and "\<And>s. F (close # s)" and "sep \<noteq> close"
    and "join_with [sep] (map f xs) @ close # s = join_with [sep] (map f ys) @ close # t"
  shows "list_all2 E xs ys \<and> map f xs = map f ys \<and> s = t"
  using assms(1,2,4,8)
proof (induction xs arbitrary: ys)
  case Nil
  then show ?case
  proof (cases ys)
    case (Cons y ys')
    then obtain c u where "f y = c # u" "c \<noteq> close" using assms(3) [of y] Nil.prems(2) by auto
    then show ?thesis using Nil.prems(4) by (cases ys') (simp_all add: Cons)
  qed simp
next
  case (Cons x xs)
  obtain c u where fx: "f x = c # u" "c \<noteq> close" using assms(3) [of x] Cons.prems(3) by auto
  have "ys \<noteq> []" using Cons.prems(4) fx by (cases xs) auto
  then obtain y ys' where ys: "ys = y # ys'" by (cases ys) auto
  have dec: "decodes F D f E x" and y: "D y" using Cons.prems(1,2) by (auto simp: ys)
  let ?rest = "\<lambda>zs s. if zs = [] then close # s else sep # join_with [sep] (map f zs) @ close # s"
  have split: "join_with [sep] (map f (z # zs)) @ close # s = f z @ ?rest zs s" for z zs s
    by (cases zs) simp_all
  have follow: "F (?rest zs s)" for zs s using assms(5,6) by simp
  have eq: "f x @ ?rest xs s = f y @ ?rest ys' t" using Cons.prems(4) unfolding ys split .
  note d = decodesD [OF dec eq y follow follow]
  have "list_all2 E xs ys' \<and> map f xs = map f ys' \<and> s = t"
  proof (cases "xs = []")
    case True
    then show ?thesis using d(3) assms(7) by (cases "ys' = []") auto
  next
    case False
    then have "ys' \<noteq> []" "join_with [sep] (map f xs) @ close # s = join_with [sep] (map f ys') @ close # t"
      using d(3) assms(7) by (cases "ys' = []"; simp)+
    then show ?thesis using Cons.prems by (intro Cons.IH) (auto simp: ys)
  qed
  with d(1,2) show ?case by (simp add: ys)
qed

lemma sort_map: "sort (map f xs) = map f (sort_key f xs)"
  by (intro properties_for_sort) simp_all

text \<open>The same for a sorted list: the elements correspond up to their order.\<close>

lemma sorted_join_decodes:
  assumes "\<And>x. x \<in> set xs \<Longrightarrow> decodes F D f E x" and "list_all D ys"
    and "\<And>x. D x \<Longrightarrow> \<exists>c u. f x = c # u \<and> c \<noteq> close" and "list_all D xs"
    and "\<And>s. F (sep # s)" and "\<And>s. F (close # s)" and "sep \<noteq> close"
    and "sorted_join [sep] (map f xs) @ close # s = sorted_join [sep] (map f ys) @ close # t"
  obtains xs' ys' where "mset xs' = mset xs" and "mset ys' = mset ys" and "list_all2 E xs' ys'" and "s = t"
proof -
  have "list_all D (sort_key f zs) \<longleftrightarrow> list_all D zs" for zs by (simp add: list_all_iff)
  then have "list_all2 E (sort_key f xs) (sort_key f ys) \<and> map f (sort_key f xs) = map f (sort_key f ys) \<and> s = t"
    using assms unfolding sorted_join_def sort_map by (intro join_decodes [where F = F and D = D]) auto
  then show thesis by (intro that [of "sort_key f xs" "sort_key f ys"]) auto
qed

section \<open>Steps inside lists\<close>

locale member_steps =
  fixes step :: "'a \<Rightarrow> 'a \<Rightarrow> bool" and list_step :: "'a list \<Rightarrow> 'a list \<Rightarrow> bool"
  assumes member: "step x y \<Longrightarrow> list_step (as @ x # bs) (as @ y # bs)"
begin

lemma members: "step\<^sup>*\<^sup>* x y \<Longrightarrow> list_step\<^sup>*\<^sup>* (as @ x # bs) (as @ y # bs)"
  by (induction rule: rtranclp_induct) (auto intro: member rtranclp.rtrancl_into_rtrancl)

lemma pointwise: "list_all2 step\<^sup>*\<^sup>* xs ys \<Longrightarrow> list_step\<^sup>*\<^sup>* (as @ xs) (as @ ys)"
proof (induction xs ys arbitrary: as rule: list_all2_induct)
  case (Cons x xs y ys)
  have "list_step\<^sup>*\<^sup>* (as @ x # xs) (as @ y # xs)" by (rule members [OF Cons(1)])
  also have "list_step\<^sup>*\<^sup>* (as @ y # xs) (as @ y # ys)" using Cons(3) [of "as @ [y]"] by simp
  finally show ?case .
qed simp

end

locale set_steps = member_steps +
  assumes perm: "mset xs = mset ys \<Longrightarrow> list_step xs ys"
begin

lemma permuted:
  assumes "mset xs' = mset xs" and "mset ys' = mset ys" and "list_all2 step\<^sup>*\<^sup>* xs' ys'"
  shows "list_step\<^sup>*\<^sup>* xs ys"
proof -
  have "list_step xs xs'" "list_step ys' ys" using assms(1,2) by (simp_all add: perm)
  moreover have "list_step\<^sup>*\<^sup>* xs' ys'" using pointwise [OF assms(3), of "[]"] by simp
  ultimately show ?thesis by (meson converse_rtranclp_into_rtranclp rtranclp.rtrancl_into_rtrancl)
qed

end

lemma rtranclp_map:
  assumes "\<And>x y. R x y \<Longrightarrow> S (g x) (g y)" and "R\<^sup>*\<^sup>* x y"
  shows "S\<^sup>*\<^sup>* (g x) (g y)"
  using assms(2) by induction (auto intro: assms(1) rtranclp.rtrancl_into_rtrancl)

text \<open>A name with something behind it.\<close>

definition beside :: "('b \<Rightarrow> 'b \<Rightarrow> bool) \<Rightarrow> 'a \<times> 'b \<Rightarrow> 'a \<times> 'b \<Rightarrow> bool" where
  "beside R x y \<longleftrightarrow> fst x = fst y \<and> R (snd x) (snd y)"

lemma beside_star: "R\<^sup>*\<^sup>* v w \<Longrightarrow> (beside R)\<^sup>*\<^sup>* (k, v) (k, w)"
  by (induction rule: rtranclp_induct) (auto simp: beside_def intro: rtranclp.rtrancl_into_rtrancl)

interpretation items: member_steps reorder_value "\<lambda>vs ws. reorder_value (VList vs) (VList ws)"
  by unfold_locales (rule rv_item)

interpretation fields: set_steps "beside reorder_value" "\<lambda>fs gs. reorder_value (VObj fs) (VObj gs)"
  by unfold_locales (auto simp: beside_def intro: rv_field rv_fields)

interpretation arguments: set_steps "beside reorder_value" reorder_args
  by unfold_locales (auto simp: beside_def intro: ra_value ra_perm)

interpretation directives: set_steps "beside reorder_args" reorder_directives
  by unfold_locales (auto simp: beside_def intro: rd_args rd_perm)

interpretation selections: set_steps reorder_selection reorder_set
  by unfold_locales (auto intro: rs_member rs_perm)

interpretation definitions: set_steps reorder_definition reorder_document
  by unfold_locales (auto intro: ro_member ro_perm)

section \<open>Lexical syntax\<close>

text \<open>Names and numbers as the tokenizer reads them.\<close>

fun lexical_value :: "gql_value \<Rightarrow> bool" where
  "lexical_value (VVar n) = is_name n"
| "lexical_value (VList vs) = list_all lexical_value vs"
| "lexical_value (VObj fs) = list_all (\<lambda>(k, v). is_name k \<and> lexical_value v) fs"
| "lexical_value (VString s) = True"
| "lexical_value (VNumber n) = is_number n"
| "lexical_value (VName n) = is_name n"

abbreviation lexical_args :: "gql_args \<Rightarrow> bool" where
  "lexical_args \<equiv> list_all (\<lambda>(k, v). is_name k \<and> lexical_value v)"

abbreviation lexical_directives :: "gql_directives \<Rightarrow> bool" where
  "lexical_directives \<equiv> list_all (\<lambda>(n, as). is_name n \<and> lexical_args as)"

fun lexical_type :: "gql_type \<Rightarrow> bool" where
  "lexical_type (TNamed n b) = is_name n"
| "lexical_type (TList t b) = lexical_type t"

definition lexical_variable :: "string \<times> gql_type \<times> gql_value option \<Rightarrow> bool" where
  "lexical_variable x = (case x of (n, t, d) \<Rightarrow> is_name n \<and> lexical_type t \<and> pred_option lexical_value d)"

fun lexical_selection :: "gql_selection \<Rightarrow> bool" where
  "lexical_selection (Field a n as ds ss) \<longleftrightarrow> pred_option is_name a \<and> is_name n \<and> lexical_args as
     \<and> lexical_directives ds \<and> list_all lexical_selection ss"
| "lexical_selection (Spread n ds) \<longleftrightarrow> is_name n \<and> lexical_directives ds"
| "lexical_selection (Inline t ds ss) \<longleftrightarrow> is_name t \<and> lexical_directives ds \<and> list_all lexical_selection ss"

fun lexical_definition :: "gql_definition \<Rightarrow> bool" where
  "lexical_definition (Fragment n t ds ss) \<longleftrightarrow> is_name n \<and> is_name t \<and> lexical_directives ds
     \<and> list_all lexical_selection ss"
| "lexical_definition (Operation op n vs ds ss) \<longleftrightarrow> is_name op \<and> pred_option is_name n
     \<and> list_all lexical_variable vs \<and> lexical_directives ds \<and> list_all lexical_selection ss"
| "lexical_definition (Shorthand ss) \<longleftrightarrow> list_all lexical_selection ss"

section \<open>Names, numbers and strings\<close>

definition number_char :: "char \<Rightarrow> bool" where
  "number_char c \<longleftrightarrow> is_digit c \<or> c \<in> set ''+-.eE''"

lemma name_chars: "is_name n \<Longrightarrow> list_all is_name_continue n"
  by (cases n) (auto simp: is_name_def is_name_continue_def)

lemma name_cons: "is_name n \<Longrightarrow> \<exists>c u. n = c # u \<and> is_name_start c"
  by (cases n) (auto simp: is_name_def)

lemma number_chars:
  assumes "is_number n"
  shows "list_all number_char n"
proof -
  obtain g i f e where n: "n = g @ i @ f @ e" and parts: "g \<in> {[], ''-''}" "digits i" "is_fraction f" "is_exponent e"
    using assms by (auto simp: is_number_def)
  have digits: "list_all number_char d" if "digits d" for d
    using that by (auto simp: digits_def list_all_iff number_char_def)
  have "list_all number_char g" using parts(1) by (auto simp: number_char_def)
  moreover have "list_all number_char f" using parts(3) digits
    by (cases f) (auto simp: is_fraction_def number_char_def)
  moreover obtain c h d where "e = [] \<or> (e = c # h @ d \<and> c \<in> set ''eE'' \<and> h \<in> {[], ''+'', ''-''} \<and> digits d)"
    using parts(4) unfolding is_exponent_def by blast
  then have "list_all number_char e" using digits [of d] by (auto simp: number_char_def)
  ultimately show ?thesis using digits [OF parts(2)] by (simp add: n)
qed

lemma not_name_char [simp]:
  "\<not> is_name_continue (CHR '','')" "\<not> is_name_continue (CHR '']'')" "\<not> is_name_continue (CHR ''}'')"
  "\<not> is_name_continue (CHR '':'')" "\<not> is_name_continue (CHR ''!'')" "\<not> is_name_continue (CHR ''='')"
  "\<not> number_char (CHR '','')" "\<not> number_char (CHR '']'')" "\<not> number_char (CHR ''}'')"
  "\<not> is_name_start (CHR '']'')" "\<not> is_name_start (CHR ''}'')" "\<not> is_name_start (CHR ''['')"
  by code_simp+

lemma before_stops:
  assumes "before '',]}'' s"
  shows "\<not> starts_with is_name_continue s" and "\<not> starts_with number_char s"
  using assms by (cases s; auto)+

lemma name_colon:
  assumes "is_name k" and "is_name l" and "k @ CHR '':'' # s = l @ CHR '':'' # t"
  shows "k = l" and "s = t"
  using span_unique [OF name_chars [OF assms(1)] name_chars [OF assms(2)] _ _ assms(3)] by simp_all

lemma option_name_colon:
  assumes "pred_option is_name a" and "pred_option is_name b"
    and "(case a of None \<Rightarrow> [] | Some m \<Rightarrow> m) @ CHR '':'' # s = (case b of None \<Rightarrow> [] | Some m \<Rightarrow> m) @ CHR '':'' # t"
  shows "a = b" and "s = t"
proof -
  have chars: "list_all is_name_continue (case c of None \<Rightarrow> [] | Some m \<Rightarrow> m)" if "pred_option is_name c" for c
    using that name_chars by (cases c) auto
  have "(case a of None \<Rightarrow> [] | Some m \<Rightarrow> m) = (case b of None \<Rightarrow> [] | Some m \<Rightarrow> m) \<and> s = t"
    using span_unique [OF chars [OF assms(1)] chars [OF assms(2)] _ _ assms(3)] by simp
  then show "a = b" "s = t" using assms(1,2) by (cases a; cases b; auto simp: is_name_def)+
qed

lemma quote_unique:
  assumes "go_quote pr a @ s = go_quote pr b @ t"
  shows "a = b" and "s = t"
proof -
  have "quote_content pr a @ CHR 0x22 # s = quote_content pr b @ CHR 0x22 # t"
    using assms by (simp add: go_quote_def)
  then have "(quote_content pr a, s) = (quote_content pr b, t)" using scan_quote by (metis option.inject)
  then show "a = b" "s = t" using quote_content_inj by blast+
qed

section \<open>Values, arguments, directives\<close>

lemma beside_decodes:
  assumes "decodes F D f R\<^sup>*\<^sup>* v" and "is_name k"
  shows "decodes F (\<lambda>(k, v). is_name k \<and> D v) (\<lambda>(k, v). k @ '':'' @ f v) (beside R)\<^sup>*\<^sup>* (k, v)"
proof (rule decodesI, clarify)
  fix l w s t
  assume w: "is_name l" "D w" and eq: "(k @ '':'' @ f v) @ s = (l @ '':'' @ f w) @ t" and F: "F s" "F t"
  from eq have "k @ CHR '':'' # f v @ s = l @ CHR '':'' # f w @ t" by simp
  note n = name_colon [OF assms(2) w(1) this]
  from decodesD [OF assms(1) n(2) w(2) F] n(1) show "(beside R)\<^sup>*\<^sup>* (k, v) (l, w) \<and> s = t"
    by (simp add: beside_star)
qed

lemma pair_not_close:
  assumes "(\<lambda>(k, v). is_name k \<and> D v) x" and "\<not> is_name_start close"
  shows "\<exists>c u. (\<lambda>(k, v). k @ '':'' @ f v) x = c # u \<and> c \<noteq> close"
proof -
  obtain k v where x: "x = (k, v)" by (cases x)
  then obtain c u where "k = c # u" "is_name_start c" using name_cons [of k] assms(1) by auto
  with assms(2) show ?thesis by (auto simp: x)
qed

lemma value_not_close: "close \<in> set '']})'' \<Longrightarrow> \<exists>c u. canon_value pr v = c # u \<and> c \<noteq> close"
  by (cases v) auto

theorem value_decodes:
  "lexical_value v \<Longrightarrow> decodes (before '',]}'') lexical_value (canon_value pr) reorder_value\<^sup>*\<^sup>* v"
proof (induction v)
  case (VVar n)
  show ?case
  proof (rule decodesI)
    fix w s t
    assume w: "lexical_value w" "canon_value pr (VVar n) @ s = canon_value pr w @ t" "before '',]}'' s" "before '',]}'' t"
    then obtain m where m: "w = VVar m" by (cases w) auto
    from span_unique [OF name_chars name_chars before_stops(1) before_stops(1), of n m s t] w VVar
    show "reorder_value\<^sup>*\<^sup>* (VVar n) w \<and> s = t" by (simp add: m)
  qed
next
  case (VList vs)
  show ?case
  proof (rule decodesI)
    fix w s t
    assume w: "lexical_value w" "canon_value pr (VList vs) @ s = canon_value pr w @ t"
    then obtain ws where ws: "w = VList ws" by (cases w) auto
    have dec: "decodes (before '',]}'') lexical_value (canon_value pr) reorder_value\<^sup>*\<^sup>* x" if "x \<in> set vs" for x
      using that VList by (auto simp: list_all_iff)
    have close: "\<exists>c u. canon_value pr x = c # u \<and> c \<noteq> CHR '']''" for x by (rule value_not_close) simp
    have eq: "join_with '','' (map (canon_value pr) vs) @ CHR '']'' # s = join_with '','' (map (canon_value pr) ws) @ CHR '']'' # t"
      and lex: "list_all lexical_value vs" "list_all lexical_value ws"
      using w VList.prems by (simp_all add: ws)
    have "list_all2 reorder_value\<^sup>*\<^sup>* vs ws \<and> map (canon_value pr) vs = map (canon_value pr) ws \<and> s = t"
      by (rule join_decodes [OF dec lex(2) close lex(1) _ _ _ eq]) simp_all
    with items.pointwise [of vs ws "[]"] show "reorder_value\<^sup>*\<^sup>* (VList vs) w \<and> s = t"
      using rtranclp_map [of "\<lambda>vs ws. reorder_value (VList vs) (VList ws)" reorder_value VList vs ws]
      by (simp add: ws)
  qed
next
  case (VObj fs)
  show ?case
  proof (rule decodesI)
    fix w s t
    assume w: "lexical_value w" "canon_value pr (VObj fs) @ s = canon_value pr w @ t"
    then obtain gs where gs: "w = VObj gs" by (cases w) auto
    let ?f = "\<lambda>(k, v). k @ '':'' @ canon_value pr v" and ?D = "\<lambda>(k, v). is_name k \<and> lexical_value v"
    have dec: "decodes (before '',]}'') ?D ?f (beside reorder_value)\<^sup>*\<^sup>* x" if "x \<in> set fs" for x
    proof -
      obtain k v where x: "x = (k, v)" by (cases x)
      have kv: "is_name k" "lexical_value v" using that VObj.prems by (auto simp: x list_all_iff)
      have "v \<in> Basic_BNFs.snds x" by (simp add: x)
      from beside_decodes [OF VObj.IH [OF that this kv(2)] kv(1)] show ?thesis unfolding x .
    qed
    have close: "\<exists>c u. ?f x = c # u \<and> c \<noteq> CHR ''}''" if "?D x" for x
      by (rule pair_not_close [OF that]) simp
    have eq: "sorted_join '','' (map ?f fs) @ CHR ''}'' # s = sorted_join '','' (map ?f gs) @ CHR ''}'' # t"
      and lex: "list_all ?D fs" "list_all ?D gs"
      using w VObj.prems by (simp_all add: gs)
    obtain fs' gs' where "mset fs' = mset fs" "mset gs' = mset gs" "list_all2 (beside reorder_value)\<^sup>*\<^sup>* fs' gs'" "s = t"
      using sorted_join_decodes [OF dec lex(2) close lex(1) _ _ _ eq] by auto
    with fields.permuted [of fs' fs gs' gs]
      rtranclp_map [of "\<lambda>fs gs. reorder_value (VObj fs) (VObj gs)" reorder_value VObj fs gs]
    show "reorder_value\<^sup>*\<^sup>* (VObj fs) w \<and> s = t" by (simp add: gs)
  qed
next
  case (VString x)
  show ?case
  proof (rule decodesI)
    fix w s t
    assume w: "lexical_value w" "canon_value pr (VString x) @ s = canon_value pr w @ t"
    then obtain y where y: "w = VString y" by (cases w) auto
    with w(2) have "go_quote pr x @ s = go_quote pr y @ t" by simp
    from quote_unique [OF this] show "reorder_value\<^sup>*\<^sup>* (VString x) w \<and> s = t" by (simp add: y)
  qed
next
  case (VNumber n)
  show ?case
  proof (rule decodesI)
    fix w s t
    assume w: "lexical_value w" "canon_value pr (VNumber n) @ s = canon_value pr w @ t" "before '',]}'' s" "before '',]}'' t"
    then obtain m where m: "w = VNumber m" by (cases w) auto
    from span_unique [OF number_chars number_chars before_stops(2) before_stops(2), of n m s t] w VNumber
    show "reorder_value\<^sup>*\<^sup>* (VNumber n) w \<and> s = t" by (simp add: m)
  qed
next
  case (VName n)
  show ?case
  proof (rule decodesI)
    fix w s t
    assume w: "lexical_value w" "canon_value pr (VName n) @ s = canon_value pr w @ t" "before '',]}'' s" "before '',]}'' t"
    then obtain m where m: "w = VName m" by (cases w) auto
    from span_unique [OF name_chars name_chars before_stops(1) before_stops(1), of n m s t] w VName
    show "reorder_value\<^sup>*\<^sup>* (VName n) w \<and> s = t" by (simp add: m)
  qed
qed

text \<open>A sorted list of named things in brackets, which ends where its bracket closes.\<close>

lemma named_list_decodes:
  assumes "\<And>k v. (k, v) \<in> set xs \<Longrightarrow> is_name k \<and> D v \<and> decodes F D f R\<^sup>*\<^sup>* v"
    and "list_all (\<lambda>(k, v). is_name k \<and> D v) ys" and "\<not> is_name_start close"
    and "\<And>s. F (sep # s)" and "\<And>s. F (close # s)" and "sep \<noteq> close"
    and "sorted_join [sep] (map (\<lambda>(k, v). k @ '':'' @ f v) xs) @ close # s
      = sorted_join [sep] (map (\<lambda>(k, v). k @ '':'' @ f v) ys) @ close # t"
  obtains xs' ys' where "mset xs' = mset xs" and "mset ys' = mset ys" and "list_all2 (beside R)\<^sup>*\<^sup>* xs' ys'" and "s = t"
proof -
  let ?D = "\<lambda>(k, v). is_name k \<and> D v"
  have dec: "decodes F ?D (\<lambda>(k, v). k @ '':'' @ f v) (beside R)\<^sup>*\<^sup>* x" if "x \<in> set xs" for x
  proof -
    obtain k v where x: "x = (k, v)" by (cases x)
    then have "is_name k" "decodes F D f R\<^sup>*\<^sup>* v" using assms(1) that by auto
    then show ?thesis unfolding x by (intro beside_decodes)
  qed
  have lex: "list_all ?D xs" using assms(1) by (auto simp: list_all_iff)
  have close: "\<exists>c u. (\<lambda>(k, v). k @ '':'' @ f v) x = c # u \<and> c \<noteq> close" if "?D x" for x
    by (rule pair_not_close [OF that assms(3)])
  show thesis
    by (rule sorted_join_decodes [OF dec assms(2) close lex assms(4-7)]) (assumption | erule that)+
qed

theorem args_decode:
  assumes "lexical_args as"
  shows "decodes (\<lambda>_. True) lexical_args (canon_args pr) reorder_args\<^sup>*\<^sup>* as"
proof (rule decodesI)
  fix bs s t
  assume bs: "lexical_args bs" and eq: "canon_args pr as @ s = canon_args pr bs @ t"
  have map: "canon_arg pr = (\<lambda>(k, v). k @ '':'' @ canon_value pr v)" by (rule ext) (auto simp: canon_arg_def)
  have "sorted_join '','' (map (\<lambda>(k, v). k @ '':'' @ canon_value pr v) as) @ CHR '']'' # s
      = sorted_join '','' (map (\<lambda>(k, v). k @ '':'' @ canon_value pr v) bs) @ CHR '']'' # t"
    using eq by (simp add: canon_args_def map)
  moreover have "is_name k \<and> lexical_value v \<and> decodes (before '',]}'') lexical_value (canon_value pr) reorder_value\<^sup>*\<^sup>* v"
    if "(k, v) \<in> set as" for k v using that assms value_decodes by (auto simp: list_all_iff)
  ultimately obtain as' bs' where "mset as' = mset as" "mset bs' = mset bs" "list_all2 (beside reorder_value)\<^sup>*\<^sup>* as' bs'" "s = t"
    using bs by (elim named_list_decodes [where F = "before '',]}''", rotated -1]) auto
  then show "reorder_args\<^sup>*\<^sup>* as bs \<and> s = t" using arguments.permuted by blast
qed

theorem directives_decode:
  assumes "lexical_directives ds"
  shows "decodes (\<lambda>_. True) lexical_directives (canon_directives pr) reorder_directives\<^sup>*\<^sup>* ds"
proof (rule decodesI)
  fix es s t
  assume es: "lexical_directives es" and eq: "canon_directives pr ds @ s = canon_directives pr es @ t"
  have map: "canon_directive pr = (\<lambda>(n, as). n @ '':'' @ canon_args pr as)" by (rule ext) (auto simp: canon_directive_def)
  have "sorted_join '','' (map (\<lambda>(n, as). n @ '':'' @ canon_args pr as) ds) @ CHR '']'' # s
      = sorted_join '','' (map (\<lambda>(n, as). n @ '':'' @ canon_args pr as) es) @ CHR '']'' # t"
    using eq by (simp add: canon_directives_def map)
  moreover have "is_name n \<and> lexical_args as \<and> decodes (\<lambda>_. True) lexical_args (canon_args pr) reorder_args\<^sup>*\<^sup>* as"
    if "(n, as) \<in> set ds" for n as using that assms args_decode by (auto simp: list_all_iff)
  ultimately obtain ds' es' where "mset ds' = mset ds" "mset es' = mset es" "list_all2 (beside reorder_args)\<^sup>*\<^sup>* ds' es'" "s = t"
    using es by (elim named_list_decodes [rotated -1]) auto
  then show "reorder_directives\<^sup>*\<^sup>* ds es \<and> s = t" using directives.permuted by blast
qed

section \<open>Types and variables\<close>

lemma before_type:
  assumes "before '',=]'' s"
  shows "\<not> starts_with is_name_continue s" and "\<not> starts_with (\<lambda>c. c = CHR ''!'') s"
  using assms by (cases s; auto)+

lemma bang_unique:
  assumes "(if a then ''!'' else []) @ s = (if b then ''!'' else []) @ t" and "before '',=]'' s" and "before '',=]'' t"
  shows "a = b \<and> s = t"
  using assms before_type(2) [of s] before_type(2) [of t] by (cases s; cases t) (auto split: if_splits)

lemma type_decodes:
  "lexical_type x \<Longrightarrow> decodes (before '',=]'') lexical_type canon_type (=) x"
proof (induction x)
  case (TNamed n a)
  show ?case
  proof (rule decodesI)
    fix y s t
    assume y: "lexical_type y" "canon_type (TNamed n a) @ s = canon_type y @ t" and F: "before '',=]'' s" "before '',=]'' t"
    obtain c u where n: "n = c # u" "is_name_start c" using name_cons [of n] TNamed by auto
    with y(2) obtain m b where m: "y = TNamed m b" by (cases y) auto
    let ?s = "(if a then ''!'' else []) @ s" and ?t = "(if b then ''!'' else []) @ t"
    have "\<not> starts_with is_name_continue ?s" "\<not> starts_with is_name_continue ?t"
      using before_type(1) [OF F(1)] before_type(1) [OF F(2)] by simp_all
    moreover have "n @ ?s = m @ ?t" using y(2) by (simp add: m)
    moreover have "is_name n" "is_name m" using y(1) TNamed by (simp_all add: m)
    ultimately have "n = m \<and> ?s = ?t" by (intro span_unique [OF name_chars name_chars])
    with bang_unique [OF _ F, of a b] show "TNamed n a = y \<and> s = t" by (simp add: m)
  qed
next
  case (TList x a)
  show ?case
  proof (rule decodesI)
    fix y s t
    assume y: "lexical_type y" "canon_type (TList x a) @ s = canon_type y @ t" and F: "before '',=]'' s" "before '',=]'' t"
    have "\<exists>z b. y = TList z b"
    proof (cases y)
      case (TNamed m b)
      then obtain c u where "m = c # u" "is_name_start c" using name_cons [of m] y(1) by auto
      then show ?thesis using y(2) by (auto simp: TNamed)
    qed simp
    then obtain z b where z: "y = TList z b" by blast
    let ?s = "CHR '']'' # (if a then ''!'' else []) @ s" and ?t = "CHR '']'' # (if b then ''!'' else []) @ t"
    have "canon_type x @ ?s = canon_type z @ ?t" using y(2) by (simp add: z)
    moreover have "decodes (before '',=]'') lexical_type canon_type (=) x" using TList by simp
    ultimately have "x = z" "?s = ?t"
      using decodesD [of "before '',=]''" lexical_type canon_type "(=)" x ?s z ?t] y(1) by (simp_all add: z)
    with bang_unique [OF _ F, of a b] show "TList x a = y \<and> s = t" by (simp add: z)
  qed
qed

text \<open>The value of a default changes by reordering.\<close>

definition default_step :: "string \<times> gql_type \<times> gql_value option \<Rightarrow> string \<times> gql_type \<times> gql_value option \<Rightarrow> bool" where
  "default_step x y \<longleftrightarrow> (\<exists>n t v w. x = (n, t, Some v) \<and> y = (n, t, Some w) \<and> reorder_value v w)"

lemma default_steps: "reorder_value\<^sup>*\<^sup>* v w \<Longrightarrow> default_step\<^sup>*\<^sup>* (n, t, Some v) (n, t, Some w)"
  by (rule rtranclp_map [where g = "\<lambda>v. (n, t, Some v)"]) (auto simp: default_step_def)

interpretation variables: set_steps default_step
    "\<lambda>vs ws. reorder_definition (Operation op n vs ds ss) (Operation op n ws ds ss)"
  by unfold_locales (auto simp: default_step_def intro: rf_default rf_variables)

lemma variable_decodes:
  assumes "lexical_variable x"
  shows "decodes (before '',]'') lexical_variable (canon_variable pr) default_step\<^sup>*\<^sup>* x"
proof (rule decodesI)
  fix y s t
  assume lex: "lexical_variable y" and eq: "canon_variable pr x @ s = canon_variable pr y @ t"
    and F: "before '',]'' s" "before '',]'' t"
  obtain n a d where x: "x = (n, a, d)" by (cases x)
  obtain m b e where y: "y = (m, b, e)" by (cases y)
  let ?v = "\<lambda>d. case d of None \<Rightarrow> [] | Some v \<Rightarrow> ''='' @ canon_value pr v"
  have names: "is_name n" "is_name m" and types: "lexical_type a" "lexical_type b"
    and vals: "pred_option lexical_value d" "pred_option lexical_value e"
    using assms lex by (simp_all add: lexical_variable_def x y)
  from eq have "n @ CHR '':'' # canon_type a @ ?v d @ s = m @ CHR '':'' # canon_type b @ ?v e @ t"
    by (simp add: canon_variable_def x y)
  note nm = name_colon [OF names this]
  have F': "before '',=]'' (?v d @ s)" using F(1) by (cases d; cases s) auto
  have G': "before '',=]'' (?v e @ t)" using F(2) by (cases e; cases t) auto
  from decodesD [OF type_decodes [OF types(1)] nm(2) types(2) F' G'] have ab: "a = b" and rest: "?v d @ s = ?v e @ t"
    by simp_all
  have "default_step\<^sup>*\<^sup>* (n, a, d) (n, a, e) \<and> s = t"
  proof (cases d)
    case None
    then have "e = None" using rest F(1) by (cases e; cases s) auto
    then show ?thesis using rest None by simp
  next
    case (Some v)
    then obtain w where w: "e = Some w" using rest F(2) by (cases e; cases t) auto
    have "canon_value pr v @ s = canon_value pr w @ t" using rest by (simp add: Some w)
    moreover have "before '',]}'' s" "before '',]}'' t" using F by (cases s; cases t; auto)+
    ultimately show ?thesis
      using decodesD [OF value_decodes [of v pr], of s w t] vals by (simp add: Some w default_steps)
  qed
  then show "default_step\<^sup>*\<^sup>* x y \<and> s = t" by (simp add: x y nm(1) ab)
qed

lemma variables_unique:
  assumes "list_all lexical_variable vs" and "list_all lexical_variable ws"
    and "canon_variables pr vs @ s = canon_variables pr ws @ t"
  obtains vs' ws' where "mset vs' = mset vs" and "mset ws' = mset ws" and "list_all2 default_step\<^sup>*\<^sup>* vs' ws'" and "s = t"
proof -
  have dec: "decodes (before '',]'') lexical_variable (canon_variable pr) default_step\<^sup>*\<^sup>* x" if "x \<in> set vs" for x
    using that assms(1) variable_decodes by (auto simp: list_all_iff)
  have close: "\<exists>c u. canon_variable pr x = c # u \<and> c \<noteq> CHR '']''" if lex: "lexical_variable x" for x
  proof -
    obtain n a d where x: "x = (n, a, d)" by (cases x)
    then have "is_name n" using lex by (simp add: lexical_variable_def)
    then obtain c u where "n = c # u" "is_name_start c" using name_cons by blast
    then show ?thesis by (auto simp: canon_variable_def x)
  qed
  have eq: "sorted_join '','' (map (canon_variable pr) vs) @ CHR '']'' # s
      = sorted_join '','' (map (canon_variable pr) ws) @ CHR '']'' # t"
    using assms(3) by (simp add: canon_variables_def)
  show thesis by (rule sorted_join_decodes [OF dec assms(2) close assms(1) _ _ _ eq]) (simp_all add: that)
qed

section \<open>Selections\<close>

lemma selection_not_close: "\<exists>c u. canon_selection pr s = c # u \<and> c \<noteq> CHR '']''"
  by (cases s) auto

lemma set_decodes:
  assumes "\<And>s. s \<in> set ss \<Longrightarrow>
      decodes (before '',]'') lexical_selection (canon_selection pr) reorder_selection\<^sup>*\<^sup>* s"
    and "list_all lexical_selection ss"
  shows "decodes (\<lambda>_. True) (list_all lexical_selection) (canon_set pr) reorder_set\<^sup>*\<^sup>* ss"
proof (rule decodesI)
  fix ts s t
  assume ts: "list_all lexical_selection ts" and eq: "canon_set pr ss @ s = canon_set pr ts @ t"
  from eq have "sorted_join '','' (map (canon_selection pr) ss) @ CHR '']'' # s
      = sorted_join '','' (map (canon_selection pr) ts) @ CHR '']'' # t"
    by (simp add: canon_set_def)
  then obtain ss' ts' where "mset ss' = mset ss" "mset ts' = mset ts" "list_all2 reorder_selection\<^sup>*\<^sup>* ss' ts'" "s = t"
    using sorted_join_decodes [OF assms(1) ts selection_not_close assms(2), where sep = "CHR '',''" and s = s and t = t] by auto
  then show "reorder_set\<^sup>*\<^sup>* ss ts \<and> s = t" using selections.permuted by blast
qed

lemma field_steps:
  assumes "reorder_args\<^sup>*\<^sup>* as bs" and "reorder_directives\<^sup>*\<^sup>* ds es" and "reorder_set\<^sup>*\<^sup>* ss ts"
  shows "reorder_selection\<^sup>*\<^sup>* (Field a n as ds ss) (Field a n bs es ts)"
proof -
  have "reorder_selection\<^sup>*\<^sup>* (Field a n as ds ss) (Field a n bs ds ss)"
    by (rule rtranclp_map [where g = "\<lambda>as. Field a n as ds ss", OF _ assms(1)]) (rule rs_field_args)
  also have "reorder_selection\<^sup>*\<^sup>* (Field a n bs ds ss) (Field a n bs es ss)"
    by (rule rtranclp_map [where g = "\<lambda>ds. Field a n bs ds ss", OF _ assms(2)]) (rule rs_field_directives)
  also have "reorder_selection\<^sup>*\<^sup>* (Field a n bs es ss) (Field a n bs es ts)"
    by (rule rtranclp_map [where g = "\<lambda>ss. Field a n bs es ss", OF _ assms(3)]) (rule rs_field_set)
  finally show ?thesis .
qed

lemma inline_steps:
  assumes "reorder_directives\<^sup>*\<^sup>* ds es" and "reorder_set\<^sup>*\<^sup>* ss ts"
  shows "reorder_selection\<^sup>*\<^sup>* (Inline n ds ss) (Inline n es ts)"
proof -
  have "reorder_selection\<^sup>*\<^sup>* (Inline n ds ss) (Inline n es ss)"
    by (rule rtranclp_map [where g = "\<lambda>ds. Inline n ds ss", OF _ assms(1)]) (rule rs_inline_directives)
  also have "reorder_selection\<^sup>*\<^sup>* (Inline n es ss) (Inline n es ts)"
    by (rule rtranclp_map [where g = "\<lambda>ss. Inline n es ss", OF _ assms(2)]) (rule rs_inline_set)
  finally show ?thesis .
qed

text \<open>An optional selection set is told from what follows a selection.\<close>

lemma optional_set:
  assumes "decodes (\<lambda>_. True) (list_all lexical_selection) (canon_set pr) reorder_set\<^sup>*\<^sup>* ss"
    and "list_all lexical_selection ts" and "before '',]'' s" and "before '',]'' t"
    and "(if ss = [] then [] else canon_set pr ss) @ s = (if ts = [] then [] else canon_set pr ts) @ t"
  shows "reorder_set\<^sup>*\<^sup>* ss ts \<and> s = t"
proof (cases "ss = [] \<or> ts = []")
  case True
  then have "ss = [] \<and> ts = []" using assms(3-5) by (cases s; cases t; cases ss; cases ts) (auto simp: canon_set_def)
  then show ?thesis using assms(5) by simp
next
  case False
  then have "canon_set pr ss @ s = canon_set pr ts @ t" using assms(5) by simp
  from decodesD(1,3) [OF assms(1) this assms(2)] show ?thesis by simp
qed

theorem selection_decodes:
  "lexical_selection x \<Longrightarrow> decodes (before '',]'') lexical_selection (canon_selection pr) reorder_selection\<^sup>*\<^sup>* x"
proof (induction x)
  case (Field a n as ds ss)
  have lex: "pred_option is_name a" "is_name n" "lexical_args as" "lexical_directives ds" "list_all lexical_selection ss"
    using Field.prems by simp_all
  have set: "decodes (\<lambda>_. True) (list_all lexical_selection) (canon_set pr) reorder_set\<^sup>*\<^sup>* ss"
    using Field.IH lex(5) by (intro set_decodes) (auto simp: list_all_iff)
  have tail: "canon_selection pr (Field a n as ds ss) @ s
      = ''field:'' @ (case a of None \<Rightarrow> [] | Some m \<Rightarrow> m) @ CHR '':'' # n @ CHR '':'' # canon_args pr as @ CHR '':''
        # canon_directives pr ds @ CHR '':'' # (if ss = [] then [] else canon_set pr ss) @ s" for a n as ds ss s
    by (simp add: canon_set_def)
  show ?case
  proof (rule decodesI)
    fix y s t
    assume y: "lexical_selection y" "canon_selection pr (Field a n as ds ss) @ s = canon_selection pr y @ t"
      and F: "before '',]'' s" "before '',]'' t"
    from y(2) obtain b m bs es ts where f: "y = Field b m bs es ts" by (cases y) auto
    have ylex: "pred_option is_name b" "is_name m" "lexical_args bs" "lexical_directives es" "list_all lexical_selection ts"
      using y(1) by (simp_all add: f)
    note eq = y(2) [unfolded f tail, unfolded same_append_eq]
    note al = option_name_colon [OF lex(1) ylex(1) eq]
    note nm = name_colon [OF lex(2) ylex(2) al(2)]
    note ar = decodesD [OF args_decode [OF lex(3)] nm(2) ylex(3) TrueI TrueI]
    from ar(3) have "canon_directives pr ds @ CHR '':'' # (if ss = [] then [] else canon_set pr ss) @ s
      = canon_directives pr es @ CHR '':'' # (if ts = [] then [] else canon_set pr ts) @ t" by simp
    note di = decodesD [OF directives_decode [OF lex(4)] this ylex(4) TrueI TrueI]
    from di(3) have "(if ss = [] then [] else canon_set pr ss) @ s = (if ts = [] then [] else canon_set pr ts) @ t" by simp
    from optional_set [OF set ylex(5) F this]
    show "reorder_selection\<^sup>*\<^sup>* (Field a n as ds ss) y \<and> s = t"
      using field_steps [OF ar(1) di(1)] by (simp add: f al(1) nm(1))
  qed
next
  case (Spread n ds)
  show ?case
  proof (rule decodesI)
    fix y s t
    assume y: "lexical_selection y" "canon_selection pr (Spread n ds) @ s = canon_selection pr y @ t"
    from y(2) obtain m es where f: "y = Spread m es" by (cases y) auto
    have eq: "n @ CHR '':'' # canon_directives pr ds @ s = m @ CHR '':'' # canon_directives pr es @ t"
      using y(2) by (simp add: f)
    have lex: "is_name n" "is_name m" "lexical_directives ds" "lexical_directives es"
      using Spread y(1) by (simp_all add: f)
    note nm = name_colon [OF lex(1,2) eq]
    note di = decodesD [OF directives_decode [OF lex(3)] nm(2) lex(4) TrueI TrueI]
    have "reorder_selection\<^sup>*\<^sup>* (Spread n ds) (Spread n es)"
      by (rule rtranclp_map [where g = "Spread n", OF _ di(1)]) (rule rs_spread)
    then show "reorder_selection\<^sup>*\<^sup>* (Spread n ds) y \<and> s = t" using di(3) by (simp add: f nm(1))
  qed
next
  case (Inline n ds ss)
  have lex: "is_name n" "lexical_directives ds" "list_all lexical_selection ss" using Inline.prems by simp_all
  have set: "decodes (\<lambda>_. True) (list_all lexical_selection) (canon_set pr) reorder_set\<^sup>*\<^sup>* ss"
    using Inline.IH lex(3) by (intro set_decodes) (auto simp: list_all_iff)
  show ?case
  proof (rule decodesI)
    fix y s t
    assume y: "lexical_selection y" "canon_selection pr (Inline n ds ss) @ s = canon_selection pr y @ t"
    from y(2) obtain m es ts where f: "y = Inline m es ts" by (cases y) auto
    have ylex: "is_name m" "lexical_directives es" "list_all lexical_selection ts" using y(1) by (simp_all add: f)
    have eq: "n @ CHR '':'' # canon_directives pr ds @ CHR '':'' # canon_set pr ss @ s
        = m @ CHR '':'' # canon_directives pr es @ CHR '':'' # canon_set pr ts @ t"
      using y(2) by (simp add: f canon_set_def)
    note nm = name_colon [OF lex(1) ylex(1) eq]
    note di = decodesD [OF directives_decode [OF lex(2)] nm(2) ylex(2) TrueI TrueI]
    from di(3) have "canon_set pr ss @ s = canon_set pr ts @ t" by simp
    note st = decodesD [OF set this ylex(3) TrueI TrueI]
    show "reorder_selection\<^sup>*\<^sup>* (Inline n ds ss) y \<and> s = t"
      using inline_steps [OF di(1) st(1)] st(3) by (simp add: f nm(1))
  qed
qed

section \<open>Definitions and documents\<close>

theorem set_unique:
  assumes "list_all lexical_selection ss"
  shows "decodes (\<lambda>_. True) (list_all lexical_selection) (canon_set pr) reorder_set\<^sup>*\<^sup>* ss"
  using assms by (intro set_decodes selection_decodes) (auto simp: list_all_iff)

lemma fragment_steps:
  assumes "reorder_directives\<^sup>*\<^sup>* ds es" and "reorder_set\<^sup>*\<^sup>* ss ts"
  shows "reorder_definition\<^sup>*\<^sup>* (Fragment n t ds ss) (Fragment n t es ts)"
proof -
  have "reorder_definition\<^sup>*\<^sup>* (Fragment n t ds ss) (Fragment n t es ss)"
    by (rule rtranclp_map [where g = "\<lambda>ds. Fragment n t ds ss", OF _ assms(1)]) (rule rf_fragment_directives)
  also have "reorder_definition\<^sup>*\<^sup>* (Fragment n t es ss) (Fragment n t es ts)"
    by (rule rtranclp_map [where g = "\<lambda>ss. Fragment n t es ss", OF _ assms(2)]) (rule rf_fragment_set)
  finally show ?thesis .
qed

lemma operation_steps:
  assumes "mset vs' = mset vs" and "mset ws' = mset ws" and "list_all2 default_step\<^sup>*\<^sup>* vs' ws'"
    and "reorder_directives\<^sup>*\<^sup>* ds es" and "reorder_set\<^sup>*\<^sup>* ss ts"
  shows "reorder_definition\<^sup>*\<^sup>* (Operation op n vs ds ss) (Operation op n ws es ts)"
proof -
  have "reorder_definition\<^sup>*\<^sup>* (Operation op n vs ds ss) (Operation op n ws ds ss)"
    by (rule rtranclp_map [where g = "\<lambda>vs. Operation op n vs ds ss", OF _ variables.permuted [OF assms(1-3)]])
  also have "reorder_definition\<^sup>*\<^sup>* (Operation op n ws ds ss) (Operation op n ws es ss)"
    by (rule rtranclp_map [where g = "\<lambda>ds. Operation op n ws ds ss", OF _ assms(4)]) (rule rf_directives)
  also have "reorder_definition\<^sup>*\<^sup>* (Operation op n ws es ss) (Operation op n ws es ts)"
    by (rule rtranclp_map [where g = "\<lambda>ss. Operation op n ws es ss", OF _ assms(5)]) (rule rf_set)
  finally show ?thesis .
qed

text \<open>What the three kinds of definition start with.\<close>

lemma operation_not_shorthand:
  "canon_definition pr (Operation op n vs ds ss) @ s = canon_definition pr (Shorthand ts) @ t
     \<Longrightarrow> is_name op \<Longrightarrow> pred_option is_name n \<Longrightarrow> False"
proof -
  assume eq: "canon_definition pr (Operation op n vs ds ss) @ s = canon_definition pr (Shorthand ts) @ t"
    and lex: "is_name op" "pred_option is_name n"
  have q: "is_name ''query''" by code_simp
  let ?rest = "canon_directives pr ds @ '':'' @ canon_set pr ss @ s"
  have "op @ CHR '':'' # (case n of None \<Rightarrow> [] | Some m \<Rightarrow> m) @ CHR '':'' # canon_variables pr vs @ '':'' @ ?rest
      = ''query'' @ CHR '':'' # (case None of None \<Rightarrow> [] | Some m \<Rightarrow> m) @ CHR '':'' # '':[]:'' @ canon_set pr ts @ t"
    using eq by simp
  from option_name_colon(2) [OF lex(2) _ name_colon(2) [OF lex(1) q this]]
  show False by (simp add: canon_variables_def)
qed

theorem definition_decodes:
  assumes "lexical_definition d"
  shows "decodes (\<lambda>_. True) lexical_definition (canon_definition pr) reorder_definition\<^sup>*\<^sup>* d"
proof (rule decodesI)
  fix e s t
  assume e: "lexical_definition e" "canon_definition pr d @ s = canon_definition pr e @ t"
  show "reorder_definition\<^sup>*\<^sup>* d e \<and> s = t"
  proof (cases d)
    case d: (Fragment n x ds ss)
    from e(2) obtain m y es ts where f: "e = Fragment m y es ts" by (cases e) (auto simp: d)
    have lex: "is_name n" "is_name x" "lexical_directives ds" "list_all lexical_selection ss"
      and ylex: "is_name m" "is_name y" "lexical_directives es" "list_all lexical_selection ts"
      using assms e(1) by (simp_all add: d f)
    have eq: "n @ CHR '':'' # ''on:'' @ x @ CHR '':'' # canon_directives pr ds @ CHR '':'' # canon_set pr ss @ s
        = m @ CHR '':'' # ''on:'' @ y @ CHR '':'' # canon_directives pr es @ CHR '':'' # canon_set pr ts @ t"
      using e(2) by (simp add: d f)
    note nm = name_colon [OF lex(1) ylex(1) eq]
    note ty = name_colon [OF lex(2) ylex(2) nm(2) [unfolded same_append_eq]]
    note di = decodesD [OF directives_decode [OF lex(3)] ty(2) ylex(3) TrueI TrueI]
    from di(3) have "canon_set pr ss @ s = canon_set pr ts @ t" by simp
    note st = decodesD [OF set_unique [OF lex(4)] this ylex(4) TrueI TrueI]
    show ?thesis using fragment_steps [OF di(1) st(1)] st(3) by (simp add: d f nm(1) ty(1))
  next
    case d: (Operation op n vs ds ss)
    have lex: "is_name op" "pred_option is_name n" "list_all lexical_variable vs" "lexical_directives ds"
      "list_all lexical_selection ss" using assms by (simp_all add: d)
    show ?thesis
    proof (cases e)
      case (Fragment m y es ts)
      then show ?thesis using e(2) by (simp add: d)
    next
      case (Shorthand ts)
      then show ?thesis using operation_not_shorthand [OF _ lex(1,2)] e(2) unfolding d by blast
    next
      case f: (Operation oq m ws es ts)
      have ylex: "is_name oq" "pred_option is_name m" "list_all lexical_variable ws" "lexical_directives es"
        "list_all lexical_selection ts" using e(1) by (simp_all add: f)
      have eq: "op @ CHR '':'' # (case n of None \<Rightarrow> [] | Some m \<Rightarrow> m) @ CHR '':'' # canon_variables pr vs @ CHR '':''
          # canon_directives pr ds @ CHR '':'' # canon_set pr ss @ s
          = oq @ CHR '':'' # (case m of None \<Rightarrow> [] | Some m \<Rightarrow> m) @ CHR '':'' # canon_variables pr ws @ CHR '':''
          # canon_directives pr es @ CHR '':'' # canon_set pr ts @ t"
        using e(2) by (simp add: d f)
      note oq = name_colon [OF lex(1) ylex(1) eq]
      note nm = option_name_colon [OF lex(2) ylex(2) oq(2)]
      obtain vs' ws' where vars: "mset vs' = mset vs" "mset ws' = mset ws" "list_all2 default_step\<^sup>*\<^sup>* vs' ws'"
        and rest: "CHR '':'' # canon_directives pr ds @ CHR '':'' # canon_set pr ss @ s
          = CHR '':'' # canon_directives pr es @ CHR '':'' # canon_set pr ts @ t"
        using variables_unique [OF lex(3) ylex(3) nm(2)] by blast
      from rest have "canon_directives pr ds @ CHR '':'' # canon_set pr ss @ s
          = canon_directives pr es @ CHR '':'' # canon_set pr ts @ t" by simp
      note di = decodesD [OF directives_decode [OF lex(4)] this ylex(4) TrueI TrueI]
      from di(3) have "canon_set pr ss @ s = canon_set pr ts @ t" by simp
      note st = decodesD [OF set_unique [OF lex(5)] this ylex(5) TrueI TrueI]
      show ?thesis using operation_steps [OF vars di(1) st(1)] st(3) by (simp add: d f oq(1) nm(1))
    qed
  next
    case d: (Shorthand ss)
    show ?thesis
    proof (cases e)
      case (Fragment m y es ts)
      then show ?thesis using e(2) by (simp add: d)
    next
      case (Operation oq m ws es ts)
      then show ?thesis using operation_not_shorthand [OF e(2) [unfolded d Operation, symmetric]] e(1) by simp
    next
      case f: (Shorthand ts)
      have "canon_set pr ss @ s = canon_set pr ts @ t" using e(2) by (simp add: d f)
      moreover have "list_all lexical_selection ss" "list_all lexical_selection ts" using assms e(1) by (simp_all add: d f)
      ultimately have "reorder_set\<^sup>*\<^sup>* ss ts" "s = t" using decodesD [OF set_unique [of ss pr], of s ts t] by simp_all
      then show ?thesis using rtranclp_map [of reorder_set reorder_definition Shorthand ss ts] rf_shorthand by (simp add: d f)
    qed
  qed
qed

text \<open>Equal canonical strings belong to reorderings of one document.\<close>

theorem canon_document_unique:
  assumes "list_all lexical_definition ds" and "list_all lexical_definition es"
    and "canon_document pr ds = canon_document pr es"
  shows "reorder_document\<^sup>*\<^sup>* ds es"
proof -
  have dec: "decodes (\<lambda>_. True) lexical_definition (canon_definition pr) reorder_definition\<^sup>*\<^sup>* d" if "d \<in> set ds" for d
    using assms(1) that by (auto simp: list_all_iff intro: definition_decodes)
  have close: "\<exists>c u. canon_definition pr d = c # u \<and> c \<noteq> CHR '')''" for d by (cases d) auto
  have eq: "sorted_join ''|'' (map (canon_definition pr) ds) @ CHR '')'' # []
      = sorted_join ''|'' (map (canon_definition pr) es) @ CHR '')'' # []"
    using assms(3) by (simp add: canon_document_def)
  obtain ds' es' where "mset ds' = mset ds" "mset es' = mset es" "list_all2 reorder_definition\<^sup>*\<^sup>* ds' es'"
    by (rule sorted_join_decodes [OF dec assms(2) close assms(1) _ _ _ eq]) (auto intro: TrueI)
  then show ?thesis by (rule definitions.permuted)
qed

section \<open>The tokens of a query\<close>

fun lexical_token :: "graphql_token \<Rightarrow> bool" where
  "lexical_token (TokName n) = is_name n"
| "lexical_token (TokNumber n) = is_number n"
| "lexical_token _ = True"

lemma digits1_digits: "digits1 e s = Ok (d, r) \<Longrightarrow> digits d"
  by (auto simp: digits1_def lex_digits1_def digits_def res_simps list_all_iff Let_def split: if_splits dest: set_takeWhileD)

lemma read_number_is_number:
  assumes "read_graphql_number s = Ok (n, r)"
  shows "is_number n"
proof -
  obtain g s1 where g: "lex_sign s = (g, s1)" by fastforce
  obtain i s2 f s3 e where p: "digits1 ''invalid GraphQL number'' s1 = Ok (i, s2)" "number_fraction s2 = Ok (f, s3)"
      "number_exponent s3 = Ok (e, r)" and n: "n = g @ i @ f @ e"
    using assms g by (auto simp: read_graphql_number_def res_simps)
  have "g \<in> {[], ''-''}" using g by (auto simp: lex_sign_def split: if_splits list.splits)
  moreover have "is_fraction f" using p(2)
    by (auto simp: number_fraction_def is_fraction_def res_simps dest: digits1_digits split: if_splits)
  moreover have "is_exponent e"
  proof -
    define sg where
      "sg = (if tl s3 \<noteq> [] \<and> (hd (tl s3) = CHR ''+'' \<or> hd (tl s3) = CHR ''-'') then [hd (tl s3)] else [])"
    have "e = [] \<or> (\<exists>d. e = hd s3 # sg @ d \<and> (hd s3 = CHR ''e'' \<or> hd s3 = CHR ''E'') \<and> digits d)"
      using p(3) unfolding number_exponent_def Let_def sg_def [symmetric]
      by (auto simp: res_simps dest: digits1_digits split: if_splits)
    moreover have "sg \<in> {[], ''+'', ''-''}" by (auto simp: sg_def)
    ultimately consider "e = []"
      | d where "e = hd s3 # sg @ d" "hd s3 = CHR ''e'' \<or> hd s3 = CHR ''E''" "digits d" "sg \<in> {[], ''+'', ''-''}"
      by blast
    then show ?thesis
    proof cases
      case (2 d)
      then show ?thesis
        unfolding is_exponent_def by (intro disjI2 exI [of _ "hd s3"] exI [of _ sg] exI [of _ d]) simp
    qed (simp add: is_exponent_def)
  qed
  ultimately show ?thesis unfolding is_number_def using n digits1_digits [OF p(1)] by blast
qed

theorem tokenize_lexical: "tokenize_graphql q = Ok ts \<Longrightarrow> list_all lexical_token ts"
proof (induction q arbitrary: ts rule: tokenize_graphql.induct)
  case (2 c cs)
  have name: "is_name_start c \<Longrightarrow> is_name (c # takeWhile is_name_continue cs)"
    by (auto simp: is_name_def list_all_iff dest: set_takeWhileD)
  show ?case using 2 name read_number_is_number by (auto simp: res_simps split: if_splits res.splits)
qed simp

lemma list_all_concat_map: "list_all P (concat (map f xs)) \<longleftrightarrow> (\<forall>x \<in> set xs. list_all P (f x))"
  by (auto simp: list_all_iff)

lemma value_lexical: "list_all lexical_token (value_tokens v) \<Longrightarrow> lexical_value v"
proof (induction v)
  case (VObj fs)
  have "is_name k \<and> lexical_value v" if "(k, v) \<in> set fs" for k v
  proof -
    have "list_all lexical_token ((\<lambda>(k, v). TokName k # TokPunct '':'' # value_tokens v) (k, v))"
      using VObj.prems that by (auto simp: list_all_concat_map)
    then show ?thesis using VObj.IH [OF that, of v] by simp
  qed
  then show ?case by (auto simp: list_all_iff)
qed (auto simp: list_all_concat_map list_all_iff [of lexical_value])

lemma args_lexical: "args_written as ts \<Longrightarrow> list_all lexical_token ts \<Longrightarrow> lexical_args as"
  by (erule args_written.cases)
    (auto simp: args_tokens_def arg_tokens_def list_all_concat_map list_all_iff [of "\<lambda>(k, v). is_name k \<and> lexical_value v"]
      value_lexical split: if_splits)

lemma directives_lexical: "directives_written ds ts \<Longrightarrow> list_all lexical_token ts \<Longrightarrow> lexical_directives ds"
  by (induction rule: directives_written.induct) (auto simp: args_lexical)

lemma type_lexical: "list_all lexical_token (type_tokens t) \<Longrightarrow> lexical_type t"
  by (induction t) auto

lemma variable_lexical: "list_all lexical_token (variable_tokens x) \<Longrightarrow> lexical_variable x"
  by (cases x) (auto simp: variable_tokens_def lexical_variable_def default_tokens_def type_lexical value_lexical
      split: option.splits)

lemma variables_lexical: "variables_written vs ts \<Longrightarrow> list_all lexical_token ts \<Longrightarrow> list_all lexical_variable vs"
  by (erule variables_written.cases)
    (auto simp: variables_tokens_def list_all_concat_map variable_lexical list_all_iff [of lexical_variable]
      split: if_splits)

lemma selection_lexical:
  "selection_written s ts \<Longrightarrow> list_all lexical_token ts \<Longrightarrow> lexical_selection s"
  "selections_written ss us \<Longrightarrow> list_all lexical_token us \<Longrightarrow> list_all lexical_selection ss"
proof (induction rule: selection_written_selections_written.inducts)
  case (written_field as at ds dt ss st a n)
  then show ?case
    by (cases a; cases "ss = []") (auto simp: alias_tokens_def braces_def args_lexical directives_lexical)
qed (auto simp: braces_def directives_lexical)

lemma definition_lexical: "definition_written d ts \<Longrightarrow> list_all lexical_token ts \<Longrightarrow> lexical_definition d"
  by (erule definition_written.cases)
    (auto simp: selection_lexical(2) directives_lexical variables_lexical braces_def split: option.splits)

theorem document_lexical: "document_written ds ts \<Longrightarrow> list_all lexical_token ts \<Longrightarrow> list_all lexical_definition ds"
  by (induction rule: document_written.induct) (auto simp: definition_lexical)

end
