(* ===== verification/GraphQL_Sound.thy ===== *)
theory GraphQL_Sound
  imports GraphQL_Spec
begin

text \<open>
  Every query that the parser accepts is a document of the grammar, and the parser's string is the canonical
  string of that document.
\<close>

section \<open>What the parser accepts\<close>

lemma expect_iff:
  "expect_name ts = POk n r \<longleftrightarrow> ts = TokName n # r"
  "expect_punct p ts = POk u r \<longleftrightarrow> ts = TokPunct p # r"
  "expect_name_value v ts = POk u r \<longleftrightarrow> ts = TokName v # r"
  by (auto simp: expect_name_def expect_punct_def expect_name_value_def peek_punct_iff peek_name_iff
      split: list.splits graphql_token.splits)

lemmas accepted = peek_punct_iff peek_name_iff expect_iff res_simps

lemma value_sound:
  "parse_value pr f ts = POk c r \<Longrightarrow> \<exists>v. ts = value_tokens v @ r \<and> c = canon_value pr v"
  "parse_values pr f ts = POk cs r \<Longrightarrow> \<exists>vs. ts = concat (map value_tokens vs) @ r \<and> cs = map (canon_value pr) vs"
  "parse_fields pr f ts = POk cs r \<Longrightarrow>
     \<exists>fs. ts = concat (map (\<lambda>(k, v). TokName k # TokPunct '':'' # value_tokens v) fs) @ r
       \<and> cs = map (\<lambda>(k, v). k @ '':'' @ canon_value pr v) fs"
proof (induction pr f ts and pr f ts and pr f ts arbitrary: c r and cs r and cs r rule: parse_value_parse_values_parse_fields.induct)
  case (2 pr f ts)
  have one: "\<exists>v. ts = value_tokens v @ r \<and> c = canon_value pr v" if "ts = value_tokens v @ r" "c = canon_value pr v" for v
    using that by blast
  consider (var) n where "ts = TokPunct ''$'' # TokName n # r" "c = ''$'' @ n"
    | (items) us cs where "ts = TokPunct ''['' # us" "parse_values pr f us = POk cs (TokPunct '']'' # r)"
        "c = ''list['' @ join_with '','' cs @ '']''"
    | (objf) us cs where "ts = TokPunct ''{'' # us" "parse_fields pr f us = POk cs (TokPunct ''}'' # r)"
        "c = ''obj{'' @ sorted_join '','' cs @ ''}''"
    | (string) s where "ts = TokString s # r" "c = ''str:'' @ go_quote pr s"
    | (number) s where "ts = TokNumber s # r" "c = ''num:'' @ s"
    | (word) s where "ts = TokName s # r" "c = ''name:'' @ s"
    using 2(3) by (auto simp: accepted split: if_splits list.splits graphql_token.splits)
  then show ?case
  proof cases
    case (var n)
    then show ?thesis by (intro one [of "VVar n"]) simp_all
  next
    case (items us cs)
    then obtain vs where "us = concat (map value_tokens vs) @ TokPunct '']'' # r" "cs = map (canon_value pr) vs"
      using 2(1) [of cs "TokPunct '']'' # r"] by (auto simp: peek_punct_iff)
    then show ?thesis using items by (intro one [of "VList vs"]) simp_all
  next
    case (objf us cs)
    then obtain fs where "us = concat (map (\<lambda>(k, v). TokName k # TokPunct '':'' # value_tokens v) fs) @ TokPunct ''}'' # r"
        "cs = map (\<lambda>(k, v). k @ '':'' @ canon_value pr v) fs"
      using 2(2) [of cs "TokPunct ''}'' # r"] by (auto simp: peek_punct_iff)
    then show ?thesis using objf by (intro one [of "VObj fs"]) simp_all
  next
    case (string s)
    then show ?thesis by (intro one [of "VString s"]) simp_all
  next
    case (number s)
    then show ?thesis by (intro one [of "VNumber s"]) simp_all
  next
    case (word s)
    then show ?thesis by (intro one [of "VName s"]) simp_all
  qed
next
  case (4 pr f ts)
  show ?case
  proof (cases "peek_punct '']'' ts")
    case True
    then show ?thesis using 4(3) by (intro exI [of _ "[]"]) simp
  next
    case False
    then obtain c r1 cs' where v: "parse_value pr f ts = POk c r1" "parse_values pr f r1 = POk cs' r" "cs = c # cs'"
      using 4(3) by (auto simp: res_simps)
    then obtain v vs where "ts = value_tokens v @ r1" "c = canon_value pr v" "r1 = concat (map value_tokens vs) @ r"
      "cs' = map (canon_value pr) vs" using 4(1) [OF False v(1)] 4(2) [OF False v(1,2)] by blast
    then show ?thesis using v(3) by (intro exI [of _ "v # vs"]) simp
  qed
next
  case (6 pr f ts)
  show ?case
  proof (cases "peek_punct ''}'' ts")
    case True
    then show ?thesis using 6(3) by (intro exI [of _ "[]"]) simp
  next
    case False
    then obtain k r2 c r3 cs' where t: "ts = TokName k # TokPunct '':'' # r2" and v: "parse_value pr f r2 = POk c r3"
        "parse_fields pr f r3 = POk cs' r" and cs: "cs = (k @ '':'' @ c) # cs'"
      using 6(3) by (auto simp: accepted)
    have k: "expect_name ts = POk k (TokPunct '':'' # r2)" "expect_punct '':'' (TokPunct '':'' # r2) = POk () r2"
      using t by (simp_all add: expect_iff)
    obtain v fs where "r2 = value_tokens v @ r3" "c = canon_value pr v"
        "r3 = concat (map (\<lambda>(k, v). TokName k # TokPunct '':'' # value_tokens v) fs) @ r"
        "cs' = map (\<lambda>(k, v). k @ '':'' @ canon_value pr v) fs"
      using 6(1) [OF False k v(1)] 6(2) [OF False k v(1,2)] by blast
    then show ?thesis using t cs by (intro exI [of _ "(k, v) # fs"]) simp
  qed
qed (simp_all)

lemma args_loop_sound:
  "parse_args pr f ts = POk cs r \<Longrightarrow> \<exists>as. ts = concat (map arg_tokens as) @ r \<and> cs = map (canon_arg pr) as"
proof (induction pr f ts arbitrary: cs r rule: parse_args.induct)
  case (2 pr f ts)
  show ?case
  proof (cases "peek_punct '')'' ts")
    case True
    then show ?thesis using 2(2) by (intro exI [of _ "[]"]) simp
  next
    case False
    then obtain k r2 c r3 cs' where t: "ts = TokName k # TokPunct '':'' # r2" and v: "parse_value pr f r2 = POk c r3"
        "parse_args pr f r3 = POk cs' r" and cs: "cs = (k @ '':'' @ c) # cs'"
      using 2(2) by (auto simp: accepted)
    have k: "expect_name ts = POk k (TokPunct '':'' # r2)" "expect_punct '':'' (TokPunct '':'' # r2) = POk () r2"
      using t by (simp_all add: expect_iff)
    obtain v as where "r2 = value_tokens v @ r3" "c = canon_value pr v" "r3 = concat (map arg_tokens as) @ r"
        "cs' = map (canon_arg pr) as"
      using value_sound(1) [OF v(1)] 2(1) [OF False k v] by blast
    then show ?thesis using t cs by (intro exI [of _ "(k, v) # as"]) (simp add: arg_tokens_def [of "(k, v)"] canon_arg_def [of _ "(k, v)"])
  qed
qed simp

lemma arguments_sound:
  assumes "parse_arguments pr f ts = POk c r"
  shows "\<exists>as us. args_written as us \<and> ts = us @ r \<and> c = canon_args pr as"
proof (cases "peek_punct ''('' ts")
  case False
  then have "ts = args_tokens [] @ r \<and> c = canon_args pr []"
    using assms by (simp add: parse_arguments_def args_tokens_def canon_args_def sorted_join_def)
  then show ?thesis using args_plain by blast
next
  case True
  then obtain us cs where t: "ts = TokPunct ''('' # us" and p: "parse_args pr f us = POk cs (TokPunct '')'' # r)"
    and c: "c = ''args['' @ sorted_join '','' cs @ '']''"
    using assms by (auto simp: parse_arguments_def accepted)
  from args_loop_sound [OF p] obtain as where as: "us = concat (map arg_tokens as) @ TokPunct '')'' # r"
    "cs = map (canon_arg pr) as" by blast
  show ?thesis
  proof (cases "as = []")
    case True
    then show ?thesis using t c as args_parens
      by (intro exI [of _ "[]"] exI [of _ "[TokPunct ''('', TokPunct '')'']"]) (simp add: canon_args_def)
  next
    case False
    then show ?thesis using t c as args_plain [of as]
      by (intro exI [of _ as] exI [of _ "args_tokens as"]) (simp add: args_tokens_def canon_args_def)
  qed
qed

lemma directives_loop_sound:
  "directives_loop pr f ts = POk cs r \<Longrightarrow>
   \<exists>ds us. directives_written ds us \<and> ts = us @ r \<and> cs = map (canon_directive pr) ds"
proof (induction pr f ts arbitrary: cs r rule: directives_loop.induct)
  case (2 pr f ts)
  show ?case
  proof (cases "peek_punct ''@'' ts")
    case False
    then show ?thesis using 2(2) by (intro exI [of _ "[]"]) (simp add: directives_nil)
  next
    case True
    then obtain n r1 c r2 cs' where t: "ts = TokPunct ''@'' # TokName n # r1" and v: "parse_arguments pr f r1 = POk c r2"
        "directives_loop pr f r2 = POk cs' r" and cs: "cs = (n @ '':'' @ c) # cs'"
      using 2(2) by (auto simp: accepted)
    have n: "expect_name (tl ts) = POk n r1" "\<not> \<not> peek_punct ''@'' ts" using t True by (simp_all add: expect_iff)
    obtain as at where a: "args_written as at" "r1 = at @ r2" "c = canon_args pr as" using arguments_sound [OF v(1)] by blast
    obtain ds us where d: "directives_written ds us" "r2 = us @ r" "cs' = map (canon_directive pr) ds"
      using 2(1) [OF n(2,1) v] by blast
    show ?thesis using directives_cons [OF a(1) d(1), of n] t cs a d
      by (intro exI [of _ "(n, as) # ds"] exI [of _ "TokPunct ''@'' # TokName n # at @ us"]) (simp add: canon_directive_def)
  qed
qed simp

lemma directives_sound:
  assumes "parse_directives pr f ts = POk c r"
  shows "\<exists>ds us. directives_written ds us \<and> ts = us @ r \<and> c = canon_directives pr ds"
  using assms directives_loop_sound [of pr f ts] by (fastforce simp: parse_directives_def canon_directives_def res_simps)

lemma type_sound: "parse_type_ref f ts = POk c r \<Longrightarrow> \<exists>t. ts = type_tokens t @ r \<and> c = canon_type t"
proof (induction f ts arbitrary: c r rule: parse_type_ref.induct)
  case (2 f ts)
  show ?case
  proof (cases "peek_punct ''['' ts")
    case True
    then obtain us d r1 where t: "ts = TokPunct ''['' # us" and p: "parse_type_ref f us = POk d (TokPunct '']'' # r1)"
      and c: "if peek_punct ''!'' r1 then c = ''['' @ d @ '']!'' \<and> r = tl r1 else c = ''['' @ d @ '']'' \<and> r = r1"
      using 2(2) by (auto simp: accepted split: if_splits)
    obtain x where "us = type_tokens x @ TokPunct '']'' # r1" "d = canon_type x"
      using 2(1) [OF True, of d "TokPunct '']'' # r1"] p t by auto
    then show ?thesis using t c
      by (intro exI [of _ "TList x (peek_punct ''!'' r1)"]) (auto simp: bang_def peek_punct_iff split: if_splits)
  next
    case False
    then obtain n r1 where t: "ts = TokName n # r1"
      and c: "if peek_punct ''!'' r1 then c = n @ ''!'' \<and> r = tl r1 else c = n \<and> r = r1"
      using 2(2) by (auto simp: expect_iff res_simps split: if_splits)
    then show ?thesis
      by (intro exI [of _ "TNamed n (peek_punct ''!'' r1)"]) (auto simp: bang_def peek_punct_iff split: if_splits)
  qed
qed simp

lemma default_sound:
  assumes "parse_default pr f ts = POk c r"
  shows "\<exists>d. ts = default_tokens d @ r \<and> c = (case d of None \<Rightarrow> [] | Some v \<Rightarrow> ''='' @ canon_value pr v)"
proof (cases "peek_punct ''='' ts")
  case True
  then obtain us e where "ts = TokPunct ''='' # us" "parse_value pr f us = POk e r" "c = ''='' @ e"
    using assms by (auto simp: parse_default_def accepted)
  with value_sound(1) obtain v where "us = value_tokens v @ r" "e = canon_value pr v" by blast
  with \<open>ts = _\<close> \<open>c = _\<close> show ?thesis by (intro exI [of _ "Some v"]) (simp add: default_tokens_def)
next
  case False
  then show ?thesis using assms by (intro exI [of _ None]) (simp add: parse_default_def default_tokens_def)
qed

lemma variables_loop_sound:
  "variables_loop pr f ts = POk cs r \<Longrightarrow>
   \<exists>vs. ts = concat (map variable_tokens vs) @ r \<and> cs = map (canon_variable pr) vs"
proof (induction pr f ts arbitrary: cs r rule: variables_loop.induct)
  case (2 pr f ts)
  show ?case
  proof (cases "peek_punct '')'' ts")
    case True
    then show ?thesis using 2(2) by (intro exI [of _ "[]"]) simp
  next
    case False
    then obtain n r3 c r4 d r5 cs' where t: "ts = TokPunct ''$'' # TokName n # TokPunct '':'' # r3"
      and p: "parse_type_ref f r3 = POk c r4" "parse_default pr f r4 = POk d r5" "variables_loop pr f r5 = POk cs' r"
      and cs: "cs = (n @ '':'' @ c @ d) # cs'"
      using 2(2) by (auto simp: accepted)
    have n: "expect_punct ''$'' ts = POk () (TokName n # TokPunct '':'' # r3)"
      "expect_name (TokName n # TokPunct '':'' # r3) = POk n (TokPunct '':'' # r3)"
      "expect_punct '':'' (TokPunct '':'' # r3) = POk () r3" using t by (simp_all add: expect_iff)
    obtain x e where x: "r3 = type_tokens x @ r4" "c = canon_type x" "r4 = default_tokens e @ r5"
        "d = (case e of None \<Rightarrow> [] | Some v \<Rightarrow> ''='' @ canon_value pr v)"
      using type_sound [OF p(1)] default_sound [OF p(2)] by blast
    obtain vs where "r5 = concat (map variable_tokens vs) @ r" "cs' = map (canon_variable pr) vs"
      using 2(1) [OF False n p] by blast
    with t cs x show ?thesis
      by (intro exI [of _ "(n, x, e) # vs"]) (simp add: variable_tokens_def [of "(n, x, e)"] canon_variable_def [of _ "(n, x, e)"])
  qed
qed simp

lemma variables_sound:
  assumes "(if peek_punct ''('' ts then parse_variable_definitions pr f ts else POk ''[]'' ts) = POk c r"
  shows "\<exists>vs us. variables_written vs us \<and> ts = us @ r \<and> c = canon_variables pr vs"
proof (cases "peek_punct ''('' ts")
  case False
  then have "ts = variables_tokens [] @ r \<and> c = canon_variables pr []"
    using assms by (simp add: variables_tokens_def canon_variables_def sorted_join_def)
  then show ?thesis using variables_plain by blast
next
  case True
  then obtain us cs where t: "ts = TokPunct ''('' # us" and p: "variables_loop pr f us = POk cs (TokPunct '')'' # r)"
    and c: "c = ''['' @ sorted_join '','' cs @ '']''"
    using assms by (auto simp: parse_variable_definitions_def accepted)
  from variables_loop_sound [OF p] obtain vs where vs: "us = concat (map variable_tokens vs) @ TokPunct '')'' # r"
    "cs = map (canon_variable pr) vs" by blast
  show ?thesis
  proof (cases "vs = []")
    case True
    then show ?thesis using t c vs variables_parens
      by (intro exI [of _ "[]"] exI [of _ "[TokPunct ''('', TokPunct '')'']"]) (simp add: canon_variables_def)
  next
    case False
    then show ?thesis using t c vs variables_plain [of vs]
      by (intro exI [of _ vs] exI [of _ "variables_tokens vs"]) (simp add: variables_tokens_def canon_variables_def)
  qed
qed

section \<open>Selections, definitions, documents\<close>

lemma selection_sound:
  "parse_selection_set pr f ts = POk c r \<Longrightarrow>
     \<exists>ss us. selections_written ss us \<and> ss \<noteq> [] \<and> ts = braces us @ r \<and> c = canon_set pr ss"
  "parse_selections pr f ts = POk cs r \<Longrightarrow>
     \<exists>ss us. selections_written ss us \<and> ts = us @ r \<and> cs = map (canon_selection pr) ss"
  "parse_selection pr f ts = POk c r \<Longrightarrow>
     \<exists>s us. selection_written s us \<and> ts = us @ r \<and> c = canon_selection pr s"
  "parse_field pr f ts = POk c r \<Longrightarrow>
     \<exists>s us. selection_written s us \<and> ts = us @ r \<and> c = canon_selection pr s"
proof (induction pr f ts and pr f ts and pr f ts and pr f ts arbitrary: c r and cs r and c r and c r
    rule: parse_selection_set_parse_selections_parse_selection_parse_field.induct)
  case (2 pr f ts)
  from 2(2) obtain us cs where t: "ts = TokPunct ''{'' # us" and p: "parse_selections pr f us = POk cs (TokPunct ''}'' # r)"
    and c: "cs \<noteq> []" "c = ''sel['' @ sorted_join '','' cs @ '']''"
    by (auto simp: accepted split: if_splits)
  have "expect_punct ''{'' ts = POk () us" using t by (simp add: expect_iff)
  from 2(1) [OF this p] obtain ss vs where "selections_written ss vs" "us = vs @ TokPunct ''}'' # r"
    "cs = map (canon_selection pr) ss" by blast
  then show ?case using t c by (intro exI [of _ ss] exI [of _ vs]) (auto simp: braces_def canon_set_def)
next
  case (4 pr f ts)
  show ?case
  proof (cases "peek_punct ''}'' ts")
    case True
    then show ?thesis using 4(3) by (intro exI [of _ "[]"]) (simp add: written_nil)
  next
    case False
    then obtain c r1 cs' where v: "parse_selection pr f ts = POk c r1" "parse_selections pr f r1 = POk cs' r" "cs = c # cs'"
      using 4(3) by (auto simp: res_simps)
    obtain s us ss vs where w: "selection_written s us" "ts = us @ r1" "c = canon_selection pr s"
        "selections_written ss vs" "r1 = vs @ r" "cs' = map (canon_selection pr) ss"
      using 4(1) [OF False v(1)] 4(2) [OF False v(1,2)] by blast
    show ?thesis using written_cons [OF w(1,4)] w v(3) by (intro exI [of _ "s # ss"] exI [of _ "us @ vs"]) simp
  qed
next
  case (6 pr f ts)
  show ?case
  proof (cases "peek_punct ''...'' ts")
    case False
    then show ?thesis using 6(2) [OF False] 6(3) by simp
  next
    case dots: True
    then obtain us where t: "ts = TokPunct ''...'' # us" by (auto simp: peek_punct_iff)
    show ?thesis
    proof (cases "peek_name ''on'' us")
      case True
      then obtain n r1 d r2 e where u: "us = TokName ''on'' # TokName n # r1" and p: "parse_directives pr f r1 = POk d r2"
          "parse_selection_set pr f r2 = POk e r" and c: "c = ''inline:on:'' @ n @ '':'' @ d @ '':'' @ e"
        using 6(3) by (auto simp: t accepted)
      have n: "peek_name ''on'' (tl ts)" "expect_name (tl (tl ts)) = POk n r1" using True by (simp_all add: t u expect_iff)
      obtain ds dt where d: "directives_written ds dt" "r1 = dt @ r2" "d = canon_directives pr ds"
        using directives_sound [OF p(1)] by blast
      obtain ss st where w: "selections_written ss st" "ss \<noteq> []" "r2 = braces st @ r" "e = canon_set pr ss"
        using 6(1) [OF dots n p] by blast
      show ?thesis using written_inline [OF d(1) w(1,2), of n] t u c d w
        by (intro exI [of _ "Inline n ds ss"] exI [of _ "TokPunct ''...'' # TokName ''on'' # TokName n # dt @ braces st"])
          (simp add: canon_set_def)
    next
      case False
      then obtain n r1 d where u: "us = TokName n # r1" "n \<noteq> ''on''" and p: "parse_directives pr f r1 = POk d r"
          and c: "c = ''spread:'' @ n @ '':'' @ d"
        using 6(3) by (auto simp: t accepted)
      obtain ds dt where d: "directives_written ds dt" "r1 = dt @ r" "d = canon_directives pr ds"
        using directives_sound [OF p] by blast
      show ?thesis using written_spread [OF u(2) d(1)] t u c d
        by (intro exI [of _ "Spread n ds"] exI [of _ "TokPunct ''...'' # TokName n # dt"]) simp
    qed
  qed
next
  case (8 pr f ts)
  from 8(2) obtain n0 r1 m n r2 a r3 d r4 e where t: "ts = TokName n0 # r1"
    and al: "(if peek_punct '':'' r1 then bind_pres (expect_name (tl r1)) (\<lambda>name r. POk (n0, name) r)
       else POk ([], n0) r1) = POk (m, n) r2"
    and p: "parse_arguments pr f r2 = POk a r3" "parse_directives pr f r3 = POk d r4"
    and se: "(if peek_punct ''{'' r4 then parse_selection_set pr f r4 else POk [] r4) = POk e r"
    and c: "c = ''field:'' @ m @ '':'' @ n @ '':'' @ a @ '':'' @ d @ '':'' @ e"
    by (auto simp: expect_iff bind_pres_eq_POk)
  obtain other where name: "ts = alias_tokens other @ TokName n # r2" "m = (case other of None \<Rightarrow> [] | Some m \<Rightarrow> m)"
  proof (cases "peek_punct '':'' r1")
    case True
    with al t show ?thesis by (intro that [of "Some n0"]) (auto simp: accepted alias_tokens_def)
  next
    case False
    with al t show ?thesis by (intro that [of None]) (auto simp: alias_tokens_def)
  qed
  obtain as at ds dt where w: "args_written as at" "r2 = at @ r3" "a = canon_args pr as"
      "directives_written ds dt" "r3 = dt @ r4" "d = canon_directives pr ds"
    using arguments_sound [OF p(1)] directives_sound [OF p(2)] by blast
  obtain ss st where s: "selections_written ss st" "r4 = (if ss = [] then [] else braces st) @ r"
      "e = (if ss = [] then [] else canon_set pr ss)"
  proof (cases "peek_punct ''{'' r4")
    case True
    have "expect_name ts = POk n0 r1" using t by (simp add: expect_iff)
    from 8(1) [OF this al refl p True] se True show ?thesis by (auto intro: that)
  next
    case False
    with se show ?thesis by (intro that [of "[]" "[]"]) (auto simp: written_nil)
  qed
  show ?case using written_field [OF w(1,4) s(1), of other n] name w s c
    by (intro exI [of _ "Field other n as ds ss"]
        exI [of _ "alias_tokens other @ TokName n # at @ dt @ (if ss = [] then [] else braces st)"])
      (simp add: canon_set_def)
qed simp_all

lemma definition_sound:
  assumes "parse_definition pr f ts = POk c r"
  shows "\<exists>d us. definition_written d us \<and> ts = us @ r \<and> c = canon_definition pr d"
proof -
  consider (fragment) "peek_name ''fragment'' ts" "parse_fragment_definition pr f ts = POk c r"
    | (operation) op us where "op \<in> set [''query'', ''mutation'', ''subscription'']" "ts = TokName op # us"
        "parse_operation_definition pr f ts = POk c r"
    | (short) e where "parse_selection_set pr f ts = POk e r" "c = ''op:query:::[]:'' @ e"
    using assms by (auto simp: parse_definition_def peek_name_iff bind_pres_eq_POk split: if_splits)
  then show ?thesis
  proof cases
    case fragment
    then obtain n t r4 d r5 e where t: "ts = TokName ''fragment'' # TokName n # TokName ''on'' # TokName t # r4"
      and p: "parse_directives pr f r4 = POk d r5" "parse_selection_set pr f r5 = POk e r"
      and c: "c = ''fragment:'' @ n @ '':on:'' @ t @ '':'' @ d @ '':'' @ e"
      by (auto simp: parse_fragment_definition_def accepted)
    obtain ds dt ss st where w: "directives_written ds dt" "r4 = dt @ r5" "d = canon_directives pr ds"
        "selections_written ss st" "ss \<noteq> []" "r5 = braces st @ r" "e = canon_set pr ss"
      using directives_sound [OF p(1)] selection_sound(1) [OF p(2)] by blast
    show ?thesis using written_fragment [OF w(1,4,5), of n t] t c w
      by (intro exI [of _ "Fragment n t ds ss"]
          exI [of _ "TokName ''fragment'' # TokName n # TokName ''on'' # TokName t # dt @ braces st"]) simp
  next
    case (operation op us)
    then obtain m r2 v r3 d r4 e where n: "operation_name us = POk m r2"
      and vars: "(if peek_punct ''('' r2 then parse_variable_definitions pr f r2 else POk ''[]'' r2) = POk v r3"
      and p: "parse_directives pr f r3 = POk d r4" "parse_selection_set pr f r4 = POk e r"
      and c: "c = ''op:'' @ op @ '':'' @ m @ '':'' @ v @ '':'' @ d @ '':'' @ e"
      by (auto simp: parse_operation_definition_def expect_iff bind_pres_eq_POk)
    obtain name where name: "us = (case name of None \<Rightarrow> [] | Some m \<Rightarrow> [TokName m]) @ r2" "name \<noteq> Some ''on''"
        "m = (case name of None \<Rightarrow> [] | Some m \<Rightarrow> m)"
    proof -
      have "(\<exists>k. us = TokName k # r2 \<and> k \<noteq> ''on'' \<and> m = k) \<or> (us = r2 \<and> m = [])"
        using n by (auto simp: operation_name_def split: list.splits graphql_token.splits if_splits)
      then show ?thesis using that [of None] that [of "Some m"] by auto
    qed
    obtain vs vt ds dt ss st where w: "variables_written vs vt" "r2 = vt @ r3" "v = canon_variables pr vs"
        "directives_written ds dt" "r3 = dt @ r4" "d = canon_directives pr ds"
        "selections_written ss st" "ss \<noteq> []" "r4 = braces st @ r" "e = canon_set pr ss"
      using variables_sound [OF vars] directives_sound [OF p(1)] selection_sound(1) [OF p(2)] by blast
    show ?thesis using written_operation [OF operation(1) name(2) w(1,4,7,8)] operation(2) c w name
      by (intro exI [of _ "Operation op name vs ds ss"]
          exI [of _ "TokName op # (case name of None \<Rightarrow> [] | Some m \<Rightarrow> [TokName m]) @ vt @ dt @ braces st"]) simp
  next
    case (short e)
    obtain ss st where "selections_written ss st" "ss \<noteq> []" "ts = braces st @ r" "e = canon_set pr ss"
      using selection_sound(1) [OF short(1)] by blast
    then show ?thesis using written_shorthand [of ss st] short(2)
      by (intro exI [of _ "Shorthand ss"] exI [of _ "braces st"]) simp
  qed
qed

lemma definitions_loop_sound:
  "definitions_loop pr f ts = POk cs r \<Longrightarrow> r = [] \<and> (\<exists>ds. document_written ds ts \<and> cs = map (canon_definition pr) ds)"
proof (induction pr f ts arbitrary: cs r rule: definitions_loop.induct)
  case (2 pr f ts)
  show ?case
  proof (cases "ts = []")
    case True
    then show ?thesis using 2(2) document_nil by auto
  next
    case False
    then obtain c r1 cs' where p: "parse_definition pr f ts = POk c r1" "definitions_loop pr f r1 = POk cs' r" "cs = c # cs'"
      using 2(2) by (auto simp: res_simps)
    obtain d us where d: "definition_written d us" "ts = us @ r1" "c = canon_definition pr d"
      using definition_sound [OF p(1)] by blast
    obtain ds where ds: "r = []" "document_written ds r1" "cs' = map (canon_definition pr) ds" using 2(1) [OF False p(1,2)] by blast
    show ?thesis using document_cons [OF d(1) ds(2)] d ds p(3) by (intro conjI exI [of _ "d # ds"]) simp_all
  qed
qed simp

theorem parse_sound:
  assumes "parse_graphql_document pr q = Ok c"
  shows "\<exists>ts ds. tokenize_graphql q = Ok ts \<and> document_written ds ts \<and> ds \<noteq> [] \<and> c = canon_document pr ds"
proof -
  obtain ts cs r where t: "tokenize_graphql q = Ok ts" "ts \<noteq> []"
    and p: "definitions_loop pr (graphql_fuel ts) ts = POk cs r" "c = ''doc('' @ sorted_join ''|'' cs @ '')''"
    using assms by (auto simp: parse_graphql_document_def new_graphql_parser_def parse_document_def res_simps
        split: if_splits pres.splits)
  obtain ds where ds: "document_written ds ts" "cs = map (canon_definition pr) ds" using definitions_loop_sound [OF p(1)] by blast
  have "ds \<noteq> []" using ds(1) t(2) by (auto elim: document_written.cases)
  with t(1) ds p(2) show ?thesis by (auto simp: canon_document_def)
qed

end
