(* ===== verification/GraphQL_Equality.thy ===== *)
theory GraphQL_Equality
  imports GraphQL_Unique GraphQL_Sound GraphQL_Matcher
begin

text \<open>
  The contract of the GraphQL parser and of the custom matcher: the parser accepts the documents of the grammar
  and gives their canonical strings, and two requests match when their documents are reorderings of each
  other and their variables and operation names agree.
\<close>

section \<open>Documents\<close>

text \<open>The query is written as a document.\<close>

definition query_document :: "string \<Rightarrow> gql_definition list \<Rightarrow> bool" where
  "query_document q ds \<longleftrightarrow> ds \<noteq> [] \<and> (\<exists>ts. tokenize_graphql q = Ok ts \<and> document_written ds ts)"

lemma document_written_nonempty: "document_written ds ts \<Longrightarrow> ds \<noteq> [] \<Longrightarrow> ts \<noteq> []"
  by (erule document_written.cases) (auto dest: definition_written_nonempty)

theorem parse_exact:
  "parse_graphql_document pr q = Ok c \<longleftrightarrow> (\<exists>ds. query_document q ds \<and> c = canon_document pr ds)"
proof
  show "parse_graphql_document pr q = Ok c \<Longrightarrow> \<exists>ds. query_document q ds \<and> c = canon_document pr ds"
    using parse_sound unfolding query_document_def by blast
  assume "\<exists>ds. query_document q ds \<and> c = canon_document pr ds"
  then show "parse_graphql_document pr q = Ok c"
    using document_written_nonempty
    by (auto simp: query_document_def parse_graphql_document_def new_graphql_parser_def parse_document_written)
qed

lemma query_document_parse: "query_document q ds \<Longrightarrow> parse_graphql_document pr q = Ok (canon_document pr ds)"
  using parse_exact by blast

lemma layout_document: "layout q ts \<Longrightarrow> document_written ds ts \<Longrightarrow> ds \<noteq> [] \<Longrightarrow> query_document q ds"
  using layout_tokenize by (auto simp: query_document_def)

theorem layout_parse:
  "layout q ts \<Longrightarrow> document_written ds ts \<Longrightarrow> ds \<noteq> [] \<Longrightarrow> parse_graphql_document pr q = Ok (canon_document pr ds)"
  by (intro query_document_parse layout_document)

lemma query_document_lexical: "query_document q ds \<Longrightarrow> list_all lexical_definition ds"
  using document_lexical tokenize_lexical by (auto simp: query_document_def)

lemma canon_reorders: "reorder_document\<^sup>*\<^sup>* ds es \<Longrightarrow> canon_document pr ds = canon_document pr es"
  by (induction rule: rtranclp_induct) (simp_all add: canon_reorder_document)

theorem documents_equal_iff:
  assumes "query_document q ds" and "query_document q' es"
  shows "parse_graphql_document pr q' = parse_graphql_document pr q \<longleftrightarrow> reorder_document\<^sup>*\<^sup>* ds es"
  using canon_document_unique [OF query_document_lexical query_document_lexical, OF assms, of pr] canon_reorders [of ds es pr]
  by (auto simp: query_document_parse [OF assms(1)] query_document_parse [OF assms(2)])

section \<open>The matcher\<close>

text \<open>The matcher holds what the request parser reads from the text it was made of.\<close>

lemma matcher_request:
  assumes "parse_graphql_body_matcher L (Some stub) = Ok m" and "parse_graphql_request_body L stub = Ok s"
  shows "parse_graphql_document (is_print L) (gr_query s) = Ok (gm_query m)"
    and "flagged (gm_has_variables m) (gm_variables m) = flagged (gr_has_variables s) (gr_variables s)"
    and "flagged (gm_has_operation m) (gm_operation m) = flagged (gr_has_operation s) (gr_operation s)"
  using graphql_matches_self [OF assms(1)] assms(2) by (auto simp: graphql_matches_iff body_raw_def)

theorem matcher_decides:
  assumes "parse_graphql_body_matcher L (Some stub) = Ok m"
    and "parse_graphql_request_body L stub = Ok s" and "parse_graphql_request_body L body = Ok r"
  shows "graphql_matches L m (Some body) \<longleftrightarrow>
    (\<exists>ds es. query_document (gr_query s) ds \<and> query_document (gr_query r) es \<and> reorder_document\<^sup>*\<^sup>* ds es)
    \<and> flagged (gr_has_variables s) (gr_variables s) = flagged (gr_has_variables r) (gr_variables r)
    \<and> flagged (gr_has_operation s) (gr_operation s) = flagged (gr_has_operation r) (gr_operation r)"
proof -
  note m = matcher_request [OF assms(1,2)]
  obtain ds where ds: "query_document (gr_query s) ds" using m(1) parse_exact by blast
  have "parse_graphql_document (is_print L) (gr_query r) = Ok (gm_query m) \<longleftrightarrow>
      (\<exists>ds es. query_document (gr_query s) ds \<and> query_document (gr_query r) es \<and> reorder_document\<^sup>*\<^sup>* ds es)"
    using documents_equal_iff [where pr = "is_print L" and q = "gr_query s" and q' = "gr_query r"] ds m(1) parse_exact
    by (metis (no_types))
  then show ?thesis using m assms(3) by (auto simp: graphql_matches_iff body_raw_def)
qed

end
