(* ===== verification/Props_Parsing.thy ===== *)
theory Props_Parsing
  imports Samples GraphQL_Equality
begin

text \<open>
  Properties of the parsers: stub mappings, identifiers, JSONPath, GraphQL documents, templates and the
  encoding of gRPC messages.
\<close>

section \<open>Stub mappings\<close>

text \<open>
  C11: A stub mapping that the parser accepts is well-formed: a valid identifier that the raw object also
  carries, a 64-bit priority, patterns that compile, a status between 100 and 999, delays that are not
  negative, and a compiled template that belongs to its body.
\<close>

theorem parsed_mapping_wf:
  assumes "parse_json L rand data = Ok m" and "\<And>bs. rand = Some bs \<Longrightarrow> length bs = 16"
  shows "wf_mapping L m"
  using assms unfolding parse_json_def by (rule parse_json_wf)

theorem parsed_mapping_wf_witness:
  "is_valid_id zero_id \<and> (\<exists>m. parse_json plain_lib (Some (replicate 16 0)) mapping_text = Ok m
     \<and> m_id m = zero_id \<and> wf_mapping plain_lib m)"
  using parsed_mapping_wf [OF mapping_text_parses]
  by (simp add: mapping_text_parses) (simp add: wf_mapping_def)

text \<open>
  Every sixteen random bytes make a fresh identifier that the validation accepts, with the version
  digit 4 and the variant digit of a random UUID.
\<close>

theorem fresh_id_valid:
  assumes "length bs = 16"
  shows "\<exists>x. new_id (Some bs) = Ok x \<and> is_valid_id x \<and> x ! 14 = CHR ''4'' \<and> x ! 19 \<in> set ''89ab''"
proof (cases "new_id (Some bs)")
  case (Ok x)
  then show ?thesis
    using new_id_valid [OF Ok assms] new_id_version [OF Ok assms] by blast
qed (simp_all add: new_id_Ok)

theorem fresh_id_valid_witness: "is_valid_id zero_id \<and> zero_id ! 14 = CHR ''4''"
  using fresh_id_valid [of "replicate 16 0"] by (auto simp: zero_id_fresh)

section \<open>JSONPath\<close>

text \<open>
  A path exists in a document exactly when it has values there, and without a wildcard the single
  value that a compiled template inserts is the first of the values that an uncompiled one inserts.
\<close>

theorem path_values_agree:
  shows "(path_exists p root \<longleftrightarrow> path_values p root \<noteq> [])
    \<and> (TokenWildcard \<notin> set (jp_path p)
        \<longrightarrow> first_value p root = (case path_values p root of [] \<Rightarrow> None | v # _ \<Rightarrow> Some v))"
  by (simp add: path_exists_iff_values first_value_eq_hd_values)

definition path_a :: json_path where
  "path_a = \<lparr>jp_expression = ''$.a'', jp_path = [TokenField ''a''], jp_filter = None\<rparr>"

lemma path_a_compiled: "compile_json_path ''$.a'' = Ok path_a"
  by code_simp

theorem path_values_agree_witness:
  "first_value path_a (GObj [(''b'', GNil), (''a'', GInt 1)]) = Some (GInt 1)"
proof -
  have "path_values path_a (GObj [(''b'', GNil), (''a'', GInt 1)]) = [GInt 1]" by code_simp
  with path_values_agree [of path_a "GObj [(''b'', GNil), (''a'', GInt 1)]"] show ?thesis
    by (simp add: path_a_def)
qed

text \<open>
  Whether a body matches a JSONPath does not depend on the order in which Go iterates over a map,
  provided the filter of the path has no wildcard of its own.
\<close>

theorem path_exists_order:
  assumes "same_value v w" and "filter_deterministic p"
  shows "path_exists p v = path_exists p w"
  using assms by (rule path_exists_same_value)

theorem path_exists_order_witness:
  "path_exists path_a (GObj [(''b'', GNil), (''a'', GInt 1)])
     = path_exists path_a (GObj [(''a'', GInt 1), (''b'', GNil)])"
proof (rule path_exists_order)
  show "same_value (GObj [(''b'', GNil), (''a'', GInt 1)]) (GObj [(''a'', GInt 1), (''b'', GNil)])"
    by code_simp
  show "filter_deterministic path_a" by code_simp
qed

text \<open>
  C35: Compiling a JSONPath panics only in the literal of a filter, and only when that literal is one
  single quote; the expression \<^verbatim>\<open>$[?(@ == ')]\<close> does it.
\<close>

theorem compile_panics_on_quote:
  "(compile_json_path e = Panic
      \<longrightarrow> (\<exists>pe fe. split_filter (trim_space e) = Ok (pe, fe) \<and> filter_literal fe = [CHR 0x27]))
   \<and> compile_json_path (''$[?(@ == '' @ [CHR 0x27] @ '')]'') = Panic"
proof -
  have "compile_json_path (''$[?(@ == '' @ [CHR 0x27] @ '')]'') = Panic" by code_simp
  then show ?thesis by (auto elim: compile_json_path_panicD)
qed

theorem compile_panics_on_quote_witness:
  "\<exists>pe fe. split_filter (trim_space (''$[?(@ == '' @ [CHR 0x27] @ '')]'')) = Ok (pe, fe)
     \<and> filter_literal fe = [CHR 0x27]"
  using compile_panics_on_quote [of "''$[?(@ == '' @ [CHR 0x27] @ '')]''"] by blast

section \<open>GraphQL\<close>

text \<open>
  C17: The GraphQL parser accepts a query exactly when its tokens are a document of the grammar, and its result is
  the canonical string of that document.
\<close>

theorem graphql_parser_exact:
  "parse_graphql_document pr q = Ok c \<longleftrightarrow> (\<exists>ds. query_document q ds \<and> c = canon_document pr ds)"
  by (rule parse_exact)

text \<open>
  The same for every way to write a document down: any white space, commas and comments between the tokens,
  strings in quotes or as blocks.
\<close>

theorem graphql_parse_canonical:
  assumes "layout q (document_tokens ds)" and "list_all wf_definition ds" and "ds \<noteq> []"
  shows "parse_graphql_document pr q = Ok (canon_document pr ds)"
  using assms(1,3) document_tokens_written [OF assms(2)] by (intro layout_parse)

definition field_a :: gql_selection where
  "field_a = Field None ''a'' [(''x'', VNumber ''1'')] [] []"

definition field_b :: gql_selection where
  "field_b = Field None ''b'' [] [] []"

lemma sample_names: "is_name ''a''" "is_name ''b''" "is_name ''x''"
  by code_simp+

lemma sample_number: "is_number ''1''"
  unfolding is_number_def
  by (intro exI [of _ "[]"] exI [of _ "''1''"]) (simp add: digits_def is_fraction_def is_exponent_def is_digit_def)

lemma sample_tokens:
  "document_tokens [Shorthand [field_a, field_b]] = [TokPunct ''{'', TokName ''a'', TokPunct ''('', TokName ''x'',
     TokPunct '':'', TokNumber ''1'', TokPunct '')'', TokName ''b'', TokPunct ''}'']"
  "document_tokens [Shorthand [field_b, field_a]] = [TokPunct ''{'', TokName ''b'', TokName ''a'', TokPunct ''('',
     TokName ''x'', TokPunct '':'', TokNumber ''1'', TokPunct '')'', TokPunct ''}'']"
  by code_simp+

text \<open>Layouts of one-character tokens.\<close>

lemma single_layouts:
  "layout s ts \<Longrightarrow> c \<in> set punct_chars \<Longrightarrow> layout (c # s) (TokPunct [c] # ts)"
  "layout s ts \<Longrightarrow> is_name [c] \<Longrightarrow> \<not> starts_with is_name_continue s \<Longrightarrow> layout (c # s) (TokName [c] # ts)"
  "layout s ts \<Longrightarrow> is_number [c] \<Longrightarrow> \<not> starts_with in_number s \<Longrightarrow> layout (c # s) (TokNumber [c] # ts)"
  using layout.punct layout.name [of s ts "[c]"] layout.number [of s ts "[c]"] by simp_all

lemma sample_layout: "layout ''{a(x:1) b}'' (document_tokens [Shorthand [field_a, field_b]])"
  unfolding sample_tokens
  by (intro single_layouts layout.ignored layout.nothing sample_names sample_number; code_simp)

lemma sample_reordered: "layout ''{ b, a(x: 1) }'' (document_tokens [Shorthand [field_b, field_a]])"
  unfolding sample_tokens
  by (intro single_layouts layout.ignored layout.nothing sample_names sample_number; code_simp)

lemma sample_documents:
  "list_all wf_definition [Shorthand [field_a, field_b]]"
  "list_all wf_definition [Shorthand [field_b, field_a]]"
  by code_simp+

theorem graphql_parse_canonical_witness:
  "parse_graphql_document (\<lambda>_. True) ''{a(x:1) b}''
     = Ok (canon_document (\<lambda>_. True) [Shorthand [field_a, field_b]])"
  by (rule graphql_parse_canonical [OF sample_layout sample_documents(1)]) simp

text \<open>
  C18: The custom matcher accepts a request exactly when its document is the stub's up to the order of
  selections, arguments, object fields, directives, variables and definitions, and the variables and the
  operation name are the same.
\<close>

theorem graphql_matcher_decides:
  assumes "parse_graphql_body_matcher L (Some stub) = Ok m"
    and "parse_graphql_request_body L stub = Ok s" and "parse_graphql_request_body L body = Ok r"
  shows "graphql_matches L m (Some body) \<longleftrightarrow>
    (\<exists>ds es. query_document (gr_query s) ds \<and> query_document (gr_query r) es \<and> reorder_document\<^sup>*\<^sup>* ds es)
    \<and> flagged (gr_has_variables s) (gr_variables s) = flagged (gr_has_variables r) (gr_variables r)
    \<and> flagged (gr_has_operation s) (gr_operation s) = flagged (gr_has_operation r) (gr_operation r)"
  using assms by (rule matcher_decides)

definition stub_body :: string where
  "stub_body = ''{\"query\":\"{a(x:1) b}\"}''"

definition request_ba :: string where
  "request_ba = ''{\"query\":\"{ b, a(x: 1) }\"}''"

definition query_only :: "string \<Rightarrow> graphql_request_body" where
  "query_only q = \<lparr>gr_query = q, gr_has_variables = False, gr_variables = [], gr_has_operation = False,
     gr_operation = []\<rparr>"

lemma sample_requests:
  "parse_graphql_request_body plain_lib stub_body = Ok (query_only ''{a(x:1) b}'')"
  "parse_graphql_request_body plain_lib request_ba = Ok (query_only ''{ b, a(x: 1) }'')"
  by code_simp+

lemma sample_matcher:
  "parse_graphql_body_matcher plain_lib (Some stub_body)
     = Ok \<lparr>gm_query = canon_document (\<lambda>_. True) [Shorthand [field_a, field_b]], gm_has_variables = False,
          gm_variables = [], gm_has_operation = False, gm_operation = []\<rparr>"
  by code_simp

theorem graphql_matcher_decides_witness:
  "graphql_matches plain_lib
     \<lparr>gm_query = canon_document (\<lambda>_. True) [Shorthand [field_a, field_b]], gm_has_variables = False,
      gm_variables = [], gm_has_operation = False, gm_operation = []\<rparr> (Some request_ba)"
proof -
  have "reorder_set [field_a, field_b] [field_b, field_a]" by (rule rs_perm) simp
  from ro_member [OF rf_shorthand [OF this], of "[]" "[]"]
  have "reorder_document\<^sup>*\<^sup>* [Shorthand [field_a, field_b]] [Shorthand [field_b, field_a]]" by simp
  moreover have "query_document (gr_query (query_only ''{a(x:1) b}'')) [Shorthand [field_a, field_b]]"
    "query_document (gr_query (query_only ''{ b, a(x: 1) }'')) [Shorthand [field_b, field_a]]"
    using layout_document [OF sample_layout] layout_document [OF sample_reordered]
      document_tokens_written [OF sample_documents(1)] document_tokens_written [OF sample_documents(2)]
    by (simp_all add: query_only_def)
  ultimately show ?thesis
    using graphql_matcher_decides [OF sample_matcher sample_requests] by (auto simp: query_only_def)
qed


section \<open>Templates\<close>

text \<open>
  C29: A template compiled when the mapping is parsed renders what interpreting the text of the body
  renders, for a JSON request body and paths without a wildcard.
\<close>

theorem compiled_template_agrees:
  assumes "compile_response_template (Some b) transformers = Ok (Some segments)"
    and "list_all segment_wildcard_free segments" and "body_parsed body = Some parsed"
  shows "render_template L b body escape = Ok (render_compiled_template L segments body escape)"
  using assms by (rule render_compiled_eq)

definition template_text :: string where
  "template_text = ''v={{jsonPath request.body '' @ [CHR 0x27] @ ''$.a'' @ [CHR 0x27] @ ''}}''"

lemma template_text_helpers: "find_helpers template_text = ([(''v='', ''$.a'')], [])"
proof -
  have "find_helper template_text = Some (''v='', ''$.a'', [])" by code_simp
  moreover have "find_helper [] = None" by simp
  ultimately show ?thesis by (simp add: find_helpers.simps)
qed

lemma template_text_compiled:
  "compile_response_template (Some template_text) [''response-template'']
     = Ok (Some [SegLiteral ''v='', SegHelper path_a])"
  by (simp add: compile_response_template_def template_text_helpers has_template_transformer_def
      path_a_compiled literal_segment_def) (simp add: template_text_def)

theorem compiled_template_agrees_witness:
  "render_template plain_lib template_text (Some ''{\"a\":\"1\"}'') False = Ok ''v=1''"
proof -
  have parsed: "body_parsed (Some ''{\"a\":\"1\"}'') = Some (GObj [(''a'', GStr ''1'')])" by code_simp
  have "render_template plain_lib template_text (Some ''{\"a\":\"1\"}'') False
    = Ok (render_compiled_template plain_lib [SegLiteral ''v='', SegHelper path_a] (Some ''{\"a\":\"1\"}'') False)"
    by (rule compiled_template_agrees [OF template_text_compiled _ parsed]) (simp add: path_a_def)
  also have "\<dots> = Ok ''v=1''"
    by (simp add: render_compiled_template_def parsed path_a_def first_value_def escaped_value_def stringify_def)
  finally show ?thesis .
qed

section \<open>Encodings\<close>

text \<open>
  C21: A gRPC message below four gigabytes survives framing, and a body that the unframing accepts is
  exactly the frame of its message: one uncompressed message and nothing after it.
\<close>

theorem grpc_frame_roundtrip:
  "(length p < 2 ^ 32 \<longrightarrow> decode_unary_grpc_frame (encode_grpc_frame p) = Ok p)
   \<and> (decode_unary_grpc_frame body = Ok p \<longrightarrow> body = encode_grpc_frame p)"
  by (simp add: decode_encode_frame decode_frame_exact)

theorem grpc_frame_roundtrip_witness: "decode_unary_grpc_frame (encode_grpc_frame ''abc'') = Ok ''abc''"
  using grpc_frame_roundtrip [of "''abc''"] by simp

text \<open>
  Every status message, whatever its bytes, is recovered from the \<^verbatim>\<open>grpc-message\<close> trailer by
  percent decoding.
\<close>

theorem grpc_message_roundtrip: "percent_decode (encode_grpc_message m) = Some m"
  by (rule percent_decode_message)

end
