(* ===== verification/Server_Log.thy ===== *)
theory Server_Log
  imports Runtime_Api
begin

text \<open>
  The logging middleware of \<^verbatim>\<open>internal/server/server.go\<close>: a bounded copy of the request body, taken while
  the handler reads and completed afterwards, and the attributes of the log record.
\<close>

section \<open>Reading in steps\<close>

text \<open>
  An \<^verbatim>\<open>io.Reader\<close> as the list of what its next reads give; a read never gives more than the caller's
  buffer holds. Past the end it answers with the end.
\<close>

datatype read_end = ReadMore | ReadEof | ReadError string

type_synonym body_reads = "(string \<times> read_end) list"

fun read_next :: "nat \<Rightarrow> body_reads \<Rightarrow> (string \<times> read_end) \<times> body_reads" where
  "read_next n [] = (([], ReadEof), [])"
| "read_next n ((chunk, e) # rs) =
     (if length chunk \<le> n then ((chunk, e), rs) else ((take n chunk, ReadMore), (drop n chunk, e) # rs))"

definition reads_text :: "body_reads \<Rightarrow> string" where
  "reads_text rs = concat (map fst rs)"

section \<open>The capture\<close>

definition max_logged_request_body_size :: nat where
  "max_logged_request_body_size = 65536"

record request_body_log_capture =
  cap_body :: body_reads
  cap_buffer :: string
  cap_truncated :: bool
  cap_read_err :: "string option"
  cap_eof :: bool
  cap_closed :: bool

definition new_capture :: "body_reads \<Rightarrow> request_body_log_capture" where
  "new_capture rs = \<lparr>cap_body = rs, cap_buffer = [], cap_truncated = False, cap_read_err = None,
     cap_eof = False, cap_closed = False\<rparr>"

text \<open>\<open>None\<close> for a request without a body.\<close>

definition wrap_request_body_for_logging ::
  "http_request \<Rightarrow> body_reads \<Rightarrow> request_body_log_capture option" where
  "wrap_request_body_for_logging r rs = (if hr_body r = NoBody then None else Some (new_capture rs))"

definition capture :: "string \<Rightarrow> request_body_log_capture \<Rightarrow> request_body_log_capture" where
  "capture chunk c =
     (if max_logged_request_body_size \<le> length (cap_buffer c) then c\<lparr>cap_truncated := True\<rparr>
      else
        (let remaining = max_logged_request_body_size - length (cap_buffer c) in
         if remaining < length chunk
         then c\<lparr>cap_buffer := cap_buffer c @ take remaining chunk, cap_truncated := True\<rparr>
         else c\<lparr>cap_buffer := cap_buffer c @ chunk\<rparr>))"

definition capture_some :: "string \<Rightarrow> request_body_log_capture \<Rightarrow> request_body_log_capture" where
  "capture_some chunk c = (if 0 < length chunk then capture chunk c else c)"

definition capture_read ::
  "nat \<Rightarrow> request_body_log_capture \<Rightarrow> (string \<times> read_end) \<times> request_body_log_capture" where
  "capture_read n c =
     (case read_next n (cap_body c) of
        ((chunk, e), rest) \<Rightarrow>
          (let c1 = capture_some chunk (c\<lparr>cap_body := rest\<rparr>);
               c2 = (if e = ReadEof then c1\<lparr>cap_eof := True\<rparr> else c1)
           in ((chunk, e), case e of ReadError msg \<Rightarrow> c2\<lparr>cap_read_err := Some msg\<rparr> | _ \<Rightarrow> c2)))"

definition capture_close :: "request_body_log_capture \<Rightarrow> request_body_log_capture" where
  "capture_close c = c\<lparr>cap_closed := True\<rparr>"

lemma capture_some_longer:
  assumes "length (cap_buffer c) < max_logged_request_body_size" and "chunk \<noteq> []"
  shows "length (cap_buffer c) < length (cap_buffer (capture_some chunk c))"
  using assms by (cases chunk) (auto simp: capture_some_def capture_def Let_def max_logged_request_body_size_def)

lemma capture_rest_longer:
  "length (cap_buffer c) < max_logged_request_body_size \<Longrightarrow> chunk \<noteq> [] \<Longrightarrow>
   length (cap_buffer c) < length (cap_buffer (capture_some chunk (c\<lparr>cap_body := rest\<rparr>)))"
  using capture_some_longer [of "c\<lparr>cap_body := rest\<rparr>" chunk] by simp

text \<open>The loop of \<^verbatim>\<open>ensureSample\<close>, which reads the body itself in pieces of at most 8 KB.\<close>

function sample_loop :: "request_body_log_capture \<Rightarrow> request_body_log_capture" where
  "sample_loop c =
     (if max_logged_request_body_size \<le> length (cap_buffer c) then c
      else
        (case read_next 8192 (cap_body c) of
           ((chunk, e), rest) \<Rightarrow>
             (let c1 = capture_some chunk (c\<lparr>cap_body := rest\<rparr>) in
              case e of
                ReadError msg \<Rightarrow> c1\<lparr>cap_read_err := Some msg\<rparr>
              | ReadEof \<Rightarrow> c1
              | ReadMore \<Rightarrow> if chunk = [] then c1 else sample_loop c1)))"
  by pat_completeness auto
termination
  by (relation "measure (\<lambda>c. max_logged_request_body_size - length (cap_buffer c))")
    (auto intro!: diff_less_mono2 capture_rest_longer)

declare sample_loop.simps [simp del]

definition ensure_sample :: "request_body_log_capture \<Rightarrow> request_body_log_capture" where
  "ensure_sample c = (if cap_truncated c \<or> cap_eof c \<or> cap_closed c then c else sample_loop c)"

section \<open>The log record\<close>

datatype log_value = LogString string | LogBool bool | LogInt int

definition is_text_log_body :: "string \<Rightarrow> string \<Rightarrow> bool" where
  "is_text_log_body body content_type0 =
     (if \<not> utf8_valid body \<or> chr 0 \<in> set body then False
      else
        (let content_type = to_lower content_type0 in
         if str_contains content_type ''grpc'' \<or> str_contains content_type ''octet-stream'' then False
         else True))"

definition log_attrs :: "request_body_log_capture \<Rightarrow> string \<Rightarrow> (string \<times> log_value) list" where
  "log_attrs c content_type =
     (case cap_read_err c of None \<Rightarrow> [] | Some e \<Rightarrow> [(''request_body_read_error'', LogString e)])
     @ (if length (cap_buffer c) = 0 then []
        else (''request_body_truncated'', LogBool (cap_truncated c))
             # (if is_text_log_body (cap_buffer c) content_type
                then [(''request_body'', LogString (cap_buffer c))]
                else [(''request_body_binary'', LogBool True),
                      (''request_body_sample_bytes'', LogInt (int (length (cap_buffer c))))]))"

text \<open>
  \<^verbatim>\<open>statusRecorder\<close>: the status given to \<^verbatim>\<open>WriteHeader\<close>, 200 before. It embeds the interface
  \<^verbatim>\<open>http.ResponseWriter\<close> only, so the type assertion to \<^verbatim>\<open>http.Flusher\<close> fails behind it.
\<close>

definition recorded_status :: "outcome \<Rightarrow> int" where
  "recorded_status out = (case out of Reply rep \<Rightarrow> hp_status rep | _ \<Rightarrow> 200)"

definition status_recorder_flusher :: bool where
  "status_recorder_flusher = False"

text \<open>
  \<open>rs\<close> is what the connection gives, \<open>sizes\<close> the buffers of the handler's reads and \<open>closes\<close> whether it
  closes the body. A panic of the handler leaves no record.
\<close>

definition logging_middleware ::
  "(bool \<Rightarrow> http_request \<Rightarrow> 's \<Rightarrow> outcome \<times> 's) \<Rightarrow> body_reads \<Rightarrow> nat list \<Rightarrow> bool \<Rightarrow> int
    \<Rightarrow> http_request \<Rightarrow> 's \<Rightarrow> (outcome \<times> 's) \<times> (string \<times> log_value) list option" where
  "logging_middleware handler rs sizes closes duration_ms r st =
     (let (out, st') = handler status_recorder_flusher r st;
          body = map_option (\<lambda>c. let c1 = fold (\<lambda>n c. snd (capture_read n c)) sizes c
                                 in if closes then capture_close c1 else c1)
                   (wrap_request_body_for_logging r rs);
          attrs = [(''method'', LogString (hr_method r)), (''path'', LogString (hu_path (hr_url r))),
                   (''status'', LogInt (recorded_status out)), (''duration_ms'', LogInt duration_ms)]
                  @ (case body of
                       None \<Rightarrow> []
                     | Some c \<Rightarrow> log_attrs (ensure_sample c) (header_get (hr_headers r) ''Content-Type''))
      in ((out, st'), if out = Crash then None else Some attrs))"

end
