(* ===== verification/Server_Log_Facts.thy ===== *)
theory Server_Log_Facts
  imports Server_Log Chunk_Facts
begin

text \<open>
  The logged sample is the beginning of the request body, of at most 64 KB, whatever the handler read
  itself, and the flag tells whether something is missing.
\<close>

section \<open>What was captured\<close>

text \<open>\<open>text\<close> is what went through the capture so far.\<close>

definition captured :: "string \<Rightarrow> request_body_log_capture \<Rightarrow> bool" where
  "captured s c \<longleftrightarrow>
     cap_buffer c = take max_logged_request_body_size s
     \<and> (cap_truncated c \<longleftrightarrow> max_logged_request_body_size < length s)"

lemma captured_some:
  "captured s c \<Longrightarrow> captured (s @ chunk) (capture_some chunk c)"
  by (auto simp: captured_def capture_some_def capture_def Let_def)

text \<open>The body is what was captured and what is still to be read.\<close>

definition capture_inv :: "string \<Rightarrow> request_body_log_capture \<Rightarrow> bool" where
  "capture_inv body c \<longleftrightarrow> (\<exists>s. captured s c \<and> s @ reads_text (cap_body c) = body)"

lemma reads_text_simps [simp]:
  "reads_text [] = []" "reads_text ((chunk, e) # rs) = chunk @ reads_text rs"
  by (simp_all add: reads_text_def)

lemma read_next_text: "read_next n rs = ((chunk, e), rest) \<Longrightarrow> chunk @ reads_text rest = reads_text rs"
  by (cases "(n, rs)" rule: read_next.cases) (auto split: if_splits)

lemma capture_inv_new: "capture_inv (reads_text rs) (new_capture rs)"
  by (auto simp: capture_inv_def captured_def new_capture_def)

lemma cap_body_some [simp]: "cap_body (capture_some chunk c) = cap_body c"
  by (simp add: capture_some_def capture_def Let_def)

lemma captured_ignores [simp]:
  "captured s (c\<lparr>cap_body := rs\<rparr>) = captured s c" "captured s (c\<lparr>cap_eof := b\<rparr>) = captured s c"
  "captured s (c\<lparr>cap_read_err := err\<rparr>) = captured s c" "captured s (c\<lparr>cap_closed := b\<rparr>) = captured s c"
  by (simp_all add: captured_def)

lemma capture_inv_step:
  assumes "capture_inv body c" and "read_next n (cap_body c) = ((chunk, e), rest)"
  shows "capture_inv body (capture_some chunk (c\<lparr>cap_body := rest\<rparr>))"
proof -
  obtain s where s: "captured s c" "s @ reads_text (cap_body c) = body"
    using assms(1) by (auto simp: capture_inv_def)
  have "captured (s @ chunk) (capture_some chunk (c\<lparr>cap_body := rest\<rparr>))"
    using captured_some [of s "c\<lparr>cap_body := rest\<rparr>"] s(1) by simp
  then show ?thesis
    using s(2) read_next_text [OF assms(2)] by (auto simp: capture_inv_def)
qed

lemma capture_inv_flags [simp]:
  "capture_inv body (c\<lparr>cap_eof := b\<rparr>) = capture_inv body c"
  "capture_inv body (c\<lparr>cap_read_err := err\<rparr>) = capture_inv body c"
  "capture_inv body (c\<lparr>cap_closed := b\<rparr>) = capture_inv body c"
  by (simp_all add: capture_inv_def)

lemma capture_inv_read [wf_intros]: "capture_inv body c \<Longrightarrow> capture_inv body (snd (capture_read n c))"
  by (auto simp: capture_read_def Let_def capture_inv_step split: prod.split read_end.split)

lemma capture_inv_sample [wf_intros]: "capture_inv body c \<Longrightarrow> capture_inv body (sample_loop c)"
proof (induction c rule: sample_loop.induct)
  case (1 c)
  obtain chunk e rest where rn: "read_next 8192 (cap_body c) = ((chunk, e), rest)"
    by (metis prod.exhaust)
  note step = capture_inv_step [OF 1(2) rn]
  show ?case
    using 1(1) [OF _ rn [symmetric] refl refl] step 1(2)
    by (subst sample_loop.simps) (auto simp: rn Let_def split: read_end.split)
qed

lemma capture_inv_ensure [wf_intros]: "capture_inv body c \<Longrightarrow> capture_inv body (ensure_sample c)"
  by (simp add: ensure_sample_def capture_inv_sample)

lemma capture_inv_fold:
  "capture_inv body c \<Longrightarrow> capture_inv body (fold (\<lambda>n c. snd (capture_read n c)) ns c)"
  by (induction ns arbitrary: c) (auto intro: capture_inv_read)

lemma capture_inv_sampled:
  assumes "capture_inv body c"
  shows "prefix (cap_buffer c) body" and "length (cap_buffer c) \<le> max_logged_request_body_size"
    and "cap_truncated c \<Longrightarrow> max_logged_request_body_size < length body"
    and "\<not> cap_truncated c \<Longrightarrow> cap_body c = [] \<Longrightarrow> cap_buffer c = body"
proof -
  obtain s where s: "captured s c" "s @ reads_text (cap_body c) = body"
    using assms by (auto simp: capture_inv_def)
  then show "prefix (cap_buffer c) body"
    by (metis captured_def prefix_order.trans prefixI take_is_prefix)
  show "length (cap_buffer c) \<le> max_logged_request_body_size"
    using s by (simp add: captured_def)
  show "cap_truncated c \<Longrightarrow> max_logged_request_body_size < length body"
    using s by (auto simp: captured_def)
  show "\<not> cap_truncated c \<Longrightarrow> cap_body c = [] \<Longrightarrow> cap_buffer c = body"
    using s by (auto simp: captured_def)
qed

section \<open>Completeness\<close>

text \<open>A connection that gives the body in non-empty pieces and no error.\<close>

definition steady :: "body_reads \<Rightarrow> bool" where
  "steady rs \<longleftrightarrow> (\<forall>(chunk, e) \<in> set rs. chunk \<noteq> [] \<and> e = ReadMore)"

lemma steady_next:
  assumes "steady rs" and "read_next n rs = ((chunk, e), rest)" and "0 < n"
  shows "steady rest" and "rs = [] \<longleftrightarrow> chunk = []" and "e = (if rs = [] then ReadEof else ReadMore)"
    and "rs = [] \<Longrightarrow> rest = []"
  using assms by (cases "(n, rs)" rule: read_next.cases; auto simp: steady_def split: if_splits)+

lemma sample_loop_complete:
  "steady (cap_body c) \<Longrightarrow> capture_inv body c \<Longrightarrow>
   cap_buffer (sample_loop c) = take max_logged_request_body_size body"
proof (induction c rule: sample_loop.induct)
  case (1 c)
  obtain s where s: "captured s c" "s @ reads_text (cap_body c) = body"
    using 1(3) by (auto simp: capture_inv_def)
  obtain chunk e rest where rn: "read_next 8192 (cap_body c) = ((chunk, e), rest)"
    by (metis prod.exhaust)
  note nxt = steady_next [OF 1(2) rn, simplified]
  note step = capture_inv_step [OF 1(3) rn]
  show ?case
  proof (cases "max_logged_request_body_size \<le> length (cap_buffer c)")
    case True
    then have "max_logged_request_body_size \<le> length s" using s(1) by (simp add: captured_def)
    then have "cap_buffer c = take max_logged_request_body_size body"
      using s by (auto simp: captured_def)
    with True show ?thesis by (subst sample_loop.simps) simp
  next
    case False
    show ?thesis
    proof (cases "cap_body c = []")
      case True
      with s have "cap_buffer c = take max_logged_request_body_size body" by (simp add: captured_def)
      with True False show ?thesis
        by (subst sample_loop.simps) (simp add: capture_some_def Let_def)
    next
      case nonempty: False
      with nxt have e: "e = ReadMore" "chunk \<noteq> []" "steady rest" by auto
      have "cap_buffer (sample_loop (capture_some chunk (c\<lparr>cap_body := rest\<rparr>)))
          = take max_logged_request_body_size body"
        using 1(1) [OF False rn [symmetric] refl refl] e step by simp
      with False e rn show ?thesis by (subst sample_loop.simps) (simp add: Let_def)
    qed
  qed
qed

section \<open>No flushing\<close>

lemma stub_response_no_flush:
  "write_stub_response sleeper status_recorder_flusher rd d = Reply rep \<Longrightarrow> flushes (hp_events rep) = 0"
  by (auto simp: Let_def write_stub_response_def status_recorder_flusher_def write_response_body_def flushes_parts
      split: prod.split if_splits)

end
