(* ===== verification/Props_Serving.thy ===== *)
theory Props_Serving
  imports Samples Server_Log_Facts
begin

text \<open>
  Properties of serving: chunked bodies, delays, the proxy, gRPC answers and the logged body sample.
\<close>

section \<open>Bodies and delays\<close>


definition dribble :: "int \<Rightarrow> int \<Rightarrow> response_definition" where
  "dribble chunks duration =
     plain_response ''x''\<lparr>rd_chunked_dribble_delay :=
       Some \<lparr>cd_number_of_chunks = chunks, cd_total_duration = duration\<rparr>\<rparr>"


text \<open>
  The pauses between the chunks of a response add up to at most the configured duration.
\<close>

theorem chunk_pauses_bounded:
  assumes "length body < 2 ^ 31" and "rd_chunked_dribble_delay d = Some c"
    and "0 \<le> cd_total_duration c" and "cd_total_duration c * 1000000 < 2 ^ 63"
  shows "paused (write_response_body sleeper flusher body d) \<le> cd_total_duration c * 1000000"
  using assms by (intro paused_response_body) (simp_all add: chunkable_def short_delay_def)

theorem chunk_pauses_bounded_witness:
  "paused (write_response_body (\<lambda>_. True) True ''abcde'' (dribble 3 1000)) \<le> 1000000000"
  using chunk_pauses_bounded [of "''abcde''" "dribble 3 1000"
      "\<lparr>cd_number_of_chunks = 3, cd_total_duration = 1000\<rparr>"] by (simp add: dribble_def)

text \<open>
  The delay before the answer of a well-formed response lies between its bounds (the fixed delay, or
  the limits of the uniform distribution), if these fit 64 bits in nanoseconds.
\<close>

theorem initial_delay_bounded:
  assumes "wf_response d" and "delay_bounds d = Some (lo, hi)" and "0 \<le> hi \<and> hi * 1000000 < 2 ^ 63"
    and "\<And>n. 0 < n \<Longrightarrow> 0 \<le> rnd_intn rnd n \<and> rnd_intn rnd n < n"
  shows "\<exists>t. initial_duration rnd d = Ok t \<and> lo * 1000000 \<le> t \<and> t \<le> hi * 1000000"
  using assms by (intro initial_duration_bounds) (simp_all add: short_delay_def)

definition uniform_delay :: "int \<Rightarrow> int \<Rightarrow> response_definition" where
  "uniform_delay lower upper =
     plain_response ''x''\<lparr>rd_delay_distribution :=
       Some \<lparr>dd_type = ''uniform'', dd_lower = lower, dd_upper = upper, dd_median = 0, dd_sigma = F64 0 0\<rparr>\<rparr>"

definition zero_random :: random_source where
  "zero_random = \<lparr>rnd_intn = (\<lambda>_. 0), rnd_lognormal = (\<lambda>_ _. 0)\<rparr>"

theorem initial_delay_bounded_witness:
  "\<exists>t. initial_duration zero_random (uniform_delay 10 20) = Ok t \<and> 10000000 \<le> t \<and> t \<le> 20000000"
proof -
  have "\<exists>t. initial_duration zero_random (uniform_delay 10 20) = Ok t
    \<and> 10 * 1000000 \<le> t \<and> t \<le> 20 * 1000000"
  proof (rule initial_delay_bounded)
    show "wf_response (uniform_delay 10 20)"
      by (simp add: wf_response_def uniform_delay_def plain_response_def wf_delay_def
          compile_response_template_def has_template_transformer_def)
    show "delay_bounds (uniform_delay 10 20) = Some (10, 20)"
      by (simp add: delay_bounds_def uniform_delay_def plain_response_def)
  qed (simp_all add: zero_random_def)
  then show ?thesis by simp
qed

text \<open>
  The bounds are needed: for the uniform distribution from 0 to the largest 64-bit integer, which the
  parser accepts, the size of the range overflows and the handler panics.
\<close>

theorem uniform_delay_panics:
  "wf_response (uniform_delay 0 (2 ^ 63 - 1)) \<and> initial_duration rnd (uniform_delay 0 (2 ^ 63 - 1)) = Panic"
proof
  show "wf_response (uniform_delay 0 (2 ^ 63 - 1))"
    by (simp add: wf_response_def uniform_delay_def plain_response_def wf_delay_def
        compile_response_template_def has_template_transformer_def)
  show "initial_duration rnd (uniform_delay 0 (2 ^ 63 - 1)) = Panic"
    by (rule initial_duration_panic [of _
          "\<lparr>dd_type = ''uniform'', dd_lower = 0, dd_upper = 2 ^ 63 - 1, dd_median = 0, dd_sigma = F64 0 0\<rparr>"])
      (simp_all add: uniform_delay_def plain_response_def)
qed

section \<open>The proxy\<close>





section \<open>gRPC\<close>

text \<open>
  C30: Every answer of the gRPC endpoint, error answers included, is a gRPC answer: HTTP status 200, one
  content type and one trailer announcement, the status in the trailers, and none of the headers by
  which a stub mapping gives the status.
\<close>

theorem grpc_answers:
  assumes "fst (serve_grpc E r st) = Reply rep"
  shows "grpc_reply rep"
  using assms by (rule serve_grpc_reply)

definition plain_state :: server_state where
  "plain_state = \<lparr>sv_mappings = new_store, sv_scenarios = Some new_scenario_store,
     sv_files = new_memory_store, sv_descriptors = None, sv_recorder = Some new_recording_store\<rparr>"

theorem grpc_answers_witness:
  "grpc_reply \<lparr>hp_status = 200, hp_headers = prepare_grpc_response [], hp_events = [],
     hp_trailers = grpc_trailers 12 ''gRPC descriptor registry is not configured''\<rparr>"
  by (rule grpc_answers [of undefined get_a plain_state])
    (simp add: serve_grpc_def plain_state_def write_grpc_error_def write_grpc_error_with_headers_def)

section \<open>The logged sample\<close>

text \<open>
  C36: However the handler reads the request body and however the connection delivers it, the sample in
  the log is a beginning of the body of at most 64 KB, marked truncated only when the body is longer.
\<close>

theorem logged_sample_bounded:
  "let c = ensure_sample (fold (\<lambda>n c. snd (capture_read n c)) sizes (new_capture rs)) in
     prefix (cap_buffer c) (reads_text rs) \<and> length (cap_buffer c) \<le> 65536
     \<and> (cap_truncated c \<longrightarrow> 65536 < length (reads_text rs))"
proof -
  have "capture_inv (reads_text rs) (ensure_sample (fold (\<lambda>n c. snd (capture_read n c)) sizes (new_capture rs)))"
    by (intro capture_inv_ensure capture_inv_fold capture_inv_new)
  from capture_inv_sampled [OF this] show ?thesis
    by (simp add: Let_def max_logged_request_body_size_def)
qed

theorem logged_sample_bounded_witness:
  "prefix (cap_buffer (ensure_sample (fold (\<lambda>n c. snd (capture_read n c)) [2]
     (new_capture [(''abc'', ReadMore), (''de'', ReadEof)])))) ''abcde''"
  using logged_sample_bounded [of "[2]" "[(''abc'', ReadMore), (''de'', ReadEof)]"]
  by (simp add: Let_def reads_text_def)

end
