(* ===== verification/Admin_Api.thy ===== *)
theory Admin_Api
  imports Grpc_Runtime
begin

text \<open>
  The admin API of \<^verbatim>\<open>internal/server/admin.go\<close>: stub mappings, scenarios, recordings and gRPC
  descriptors. A handler takes the path value, the request body and the state. The stores are the
  pointers of \<^verbatim>\<open>adminAPI\<close>: a method that dereferences a nil pointer
  panics, after the checks that come before (\<^verbatim>\<open>NewHandler\<close> leaves no pointer nil).
\<close>

section \<open>JSON answers\<close>

definition json_object_text :: "(string \<times> string) list \<Rightarrow> string" where
  "json_object_text ms =
     ''{'' @ join_with '','' (map (\<lambda>(k, t). marshal_string k @ '':'' @ t) ms) @ ''}''"

definition json_array_text :: "string list \<Rightarrow> string" where
  "json_array_text ts = ''['' @ join_with '','' ts @ '']''"

text \<open>\<^verbatim>\<open>json.Encoder\<close> ends the value with a newline.\<close>

definition write_json :: "int \<Rightarrow> string \<Rightarrow> outcome" where
  "write_json status text =
     simple_reply status [(''Content-Type'', [''application/json''])] (text @ [CHR 0x0A])"

definition write_api_error :: "int \<Rightarrow> string \<Rightarrow> outcome" where
  "write_api_error status title =
     write_json status (json_object_text
       [(''errors'', json_array_text [json_object_text [(''title'', marshal_string title)]])])"

definition meta_response :: "nat \<Rightarrow> string" where
  "meta_response n = json_object_text [(''total'', itoa (int n))]"

text \<open>An error as a 400 answer; a panic of the handler.\<close>

fun bad_request :: "'a res \<Rightarrow> ('a \<Rightarrow> outcome \<times> 's) \<Rightarrow> 's \<Rightarrow> outcome \<times> 's" where
  "bad_request (Ok x) k st = k x"
| "bad_request (Err e) k st = (write_api_error 400 e, st)"
| "bad_request Panic k st = (Crash, st)"

section \<open>Bodies\<close>

definition max_mapping_body_size :: nat where
  "max_mapping_body_size = 33554432"

definition max_uploaded_file_size :: nat where
  "max_uploaded_file_size = 67108864"

definition read_mapping :: "'d environment \<Rightarrow> body_source \<Rightarrow> string \<Rightarrow> mapping_stub res" where
  "read_mapping E source ident =
     (case read_limited max_mapping_body_size source of
        ReadTooLarge \<Rightarrow> Err ''mapping body exceeds 33554432 bytes''
      | ReadFailed \<Rightarrow> Err ''read mapping body: ''
      | ReadOk body \<Rightarrow> parse_json_with_id (env_lib E) (env_rand_bytes E 0) body ident)"

definition empty_spec :: recording_spec where
  "empty_spec = \<lparr>spec_target_base_url = [], spec_output_format = [], spec_capture_headers = [],
     spec_request_body_pattern = [], spec_repeats_as_scenarios = False, spec_persist = False,
     spec_extract_body_criteria = GNil\<rparr>"

text \<open>
  \<^verbatim>\<open>json.Unmarshal\<close> into a \<^verbatim>\<open>recording.Spec\<close>: keys are compared without case, a later member
  overwrites an earlier one, \<^verbatim>\<open>null\<close> leaves strings and booleans as they are and clears the map, a
  repeated object is merged into the map. \<open>None\<close> is a type error.
\<close>

definition spec_string :: "json \<Rightarrow> string \<Rightarrow> string option" where
  "spec_string v old = (case v of JStr s \<Rightarrow> Some s | JNull \<Rightarrow> Some old | _ \<Rightarrow> None)"

definition spec_bool :: "json \<Rightarrow> bool \<Rightarrow> bool option" where
  "spec_bool v old = (case v of JBool b \<Rightarrow> Some b | JNull \<Rightarrow> Some old | _ \<Rightarrow> None)"

definition spec_map :: "json \<Rightarrow> raw_map \<Rightarrow> raw_map option" where
  "spec_map v old =
     (case v of
        JObj ms \<Rightarrow> Some (foldl (\<lambda>m (k, t, x). aput k t m) old ms)
      | JNull \<Rightarrow> Some []
      | _ \<Rightarrow> None)"

fun spec_field :: "recording_spec option \<Rightarrow> string \<times> string \<times> json \<Rightarrow> recording_spec option" where
  "spec_field None m = None"
| "spec_field (Some s) (k, t, v) =
     (if equal_fold k ''targetBaseUrl'' then
        map_option (\<lambda>x. s\<lparr>spec_target_base_url := x\<rparr>) (spec_string v (spec_target_base_url s))
      else if equal_fold k ''outputFormat'' then
        map_option (\<lambda>x. s\<lparr>spec_output_format := x\<rparr>) (spec_string v (spec_output_format s))
      else if equal_fold k ''captureHeaders'' then
        map_option (\<lambda>x. s\<lparr>spec_capture_headers := x\<rparr>) (spec_map v (spec_capture_headers s))
      else if equal_fold k ''requestBodyPattern'' then
        map_option (\<lambda>x. s\<lparr>spec_request_body_pattern := x\<rparr>) (spec_string v (spec_request_body_pattern s))
      else if equal_fold k ''repeatsAsScenarios'' then
        map_option (\<lambda>x. s\<lparr>spec_repeats_as_scenarios := x\<rparr>) (spec_bool v (spec_repeats_as_scenarios s))
      else if equal_fold k ''persist'' then
        map_option (\<lambda>x. s\<lparr>spec_persist := x\<rparr>) (spec_bool v (spec_persist s))
      else if equal_fold k ''extractBodyCriteria'' then
        map_option (\<lambda>x. s\<lparr>spec_extract_body_criteria := x\<rparr>) (to_any False v)
      else Some s)"

definition unmarshal_spec :: "string \<Rightarrow> recording_spec option" where
  "unmarshal_spec raw =
     (case json_parse raw of
        Some (JObj ms) \<Rightarrow> foldl spec_field (Some empty_spec) ms
      | Some JNull \<Rightarrow> Some empty_spec
      | _ \<Rightarrow> None)"

text \<open>The two readers differ in what an empty body means.\<close>

definition read_spec :: "recording_spec res \<Rightarrow> body_source \<Rightarrow> recording_spec res" where
  "read_spec if_empty source =
     (case read_limited max_mapping_body_size source of
        ReadTooLarge \<Rightarrow> Err ''recording body exceeds 33554432 bytes''
      | ReadFailed \<Rightarrow> Err ''read recording body: ''
      | ReadOk body \<Rightarrow>
          if length body = 0 then if_empty
          else res_of_option ''recording body must be a valid JSON object: '' (unmarshal_spec body))"

definition read_recording_spec :: "body_source \<Rightarrow> recording_spec res" where
  "read_recording_spec source = read_spec (Err ''recording body is required'') source"

definition read_optional_recording_spec :: "body_source \<Rightarrow> recording_spec res" where
  "read_optional_recording_spec source = read_spec (Ok empty_spec) source"

section \<open>Stub mappings\<close>

definition no_stub_found :: "string \<Rightarrow> outcome" where
  "no_stub_found ident = write_api_error 404 (''No stub mapping found with id '' @ ident)"

definition list_mappings :: "server_state \<Rightarrow> outcome \<times> server_state" where
  "list_mappings st =
     (let mappings = store_list (sv_mappings st) in
      (write_json 200 (json_object_text
         [(''mappings'', json_array_text (map marshal_mapping mappings)),
          (''meta'', meta_response (length mappings))]), st))"

definition get_mapping :: "string \<Rightarrow> server_state \<Rightarrow> outcome \<times> server_state" where
  "get_mapping ident st =
     bad_request (validate_id ident) (\<lambda>_.
       (case store_get (sv_mappings st) ident of
          None \<Rightarrow> no_stub_found ident
        | Some stub \<Rightarrow> write_json 200 (marshal_mapping stub), st)) st"

text \<open>\<^verbatim>\<open>Create\<close> and \<^verbatim>\<open>MappingCreated\<close>, which the admin API and the recorder both call.\<close>

definition activate :: "mapping_stub \<Rightarrow> server_state \<Rightarrow> mapping_stub \<times> server_state" where
  "activate stub st =
     (case store_create stub (sv_mappings st) of
        (created, ms) \<Rightarrow>
          (created, st\<lparr>sv_mappings := ms, sv_scenarios := mapping_created created (sv_scenarios st)\<rparr>))"

definition create_mapping :: "'d environment \<Rightarrow> body_source \<Rightarrow> server_state \<Rightarrow> outcome \<times> server_state" where
  "create_mapping E source st =
     bad_request (read_mapping E source []) (\<lambda>stub.
       (case activate stub st of
          (created, st') \<Rightarrow> (write_json 201 (marshal_mapping created), st'))) st"

definition update_mapping ::
  "'d environment \<Rightarrow> string \<Rightarrow> body_source \<Rightarrow> server_state \<Rightarrow> outcome \<times> server_state" where
  "update_mapping E ident source st =
     bad_request (validate_id ident) (\<lambda>_.
       (case store_get (sv_mappings st) ident of
          None \<Rightarrow> (no_stub_found ident, st)
        | Some existing \<Rightarrow>
            bad_request (read_mapping E source ident) (\<lambda>stub.
              (case store_replace ident stub (sv_mappings st) of
                 (None, ms) \<Rightarrow> (no_stub_found ident, st\<lparr>sv_mappings := ms\<rparr>)
               | (Some updated, ms) \<Rightarrow>
                   (write_json 200 (marshal_mapping updated),
                    st\<lparr>sv_mappings := ms,
                       sv_scenarios := mapping_updated existing updated (sv_scenarios st)\<rparr>))) st)) st"

definition delete_mapping :: "string \<Rightarrow> server_state \<Rightarrow> outcome \<times> server_state" where
  "delete_mapping ident st =
     bad_request (validate_id ident) (\<lambda>_.
       (case store_get (sv_mappings st) ident of
          None \<Rightarrow> (no_stub_found ident, st)
        | Some existing \<Rightarrow>
            (case store_delete ident (sv_mappings st) of
               (False, ms) \<Rightarrow> (no_stub_found ident, st\<lparr>sv_mappings := ms\<rparr>)
             | (True, ms) \<Rightarrow>
                 (write_json 200 ''{}'',
                  st\<lparr>sv_mappings := ms, sv_scenarios := mapping_deleted existing (sv_scenarios st)\<rparr>)))) st"

definition reset_scenarios :: "server_state \<Rightarrow> outcome \<times> server_state" where
  "reset_scenarios st =
     (write_json 200 ''{}'', st\<lparr>sv_scenarios := scenario_reset (sv_scenarios st)\<rparr>)"

section \<open>Recordings\<close>

definition start_recording :: "'d environment \<Rightarrow> body_source \<Rightarrow> server_state \<Rightarrow> outcome \<times> server_state" where
  "start_recording E source st =
     bad_request (read_recording_spec source) (\<lambda>spec.
       (case sv_recorder st of
          None \<Rightarrow>
            bad_request (fst (recording_start (env_net E) spec new_recording_store)) (\<lambda>_. (Crash, st)) st
        | Some recorder \<Rightarrow>
            (case recording_start (env_net E) spec recorder of
               (answer, recorder') \<Rightarrow>
                 bad_request answer (\<lambda>_.
                   (write_json 200 (json_object_text
                      [(''status'', marshal_string ''Recording''),
                       (''targetBaseUrl'', marshal_string (spec_target_base_url spec))]),
                    st\<lparr>sv_recorder := Some recorder'\<rparr>)) st))) st"

definition activate_recorded_mappings :: "mapping_stub list \<Rightarrow> server_state \<Rightarrow> server_state" where
  "activate_recorded_mappings mappings st = fold (\<lambda>stub s. snd (activate stub s)) mappings st"

definition snapshot_text :: "recording_snapshot \<Rightarrow> string" where
  "snapshot_text snap =
     json_object_text
       [(''mappings'', json_array_text (map marshal_mapping (snap_mappings snap))),
        (''meta'', meta_response (snap_total snap))]"

text \<open>The session ends even when a recorded event cannot be turned into a mapping.\<close>

definition stop_recording :: "'d environment \<Rightarrow> server_state \<Rightarrow> outcome \<times> server_state" where
  "stop_recording E st =
     (case sv_recorder st of
        None \<Rightarrow> (Crash, st)
      | Some recorder \<Rightarrow>
          (case recording_stop (env_lib E) (env_net E) (env_rand_bytes E) recorder of
             (answer, recorder') \<Rightarrow>
               (let st' = st\<lparr>sv_recorder := Some recorder'\<rparr> in
                bad_request answer (\<lambda>snap.
                  (write_json 200 (snapshot_text snap),
                   activate_recorded_mappings (snap_mappings snap) st')) st')))"

definition snapshot_recording ::
  "'d environment \<Rightarrow> body_source \<Rightarrow> server_state \<Rightarrow> outcome \<times> server_state" where
  "snapshot_recording E source st =
     bad_request (read_optional_recording_spec source) (\<lambda>spec.
       (case sv_recorder st of
          None \<Rightarrow> (Crash, st)
        | Some recorder \<Rightarrow>
            bad_request (recording_take_snapshot (env_lib E) (env_net E) (env_rand_bytes E) spec recorder)
              (\<lambda>snap. (write_json 200 (snapshot_text snap),
                        activate_recorded_mappings (snap_mappings snap) st)) st)) st"

section \<open>Descriptors\<close>

text \<open>A nil slice is \<^verbatim>\<open>null\<close>; the string lists of a registry are nil when they are empty.\<close>

definition kind_text :: "descriptor_kind \<Rightarrow> string" where
  "kind_text k = (case k of KindDescriptorSet \<Rightarrow> ''descriptor-set'' | KindProtoSource \<Rightarrow> ''proto-source'')"

definition string_list_text :: "string list \<Rightarrow> string" where
  "string_list_text xs = (if xs = [] then ''null'' else json_array_text (map marshal_string xs))"

definition file_info_text :: "'d environment \<Rightarrow> descriptor_file_info \<Rightarrow> string" where
  "file_info_text E i =
     json_object_text
       [(''name'', marshal_string (fi_name i)), (''kind'', marshal_string (kind_text (fi_kind i))),
        (''size'', itoa (int (fi_size i))), (''loadable'', if fi_loadable i then ''true'' else ''false''),
        (''updatedAt'', marshal_string (env_time_text E (fi_updated_at i)))]"

definition registry_text :: "descriptor_registry \<Rightarrow> string" where
  "registry_text r =
     json_object_text
       [(''generation'', itoa (sint (rg_generation r))), (''files'', itoa (int (rg_files r))),
        (''services'', string_list_text (rg_services r)), (''messages'', string_list_text (rg_messages r))]"

definition grpc_descriptors_text :: "'d environment \<Rightarrow> descriptor_store option \<Rightarrow> string" where
  "grpc_descriptors_text E store =
     (case descriptor_list store of
        (descriptors, registry) \<Rightarrow>
          json_object_text
            [(''descriptors'', if store = None then ''null''
                               else json_array_text (map (file_info_text E) descriptors)),
             (''registry'', registry_text registry),
             (''meta'', meta_response (length descriptors))])"

definition list_grpc_descriptors :: "'d environment \<Rightarrow> server_state \<Rightarrow> outcome \<times> server_state" where
  "list_grpc_descriptors E st = (write_json 200 (grpc_descriptors_text E (sv_descriptors st)), st)"

definition put_grpc_descriptor ::
  "'d environment \<Rightarrow> string \<Rightarrow> body_source \<Rightarrow> server_state \<Rightarrow> outcome \<times> server_state" where
  "put_grpc_descriptor E name source st =
     (case read_limited max_uploaded_file_size source of
        ReadTooLarge \<Rightarrow> (write_api_error 413 ''descriptor body exceeds 67108864 bytes'', st)
      | ReadFailed \<Rightarrow> (write_api_error 400 ''read descriptor body: '', st)
      | ReadOk body \<Rightarrow>
          (case sv_descriptors st of
             None \<Rightarrow>
               bad_request (fst (descriptor_put (env_lib E) (env_proto E) (env_now E) name body
                   new_descriptor_store)) (\<lambda>_. (Crash, st)) st
           | Some ds \<Rightarrow>
               (case descriptor_put (env_lib E) (env_proto E) (env_now E) name body ds of
                  (answer, ds') \<Rightarrow>
                    bad_request answer (\<lambda>replaced.
                      (write_json (if replaced then 200 else 201) (grpc_descriptors_text E (Some ds')),
                       st\<lparr>sv_descriptors := Some ds'\<rparr>)) st)))"

definition delete_grpc_descriptor :: "'d environment \<Rightarrow> string \<Rightarrow> server_state \<Rightarrow> outcome \<times> server_state" where
  "delete_grpc_descriptor E name st =
     (let missing = write_api_error 404 (''No gRPC descriptor found with name '' @ name) in
      case sv_descriptors st of
        None \<Rightarrow> (case descriptor_file_name (env_lib E) name of Ok _ \<Rightarrow> Crash | _ \<Rightarrow> missing, st)
      | Some ds \<Rightarrow>
          (case descriptor_delete (env_lib E) name ds of
             (ok, ds') \<Rightarrow>
               if \<not> ok then (missing, st)
               else (write_json 200 ''{}'', st\<lparr>sv_descriptors := Some ds'\<rparr>)))"

definition reset_grpc :: "'d environment \<Rightarrow> server_state \<Rightarrow> outcome \<times> server_state" where
  "reset_grpc E st =
     (case descriptor_reset (env_proto E) (sv_descriptors st) of
        (r, ds) \<Rightarrow>
          bad_request r (\<lambda>_.
            (Reply \<lparr>hp_status = 200, hp_headers = [], hp_events = [], hp_trailers = []\<rparr>,
             st\<lparr>sv_descriptors := ds\<rparr>)) st)"

end
