(* ===== verification/Upload_Api.thy ===== *)
theory Upload_Api
  imports Admin_Api
begin

text \<open>
  The legacy file API of \<^verbatim>\<open>internal/server/file_api.go\<close>: creating an upload and sending its bytes, with
  the checks of the tus protocol and of the file name.
\<close>

section \<open>Strings\<close>

text \<open>\<^verbatim>\<open>strings.Fields\<close>: the words between white space.\<close>

definition at_space :: "string \<Rightarrow> bool" where
  "at_space s \<longleftrightarrow> list_ex (\<lambda>e. prefix e s) space_encodings"

fun split_word :: "string \<Rightarrow> string \<times> string" where
  "split_word [] = ([], [])"
| "split_word (c # s) =
     (if at_space (c # s) then ([], c # s) else (case split_word s of (w, r) \<Rightarrow> (c # w, r)))"

lemma split_word_append: "split_word s = (w, r) \<Longrightarrow> s = w @ r"
  by (induction s arbitrary: w r) (auto split: if_splits prod.splits)

lemma space_encodings_nonempty [simp]: "e \<in> set space_encodings \<Longrightarrow> e \<noteq> []"
  by (auto simp: space_encodings_def)

lemma at_space_trim_left: "\<not> at_space (trim_left_by space_encodings s)"
proof (induction "space_encodings" s rule: trim_left_by.induct)
  case (1 s)
  show ?case
  proof (cases "find (\<lambda>e. e \<noteq> [] \<and> prefix e s) space_encodings")
    case None
    then have "trim_left_by space_encodings s = s" by (simp add: trim_left_by.simps)
    with None show ?thesis by (auto simp: at_space_def find_None_iff list_ex_iff)
  next
    case (Some e)
    then have "trim_left_by space_encodings s = trim_left_by space_encodings (drop (length e) s)"
      by (subst trim_left_by.simps) simp
    with 1 [OF Some] show ?thesis by simp
  qed
qed

lemma split_word_shorter:
  assumes "trim_left_by space_encodings s \<noteq> []" and "split_word (trim_left_by space_encodings s) = (w, r)"
  shows "length r < length s"
proof -
  let ?t = "trim_left_by space_encodings s"
  obtain c t where t: "?t = c # t" using assms(1) by (cases ?t) auto
  then have "w \<noteq> []" using assms(2) at_space_trim_left [of s] by (auto split: prod.splits)
  moreover have "length ?t = length w + length r" using split_word_append [OF assms(2)] by simp
  ultimately show ?thesis using length_trim_left_by [of space_encodings s] by (cases w) auto
qed

function go_fields :: "string \<Rightarrow> string list" where
  "go_fields s =
     (let t = trim_left_by space_encodings s in
      if t = [] then [] else (case split_word t of (w, r) \<Rightarrow> w # go_fields r))"
  by pat_completeness auto
termination
  by (relation "measure length") (auto dest: split_word_shorter sym)

declare go_fields.simps [simp del]

text \<open>\<^verbatim>\<open>hex.DecodeString\<close>\<close>

fun hex_decode :: "string \<Rightarrow> string option" where
  "hex_decode [] = Some []"
| "hex_decode [a] = None"
| "hex_decode (a # b # s) =
     (case (hex_val a, hex_val b) of
        (Some x, Some y) \<Rightarrow> map_option (\<lambda>t. chr (16 * x + y) # t) (hex_decode s)
      | _ \<Rightarrow> None)"

text \<open>\<^verbatim>\<open>strings.Trim\<close> with one character and \<^verbatim>\<open>path.Base\<close>\<close>

definition trim_char :: "char \<Rightarrow> string \<Rightarrow> string" where
  "trim_char c s = rev (dropWhile (\<lambda>x. x = c) (rev (dropWhile (\<lambda>x. x = c) s)))"

definition path_base :: "string \<Rightarrow> string" where
  "path_base p =
     (if p = [] then ''.''
      else
        (let r = dropWhile (\<lambda>c. c = CHR ''/'') (rev p); b = rev (takeWhile (\<lambda>c. c \<noteq> CHR ''/'') r)
         in if b = [] then ''/'' else b))"

text \<open>\<^verbatim>\<open>url.PathEscape\<close>\<close>

definition path_escape_char :: "char \<Rightarrow> string" where
  "path_escape_char c =
     (if unreserved c \<or> c \<in> set ''$&+:=@'' then [c]
      else [CHR ''%'', upper_hex_digit (byte c div 16), upper_hex_digit (byte c mod 16)])"

definition path_escape :: "string \<Rightarrow> string" where
  "path_escape s = concat (map path_escape_char s)"

text \<open>\<^verbatim>\<open>url.Values.Get\<close>\<close>

definition query_get :: "header_map \<Rightarrow> string \<Rightarrow> string" where
  "query_get query name = (case map_of query name of Some (v # _) \<Rightarrow> v | _ \<Rightarrow> [])"

section \<open>Checks\<close>

definition legacy_file_auth_token :: string where
  "legacy_file_auth_token = ''vimock-file-token''"

text \<open>\<open>None\<close> lets the request through.\<close>

definition authorize_legacy_file_request :: "http_request \<Rightarrow> outcome option" where
  "authorize_legacy_file_request r =
     (if header_get (hr_headers r) ''X-Auth'' = legacy_file_auth_token then None
      else Some (http_error ''invalid X-Auth token'' 401))"

definition validate_tus_create_request :: "http_request \<Rightarrow> unit res" where
  "validate_tus_create_request r =
     (if query_get (hr_query r) ''override'' \<noteq> ''true'' then Err ''override=true is required''
      else if header_get (hr_headers r) ''Tus-Resumable'' \<noteq> ''1.0.0''
      then Err ''Tus-Resumable=1.0.0 is required''
      else
        (let upload_length = trim_space (header_get (hr_headers r) ''Upload-Length'') in
         if upload_length = [] then Err ''Upload-Length is required''
         else if parse_int upload_length = None then Err ''Upload-Length must be an integer''
         else Ok ()))"

definition validate_tus_patch_request :: "http_request \<Rightarrow> unit res" where
  "validate_tus_patch_request r =
     (if query_get (hr_query r) ''override'' \<noteq> ''true'' then Err ''override=true is required''
      else if header_get (hr_headers r) ''Tus-Resumable'' \<noteq> ''1.0.0''
      then Err ''Tus-Resumable=1.0.0 is required''
      else if header_get (hr_headers r) ''Upload-Offset'' \<noteq> ''0''
      then Err ''only Upload-Offset=0 is supported''
      else Ok ())"

definition validate_upload_file_name :: "golib \<Rightarrow> string \<Rightarrow> string res" where
  "validate_upload_file_name L name0 =
     (let name = trim_space name0 in
      if name = [] then Err ''file name is required''
      else if name = ''.'' \<or> name = ''..'' \<or> contains_any name [CHR ''/'', CHR 0x5C] \<or> chr 0 \<in> set name
      then Err (''invalid file name '' @ go_quote (is_print L) name)
      else Ok name)"

definition upload_path_file_name :: "golib \<Rightarrow> string \<Rightarrow> string res" where
  "upload_path_file_name L raw_path0 =
     (let raw_path = trim_space raw_path0 in
      if raw_path = [] \<or> has_suffix raw_path ''/'' then Err ''file name is required''
      else validate_upload_file_name L (path_base (trim_char (CHR ''/'') raw_path)))"

text \<open>The entries of \<^verbatim>\<open>Upload-Metadata\<close>; \<open>Ok None\<close> where none of them names a file.\<close>

fun metadata_entries :: "string list \<Rightarrow> string option res" where
  "metadata_entries [] = Ok None"
| "metadata_entries (entry # entries) =
     (case go_fields (trim_space entry) of
        key # encoded # _ \<Rightarrow>
          if key \<noteq> ''filename'' then metadata_entries entries
          else (case hex_decode encoded of
                  None \<Rightarrow> Err ''decode Upload-Metadata filename: ''
                | Some decoded \<Rightarrow> Ok (Some decoded))
      | _ \<Rightarrow> metadata_entries entries)"

definition upload_metadata_file_name :: "string \<Rightarrow> string option res" where
  "upload_metadata_file_name metadata = metadata_entries (split_char (CHR '','') metadata)"

text \<open>\<open>file\<close> is the path value of the route.\<close>

definition upload_file_name :: "golib \<Rightarrow> string \<Rightarrow> http_request \<Rightarrow> string res" where
  "upload_file_name L path_value r =
     bind_res (upload_metadata_file_name (header_get (hr_headers r) ''Upload-Metadata'')) (\<lambda>name.
       upload_path_file_name L (case name of Some n \<Rightarrow> n | None \<Rightarrow> path_value))"

section \<open>Handlers\<close>

definition login :: "server_state \<Rightarrow> outcome \<times> server_state" where
  "login st =
     (simple_reply 200 [(''Content-Type'', [''text/plain; charset=utf-8''])] legacy_file_auth_token, st)"

definition empty_reply :: "int \<Rightarrow> header_map \<Rightarrow> outcome" where
  "empty_reply status headers =
     Reply \<lparr>hp_status = status, hp_headers = headers, hp_events = [], hp_trailers = []\<rparr>"

definition create_upload ::
  "'d environment \<Rightarrow> string \<Rightarrow> http_request \<Rightarrow> server_state \<Rightarrow> outcome \<times> server_state" where
  "create_upload E path_value r st =
     (case authorize_legacy_file_request r of
        Some denied \<Rightarrow> (denied, st)
      | None \<Rightarrow>
          (case bind_res (validate_tus_create_request r) (\<lambda>_. upload_file_name (env_lib E) path_value r) of
             Err e \<Rightarrow> (http_error e 400, st)
           | Panic \<Rightarrow> (Crash, st)
           | Ok name \<Rightarrow>
               (empty_reply 201 [(''Tus-Resumable'', [''1.0.0'']), (''Upload-Offset'', [''0'']),
                  (''Location'', [''/api/tus/'' @ path_escape name])],
                st\<lparr>sv_files := file_put name [] (sv_files st)\<rparr>)))"

definition patch_upload ::
  "'d environment \<Rightarrow> string \<Rightarrow> http_request \<Rightarrow> server_state \<Rightarrow> outcome \<times> server_state" where
  "patch_upload E path_value r st =
     (case authorize_legacy_file_request r of
        Some denied \<Rightarrow> (denied, st)
      | None \<Rightarrow>
          (case bind_res (validate_tus_patch_request r) (\<lambda>_. upload_path_file_name (env_lib E) path_value) of
             Err e \<Rightarrow> (http_error e 400, st)
           | Panic \<Rightarrow> (Crash, st)
           | Ok name \<Rightarrow>
               (case read_limited max_uploaded_file_size (hr_body r) of
                  ReadTooLarge \<Rightarrow> (http_error ''uploaded file exceeds 67108864 bytes'' 413, st)
                | ReadFailed \<Rightarrow> (http_error ''read uploaded file: '' 400, st)
                | ReadOk data \<Rightarrow>
                    (empty_reply 204 [(''Tus-Resumable'', [''1.0.0'']),
                       (''Upload-Offset'', [itoa (int (length data))])],
                     st\<lparr>sv_files := file_put name data (sv_files st),
                        sv_descriptors := snd (descriptor_put_legacy (env_lib E) (env_proto E) (env_now E)
                          name data (sv_descriptors st))\<rparr>))))"

end
