(* ===== verification/Server_Routes.thy ===== *)
theory Server_Routes
  imports Upload_Api Server_Log_Facts
begin

text \<open>
  \<^verbatim>\<open>internal/server/server.go\<close>: the routes of \<^verbatim>\<open>NewHandler\<close> and what the multiplexer does with them, the
  state a new server starts with, and the whole handler behind the logging middleware.
\<close>

section \<open>Routes\<close>

datatype route = Health | Ready | ListMappings | CreateMapping | GetMapping | UpdateMapping
  | DeleteMapping | ResetScenarios | StartRecording | StopRecording | SnapshotRecording
  | ListDescriptors | PutDescriptor | DeleteDescriptor | ResetGrpc | Login | CreateUpload | PatchUpload

text \<open>A segment of a pattern: a literal, \<^verbatim>\<open>{name}\<close> or \<^verbatim>\<open>{name...}\<close>.\<close>

datatype pattern_segment = Lit string | Wild | Multi

definition routes :: "(string \<times> pattern_segment list \<times> route) list" where
  "routes =
     [(''GET'', [Lit ''__admin'', Lit ''health''], Health),
      (''GET'', [Lit ''__admin'', Lit ''ready''], Ready),
      (''GET'', [Lit ''__admin'', Lit ''mappings''], ListMappings),
      (''POST'', [Lit ''__admin'', Lit ''mappings''], CreateMapping),
      (''GET'', [Lit ''__admin'', Lit ''mappings'', Wild], GetMapping),
      (''PUT'', [Lit ''__admin'', Lit ''mappings'', Wild], UpdateMapping),
      (''DELETE'', [Lit ''__admin'', Lit ''mappings'', Wild], DeleteMapping),
      (''POST'', [Lit ''__admin'', Lit ''scenarios'', Lit ''reset''], ResetScenarios),
      (''POST'', [Lit ''__admin'', Lit ''recordings'', Lit ''start''], StartRecording),
      (''POST'', [Lit ''__admin'', Lit ''recordings'', Lit ''stop''], StopRecording),
      (''POST'', [Lit ''__admin'', Lit ''recordings'', Lit ''snapshot''], SnapshotRecording),
      (''GET'', [Lit ''__admin'', Lit ''ext'', Lit ''grpc'', Lit ''descriptors''], ListDescriptors),
      (''PUT'', [Lit ''__admin'', Lit ''ext'', Lit ''grpc'', Lit ''descriptors'', Wild], PutDescriptor),
      (''DELETE'', [Lit ''__admin'', Lit ''ext'', Lit ''grpc'', Lit ''descriptors'', Wild], DeleteDescriptor),
      (''POST'', [Lit ''__admin'', Lit ''ext'', Lit ''grpc'', Lit ''reset''], ResetGrpc),
      (''POST'', [Lit ''api'', Lit ''login''], Login),
      (''POST'', [Lit ''api'', Lit ''tus'', Multi], CreateUpload),
      (''PATCH'', [Lit ''api'', Lit ''tus'', Multi], PatchUpload)]"

section \<open>The multiplexer\<close>

text \<open>
  What \<^verbatim>\<open>http.ServeMux\<close> does with these patterns: paths are cleaned, segments unescaped one by one, an
  empty last segment matches \<^verbatim>\<open>{name...}\<close> only, HEAD falls back to GET, and the pattern \<^verbatim>\<open>/\<close> takes the rest.
\<close>

definition path_unescape :: "string \<Rightarrow> string" where
  "path_unescape s = (case percent_decode s of None \<Rightarrow> s | Some t \<Rightarrow> t)"

definition clean_segments :: "string list \<Rightarrow> string list" where
  "clean_segments segs =
     fold (\<lambda>s acc. if s = [] \<or> s = ''.'' then acc else if s = ''..'' then butlast acc else acc @ [s]) segs []"

definition clean_path :: "string \<Rightarrow> string" where
  "clean_path p =
     (if p = [] then ''/''
      else
        (let q = (if has_prefix p ''/'' then p else ''/'' @ p);
             np = ''/'' @ join_with ''/'' (clean_segments (split_char (CHR ''/'') q))
         in if has_suffix q ''/'' \<and> np \<noteq> ''/'' then np @ ''/'' else np))"

definition segment_value :: "string \<Rightarrow> string" where
  "segment_value s = (if s = [] then ''/'' else path_unescape s)"

text \<open>The path value of the wildcard; the empty string where the pattern has none.\<close>

fun match_segments :: "pattern_segment list \<Rightarrow> string list \<Rightarrow> string option" where
  "match_segments [] [] = Some []"
| "match_segments [] (s # ss) = None"
| "match_segments (p # ps) [] = None"
| "match_segments (Lit l # ps) (s # ss) = (if segment_value s = l then match_segments ps ss else None)"
| "match_segments (Wild # ps) (s # ss) =
     (if segment_value s = ''/'' \<or> match_segments ps ss = None then None else Some (segment_value s))"
| "match_segments (Multi # ps) (s # ss) = Some (path_unescape (join_with ''/'' (s # ss)))"

definition match_route :: "string \<Rightarrow> string list \<Rightarrow> (route \<times> string) option" where
  "match_route meth segs =
     (case find (\<lambda>(m, ps, rt). m = meth \<and> match_segments ps segs \<noteq> None) routes of
        None \<Rightarrow> None
      | Some (m, ps, rt) \<Rightarrow> Some (rt, the (match_segments ps segs)))"

datatype dispatch = Admin route string | Runtime | Redirect string

text \<open>
  A cleaned path redirects; a path without the last slash redirects where only the path with it is an
  upload. \<^verbatim>\<open>CONNECT\<close> requests are not cleaned, and no pattern but \<^verbatim>\<open>/\<close> takes them.
\<close>

definition dispatch_request :: "string \<Rightarrow> string \<Rightarrow> dispatch" where
  "dispatch_request meth escaped_path =
     (if meth = ''CONNECT'' then Runtime
      else
        (let path = clean_path escaped_path; segs = split_char (CHR ''/'') (tl path);
             m = (case match_route meth segs of
                    None \<Rightarrow> if meth = ''HEAD'' then match_route ''GET'' segs else None
                  | Some x \<Rightarrow> Some x)
         in if m = None \<and> path = ''/api/tus'' \<and> (meth = ''POST'' \<or> meth = ''PATCH'') then Redirect (path @ ''/'')
            else if path \<noteq> escaped_path then Redirect path
            else (case m of None \<Rightarrow> Runtime | Some (rt, v) \<Rightarrow> Admin rt v)))"

definition request_escaped_path :: "http_request \<Rightarrow> string" where
  "request_escaped_path r =
     (if hu_path (hr_url r) = [] then [] else takeWhile (\<lambda>c. c \<noteq> CHR ''?'') (hr_request_uri r))"

section \<open>Handlers\<close>

definition status_response :: "string \<Rightarrow> string \<Rightarrow> string" where
  "status_response status message =
     json_object_text
       [(''status'', marshal_string status), (''message'', marshal_string message),
        (''service'', marshal_string ''vimock'')]"

definition health_handler :: "server_state \<Rightarrow> outcome \<times> server_state" where
  "health_handler st = (write_json 200 (status_response ''healthy'' ''VIMock is ok''), st)"

definition ready_handler :: "server_state \<Rightarrow> outcome \<times> server_state" where
  "ready_handler st = (write_json 200 (status_response ''ready'' ''VIMock is ready''), st)"

definition serve_route ::
  "'d environment \<Rightarrow> route \<Rightarrow> string \<Rightarrow> http_request \<Rightarrow> server_state \<Rightarrow> outcome \<times> server_state" where
  "serve_route E rt v r st =
     (case rt of
        Health \<Rightarrow> health_handler st
      | Ready \<Rightarrow> ready_handler st
      | ListMappings \<Rightarrow> list_mappings st
      | CreateMapping \<Rightarrow> create_mapping E (hr_body r) st
      | GetMapping \<Rightarrow> get_mapping v st
      | UpdateMapping \<Rightarrow> update_mapping E v (hr_body r) st
      | DeleteMapping \<Rightarrow> delete_mapping v st
      | ResetScenarios \<Rightarrow> reset_scenarios st
      | StartRecording \<Rightarrow> start_recording E (hr_body r) st
      | StopRecording \<Rightarrow> stop_recording E st
      | SnapshotRecording \<Rightarrow> snapshot_recording E (hr_body r) st
      | ListDescriptors \<Rightarrow> list_grpc_descriptors E st
      | PutDescriptor \<Rightarrow> put_grpc_descriptor E v (hr_body r) st
      | DeleteDescriptor \<Rightarrow> delete_grpc_descriptor E v st
      | ResetGrpc \<Rightarrow> reset_grpc E st
      | Login \<Rightarrow> login st
      | CreateUpload \<Rightarrow> create_upload E v r st
      | PatchUpload \<Rightarrow> patch_upload E v r st)"

text \<open>\<open>redirect\<close> is the answer of \<^verbatim>\<open>http.RedirectHandler\<close>.\<close>

definition serve_mux ::
  "(http_request \<Rightarrow> string \<Rightarrow> outcome) \<Rightarrow> 'd environment \<Rightarrow> bool \<Rightarrow> http_request \<Rightarrow> server_state
    \<Rightarrow> outcome \<times> server_state" where
  "serve_mux redirect E flusher r st =
     (case dispatch_request (hr_method r) (request_escaped_path r) of
        Admin rt v \<Rightarrow> serve_route E rt v r st
      | Runtime \<Rightarrow> serve_http serve_grpc E flusher r st
      | Redirect path \<Rightarrow> (redirect r path, st))"

text \<open>
  \<^verbatim>\<open>NewHandlerWithStoresDescriptorsRecorderForwarder\<close>: the stores given, or new ones, and the scenarios
  of the mappings already stored.
\<close>

definition new_handler_state ::
  "mapping_store option \<Rightarrow> memory_store option \<Rightarrow> descriptor_store option \<Rightarrow> recording_store option
    \<Rightarrow> server_state" where
  "new_handler_state mappings fs descriptors recorder =
     (let ms = (case mappings of None \<Rightarrow> new_store | Some s \<Rightarrow> s) in
      \<lparr>sv_mappings = ms,
       sv_scenarios = fold mapping_created (store_list ms) (Some new_scenario_store),
       sv_files = (case fs of None \<Rightarrow> new_memory_store | Some f \<Rightarrow> f),
       sv_descriptors = Some (case descriptors of None \<Rightarrow> new_descriptor_store | Some d \<Rightarrow> d),
       sv_recorder = Some (case recorder of None \<Rightarrow> new_recording_store | Some x \<Rightarrow> x)\<rparr>)"

text \<open>\<^verbatim>\<open>NewHandler\<close>: the multiplexer behind the middleware, which hides the flusher of the connection.\<close>

definition new_handler ::
  "(http_request \<Rightarrow> string \<Rightarrow> outcome) \<Rightarrow> 'd environment \<Rightarrow> http_request \<Rightarrow> server_state
    \<Rightarrow> outcome \<times> server_state" where
  "new_handler redirect E r st = serve_mux redirect E status_recorder_flusher r st"

end
