(* ===== verification/System_Inv.thy ===== *)
theory System_Inv
  imports Server_Routes
begin

text \<open>
  The whole server as a transition system: a step is one request to the handler of \<^verbatim>\<open>NewHandler\<close>. The
  invariant collects those of the stores and what ties them together, and holds in every reachable state.
\<close>

section \<open>The invariant\<close>

text \<open>File names that stay inside one directory.\<close>

definition plain_name :: "string \<Rightarrow> bool" where
  "plain_name n \<longleftrightarrow>
     n \<noteq> [] \<and> n \<noteq> ''.'' \<and> n \<noteq> ''..'' \<and> CHR ''/'' \<notin> set n \<and> CHR 0x5C \<notin> set n \<and> chr 0 \<notin> set n"

text \<open>Every mapping of a scenario is one of its members.\<close>

definition members_cover :: "mapping_stub list \<Rightarrow> scenario_store \<Rightarrow> bool" where
  "members_cover ms ss \<longleftrightarrow>
     (\<forall>m \<in> set ms. scenario_name m \<noteq> [] \<longrightarrow> m_id m \<in> members_of_scenario ss (scenario_name m))"

definition journal_inv :: "recording_store \<Rightarrow> bool" where
  "journal_inv s \<longleftrightarrow> 0 < rec_max_events s \<and> length (rec_serve_events s) \<le> rec_max_events s"

definition mappings_inv :: "golib \<Rightarrow> mapping_store \<Rightarrow> bool" where
  "mappings_inv L s \<longleftrightarrow> store_inv s \<and> list_all (wf_mapping L) (store_list s)"

definition server_inv :: "golib \<Rightarrow> 'd protolib \<Rightarrow> server_state \<Rightarrow> bool" where
  "server_inv L P st \<longleftrightarrow>
     mappings_inv L (sv_mappings st)
     \<and> (\<exists>ss. sv_scenarios st = Some ss \<and> scenario_inv ss \<and> members_cover (store_list (sv_mappings st)) ss)
     \<and> (\<forall>n \<in> dom (sv_files st). plain_name n)
     \<and> pred_option (descriptor_inv L P) (sv_descriptors st)
     \<and> pred_option journal_inv (sv_recorder st)"

lemma server_invE:
  assumes "server_inv L P st"
  obtains ss where "mappings_inv L (sv_mappings st)" and "sv_scenarios st = Some ss" and "scenario_inv ss"
    and "members_cover (store_list (sv_mappings st)) ss" and "\<forall>n \<in> dom (sv_files st). plain_name n"
    and "pred_option (descriptor_inv L P) (sv_descriptors st)" and "pred_option journal_inv (sv_recorder st)"
  using assms by (auto simp: server_inv_def)

section \<open>The mapping store\<close>

lemma set_store_list: "store_inv s \<Longrightarrow> set (store_list s) = ran (ms_by_id s)"
  using store_invD(2) [of s] by (force simp: store_views(1) stored_def ran_def image_iff)

lemma set_store_create:
  assumes "store_inv s" and "seq_room s"
  shows "set (store_list (snd (store_create m s)))
    = insert (fst (store_create m s)) {x \<in> set (store_list s). m_id x \<noteq> m_id m}"
  unfolding set_store_list [OF create_inv [OF assms]] set_store_list [OF assms(1)]
  using store_invD(3) [OF assms(1)]
  by (auto simp: store_create_def ran_def Let_def split: option.splits prod.splits if_splits)

lemma set_store_replace:
  assumes "store_inv s" and "store_replace i m s = (Some m', s')"
  shows "set (store_list s') = insert m' {x \<in> set (store_list s). m_id x \<noteq> i}"
proof -
  have inv: "store_inv s'" using replace_inv [OF assms(1), of i m] assms(2) by simp
  show ?thesis
    unfolding set_store_list [OF inv] set_store_list [OF assms(1)]
    using store_invD(3) [OF assms(1)] assms(2)
    by (auto simp: store_replace_def ran_def Let_def split: option.splits if_splits)
qed

lemma set_store_delete:
  assumes "store_inv s"
  shows "set (store_list (snd (store_delete i s))) = {x \<in> set (store_list s). m_id x \<noteq> i}"
  unfolding set_store_list [OF delete_inv [OF assms]] set_store_list [OF assms]
  using store_invD(3) [OF assms]
  by (auto simp: store_delete_def ran_def split: option.splits if_splits)

lemma wf_mapping_sequence [simp]: "wf_mapping L (m\<lparr>m_sequence := q\<rparr>) = wf_mapping L m"
  by (simp add: wf_mapping_def wf_raw_def)

lemma store_create_fst:
  "\<exists>q. fst (store_create m s) = m\<lparr>m_sequence := q\<rparr>"
  by (auto simp: store_create_def Let_def split: option.split prod.split)

lemma wf_mapping_replaced:
  assumes "wf_mapping L m" and "is_valid_id i"
  shows "wf_mapping L (m\<lparr>m_id := i, m_raw := set_raw_id i (m_raw m), m_sequence := q\<rparr>)"
  using assms wf_set_raw_id [of "m_raw m" i] by (simp add: wf_mapping_def wf_raw_def)

lemma mappings_inv_create:
  assumes "mappings_inv L s" and "seq_room s" and "wf_mapping L m"
  shows "mappings_inv L (snd (store_create m s))"
  using assms create_inv [of s m] store_create_fst [of m s]
  by (auto simp: mappings_inv_def list_all_iff set_store_create)

lemma mappings_inv_replace:
  assumes "mappings_inv L s" and "is_valid_id i" and "wf_mapping L m"
  shows "mappings_inv L (snd (store_replace i m s))"
proof (cases "fst (store_replace i m s)")
  case None
  then have "snd (store_replace i m s) = s"
    by (auto simp: store_replace_def Let_def split: option.splits)
  with assms show ?thesis by simp
next
  case (Some m')
  then have rep: "store_replace i m s = (Some m', snd (store_replace i m s))" by (metis prod.collapse)
  have "\<exists>q. m' = m\<lparr>m_id := i, m_raw := set_raw_id i (m_raw m), m_sequence := q\<rparr>"
    using Some by (auto simp: store_replace_def Let_def split: option.splits)
  then have "wf_mapping L m'" using wf_mapping_replaced [OF assms(3,2)] by auto
  with assms(1) show ?thesis
    using replace_inv [of s i m] set_store_replace [OF _ rep]
    by (auto simp: mappings_inv_def list_all_iff)
qed

lemma mappings_inv_delete: "mappings_inv L s \<Longrightarrow> mappings_inv L (snd (store_delete i s))"
  using delete_inv [of s i] by (auto simp: mappings_inv_def list_all_iff set_store_delete)

section \<open>Scenario members\<close>

lemma members_cover_create:
  assumes cover: "members_cover (store_list s) ss" and inv: "store_inv s" "seq_room s"
  shows "members_cover (store_list (snd (store_create m s))) (add_mapping_locked (fst (store_create m s)) ss)"
  using assms store_create_fst [of m s]
  by (auto simp: members_cover_def set_store_create members_add)

lemma members_cover_delete:
  assumes "members_cover (store_list s) ss" and "store_inv s" and "scenario_inv ss" and "m_id old = i"
  shows "members_cover (store_list (snd (store_delete i s))) (remove_mapping_locked old ss)"
  using assms by (auto simp: members_cover_def set_store_delete members_remove)

lemma members_cover_replace:
  assumes cover: "members_cover (store_list s) ss" and inv: "store_inv s" "scenario_inv ss"
    and rep: "store_replace i m s = (Some m', s')" and old: "m_id old = i" "m_id m' = i"
  shows "members_cover (store_list s')
      (if scenario_name old = scenario_name m' then add_mapping_locked m' ss
       else add_mapping_locked m' (remove_mapping_locked old ss))"
  using cover inv old scenario_inv_remove [OF inv(2)]
  by (auto simp: members_cover_def set_store_replace [OF inv(1) rep] members_add members_remove)

section \<open>The admin handlers\<close>

text \<open>The library and protobuf are fixed; time, random draws and the HTTP client vary from step to step.\<close>

definition env_ok :: "golib \<Rightarrow> 'd protolib \<Rightarrow> 'd environment \<Rightarrow> bool" where
  "env_ok L P E \<longleftrightarrow>
     env_lib E = L \<and> env_proto E = P \<and> (\<forall>n bs. env_rand_bytes E n = Some bs \<longrightarrow> length bs = 16)"

text \<open>Room for \<open>n\<close> more creations before the sequence counter wraps.\<close>

definition room_for :: "nat \<Rightarrow> server_state \<Rightarrow> bool" where
  "room_for n st \<longleftrightarrow> unat (ms_next_seq (sv_mappings st)) + n < 2 ^ 64"

text \<open>At most how many mappings the next request creates.\<close>

definition pending :: "server_state \<Rightarrow> nat" where
  "pending st =
     Suc (case sv_recorder st of
            None \<Rightarrow> 0
          | Some r \<Rightarrow> length (rec_serve_events r)
                      + (case rec_active r of None \<Rightarrow> 0 | Some a \<Rightarrow> length (sess_events a)))"

lemma seq_room_unat: "seq_room s \<longleftrightarrow> unat (ms_next_seq s) + 1 < 2 ^ 64"
  by (auto simp: seq_room_def word_less_nat_alt unsigned_minus_1_eq_mask mask_eq_exp_minus_1)

lemma room_for_seq: "room_for (Suc n) st \<Longrightarrow> seq_room (sv_mappings st)"
  by (simp add: room_for_def seq_room_unat)

lemma unat_next_create:
  assumes "seq_room s"
  shows "unat (ms_next_seq (snd (store_create m s))) \<le> unat (ms_next_seq s) + 1"
  by (auto simp: store_create_def Let_def unat_word_ariths split: option.split prod.split)

lemma room_for_activate:
  assumes "room_for (Suc n) st"
  shows "room_for n (snd (activate m st))"
  using unat_next_create [OF room_for_seq [OF assms], of m] assms
  by (auto simp: room_for_def activate_def split: prod.split)

lemma server_inv_tables:
  assumes "server_inv L P st" and "mappings_inv L ms" and "scenario_inv ss"
    and "members_cover (store_list ms) ss"
  shows "server_inv L P (st\<lparr>sv_mappings := ms, sv_scenarios := Some ss\<rparr>)"
  using assms by (simp add: server_inv_def)

lemma server_inv_activate:
  assumes inv: "server_inv L P st" and room: "seq_room (sv_mappings st)" and wf: "wf_mapping L m"
  shows "server_inv L P (snd (activate m st))"
  using inv
proof (rule server_invE)
  fix ss
  obtain created ms where sc: "store_create m (sv_mappings st) = (created, ms)" by fastforce
  assume minv: "mappings_inv L (sv_mappings st)" and ss: "sv_scenarios st = Some ss" "scenario_inv ss"
    and cover: "members_cover (store_list (sv_mappings st)) ss"
  have "mappings_inv L ms" using mappings_inv_create [OF minv room wf] sc by simp
  moreover have "members_cover (store_list ms) (add_mapping_locked created ss)"
    using members_cover_create [OF cover _ room, of m] minv sc by (simp add: mappings_inv_def)
  ultimately show ?thesis
    using server_inv_tables [OF inv] scenario_inv_add [OF ss(2)]
    by (simp add: activate_def mapping_created_def sc ss(1))
qed

lemma server_inv_activate_all:
  assumes "server_inv L P st" and "room_for (length ms) st" and "list_all (wf_mapping L) ms"
  shows "server_inv L P (activate_recorded_mappings ms st)"
  using assms
proof (induction ms arbitrary: st)
  case (Cons m ms)
  then show ?case
    using server_inv_activate [of L P st m] room_for_activate [of "length ms" st m] room_for_seq
    by (simp add: activate_recorded_mappings_def)
qed (simp add: activate_recorded_mappings_def)

lemma server_bad_request:
  assumes "server_inv L P st" and "\<And>x. m = Ok x \<Longrightarrow> server_inv L P (snd (k x))"
  shows "server_inv L P (snd (bad_request m k st))"
  using assms by (cases m) auto

lemma read_mapping_wf:
  assumes "env_ok L P E" and "read_mapping E source i = Ok m"
  shows "wf_mapping L m"
  using assms parse_json_wf [of L "env_rand_bytes E 0"]
  by (auto simp: read_mapping_def env_ok_def split: limited_read.splits)

lemma store_get_id: "mappings_inv L s \<Longrightarrow> store_get s i = Some m \<Longrightarrow> m_id m = i"
  using store_invD(3) [of s i m] by (auto simp: mappings_inv_def store_views(2))

lemma create_mapping_inv:
  assumes "server_inv L P st" and "env_ok L P E" and "room_for (Suc n) st"
  shows "server_inv L P (snd (create_mapping E source st))"
  unfolding create_mapping_def
  by (rule server_bad_request)
    (use assms server_inv_activate [of L P st] read_mapping_wf [of L P E source] room_for_seq
     in \<open>auto split: prod.splits dest!: arg_cong [of _ "(_, _)" snd]\<close>)

text \<open>The end of \<^verbatim>\<open>updateMapping\<close>, from \<^verbatim>\<open>Replace\<close> on.\<close>

lemma update_replace_inv:
  assumes inv: "server_inv L P st" and valid: "is_valid_id i" and wf: "wf_mapping L stub"
    and get: "store_get (sv_mappings st) i = Some existing"
  shows "server_inv L P (snd (case store_replace i stub (sv_mappings st) of
      (None, ms) \<Rightarrow> (no_stub_found i, st\<lparr>sv_mappings := ms\<rparr>)
    | (Some updated, ms) \<Rightarrow>
        (write_json 200 (marshal_mapping updated),
         st\<lparr>sv_mappings := ms, sv_scenarios := mapping_updated existing updated (sv_scenarios st)\<rparr>)))"
  using inv
proof (rule server_invE)
  fix ss
  assume minv: "mappings_inv L (sv_mappings st)" and ss: "sv_scenarios st = Some ss" "scenario_inv ss"
    and cover: "members_cover (store_list (sv_mappings st)) ss"
  obtain upd ms where rep: "store_replace i stub (sv_mappings st) = (upd, ms)" by fastforce
  have ms: "mappings_inv L ms" using mappings_inv_replace [OF minv valid wf] rep by simp
  show ?thesis
  proof (cases upd)
    case None
    with rep have "ms = sv_mappings st" by (auto simp: store_replace_def Let_def split: option.splits)
    with None rep inv show ?thesis by simp
  next
    case upd: (Some updated)
    have "m_id updated = i" using rep upd by (auto simp: store_replace_def Let_def split: option.splits)
    then have "members_cover (store_list ms)
        (if scenario_name existing = scenario_name updated then add_mapping_locked updated ss
         else add_mapping_locked updated (remove_mapping_locked existing ss))"
      using members_cover_replace [OF cover _ ss(2)] minv rep upd store_get_id [OF minv get]
      by (simp add: mappings_inv_def)
    then show ?thesis
      using server_inv_tables [OF inv ms] scenario_inv_add scenario_inv_remove ss
      by (simp add: rep upd mapping_updated_def split: if_splits)
  qed
qed

lemma update_mapping_inv:
  assumes inv: "server_inv L P st" and env: "env_ok L P E"
  shows "server_inv L P (snd (update_mapping E i source st))"
proof (cases "is_valid_id i")
  case True
  show ?thesis
  proof (cases "store_get (sv_mappings st) i")
    case (Some existing)
    then show ?thesis
      unfolding update_mapping_def Some option.case
      by (intro server_bad_request)
        (use inv update_replace_inv [OF inv True read_mapping_wf [OF env] Some] in simp_all)
  qed (use inv True in \<open>simp add: update_mapping_def validate_id_def guard_res_def\<close>)
qed (use inv in \<open>simp add: update_mapping_def validate_id_def guard_res_def\<close>)

lemma delete_mapping_inv:
  assumes inv: "server_inv L P st"
  shows "server_inv L P (snd (delete_mapping i st))"
  using inv
proof (rule server_invE)
  fix ss
  assume minv: "mappings_inv L (sv_mappings st)" and ss: "sv_scenarios st = Some ss" "scenario_inv ss"
    and cover: "members_cover (store_list (sv_mappings st)) ss"
  have "server_inv L P (st\<lparr>sv_mappings := snd (store_delete i (sv_mappings st)),
      sv_scenarios := mapping_deleted old (sv_scenarios st)\<rparr>)"
    if "store_get (sv_mappings st) i = Some old" for old
    using server_inv_tables [OF inv mappings_inv_delete [OF minv] scenario_inv_remove [OF ss(2)]]
      members_cover_delete [OF cover _ ss(2) store_get_id [OF minv that]] minv
    by (simp add: mapping_deleted_def ss(1) mappings_inv_def)
  moreover have "server_inv L P (st\<lparr>sv_mappings := snd (store_delete i (sv_mappings st))\<rparr>)"
    if "fst (store_delete i (sv_mappings st)) = False"
    using that inv by (auto simp: store_delete_def split: option.splits)
  ultimately show ?thesis
    unfolding delete_mapping_def
    by (intro server_bad_request)
      (use inv in \<open>auto split: option.split prod.split bool.split\<close>)
qed

lemma server_inv_recorder:
  "server_inv L P st \<Longrightarrow> pred_option journal_inv r \<Longrightarrow> server_inv L P (st\<lparr>sv_recorder := r\<rparr>)"
  by (simp add: server_inv_def)

lemma server_inv_descriptors:
  "server_inv L P st \<Longrightarrow> pred_option (descriptor_inv L P) d \<Longrightarrow> server_inv L P (st\<lparr>sv_descriptors := d\<rparr>)"
  by (simp add: server_inv_def)

lemma server_inv_file:
  "server_inv L P st \<Longrightarrow> plain_name n \<Longrightarrow> server_inv L P (st\<lparr>sv_files := file_put n data (sv_files st)\<rparr>)"
  by (auto simp: server_inv_def file_put_def)

lemma server_inv_scenarios:
  assumes "server_inv L P st"
    and "\<And>ss. sv_scenarios st = Some ss \<Longrightarrow> scenario_inv ss \<Longrightarrow>
      \<exists>ss'. sc = Some ss' \<and> scenario_inv ss' \<and> (\<forall>n. members_of_scenario ss' n = members_of_scenario ss n)"
  shows "server_inv L P (st\<lparr>sv_scenarios := sc\<rparr>)"
  using assms by (fastforce simp: server_inv_def members_cover_def)

lemma server_inv_parts:
  assumes "server_inv L P st"
  shows "pred_option journal_inv (sv_recorder st)" and "pred_option (descriptor_inv L P) (sv_descriptors st)"
  using assms by (simp_all add: server_inv_def)

lemma reset_scenarios_inv: "server_inv L P st \<Longrightarrow> server_inv L P (snd (reset_scenarios st))"
  unfolding reset_scenarios_def snd_conv
  by (rule server_inv_scenarios)
    (auto simp: scenario_reset_def scenario_inv_def members_of_scenario_def)

subsection \<open>Recordings\<close>

lemma start_recording_inv:
  assumes inv: "server_inv L P st"
  shows "server_inv L P (snd (start_recording E source st))"
proof -
  have "server_inv L P (snd (case recording_start (env_net E) spec rec of (answer, rec') \<Rightarrow>
      bad_request answer (\<lambda>_. (reply, st\<lparr>sv_recorder := Some rec'\<rparr>)) st))"
    if "sv_recorder st = Some rec" for spec rec reply
    using that inv server_inv_parts(1) [OF inv]
    by (auto simp: recording_start_def journal_inv_def intro!: server_inv_recorder split: res.splits)
  then show ?thesis
    unfolding start_recording_def
    by (intro server_bad_request)
      (use inv in \<open>auto split: option.split intro!: server_bad_request\<close>)
qed

lemma snapshot_wf:
  assumes "env_ok L P E" and "build_snapshot L N (env_rand_bytes E) events spec = Ok snap"
  shows "list_all (wf_mapping L) (snap_mappings snap)" and "length (snap_mappings snap) = length events"
proof -
  have *: "list_all (wf_mapping L) (snap_mappings snap) \<and> snap_total snap = length events"
    using assms by (intro build_snapshot_wf) (auto simp: env_ok_def)
  moreover have "snap_total snap = length (snap_mappings snap)"
    using assms(2) by (auto simp: build_snapshot_def res_simps)
  ultimately show "list_all (wf_mapping L) (snap_mappings snap)"
    and "length (snap_mappings snap) = length events" by simp_all
qed

lemma room_for_mono: "room_for n st \<Longrightarrow> m \<le> n \<Longrightarrow> room_for m st"
  by (simp add: room_for_def)

lemma room_for_recorder [simp]: "room_for n (st\<lparr>sv_recorder := r\<rparr>) = room_for n st"
  by (simp add: room_for_def)

lemma stop_recording_inv:
  assumes inv: "server_inv L P st" and env: "env_ok L P E" and room: "room_for (pending st) st"
  shows "server_inv L P (snd (stop_recording E st))"
proof (cases "sv_recorder st")
  case (Some r)
  show ?thesis
  proof (cases "rec_active r")
    case None
    then show ?thesis
      using inv Some server_inv_recorder [OF inv server_inv_parts(1) [OF inv]]
      by (simp add: stop_recording_def recording_stop_def Let_def)
  next
    case (Some a)
    let ?st = "st\<lparr>sv_recorder := Some (r\<lparr>rec_active := None\<rparr>)\<rparr>"
    have inv': "server_inv L P ?st"
      using server_inv_recorder [OF inv] server_inv_parts(1) [OF inv] \<open>sv_recorder st = Some r\<close>
      by (simp add: journal_inv_def)
    have "server_inv L P (activate_recorded_mappings (snap_mappings snap) ?st)"
      if "build_snapshot L (env_net E) (env_rand_bytes E) (sess_events a) (sess_spec a) = Ok snap" for snap
      using snapshot_wf [OF env that] server_inv_activate_all [OF inv'] room_for_mono [OF room]
        Some \<open>sv_recorder st = Some r\<close>
      by (simp add: pending_def)
    then show ?thesis
      using inv' Some \<open>sv_recorder st = Some r\<close> env
      by (auto simp: stop_recording_def recording_stop_def Let_def env_ok_def
          intro!: server_bad_request)
  qed
qed (use inv in \<open>simp add: stop_recording_def\<close>)

lemma snapshot_recording_inv:
  assumes inv: "server_inv L P st" and env: "env_ok L P E" and room: "room_for (pending st) st"
  shows "server_inv L P (snd (snapshot_recording E source st))"
proof -
  have "server_inv L P (activate_recorded_mappings (snap_mappings snap) st)"
    if "sv_recorder st = Some r"
      and "build_snapshot L (env_net E) (env_rand_bytes E) (rec_serve_events r) spec = Ok snap" for r spec snap
    using snapshot_wf [OF env that(2)] server_inv_activate_all [OF inv] room_for_mono [OF room] that(1)
    by (simp add: pending_def)
  moreover have "env_lib E = L" using env by (simp add: env_ok_def)
  ultimately show ?thesis
    unfolding snapshot_recording_def
    by (intro server_bad_request)
      (use inv in \<open>auto simp: recording_take_snapshot_def split: option.split
         intro!: server_bad_request\<close>)
qed

subsection \<open>Descriptors and files\<close>

lemma put_grpc_descriptor_inv:
  assumes inv: "server_inv L P st" and env: "env_ok L P E"
  shows "server_inv L P (snd (put_grpc_descriptor E name source st))"
proof -
  have "server_inv L P (st\<lparr>sv_descriptors := Some (snd (descriptor_put L P now name body ds))\<rparr>)"
    if "sv_descriptors st = Some ds" for ds now body
    using server_inv_parts(2) [OF inv] that by (intro server_inv_descriptors [OF inv]) (simp add: descriptor_inv_put)
  moreover have "env_lib E = L" "env_proto E = P" using env by (simp_all add: env_ok_def)
  ultimately show ?thesis
    using inv by (auto simp: put_grpc_descriptor_def split: limited_read.split option.split prod.split
        intro!: server_bad_request dest!: arg_cong [of _ "(_, _)" snd])
qed

lemma delete_grpc_descriptor_inv:
  assumes inv: "server_inv L P st" and env: "env_ok L P E"
  shows "server_inv L P (snd (delete_grpc_descriptor E name st))"
proof -
  have "server_inv L P (st\<lparr>sv_descriptors := Some (snd (descriptor_delete L name ds))\<rparr>)"
    if "sv_descriptors st = Some ds" for ds
    using server_inv_parts(2) [OF inv] that by (intro server_inv_descriptors [OF inv]) (simp add: descriptor_inv_delete)
  moreover have "env_lib E = L" using env by (simp add: env_ok_def)
  ultimately show ?thesis
    using inv by (auto simp: delete_grpc_descriptor_def Let_def split: option.split prod.split
        dest!: arg_cong [of _ "(_, _)" snd])
qed

lemma reset_grpc_inv:
  assumes inv: "server_inv L P st" and env: "env_ok L P E"
  shows "server_inv L P (snd (reset_grpc E st))"
proof -
  have "server_inv L P (st\<lparr>sv_descriptors := snd (descriptor_reset P (sv_descriptors st))\<rparr>)"
    using server_inv_parts(2) [OF inv]
    by (intro server_inv_descriptors [OF inv], cases "sv_descriptors st")
      (auto simp: descriptor_reset_def descriptor_inv_reset split: prod.split
        dest!: arg_cong [of _ "(_, _)" snd])
  moreover have "env_proto E = P" using env by (simp add: env_ok_def)
  ultimately show ?thesis
    using inv by (auto simp: reset_grpc_def split: prod.split intro!: server_bad_request)
qed

lemma upload_name_plain:
  "upload_path_file_name L raw = Ok name \<Longrightarrow> plain_name name"
  by (auto simp: upload_path_file_name_def validate_upload_file_name_def Let_def plain_name_def
      contains_any_def list_ex_iff split: if_splits)

lemma upload_file_name_plain: "upload_file_name L v r = Ok name \<Longrightarrow> plain_name name"
  by (auto simp: upload_file_name_def res_simps dest: upload_name_plain)

lemma create_upload_inv: "server_inv L P st \<Longrightarrow> server_inv L P (snd (create_upload E v r st))"
  by (auto simp: create_upload_def res_simps split: option.split res.split
      intro!: server_inv_file dest: upload_file_name_plain)

lemma descriptor_put_legacy_inv:
  "pred_option (descriptor_inv L P) d \<Longrightarrow>
   pred_option (descriptor_inv L P) (snd (descriptor_put_legacy L P now name data d))"
  using descriptor_inv_put [of L P _ now name data]
  by (auto simp: descriptor_put_legacy_def split: option.split res.split prod.split
      dest!: arg_cong [of _ "(_, _)" snd])

lemma patch_upload_inv:
  assumes inv: "server_inv L P st" and env: "env_ok L P E"
  shows "server_inv L P (snd (patch_upload E v r st))"
proof -
  have "server_inv L P (st\<lparr>sv_files := file_put name data (sv_files st),
      sv_descriptors := snd (descriptor_put_legacy L P now name data (sv_descriptors st))\<rparr>)"
    if "plain_name name" for name data now
    using server_inv_descriptors [OF server_inv_file [OF inv that] descriptor_put_legacy_inv]
      server_inv_parts(2) [OF inv] by simp
  moreover have "env_lib E = L" "env_proto E = P" using env by (simp_all add: env_ok_def)
  ultimately show ?thesis
    using inv by (auto simp: patch_upload_def res_simps split: option.split res.split limited_read.split
        dest: upload_name_plain)
qed

section \<open>The mock endpoints\<close>

lemma select_and_transition_states:
  "select_and_transition compare cands scenarios = (m, sc) \<Longrightarrow>
   sc = scenarios \<or> (\<exists>m. sc = map_option (transition_locked m) scenarios)"
  by (auto simp: select_and_transition_def Let_def split: option.splits)

lemma find_match_lazy_states:
  "find_match_lazy L mappings scenarios r body s = (m, sc, s') \<Longrightarrow>
   sc = scenarios \<or> (\<exists>m. sc = map_option (transition_locked m) scenarios)"
  by (auto simp: find_match_lazy_def Let_def split: prod.splits if_splits
      dest: select_and_transition_states)

lemma find_match_inv:
  assumes inv: "server_inv L P st"
    and fm: "find_match_lazy K ms (sv_scenarios st) r body s = (m, sc, s')"
  shows "server_inv L P (st\<lparr>sv_scenarios := sc\<rparr>)"
proof (rule server_inv_scenarios [OF inv])
  fix ss
  assume "sv_scenarios st = Some ss" and "scenario_inv ss"
  with find_match_lazy_states [OF fm]
  show "\<exists>ss'. sc = Some ss' \<and> scenario_inv ss' \<and> (\<forall>n. members_of_scenario ss' n = members_of_scenario ss n)"
    using scenario_inv_transition by (auto simp: members_of_scenario_def)
qed

lemma journal_inv_add: "journal_inv r \<Longrightarrow> journal_inv (add_event now e b r)"
  by (simp add: journal_inv_def add_event_journal)

lemma server_inv_record:
  "server_inv L P st \<Longrightarrow> server_inv L P (st\<lparr>sv_recorder := map_option (add_event now e b) (sv_recorder st)\<rparr>)"
  using journal_inv_add server_inv_parts(1) [of L P st]
  by (intro server_inv_recorder) (auto simp: pred_option_def)

lemma record_serve_event_inv:
  "server_inv L P st \<Longrightarrow> server_inv L P (record_serve_event now r body status headers resp src st)"
  unfolding record_serve_event_def add_serve_event_def by (rule server_inv_record)

lemma record_grpc_serve_event_inv:
  "server_inv L P st \<Longrightarrow> server_inv L P (record_grpc_serve_event now r body status headers resp st)"
  unfolding record_grpc_serve_event_def add_serve_event_def by (rule server_inv_record)

lemma try_serve_recording_proxy_inv:
  assumes "server_inv L P st"
  shows "server_inv L P (snd (try_serve_recording_proxy E flusher r cache st))"
  using assms server_inv_record [OF assms]
  by (auto simp: try_serve_recording_proxy_def add_recording_event_def pred_option_def
      split: option.split prod.split res.split)

lemma serve_proxy_inv: "server_inv L P st \<Longrightarrow> server_inv L P (snd (serve_proxy E flusher r d cache st))"
  by (auto simp: serve_proxy_def record_serve_event_inv split: prod.split res.split)

lemma serve_stub_inv: "server_inv L P st \<Longrightarrow> server_inv L P (snd (serve_stub E flusher r d cache st))"
  by (auto simp: serve_stub_def Let_def record_serve_event_inv split: prod.split res.split)

lemma serve_http_inv:
  assumes inv: "server_inv L P st" and grpc: "server_inv L P (snd (grpc E r st))"
  shows "server_inv L P (snd (serve_http grpc E flusher r st))"
proof -
  let ?fm = "find_match_lazy (env_lib E) (sv_mappings st) (sv_scenarios st) r cache_context
      (new_body_cache (hr_body r) (hr_content_length r))"
  obtain m sc cache where fm: "?fm = (m, sc, cache)" by (cases ?fm)
  note inv' = find_match_inv [OF inv fm]
  have proxy: "server_inv L P (snd (try_serve_recording_proxy E flusher r cache (st\<lparr>sv_scenarios := sc\<rparr>)))"
    by (rule try_serve_recording_proxy_inv [OF inv'])
  show ?thesis
    using inv grpc inv' proxy serve_proxy_inv [OF inv'] serve_stub_inv [OF inv']
    by (auto simp: serve_http_def fm Let_def split: option.split prod.split res.split)
qed

lemma finish_grpc_inv: "server_inv L P st \<Longrightarrow> server_inv L P (snd (finish_grpc E r registry m json rd st))"
  by (auto simp: finish_grpc_def Let_def record_grpc_serve_event_inv split: option.split prod.split res.split)

lemma answer_grpc_inv:
  assumes inv: "server_inv L P st"
  shows "server_inv L P (snd (answer_grpc E r registry m json st))"
proof -
  let ?r = "r\<lparr>hr_headers := grpc_matcher_headers (hr_headers r)\<rparr>"
  let ?fm = "find_match_lazy (env_lib E) (sv_mappings st) (sv_scenarios st) ?r (given_body (new_body_context json)) ()"
  obtain stub sc u where fm: "?fm = (stub, sc, u)" by (cases ?fm)
  note inv' = find_match_inv [OF inv fm]
  show ?thesis
    using inv' finish_grpc_inv [OF inv']
    by (auto simp: answer_grpc_def find_match_def fm Let_def split: option.split res.split)
qed

lemma serve_grpc_inv: "server_inv L P st \<Longrightarrow> server_inv L P (snd (serve_grpc E r st))"
  by (auto simp: serve_grpc_def Let_def answer_grpc_inv split: option.split limited_read.split res.split)

section \<open>Reachable states\<close>

lemma serve_route_inv:
  assumes inv: "server_inv L P st" and env: "env_ok L P E" and room: "room_for (pending st) st"
  shows "server_inv L P (snd (serve_route E rt v r st))"
proof -
  have "room_for (Suc 0) st" by (rule room_for_mono [OF room]) (simp add: pending_def)
  then show ?thesis
    using assms
    by (cases rt)
      (simp_all add: serve_route_def create_mapping_inv update_mapping_inv delete_mapping_inv
        reset_scenarios_inv start_recording_inv stop_recording_inv snapshot_recording_inv
        put_grpc_descriptor_inv delete_grpc_descriptor_inv reset_grpc_inv create_upload_inv
        patch_upload_inv health_handler_def ready_handler_def list_mappings_def get_mapping_def
        list_grpc_descriptors_def login_def server_bad_request Let_def)
qed

lemma new_handler_inv:
  assumes "server_inv L P st" and "env_ok L P E" and "room_for (pending st) st"
  shows "server_inv L P (snd (new_handler redirect E r st))"
  using assms serve_http_inv [of L P st serve_grpc E r] serve_grpc_inv [of L P st]
  by (auto simp: new_handler_def serve_mux_def serve_route_inv split: dispatch.split)

text \<open>A new server, and one request after the other while the sequence counter has room.\<close>

inductive server_reachable ::
  "golib \<Rightarrow> 'd protolib \<Rightarrow> (http_request \<Rightarrow> string \<Rightarrow> outcome) \<Rightarrow> server_state \<Rightarrow> bool"
  for L P redirect where
  start: "server_reachable L P redirect (new_handler_state None None None None)"
| serve: "server_reachable L P redirect st \<Longrightarrow> env_ok L P E \<Longrightarrow> room_for (pending st) st \<Longrightarrow>
    server_reachable L P redirect (snd (new_handler redirect E r st))"

lemma new_store_list [simp]: "store_list new_store = []"
  by (simp add: store_list_def new_store_def empty_snapshot_def)

lemma start_inv: "server_inv L P (new_handler_state None None None None)"
  by (simp add: server_inv_def new_handler_state_def mappings_inv_def new_store_inv
      members_cover_def scenario_inv_new new_memory_store_def descriptor_inv_new journal_inv_def
      new_recording_store_def)

theorem reachable_inv: "server_reachable L P redirect st \<Longrightarrow> server_inv L P st"
  by (induction rule: server_reachable.induct) (auto intro: start_inv new_handler_inv)

end
