(* ===== verification/Server_Facts.thy ===== *)
theory Server_Facts
  imports System_Inv
begin

text \<open>
  What a client of the whole server sees: no answer is ever flushed in the middle, a mapping that was
  just created serves the requests it should, and an uploaded file is the body of the stubs that name it.
\<close>

section \<open>No flush behind the middleware\<close>

definition calm :: "outcome \<Rightarrow> bool" where
  "calm out \<longleftrightarrow> (case out of Reply rep \<Rightarrow> flushes (hp_events rep) = 0 | _ \<Rightarrow> True)"

lemma calm_simple [simp]: "calm (simple_reply s h b)" "calm NoReply" "calm Crash" "calm (http_error e c)"
  "calm (write_json s b)" "calm (write_api_error s b)" "calm (empty_reply s h)" "calm (no_stub_found i)"
  "calm (write_no_match ms)" "calm (write_proxy_error e)" "calm (write_response_render_error e)"
  "calm (write_grpc_message h p)" "calm (write_grpc_error_with_headers h c m)" "calm (write_grpc_error c m)"
  by (simp_all add: calm_def simple_reply_def http_error_def write_json_def write_api_error_def
      empty_reply_def no_stub_found_def write_no_match_def write_proxy_error_def write_response_render_error_def
      write_grpc_message_def write_grpc_error_with_headers_def write_grpc_error_def)

lemma calm_body [simp]: "flushes (write_response_body sleeper False body d) = 0"
  by (simp add: write_response_body_def flushes_parts split: prod.split)

lemma calm_written [simp]:
  "calm (write_stub_response sleeper False rd d)" "calm (write_proxy_response sleeper False px d)"
  by (simp_all add: calm_def write_stub_response_def write_proxy_response_def Let_def)

lemma bad_request_fst:
  "fst (bad_request m k st) = (case m of Ok x \<Rightarrow> fst (k x) | Err e \<Rightarrow> write_api_error 400 e | Panic \<Rightarrow> Crash)"
  by (cases m) auto

lemma calm_serve_grpc: "calm (fst (serve_grpc E r st))"
  by (auto simp: serve_grpc_def answer_grpc_def finish_grpc_def Let_def
      split: option.split res.split prod.split limited_read.split)

lemma calm_serve_http: "calm (fst (serve_http serve_grpc E False r st))"
  by (auto simp: serve_http_def serve_proxy_def serve_stub_def try_serve_recording_proxy_def calm_serve_grpc Let_def
      split: option.split res.split prod.split)

lemmas handler_defs = health_handler_def ready_handler_def list_mappings_def create_mapping_def
  get_mapping_def update_mapping_def delete_mapping_def reset_scenarios_def start_recording_def
  stop_recording_def snapshot_recording_def list_grpc_descriptors_def put_grpc_descriptor_def
  delete_grpc_descriptor_def reset_grpc_def login_def create_upload_def patch_upload_def
  authorize_legacy_file_request_def

lemma calm_empty [simp]: "calm (Reply \<lparr>hp_status = s, hp_headers = h, hp_events = [], hp_trailers = t\<rparr>)"
  by (simp add: calm_def)

lemma calm_serve_route: "calm (fst (serve_route E rt v r st))"
  by (cases rt)
    (auto simp: serve_route_def handler_defs bad_request_fst Let_def
      split: option.split prod.split bool.split res.split limited_read.split)

lemma calm_new_handler:
  assumes "\<And>path. calm (redirect r path)"
  shows "calm (fst (new_handler redirect E r st))"
  using assms
  by (auto simp: new_handler_def serve_mux_def status_recorder_flusher_def calm_serve_route calm_serve_http
      split: dispatch.split)

section \<open>A created mapping serves requests\<close>

text \<open>A mapping beats the others when every other one that could answer has a larger priority number.\<close>

definition beats_others ::
  "golib \<Rightarrow> http_request \<Rightarrow> body_context \<Rightarrow> mapping_stub \<Rightarrow> server_state \<Rightarrow> bool" where
  "beats_others L r body m st \<longleftrightarrow>
     (\<forall>x \<in> set (store_list (sv_mappings st)).
        m_id x \<noteq> m_id m \<and> stub_matches L r body x \<longrightarrow> m_priority m < m_priority x)"

lemma activate_stored:
  assumes "store_inv (sv_mappings st)" and "seq_room (sv_mappings st)" and "activate m st = (created, st')"
  shows "set (store_list (sv_mappings st')) = insert created {x \<in> set (store_list (sv_mappings st)). m_id x \<noteq> m_id m}"
    and "\<exists>q. created = m\<lparr>m_sequence := q\<rparr>"
proof -
  have "fst (store_create m (sv_mappings st)) = created" "snd (store_create m (sv_mappings st)) = sv_mappings st'"
    using assms(3) by (auto simp: activate_def split: prod.splits)
  then show "set (store_list (sv_mappings st')) = insert created {x \<in> set (store_list (sv_mappings st)). m_id x \<noteq> m_id m}"
    using set_store_create [OF assms(1,2), of m] by simp
  show "\<exists>q. created = m\<lparr>m_sequence := q\<rparr>"
    using store_create_fst [of m "sv_mappings st"] \<open>fst (store_create m (sv_mappings st)) = created\<close> by auto
qed

lemma stub_matches_sequence [simp]: "stub_matches L r body (m\<lparr>m_sequence := q\<rparr>) = stub_matches L r body m"
  by (simp add: stub_matches_def)

lemma created_is_reference:
  assumes inv: "store_inv (sv_mappings st)" and room: "seq_room (sv_mappings st)"
    and good: "good_store L (sv_mappings st')" and act: "activate m st = (created, st')"
    and match: "stub_matches L r body m" and beats: "beats_others L r body m st"
    and plain: "eligible_in scenarios created"
  shows "reference_match L (sv_mappings st') scenarios r body = Some created"
proof -
  note stored = activate_stored(1) [OF inv room act]
  obtain q where q: "created = m\<lparr>m_sequence := q\<rparr>" using activate_stored(2) [OF inv room act] by blast
  then have created: "created \<in> set (store_list (sv_mappings st'))" "stub_matches L r body created"
    using stored match by auto
  obtain x where x: "reference_match L (sv_mappings st') scenarios r body = Some x"
    using created plain by (cases "reference_match L (sv_mappings st') scenarios r body")
      (auto simp: reference_match_None)
  note best = reference_match_best [OF good x]
  have "x = created"
  proof (rule ccontr)
    assume "x \<noteq> created"
    with best stored have "x \<in> set (store_list (sv_mappings st))" "m_id x \<noteq> m_id m" by auto
    with best beats have "m_priority m < m_priority x" by (auto simp: beats_others_def)
    moreover have "stub_rank_of x \<le> stub_rank_of created" using best created plain by blast
    ultimately show False using q by (simp add: stub_rank_of_def)
  qed
  with x show ?thesis by simp
qed

definition small_priorities :: "mapping_store \<Rightarrow> bool" where
  "small_priorities s \<longleftrightarrow> (\<forall>m \<in> set (store_list s). small_priority m)"

lemma good_store_of_inv: "mappings_inv L s \<Longrightarrow> small_priorities s \<Longrightarrow> good_store L s"
  by (auto simp: good_store_def mappings_inv_def small_priorities_def list_all_iff wf_mapping_def)

lemma activate_good:
  assumes inv: "server_inv L P st" and room: "seq_room (sv_mappings st)" and wf: "wf_mapping L m"
    and small: "small_priorities (sv_mappings st)" "small_priority m" and act: "activate m st = (created, st')"
  shows "good_store L (sv_mappings st')"
proof (rule good_store_of_inv)
  have st': "st' = snd (activate m st)" by (simp add: act)
  show "mappings_inv L (sv_mappings st')"
    unfolding st' using server_inv_activate [OF inv room wf] by (auto elim: server_invE)
  have "store_inv (sv_mappings st)" using inv by (auto elim!: server_invE simp: mappings_inv_def)
  from activate_stored [OF this room act] small show "small_priorities (sv_mappings st')"
    by (auto simp: small_priorities_def small_priority_def)
qed

lemma created_mapping_found:
  assumes inv: "server_inv L P st" and room: "seq_room (sv_mappings st)" and wf: "wf_mapping L m"
    and small: "small_priorities (sv_mappings st)" "small_priority m" and plain: "sc_name (m_scenario m) = []"
    and match: "stub_matches L r (cache_value (new_body_cache src len)) m"
    and beats: "beats_others L r (cache_value (new_body_cache src len)) m st"
  shows "\<exists>q cache. find_match_lazy L (sv_mappings (snd (activate m st))) (sv_scenarios (snd (activate m st))) r
      cache_context (new_body_cache src len)
    = (Some (m\<lparr>m_sequence := q\<rparr>), sv_scenarios (snd (activate m st)), cache)"
proof -
  obtain created st' where act: "activate m st = (created, st')" by fastforce
  have store: "store_inv (sv_mappings st)" using inv by (auto elim!: server_invE simp: mappings_inv_def)
  note good = activate_good [OF inv room wf small act]
  obtain q where q: "created = m\<lparr>m_sequence := q\<rparr>" using activate_stored(2) [OF store room act] by blast
  have "eligible_in (sv_scenarios st') created"
    using plain q by (simp add: eligible_in_def matches_state_locked_def split: option.split)
  from created_is_reference [OF store room good act match beats this]
  have "reference_match L (sv_mappings st') (sv_scenarios st') r (cache_value (new_body_cache src len)) = Some created" .
  moreover have "after_match (sv_scenarios st') (Some created) = sv_scenarios st'"
    using plain q by (cases "sv_scenarios st'") (simp_all add: after_match_def transition_locked_def)
  ultimately show ?thesis
    using bc.find_match_lazy_reference [OF good, of "sv_scenarios st'" r "new_body_cache src len"]
    by (auto simp: act q)
qed

lemma create_mapping_activates:
  "read_mapping E source [] = Ok m \<Longrightarrow> snd (create_mapping E source st) = snd (activate m st)"
  by (simp add: create_mapping_def split: prod.split)

text \<open>In a reachable state the search is the reference.\<close>

lemma reachable_search:
  assumes "server_reachable L P redirect st" and "small_priorities (sv_mappings st)"
  shows "\<exists>cache. find_match_lazy L (sv_mappings st) (sv_scenarios st) r cache_context (new_body_cache src len)
    = (reference_match L (sv_mappings st) (sv_scenarios st) r (cache_value (new_body_cache src len)),
       after_match (sv_scenarios st)
         (reference_match L (sv_mappings st) (sv_scenarios st) r (cache_value (new_body_cache src len))), cache)"
proof -
  have "mappings_inv L (sv_mappings st)" using reachable_inv [OF assms(1)] by (auto elim: server_invE)
  from bc.find_match_lazy_reference [OF good_store_of_inv [OF this assms(2)]] show ?thesis by blast
qed

section \<open>Uploaded files\<close>

text \<open>A successful upload: the file is stored under its name.\<close>

lemma patch_upload_stores:
  assumes "authorize_legacy_file_request r = None" and "validate_tus_patch_request r = Ok ()"
    and "upload_path_file_name (env_lib E) v = Ok name"
    and "read_limited max_uploaded_file_size (hr_body r) = ReadOk data"
  shows "sv_files (snd (patch_upload E v r st)) = file_put name data (sv_files st)
    \<and> sv_mappings (snd (patch_upload E v r st)) = sv_mappings st"
  using assms by (simp add: patch_upload_def)

lemma file_body_renders:
  assumes "rd_body_file d = name" and "name \<noteq> []" and "file_get fs name = Some data"
  shows "render L fs d body = Ok \<lparr>rr_status = rd_status d, rr_headers = rd_headers d, rr_body = data, rr_json = rd_json d\<rparr>"
  using assms by (simp add: render_def Let_def)

end
