(* ===== verification/Config_Load.thy ===== *)
theory Config_Load
  imports Go_Strings
begin

text \<open>
  \<^verbatim>\<open>internal/config/config.go\<close>: the configuration from environment variables and command-line flags.
  The flag set is the one of package \<^verbatim>\<open>flag\<close> with seven flags; the text of its errors is left out.
\<close>

section \<open>Numbers as Go literals\<close>

text \<open>\<^verbatim>\<open>strconv.ParseInt\<close> with base 0: a base prefix, and underscores between digits.\<close>

definition digit36 :: "char \<Rightarrow> nat option" where
  "digit36 c =
     (if is_digit c then Some (byte c - 48) else if is_lower c then Some (byte c - 87)
      else if is_upper c then Some (byte c - 55) else None)"

definition base_prefix :: "string \<Rightarrow> nat \<times> string" where
  "base_prefix s =
     (case s of
        [] \<Rightarrow> (10, s)
      | c # t \<Rightarrow>
          if c \<noteq> CHR ''0'' then (10, s)
          else
            (case t of
               p # d # u \<Rightarrow>
                 (let l = to_lower_char p in
                  if l = CHR ''b'' then (2, d # u) else if l = CHR ''o'' then (8, d # u)
                  else if l = CHR ''x'' then (16, d # u) else (8, t))
             | _ \<Rightarrow> (8, t)))"

text \<open>The last character seen, as \<^verbatim>\<open>underscoreOK\<close> tracks it.\<close>

datatype seen = AtStart | SawDigit | SawUnderscore | SawOther

fun underscores_ok :: "bool \<Rightarrow> seen \<Rightarrow> string \<Rightarrow> bool" where
  "underscores_ok hex saw [] = (saw \<noteq> SawUnderscore)"
| "underscores_ok hex saw (c # s) =
     (if is_digit c \<or> (hex \<and> to_lower_char c \<in> set ''abcdef'') then underscores_ok hex SawDigit s
      else if c = CHR ''_'' then (saw = SawDigit \<and> underscores_ok hex SawUnderscore s)
      else (saw \<noteq> SawUnderscore \<and> underscores_ok hex SawOther s))"

definition underscore_ok :: "string \<Rightarrow> bool" where
  "underscore_ok s =
     (case s of
        z # p # t \<Rightarrow>
          if z = CHR ''0'' \<and> to_lower_char p \<in> set ''box''
          then underscores_ok (to_lower_char p = CHR ''x'') SawDigit t
          else underscores_ok False AtStart s
      | _ \<Rightarrow> underscores_ok False AtStart s)"

fun digits_in_base :: "nat \<Rightarrow> nat \<Rightarrow> string \<Rightarrow> nat option" where
  "digits_in_base b n [] = Some n"
| "digits_in_base b n (c # s) =
     (if c = CHR ''_'' then digits_in_base b n s
      else (case digit36 c of
              Some d \<Rightarrow> if d < b then digits_in_base b (n * b + d) s else None
            | None \<Rightarrow> None))"

definition parse_int_literal :: "string \<Rightarrow> int option" where
  "parse_int_literal s =
     (let neg = (s \<noteq> [] \<and> hd s = CHR ''-'');
          u = (if s \<noteq> [] \<and> (hd s = CHR ''-'' \<or> hd s = CHR ''+'') then tl s else s)
      in if u = [] then None
         else (case base_prefix u of (b, ds) \<Rightarrow>
           case digits_in_base b 0 ds of
             None \<Rightarrow> None
           | Some n \<Rightarrow>
               if CHR ''_'' \<in> set u \<and> \<not> underscore_ok u then None
               else (let v = (if neg then - int n else int n) in if in_int64 v then Some v else None)))"

text \<open>\<^verbatim>\<open>strconv.ParseBool\<close>\<close>

definition parse_bool :: "string \<Rightarrow> bool option" where
  "parse_bool s =
     (if s \<in> set [''1'', ''t'', ''T'', ''true'', ''TRUE'', ''True''] then Some True
      else if s \<in> set [''0'', ''f'', ''F'', ''false'', ''FALSE'', ''False''] then Some False
      else None)"

section \<open>The configuration\<close>

record config =
  cfg_host :: string
  cfg_port :: int
  cfg_https_port :: int
  cfg_tls_cert_file :: string
  cfg_tls_key_file :: string
  cfg_tls_self_signed :: bool
  cfg_version :: bool

definition default_host :: string where
  "default_host = ''0.0.0.0''"

definition default_port :: int where
  "default_port = 8080"

text \<open>\<^verbatim>\<open>net.JoinHostPort\<close>\<close>

definition join_host_port :: "string \<Rightarrow> int \<Rightarrow> string" where
  "join_host_port host port =
     (if CHR '':'' \<in> set host then ''['' @ host @ '']:'' @ itoa port else host @ '':'' @ itoa port)"

definition config_addr :: "config \<Rightarrow> string" where
  "config_addr c = join_host_port (cfg_host c) (cfg_port c)"

definition config_https_addr :: "config \<Rightarrow> string" where
  "config_https_addr c = join_host_port (cfg_host c) (cfg_https_port c)"

definition https_enabled :: "config \<Rightarrow> bool" where
  "https_enabled c \<longleftrightarrow> 0 < cfg_https_port c"

section \<open>Environment variables\<close>

definition string_from_env :: "(string \<Rightarrow> string) \<Rightarrow> string \<Rightarrow> string \<Rightarrow> string" where
  "string_from_env getenv key fallback =
     (if trim_space (getenv key) \<noteq> [] then trim_space (getenv key) else fallback)"

definition int_from_env :: "(string \<Rightarrow> string) \<Rightarrow> string \<Rightarrow> int \<Rightarrow> int" where
  "int_from_env getenv key fallback =
     (let v = trim_space (getenv key) in
      if v = [] then fallback else (case parse_int v of None \<Rightarrow> fallback | Some n \<Rightarrow> n))"

definition bool_from_env :: "(string \<Rightarrow> string) \<Rightarrow> string \<Rightarrow> bool \<Rightarrow> bool" where
  "bool_from_env getenv key fallback =
     (let v = trim_space (to_lower (getenv key)) in
      if v = [] then fallback
      else if v \<in> set [''1'', ''true'', ''t'', ''yes'', ''y'', ''on''] then True
      else if v \<in> set [''0'', ''false'', ''f'', ''no'', ''n'', ''off''] then False
      else fallback)"

definition env_config :: "(string \<Rightarrow> string) \<Rightarrow> config" where
  "env_config getenv =
     \<lparr>cfg_host = string_from_env getenv ''VIMOCK_HOST'' default_host,
      cfg_port = int_from_env getenv ''VIMOCK_PORT'' default_port,
      cfg_https_port = int_from_env getenv ''VIMOCK_HTTPS_PORT'' 0,
      cfg_tls_cert_file = string_from_env getenv ''VIMOCK_TLS_CERT_FILE'' [],
      cfg_tls_key_file = string_from_env getenv ''VIMOCK_TLS_KEY_FILE'' [],
      cfg_tls_self_signed = bool_from_env getenv ''VIMOCK_TLS_SELF_SIGNED'' False,
      cfg_version = False\<rparr>"

section \<open>Flags\<close>

text \<open>What the flags set: \<open>None\<close> for a name that is not defined or a value that does not parse.\<close>

definition is_bool_flag :: "string \<Rightarrow> bool" where
  "is_bool_flag name \<longleftrightarrow> name \<in> set [''tls-self-signed'', ''version'']"

definition is_flag :: "string \<Rightarrow> bool" where
  "is_flag name \<longleftrightarrow>
     is_bool_flag name \<or> name \<in> set [''host'', ''port'', ''https-port'', ''tls-cert-file'', ''tls-key-file'']"

definition set_flag :: "string \<Rightarrow> string \<Rightarrow> config \<Rightarrow> config option" where
  "set_flag name v c =
     (if name = ''host'' then Some (c\<lparr>cfg_host := v\<rparr>)
      else if name = ''port'' then map_option (\<lambda>n. c\<lparr>cfg_port := n\<rparr>) (parse_int_literal v)
      else if name = ''https-port'' then map_option (\<lambda>n. c\<lparr>cfg_https_port := n\<rparr>) (parse_int_literal v)
      else if name = ''tls-cert-file'' then Some (c\<lparr>cfg_tls_cert_file := v\<rparr>)
      else if name = ''tls-key-file'' then Some (c\<lparr>cfg_tls_key_file := v\<rparr>)
      else if name = ''tls-self-signed'' then map_option (\<lambda>b. c\<lparr>cfg_tls_self_signed := b\<rparr>) (parse_bool v)
      else if name = ''version'' then map_option (\<lambda>b. c\<lparr>cfg_version := b\<rparr>) (parse_bool v)
      else None)"

text \<open>One argument: it ends the flags, is malformed, or is a flag with or without a value.\<close>

datatype flag_arg = EndOfFlags | BadFlag | FlagArg string "string option"

definition flag_of_arg :: "string \<Rightarrow> flag_arg" where
  "flag_of_arg s =
     (if length s < 2 \<or> hd s \<noteq> CHR ''-'' \<or> s = ''--'' then EndOfFlags
      else
        (let name = (if s ! 1 = CHR ''-'' then drop 2 s else drop 1 s) in
         if name = [] \<or> hd name = CHR ''-'' \<or> hd name = CHR ''='' then BadFlag
         else
           (let key = hd name # takeWhile (\<lambda>c. c \<noteq> CHR ''='') (tl name); rest = drop (length key) name
            in FlagArg key (case rest of [] \<Rightarrow> None | _ # v \<Rightarrow> Some v))))"

text \<open>\<^verbatim>\<open>FlagSet.Parse\<close>; a value may be the next argument, but not for a boolean flag.\<close>

fun parse_flags :: "string list \<Rightarrow> config \<Rightarrow> config res" where
  "parse_flags [] c = Ok c"
| "parse_flags (a # as) c =
     (case flag_of_arg a of
        EndOfFlags \<Rightarrow> Ok c
      | BadFlag \<Rightarrow> Err ''bad flag syntax''
      | FlagArg name v \<Rightarrow>
          if \<not> is_flag name then Err ''flag not defined''
          else
            (case v of
               Some x \<Rightarrow>
                 (case set_flag name x c of None \<Rightarrow> Err ''invalid value'' | Some c' \<Rightarrow> parse_flags as c')
             | None \<Rightarrow>
                 if is_bool_flag name then
                   (case set_flag name ''true'' c of None \<Rightarrow> Err ''invalid value'' | Some c' \<Rightarrow> parse_flags as c')
                 else
                   (case as of
                      [] \<Rightarrow> Err ''flag needs an argument''
                    | x # as' \<Rightarrow>
                        (case set_flag name x c of
                           None \<Rightarrow> Err ''invalid value''
                         | Some c' \<Rightarrow> parse_flags as' c'))))"

section \<open>Loading\<close>

text \<open>The checks at the end of \<^verbatim>\<open>load\<close>.\<close>

definition check_tls :: "config \<Rightarrow> config res" where
  "check_tls c =
     (let cert = cfg_tls_cert_file c; key = cfg_tls_key_file c in
      if cfg_https_port c < 0 \<or> 65535 < cfg_https_port c
      then Err ''https-port must be between 1 and 65535 when set''
      else if cfg_https_port c = 0 then
        (if cert \<noteq> [] \<or> key \<noteq> [] \<or> cfg_tls_self_signed c
         then Err ''https-port must be set when TLS options are used'' else Ok c)
      else if cert \<noteq> [] \<or> key \<noteq> [] then
        (if cert = [] \<or> key = [] then Err ''tls-cert-file and tls-key-file must be set together'' else Ok c)
      else if \<not> cfg_tls_self_signed c
      then Err ''https requires tls-cert-file/tls-key-file or tls-self-signed''
      else Ok c)"

definition load_config :: "string list \<Rightarrow> (string \<Rightarrow> string) \<Rightarrow> config res" where
  "load_config args getenv =
     bind_res (parse_flags args (env_config getenv)) (\<lambda>c0.
       let c1 = c0\<lparr>cfg_host := trim_space (cfg_host c0)\<rparr> in
       if cfg_host c1 = [] then Err ''host must not be empty''
       else if cfg_port c1 < 1 \<or> 65535 < cfg_port c1 then Err ''port must be between 1 and 65535''
       else check_tls (c1\<lparr>cfg_tls_cert_file := trim_space (cfg_tls_cert_file c1),
                          cfg_tls_key_file := trim_space (cfg_tls_key_file c1)\<rparr>))"

section \<open>Facts\<close>

text \<open>A configuration a server can start with.\<close>

definition valid_config :: "config \<Rightarrow> bool" where
  "valid_config c \<longleftrightarrow>
     cfg_host c \<noteq> [] \<and> 1 \<le> cfg_port c \<and> cfg_port c \<le> 65535
     \<and> 0 \<le> cfg_https_port c \<and> cfg_https_port c \<le> 65535
     \<and> (cfg_tls_cert_file c \<noteq> [] \<longleftrightarrow> cfg_tls_key_file c \<noteq> [])
     \<and> (https_enabled c \<longleftrightarrow> cfg_tls_cert_file c \<noteq> [] \<or> cfg_tls_self_signed c)"

lemma check_tls_Ok: "check_tls c = Ok c' \<Longrightarrow> c' = c"
  by (auto simp: check_tls_def Let_def split: if_splits)

lemma load_config_valid:
  assumes "load_config args getenv = Ok c"
  shows "valid_config c"
  using assms
  by (auto simp: load_config_def res_simps Let_def check_tls_def valid_config_def https_enabled_def
      split: if_splits)

lemma load_config_no_panic: "load_config args getenv \<noteq> Panic"
proof -
  have "parse_flags as c \<noteq> Panic" for as c
    by (induction as c rule: parse_flags.induct)
      (auto split: flag_arg.split option.split list.split)
  then show ?thesis
    by (auto simp: load_config_def res_simps Let_def check_tls_def split: if_splits)
qed

text \<open>A flag overrides what the environment gave; the last one wins.\<close>

lemma parse_flags_append:
  assumes "parse_flags as c = Ok c'" and "\<And>a. a \<in> set as \<Longrightarrow> \<exists>name v. flag_of_arg a = FlagArg name (Some v)"
  shows "parse_flags (as @ bs) c = parse_flags bs c'"
  using assms
proof (induction as arbitrary: c)
  case (Cons a as)
  obtain name v where a: "flag_of_arg a = FlagArg name (Some v)" using Cons.prems(2) [of a] by auto
  with Cons show ?case by (auto split: if_splits option.splits)
qed simp

lemma flag_port_arg: "flag_of_arg (''-port='' @ v) = FlagArg ''port'' (Some v)"
  by (simp add: flag_of_arg_def Let_def)

lemma load_config_port:
  assumes "load_config (as @ [''-port='' @ v]) getenv = Ok c"
    and "\<And>a. a \<in> set as \<Longrightarrow> \<exists>name v. flag_of_arg a = FlagArg name (Some v)"
  shows "parse_int_literal v = Some (cfg_port c)"
proof -
  obtain c0 where c0: "parse_flags (as @ [''-port='' @ v]) (env_config getenv) = Ok c0"
    and c: "cfg_port c = cfg_port c0"
    using assms(1) by (auto simp: load_config_def res_simps Let_def split: if_splits dest!: check_tls_Ok)
  have "parse_flags as c1 = Err e \<or> parse_flags as c1 = Panic \<Longrightarrow> parse_flags (as @ bs) c1 = parse_flags as c1"
    for c1 e bs using assms(2)
  proof (induction as arbitrary: c1)
    case (Cons a as)
    obtain name x where "flag_of_arg a = FlagArg name (Some x)" using Cons.prems(2) [of a] by auto
    with Cons show ?case by (auto split: if_splits option.splits)
  qed simp
  then obtain c1 where "parse_flags as (env_config getenv) = Ok c1"
    using c0 by (cases "parse_flags as (env_config getenv)") auto
  then have "parse_flags [''-port='' @ v] c1 = Ok c0"
    using parse_flags_append [OF _ assms(2)] c0 by simp
  then show ?thesis
    using c by (auto simp: flag_port_arg [simplified] is_flag_def is_bool_flag_def set_flag_def split: option.splits)
qed

end
