(* ===== verification/Tls_Config.thy ===== *)
theory Tls_Config
  imports Config_Load
begin

text \<open>
  \<^verbatim>\<open>internal/tlsconfig/tlsconfig.go\<close>: which certificate the HTTPS
  listener uses and for which hosts. \<open>cryptolib\<close> stands for
  \<^verbatim>\<open>crypto/tls\<close>, \<^verbatim>\<open>crypto/x509\<close>, \<^verbatim>\<open>crypto/ecdsa\<close> and \<^verbatim>\<open>encoding/pem\<close>; \<open>parse_ip\<close> for \<^verbatim>\<open>net.ParseIP\<close>, with an
  address as its canonical text.
\<close>

section \<open>Certificates\<close>

record certificate_template =
  ct_serial :: int
  ct_common_name :: string
  ct_not_before :: int
  ct_not_after :: int
  ct_dns_names :: "string list"
  ct_ip_addresses :: "string list"

record 'c cryptolib =
  cl_load_key_pair :: "string \<Rightarrow> string \<Rightarrow> 'c option"
  cl_generate_key :: "string option"
  cl_serial :: "int option"
  cl_create_certificate :: "certificate_template \<Rightarrow> string \<Rightarrow> string option"
  cl_marshal_key :: "string \<Rightarrow> string option"
  cl_key_pair :: "string \<Rightarrow> string \<Rightarrow> 'c option"
  cl_pem :: "string \<Rightarrow> string \<Rightarrow> string"

text \<open>The loop of \<^verbatim>\<open>addHosts\<close> with the sets of what was seen.\<close>

definition unspecified_host :: "string \<Rightarrow> bool" where
  "unspecified_host host \<longleftrightarrow> host = [] \<or> host \<in> set [''0.0.0.0'', ''::'', ''[::]'']"

definition strip_brackets :: "string \<Rightarrow> string" where
  "strip_brackets host =
     (if has_prefix host ''['' \<and> has_suffix host '']'' then trim_prefix (trim_suffix host '']'') ''[''
      else host)"

fun add_hosts_loop ::
  "(string \<Rightarrow> string option) \<Rightarrow> string set \<Rightarrow> string set \<Rightarrow> certificate_template \<Rightarrow> string list
    \<Rightarrow> certificate_template" where
  "add_hosts_loop parse_ip seen_dns seen_ip c [] = c"
| "add_hosts_loop parse_ip seen_dns seen_ip c (h # hs) =
     (let host0 = trim_space h in
      if unspecified_host host0 then add_hosts_loop parse_ip seen_dns seen_ip c hs
      else
        (let host = strip_brackets host0 in
         case parse_ip host of
           Some ip \<Rightarrow>
             if ip \<in> seen_ip then add_hosts_loop parse_ip seen_dns seen_ip c hs
             else add_hosts_loop parse_ip seen_dns (insert ip seen_ip)
                    (c\<lparr>ct_ip_addresses := ct_ip_addresses c @ [ip]\<rparr>) hs
         | None \<Rightarrow>
             if host \<in> seen_dns then add_hosts_loop parse_ip seen_dns seen_ip c hs
             else add_hosts_loop parse_ip (insert host seen_dns) seen_ip
                    (c\<lparr>ct_dns_names := ct_dns_names c @ [host]\<rparr>) hs))"

definition add_hosts ::
  "(string \<Rightarrow> string option) \<Rightarrow> certificate_template \<Rightarrow> string list \<Rightarrow> certificate_template" where
  "add_hosts parse_ip c hosts = add_hosts_loop parse_ip {} {} c hosts"

text \<open>The template of the self-signed certificate; times in seconds.\<close>

definition self_signed_template ::
  "(string \<Rightarrow> string option) \<Rightarrow> string list \<Rightarrow> int \<Rightarrow> int \<Rightarrow> certificate_template" where
  "self_signed_template parse_ip hosts serial now =
     (let c = add_hosts parse_ip
            \<lparr>ct_serial = serial, ct_common_name = ''vimock.local'', ct_not_before = now - 3600,
             ct_not_after = now + 86400, ct_dns_names = [], ct_ip_addresses = []\<rparr> hosts
      in if ct_dns_names c = [] \<and> ct_ip_addresses c = []
         then c\<lparr>ct_dns_names := [''localhost''],
                ct_ip_addresses := map (\<lambda>h. the (parse_ip h)) [''127.0.0.1'', ''::1'']\<rparr>
         else c)"

definition new_self_signed_certificate ::
  "'c cryptolib \<Rightarrow> (string \<Rightarrow> string option) \<Rightarrow> string list \<Rightarrow> int \<Rightarrow> 'c res" where
  "new_self_signed_certificate C parse_ip hosts now =
     bind_res (res_of_option ''generate private key: '' (cl_generate_key C)) (\<lambda>key.
     bind_res (res_of_option ''generate serial number: '' (cl_serial C)) (\<lambda>serial.
     bind_res (res_of_option ''create certificate: ''
         (cl_create_certificate C (self_signed_template parse_ip hosts serial now) key)) (\<lambda>der.
     bind_res (res_of_option ''marshal private key: '' (cl_marshal_key C key)) (\<lambda>key_bytes.
     res_of_option ''load generated key pair: ''
       (cl_key_pair C (cl_pem C ''CERTIFICATE'' der) (cl_pem C ''EC PRIVATE KEY'' key_bytes))))))"

record 'c tls_config =
  tls_min_version :: string
  tls_next_protos :: "string list"
  tls_certificate :: 'c

definition tls_load ::
  "'c cryptolib \<Rightarrow> (string \<Rightarrow> string option) \<Rightarrow> string \<Rightarrow> string \<Rightarrow> bool \<Rightarrow> string list \<Rightarrow> int
    \<Rightarrow> 'c tls_config res" where
  "tls_load C parse_ip cert_file key_file self_signed hosts now =
     bind_res
       (if cert_file \<noteq> [] \<or> key_file \<noteq> [] then
          (if cert_file = [] \<or> key_file = [] then Err ''tls cert and key files must be set together''
           else res_of_option [] (cl_load_key_pair C cert_file key_file))
        else if self_signed then new_self_signed_certificate C parse_ip hosts now
        else Err ''tls cert/key files or self-signed mode must be configured'')
       (\<lambda>cert. Ok \<lparr>tls_min_version = ''TLS 1.2'', tls_next_protos = [''h2'', ''http/1.1''],
                    tls_certificate = cert\<rparr>)"

section \<open>Facts\<close>

text \<open>The two name lists have no duplicates and no unspecified host, and the loop keeps what it has.\<close>

lemma add_hosts_loop_distinct:
  "set (ct_dns_names c) = sd \<Longrightarrow> set (ct_ip_addresses c) = si \<Longrightarrow>
   distinct (ct_dns_names c) \<Longrightarrow> distinct (ct_ip_addresses c) \<Longrightarrow>
   distinct (ct_dns_names (add_hosts_loop parse_ip sd si c hs))
   \<and> distinct (ct_ip_addresses (add_hosts_loop parse_ip sd si c hs))"
  by (induction parse_ip sd si c hs rule: add_hosts_loop.induct) (auto simp: Let_def split: option.split)

lemma add_hosts_loop_members:
  "set (ct_dns_names c) = sd \<Longrightarrow> set (ct_ip_addresses c) = si \<Longrightarrow>
   set (ct_dns_names (add_hosts_loop parse_ip sd si c hs)) =
     sd \<union> {strip_brackets (trim_space h) |h. h \<in> set hs \<and> \<not> unspecified_host (trim_space h)
            \<and> parse_ip (strip_brackets (trim_space h)) = None}
   \<and> set (ct_ip_addresses (add_hosts_loop parse_ip sd si c hs)) =
     si \<union> {ip. \<exists>h \<in> set hs. \<not> unspecified_host (trim_space h)
            \<and> parse_ip (strip_brackets (trim_space h)) = Some ip}"
proof (induction parse_ip sd si c hs rule: add_hosts_loop.induct)
  case (2 parse_ip sd si c h hs)
  show ?case
  proof (cases "unspecified_host (trim_space h)")
    case True
    with 2 show ?thesis by auto
  next
    case False
    show ?thesis
    proof (cases "parse_ip (strip_brackets (trim_space h))")
      case None
      with False 2 show ?thesis by (auto simp: Let_def)
    next
      case (Some ip)
      with False 2 show ?thesis by (auto simp: Let_def)
    qed
  qed
qed simp

end
