(* ===== verification/Main_Run.thy ===== *)
theory Main_Run
  imports Tls_Config
begin

text \<open>
  \<^verbatim>\<open>cmd/vimock/main.go\<close>: from the command line to the exit status. The listeners and the signal are the
  event that ends the wait; what the servers answer to \<^verbatim>\<open>Shutdown\<close> is an argument.
\<close>

section \<open>Hosts of the certificate\<close>

text \<open>\<^verbatim>\<open>net.SplitHostPort\<close>: the host, or \<open>None\<close> for an error.\<close>

definition after_last_colon :: "string \<Rightarrow> string" where
  "after_last_colon s = rev (takeWhile (\<lambda>c. c \<noteq> CHR '':'') (rev s))"

definition split_host_port :: "string \<Rightarrow> string option" where
  "split_host_port hp =
     (if CHR '':'' \<notin> set hp then None
      else
        (let port = after_last_colon hp; i = length hp - length port - 1 in
         if hd hp = CHR ''['' then
           (if CHR '']'' \<notin> set hp then None
            else
              (let close = length (takeWhile (\<lambda>c. c \<noteq> CHR '']'') hp) in
               if close + 1 \<noteq> i then None
               else if CHR ''['' \<in> set (drop 1 hp) \<or> CHR '']'' \<in> set (drop (close + 1) hp) then None
               else Some (take (close - 1) (drop 1 hp))))
         else
           (let host = take i hp in
            if CHR '':'' \<in> set host \<or> CHR ''['' \<in> set hp \<or> CHR '']'' \<in> set hp then None else Some host)))"

definition certificate_hosts :: "string \<Rightarrow> string list" where
  "certificate_hosts host =
     [''localhost'', ''127.0.0.1'', ''::1''] @ [case split_host_port host of Some h \<Rightarrow> h | None \<Rightarrow> host]"

section \<open>Running\<close>

text \<open>
  What ends the wait: the signal, or the first listener that stops; the flag tells whether its error is
  \<^verbatim>\<open>http.ErrServerClosed\<close>.
\<close>

datatype server_event = ContextDone | ListenerStopped string bool

text \<open>The errors that \<^verbatim>\<open>shutdownServers\<close> joins.\<close>

definition shutdown_servers :: "(string \<Rightarrow> string option) \<Rightarrow> string list \<Rightarrow> string list" where
  "shutdown_servers shutdown addrs =
     fold (\<lambda>a errs. case shutdown a of None \<Rightarrow> errs | Some e \<Rightarrow> errs @ [e]) addrs []"

record run_result =
  run_code :: int
  run_stdout :: string
  run_servers :: "string list"

definition exits :: "int \<Rightarrow> string \<Rightarrow> string list \<Rightarrow> run_result" where
  "exits code out addrs = \<lparr>run_code = code, run_stdout = out, run_servers = addrs\<rparr>"

definition run_main ::
  "'c cryptolib \<Rightarrow> (string \<Rightarrow> string option) \<Rightarrow> string \<Rightarrow> int \<Rightarrow> string list \<Rightarrow> (string \<Rightarrow> string)
    \<Rightarrow> server_event \<Rightarrow> (string \<Rightarrow> string option) \<Rightarrow> run_result" where
  "run_main C parse_ip version now args getenv event shutdown =
     (case load_config args getenv of
        Err e \<Rightarrow> exits 2 [] []
      | Panic \<Rightarrow> exits 2 [] []
      | Ok cfg \<Rightarrow>
          if cfg_version cfg then exits 0 (''vimock '' @ version @ [CHR 0x0A]) []
          else
            (case (if https_enabled cfg
                   then bind_res (tls_load C parse_ip (cfg_tls_cert_file cfg) (cfg_tls_key_file cfg)
                          (cfg_tls_self_signed cfg) (certificate_hosts (cfg_host cfg)) now)
                          (\<lambda>_. Ok [config_addr cfg, config_https_addr cfg])
                   else Ok [config_addr cfg]) of
               Ok servers \<Rightarrow>
                 (case event of
                    ContextDone \<Rightarrow>
                      if shutdown_servers shutdown servers \<noteq> [] then exits 1 [] servers
                      else exits 0 [] servers
                  | ListenerStopped name closed \<Rightarrow>
                      if \<not> closed then exits 1 [] servers else exits 0 [] servers)
             | _ \<Rightarrow> exits 2 [] []))"

section \<open>Facts\<close>

lemma split_host_port_join:
  assumes "host \<noteq> []" and "\<forall>c \<in> set host. c \<notin> set '':[]''" and "\<forall>c \<in> set port. c \<notin> set '':[]''"
  shows "split_host_port (host @ '':'' @ port) = Some host"
proof -
  have rev: "takeWhile (\<lambda>c. c \<noteq> CHR '':'') (rev port @ CHR '':'' # rev host) = rev port"
    using assms(3) by (subst takeWhile_append2) auto
  have hd: "hd (host @ CHR '':'' # port) \<noteq> CHR ''[''" using assms by (cases host) auto
  show ?thesis
    using assms hd
    by (auto simp: split_host_port_def after_last_colon_def Let_def rev)
qed

lemma shutdown_servers_fold:
  "fold (\<lambda>a errs. case shutdown a of None \<Rightarrow> errs | Some e \<Rightarrow> errs @ [e]) addrs acc
    = acc @ concat (map (\<lambda>a. case shutdown a of None \<Rightarrow> [] | Some e \<Rightarrow> [e]) addrs)"
  by (induction addrs arbitrary: acc) (auto split: option.splits)

lemma shutdown_servers_Nil: "shutdown_servers shutdown addrs = [] \<longleftrightarrow> (\<forall>a \<in> set addrs. shutdown a = None)"
  by (auto simp: shutdown_servers_def shutdown_servers_fold split: option.splits)

text \<open>Without a server the process only reports the version or a configuration error.\<close>

lemma run_main_code:
  "run_code (run_main C parse_ip version now args getenv event shutdown) \<in> {0, 1, 2}"
  by (auto simp: run_main_def exits_def split: res.splits server_event.splits)

lemma run_main_config_error:
  "run_code (run_main C parse_ip version now args getenv event shutdown) = 2 \<longleftrightarrow>
     run_servers (run_main C parse_ip version now args getenv event shutdown) = []
     \<and> \<not> (\<exists>c. load_config args getenv = Ok c \<and> cfg_version c)"
  by (auto simp: run_main_def exits_def res_simps split: res.splits server_event.splits if_splits)

end
