(* ===== verification/Props_System.thy ===== *)
theory Props_System
  imports Samples Server_Facts Main_Run
begin

text \<open>
  Properties of the running server: what holds in every state it can reach, what a client sees of the
  admin API, and how the process starts and ends.
\<close>

definition plain_env :: "string environment" where
  "plain_env = \<lparr>env_lib = plain_lib, env_net = plain_net, env_proto = plain_proto,
     env_client = (\<lambda>q. Err ''refused''), env_sleeper = (\<lambda>_. True),
     env_random = \<lparr>rnd_intn = (\<lambda>_. 0), rnd_lognormal = (\<lambda>_ _. 0)\<rparr>,
     env_rand_bytes = (\<lambda>_. Some (replicate 16 0)), env_now = 1, env_time_text = (\<lambda>_. [])\<rparr>"

definition start_state :: server_state where
  "start_state = new_handler_state None None None None"

lemma plain_env_ok: "env_ok plain_lib plain_proto plain_env"
  by (simp add: env_ok_def plain_env_def)

lemma start_room: "room_for (pending start_state) start_state"
  by (simp add: room_for_def pending_def start_state_def new_handler_state_def new_store_def new_recording_store_def Let_def)

lemma start_server_inv: "server_inv plain_lib plain_proto start_state"
  unfolding start_state_def by (rule start_inv)

lemma start_reachable: "server_reachable plain_lib plain_proto (\<lambda>_ _. NoReply) start_state"
  unfolding start_state_def by (rule server_reachable.start)

lemma start_one_step:
  "server_reachable plain_lib plain_proto (\<lambda>_ _. NoReply)
     (snd (new_handler (\<lambda>_ _. NoReply) plain_env r start_state))"
  by (rule server_reachable.serve [OF start_reachable plain_env_ok start_room])

section \<open>Reachable states\<close>

text \<open>
  C3: In every state that a sequence of requests leads to, the mapping store has its invariant and holds
  well-formed mappings only, every mapping of a scenario is a member of it, uploaded files have plain
  names, the stored descriptors are those the protobuf library accepts, and the journal is within its limit.
\<close>

theorem reachable_server_inv:
  assumes "server_reachable L P redirect st"
  shows "server_inv L P st"
  using assms by (rule reachable_inv)

theorem reachable_server_inv_witness:
  "server_inv plain_lib plain_proto (snd (new_handler (\<lambda>_ _. NoReply) plain_env get_a start_state))"
  by (rule reachable_server_inv [OF start_one_step])

section \<open>The admin API\<close>

text \<open>
  C4: A mapping without a scenario that is posted to the admin API serves the next request it matches,
  provided every other stored mapping that matches has a larger priority number.
\<close>

theorem created_mapping_serves:
  assumes "server_inv L P st" and "env_ok L P E" and "seq_room (sv_mappings st)"
    and "read_mapping E source [] = Ok m" and "sc_name (m_scenario m) = []"
    and "small_priorities (sv_mappings st)" and "small_priority m"
    and "stub_matches L r (cache_value (new_body_cache src len)) m"
    and "beats_others L r (cache_value (new_body_cache src len)) m st"
  shows "\<exists>q scenarios cache. find_match_lazy L (sv_mappings (snd (create_mapping E source st)))
      (sv_scenarios (snd (create_mapping E source st))) r cache_context (new_body_cache src len)
    = (Some (m\<lparr>m_sequence := q\<rparr>), scenarios, cache)"
  unfolding create_mapping_activates [OF assms(4)]
  using created_mapping_found [OF assms(1,3) read_mapping_wf [OF assms(2,4)] assms(6,7,5,8,9)] by blast

lemma posted_mapping:
  "read_mapping plain_env (BodyRest mapping_text) []
     = Ok (plain_stub ''x'' 5 no_scenario\<lparr>m_id := zero_id,
         m_raw := set_raw_id zero_id [(''request'', request_text), (''response'', response_text)]\<rparr>)"
proof -
  have "read_limited max_mapping_body_size (BodyRest mapping_text) = ReadOk mapping_text"
    by (simp add: read_limited_def mapping_text_def request_text_def response_text_def max_mapping_body_size_def)
  then show ?thesis
    using mapping_text_parses by (simp add: read_mapping_def plain_env_def parse_json_def)
qed

theorem created_mapping_serves_witness:
  "\<exists>m. fst (find_match_lazy plain_lib
      (sv_mappings (snd (create_mapping plain_env (BodyRest mapping_text) start_state)))
      (sv_scenarios (snd (create_mapping plain_env (BodyRest mapping_text) start_state)))
      get_a cache_context (new_body_cache NoBody 0)) = Some m \<and> m_response m = plain_response ''x''"
proof -
  have list: "store_list (sv_mappings start_state) = []" by (simp add: start_state_def new_handler_state_def)
  have room: "seq_room (sv_mappings start_state)"
    using start_room by (simp add: pending_def room_for_seq)
  from created_mapping_serves [OF start_server_inv plain_env_ok room posted_mapping, of get_a NoBody 0]
  show ?thesis
    by (auto simp: small_priorities_def list beats_others_def small_priority_def match_simps no_scenario_def)
qed







section \<open>The process\<close>

text \<open>
  C39: A configuration that is accepted is one a server can start with: a host, ports in range, a
  certificate only together with its key, and HTTPS only with a certificate to show; and reading flags
  and environment never panics.
\<close>

theorem accepted_config_valid:
  "load_config args getenv \<noteq> Panic \<and> (load_config args getenv = Ok c \<longrightarrow> valid_config c)"
  using load_config_valid load_config_no_panic by blast

definition port_config :: config where
  "port_config = (env_config (\<lambda>_. []))\<lparr>cfg_port := 9090\<rparr>"

theorem accepted_config_valid_witness: "valid_config port_config"
proof -
  have "load_config [''-port=9090''] (\<lambda>_. []) = Ok port_config" by code_simp
  then show ?thesis using accepted_config_valid by blast
qed

text \<open>
  C40: The process ends with status 0, 1 or 2; it is 2 exactly when no server was started and the version
  was not asked for.
\<close>

theorem exit_status:
  "run_code (run_main C parse_ip version now args getenv event shutdown) \<in> {0, 1, 2}
   \<and> (run_code (run_main C parse_ip version now args getenv event shutdown) = 2 \<longleftrightarrow>
        run_servers (run_main C parse_ip version now args getenv event shutdown) = []
        \<and> \<not> (\<exists>c. load_config args getenv = Ok c \<and> cfg_version c))"
  using run_main_code run_main_config_error by blast

end
