(* ===== verification/Interleaving.thy ===== *)
theory Interleaving
  imports Go_Prelude
begin

text \<open>
  Tasks that share a state. The handlers of the server run in goroutines of their own; each access to a
  store is one critical section under the mutex of the store (or one atomic load of a published snapshot),
  and what lies between two accesses is local. So a task is a finite tree of atomic accesses, and a run of
  several tasks is any interleaving of their accesses.
\<close>

section \<open>Tasks\<close>

datatype ('s, 'r) task = Return 'r | Atomic "'s \<Rightarrow> ('s, 'r) task \<times> 's"

primrec bind_task :: "('s, 'a) task \<Rightarrow> ('a \<Rightarrow> ('s, 'r) task) \<Rightarrow> ('s, 'r) task" where
  "bind_task (Return a) k = k a"
| "bind_task (Atomic f) k = Atomic (\<lambda>s. map_prod (\<lambda>t. bind_task t k) (\<lambda>s. s) (f s))"

text \<open>One atomic access, and one that only looks.\<close>

definition access :: "('s \<Rightarrow> 'a \<times> 's) \<Rightarrow> ('s, 'a) task" where
  "access f = Atomic (\<lambda>s. case f s of (a, s') \<Rightarrow> (Return a, s'))"

definition look :: "('s \<Rightarrow> 'a) \<Rightarrow> ('s, 'a) task" where
  "look f = access (\<lambda>s. (f s, s))"

text \<open>A task that runs alone, and a task whose accesses see the states \<open>ss\<close>, whatever happens in between.\<close>

primrec run_task :: "('s, 'r) task \<Rightarrow> 's \<Rightarrow> 'r \<times> 's" where
  "run_task (Return r) = (\<lambda>s. (r, s))"
| "run_task (Atomic f) = (\<lambda>s. case map_prod run_task (\<lambda>s. s) (f s) of (g, s') \<Rightarrow> g s')"

fun resume :: "('s, 'r) task \<Rightarrow> 's list \<Rightarrow> ('s, 'r) task" where
  "resume t [] = t"
| "resume (Return r) (s # ss) = Return r"
| "resume (Atomic f) (s # ss) = resume (fst (f s)) ss"

text \<open>The equations in terms of the pair an access gives, and induction over the tasks it can lead to.\<close>

lemma task_simps [simp]:
  "run_task (Atomic f) s = run_task (fst (f s)) (snd (f s))"
  "bind_task (Atomic f) k = Atomic (\<lambda>s. (bind_task (fst (f s)) k, snd (f s)))"
  by (auto simp: map_prod_def split: prod.split)

declare run_task.simps(2) [simp del] and bind_task.simps(2) [simp del]

lemma task_tree [case_names Return Atomic]:
  assumes "\<And>r. P (Return r)" and "\<And>f. (\<And>s. P (fst (f s))) \<Longrightarrow> P (Atomic f)"
  shows "P t"
proof (induction t)
  case (Atomic f)
  then have "P (fst (f s))" for s by (cases "f s") (metis fsts.intros rangeI)
  then show ?case by (rule assms(2))
qed (rule assms(1))

lemma run_bind: "run_task (bind_task t k) s = (case run_task t s of (a, s') \<Rightarrow> run_task (k a) s')"
  by (induction t arbitrary: s rule: task_tree) simp_all

lemma run_access [simp]: "run_task (access f) s = f s"
  by (simp add: access_def split: prod.split)

lemma run_look [simp]: "run_task (look f) s = (f s, s)"
  by (simp add: look_def)

lemma bind_access [simp]: "bind_task (access f) k = Atomic (\<lambda>s. case f s of (a, s') \<Rightarrow> (k a, s'))"
  by (auto simp: access_def split: prod.split)

section \<open>Interference\<close>

lemma resume_append: "resume t (ss @ ts) = resume (resume t ss) ts"
proof (induction t ss rule: resume.induct)
  case (2 r s ss)
  then show ?case by (cases ts) simp_all
qed simp_all

lemma resume_Return [simp]: "resume (Return r) ss = Return r"
  by (cases ss) simp_all

text \<open>A task that runs alone sees the state its own last access left.\<close>

fun own_states :: "('s, 'r) task \<Rightarrow> 's \<Rightarrow> nat \<Rightarrow> 's list" where
  "own_states t s 0 = []"
| "own_states (Return r) s (Suc n) = []"
| "own_states (Atomic f) s (Suc n) = s # own_states (fst (f s)) (snd (f s)) n"

lemma resume_alone: "\<exists>n. resume t (own_states t s n) = Return (fst (run_task t s))"
proof (induction t arbitrary: s rule: task_tree)
  case (Return r)
  have "resume (Return r) (own_states (Return r) s 0) = Return (fst (run_task (Return r) s))" by simp
  then show ?case by blast
next
  case (Atomic f)
  from Atomic [of s "snd (f s)"] obtain n
    where "resume (fst (f s)) (own_states (fst (f s)) (snd (f s)) n) = Return (fst (run_task (Atomic f) s))" by auto
  then have "resume (Atomic f) (own_states (Atomic f) s (Suc n)) = Return (fst (run_task (Atomic f) s))" by simp
  then show ?case by blast
qed

text \<open>Every result of a sequence is one of the second part, started with one of the first.\<close>

lemma resume_bind:
  assumes "resume (bind_task t k) ss = Return r"
  shows "\<exists>ss1 ss2 a. ss = ss1 @ ss2 \<and> resume t ss1 = Return a \<and> resume (k a) ss2 = Return r"
  using assms
proof (induction t arbitrary: ss rule: task_tree)
  case (Return a)
  then have "ss = [] @ ss \<and> resume (Return a) [] = Return a \<and> resume (k a) ss = Return r" by simp
  then show ?case by blast
next
  case (Atomic f)
  from Atomic.prems obtain s ss' where ss: "ss = s # ss'" by (cases ss) auto
  with Atomic.prems have "resume (bind_task (fst (f s)) k) ss' = Return r" by simp
  from Atomic.IH [OF this] obtain ss1 ss2 a
    where "ss' = ss1 @ ss2" "resume (fst (f s)) ss1 = Return a" "resume (k a) ss2 = Return r" by blast
  then have "ss = (s # ss1) @ ss2 \<and> resume (Atomic f) (s # ss1) = Return a \<and> resume (k a) ss2 = Return r"
    by (simp add: ss)
  then show ?case by blast
qed

lemma resume_access:
  assumes "resume (access f) ss = Return a"
  obtains s ss' where "ss = s # ss'" and "a = fst (f s)"
  using assms by (cases ss) (auto simp: access_def split: prod.splits)

section \<open>Guarantees\<close>

text \<open>Every access of the task, whenever it happens, is a step that \<open>G\<close> allows.\<close>

primrec obeys :: "('s \<Rightarrow> 's \<Rightarrow> bool) \<Rightarrow> ('s, 'r) task \<Rightarrow> bool" where
  "obeys G (Return r) = True"
| "obeys G (Atomic f) = (\<forall>s. case map_prod (obeys G) (\<lambda>s. s) (f s) of (ok, s') \<Rightarrow> ok \<and> G s s')"

lemma obeys_Atomic [simp]: "obeys G (Atomic f) \<longleftrightarrow> (\<forall>s. G s (snd (f s)) \<and> obeys G (fst (f s)))"
  by (auto simp: map_prod_def case_prod_unfold)

declare obeys.simps(2) [simp del]

lemma obeys_bind: "obeys G t \<Longrightarrow> (\<And>a. obeys G (k a)) \<Longrightarrow> obeys G (bind_task t k)"
  by (induction t rule: task_tree) simp_all

lemma obeys_access [simp]: "obeys G (access f) \<longleftrightarrow> (\<forall>s. G s (snd (f s)))"
  by (simp add: access_def case_prod_unfold)

lemma obeys_look [simp]: "obeys G (look f) \<longleftrightarrow> (\<forall>s. G s s)"
  by (simp add: look_def)

lemma obeys_mono: "obeys G t \<Longrightarrow> (\<And>s s'. G s s' \<Longrightarrow> H s s') \<Longrightarrow> obeys H t"
  by (induction t rule: task_tree) auto

lemma obeys_True [simp]: "obeys (\<lambda>s s'. True) t"
  by (induction t rule: task_tree) simp_all

lemma obeys_run:
  assumes "obeys G t" and "\<And>s. G s s" and "\<And>s s' s''. G s s' \<Longrightarrow> G s' s'' \<Longrightarrow> G s s''"
  shows "G s (snd (run_task t s))"
  using assms(1)
proof (induction t arbitrary: s rule: task_tree)
  case (Atomic f)
  then have "G s (snd (f s))" and "G (snd (f s)) (snd (run_task (fst (f s)) (snd (f s))))" by simp_all
  then show ?case by (auto intro: assms(3))
qed (simp add: assms(2))

section \<open>Interleavings\<close>

text \<open>
  The shared state with the tasks that are under way. Tasks arrive at any time, and any task may make the
  next access; \<open>may\<close> says which tasks arrive and \<open>room\<close> what must hold of the state for an access.
\<close>

inductive interleave ::
  "(('s, 'r) task \<Rightarrow> bool) \<Rightarrow> ('s \<Rightarrow> bool) \<Rightarrow> 's \<times> ('s, 'r) task list \<Rightarrow> 's \<times> ('s, 'r) task list \<Rightarrow> bool"
  for may room where
  arrive: "may t \<Longrightarrow> interleave may room (s, ts) (s, ts @ [t])"
| advance: "i < length ts \<Longrightarrow> ts ! i = Atomic f \<Longrightarrow> room s \<Longrightarrow> f s = (t, s') \<Longrightarrow>
    interleave may room (s, ts) (s', ts[i := t])"

inductive_cases interleaveE: "interleave may room (s, ts) (s', ts')"

lemmas interleave_step = interleaveE [consumes 1, case_names arrive advance]

abbreviation interleaves where
  "interleaves may room \<equiv> (interleave may room)\<^sup>*\<^sup>*"

lemma arrive_all:
  "list_all may us \<Longrightarrow> interleaves may room (s, ts) (s, ts @ us)"
proof (induction us arbitrary: ts)
  case (Cons u us)
  then have "interleave may room (s, ts) (s, ts @ [u])" and "interleaves may room (s, ts @ [u]) (s, (ts @ [u]) @ us)"
    by (auto intro: interleave.arrive simp del: append_assoc)
  then show ?case by (simp add: converse_rtranclp_into_rtranclp)
qed simp

text \<open>What every access of every task keeps holds throughout, and each task has seen only such states.\<close>

abbreviation keeps :: "('s \<Rightarrow> bool) \<Rightarrow> ('s \<Rightarrow> bool) \<Rightarrow> ('s, 'r) task \<Rightarrow> bool" where
  "keeps I room \<equiv> obeys (\<lambda>s s'. I s \<longrightarrow> room s \<longrightarrow> I s')"

locale shared_invariant =
  fixes I :: "'s \<Rightarrow> bool" and room :: "'s \<Rightarrow> bool" and may :: "('s, 'r) task \<Rightarrow> bool"
  assumes may_keeps: "may t \<Longrightarrow> keeps I room t"
begin

lemma step_inv:
  assumes "interleave may room (s, ts) (s', ts')" and "I s" and "list_all (keeps I room) ts"
  shows "I s' \<and> list_all (keeps I room) ts'"
  using assms(1)
proof (cases rule: interleave_step)
  case (arrive t)
  then show ?thesis using assms(2,3) may_keeps by auto
next
  case (advance i f t)
  then have "keeps I room (Atomic f)" using assms(3) by (metis list_all_length)
  then have t: "keeps I room t" "I s'" using assms(2) advance by (auto dest: spec [of _ s])
  moreover have "set ts' \<subseteq> insert t (set ts)" using advance by (auto dest: set_update_subset_insert [THEN subsetD])
  ultimately show ?thesis using assms(3) by (auto simp: list_all_iff)
qed

lemma interleaves_inv:
  assumes "interleaves may room (s, ts) (s', ts')" and "I s" and "list_all (keeps I room) ts"
  shows "I s' \<and> list_all (keeps I room) ts'"
  using assms by (induction rule: rtranclp_induct2) (auto dest: step_inv)

lemma task_history:
  assumes "interleaves may room (s, ts) (s', ts')" and "I s" and "list_all (keeps I room) ts"
    and "i < length ts"
  shows "\<exists>ss. list_all I ss \<and> i < length ts' \<and> ts' ! i = resume (ts ! i) ss"
  using assms
proof (induction rule: rtranclp_induct2)
  case refl
  have "list_all I [] \<and> i < length ts \<and> ts ! i = resume (ts ! i) []" using refl by simp
  then show ?case by blast
next
  case (step s1 ts1 s2 ts2)
  then obtain ss where ss: "list_all I ss" "i < length ts1" "ts1 ! i = resume (ts ! i) ss" by blast
  have I: "I s1" using interleaves_inv [OF step.hyps(1) step.prems(1,2)] by simp
  from step.hyps(2) show ?case
  proof (cases rule: interleave_step)
    case (arrive t)
    with ss show ?thesis by (intro exI [of _ ss]) (simp add: nth_append)
  next
    case (advance j f t)
    show ?thesis
    proof (cases "j = i")
      case True
      then have now: "resume (ts ! i) ss = Atomic f" using advance ss(3) by metis
      have "ts2 ! i = resume (ts ! i) (ss @ [s1])"
        unfolding resume_append now using True advance by simp
      then show ?thesis using ss I advance by (intro exI [of _ "ss @ [s1]"]) simp
    next
      case False
      then show ?thesis using ss advance by (intro exI [of _ ss]) simp
    qed
  qed
qed

end

text \<open>A task whose accesses keep the room can run to its end without the others.\<close>

lemma run_alone_interleaves:
  assumes "obeys (\<lambda>s s'. room s \<longrightarrow> room s') (ts ! i)" and "room s" and "i < length ts"
  shows "interleaves may room (s, ts) (snd (run_task (ts ! i) s), ts[i := Return (fst (run_task (ts ! i) s))])"
proof -
  have "obeys (\<lambda>s s'. room s \<longrightarrow> room s') t \<Longrightarrow> room s \<Longrightarrow> i < length ts \<Longrightarrow> ts ! i = t \<Longrightarrow>
      interleaves may room (s, ts) (snd (run_task t s), ts[i := Return (fst (run_task t s))])" for t
  proof (induction t arbitrary: s ts rule: task_tree)
    case (Return r)
    then have "ts[i := Return r] = ts" by (metis list_update_id)
    then show ?case by simp
  next
    case (Atomic f)
    have "interleave may room (s, ts) (snd (f s), ts[i := fst (f s)])"
      by (rule interleave.advance [where f = f]) (use Atomic.prems in simp_all)
    moreover have "interleaves may room (snd (f s), ts[i := fst (f s)])
        (snd (run_task (fst (f s)) (snd (f s))), ts[i := fst (f s), i := Return (fst (run_task (fst (f s)) (snd (f s))))])"
      by (rule Atomic.IH) (use Atomic.prems in auto)
    ultimately show ?case by (simp add: converse_rtranclp_into_rtranclp)
  qed
  with assms show ?thesis by blast
qed

text \<open>A schedule: the positions of the tasks in the order of their accesses.\<close>

fun run_schedule :: "nat list \<Rightarrow> 's \<times> ('s, 'r) task list \<Rightarrow> 's \<times> ('s, 'r) task list" where
  "run_schedule [] c = c"
| "run_schedule (i # js) (s, ts) =
     (case ts ! i of
        Return r \<Rightarrow> run_schedule js (s, ts)
      | Atomic f \<Rightarrow> run_schedule js (snd (f s), ts[i := fst (f s)]))"

lemma schedule_interleaves:
  assumes "\<And>s. room s" and "\<forall>i \<in> set js. i < length ts"
  shows "interleaves may room (s, ts) (run_schedule js (s, ts))"
  using assms(2)
proof (induction js arbitrary: s ts)
  case (Cons i js)
  show ?case
  proof (cases "ts ! i")
    case (Atomic f)
    have "interleave may room (s, ts) (snd (f s), ts[i := fst (f s)])"
      by (rule advance [OF _ Atomic assms(1)]) (use Cons.prems in simp_all)
    with Cons show ?thesis by (auto simp: Atomic intro: converse_rtranclp_into_rtranclp)
  qed (use Cons in simp)
qed simp

end
