(* ===== verification/Handler_Tasks.thy ===== *)
theory Handler_Tasks
  imports Interleaving Server_Routes
begin

text \<open>
  The handlers of \<^verbatim>\<open>internal/server\<close> as tasks: every call of a store, which holds the mutex of the store or
  loads its published snapshot, is one access; the rest of a handler is local to its goroutine. The
  pointers to the stores never change, so a test for nil is part of the next access.
\<close>

type_synonym 'r server_task = "(server_state, 'r) task"

fun bad_request_task :: "'a res \<Rightarrow> ('a \<Rightarrow> outcome server_task) \<Rightarrow> outcome server_task" where
  "bad_request_task (Ok x) k = k x"
| "bad_request_task (Err e) k = Return (write_api_error 400 e)"
| "bad_request_task Panic k = Return Crash"

section \<open>Accesses\<close>

definition at_mappings :: "(mapping_store \<Rightarrow> 'a \<times> mapping_store) \<Rightarrow> 'a server_task" where
  "at_mappings f = access (\<lambda>s. case f (sv_mappings s) of (a, ms) \<Rightarrow> (a, s\<lparr>sv_mappings := ms\<rparr>))"

definition at_scenarios :: "(scenario_store option \<Rightarrow> 'a \<times> scenario_store option) \<Rightarrow> 'a server_task" where
  "at_scenarios f = access (\<lambda>s. case f (sv_scenarios s) of (a, sc) \<Rightarrow> (a, s\<lparr>sv_scenarios := sc\<rparr>))"

definition at_files :: "(memory_store \<Rightarrow> memory_store) \<Rightarrow> unit server_task" where
  "at_files f = access (\<lambda>s. ((), s\<lparr>sv_files := f (sv_files s)\<rparr>))"

definition at_descriptors ::
  "(descriptor_store option \<Rightarrow> 'a \<times> descriptor_store option) \<Rightarrow> 'a server_task" where
  "at_descriptors f = access (\<lambda>s. case f (sv_descriptors s) of (a, ds) \<Rightarrow> (a, s\<lparr>sv_descriptors := ds\<rparr>))"

definition at_recorder ::
  "(recording_store option \<Rightarrow> 'a \<times> recording_store option) \<Rightarrow> 'a server_task" where
  "at_recorder f = access (\<lambda>s. case f (sv_recorder s) of (a, rs) \<Rightarrow> (a, s\<lparr>sv_recorder := rs\<rparr>))"

text \<open>A method of a store behind a pointer; \<open>None\<close> is the nil pointer.\<close>

fun on_pointer :: "('t \<Rightarrow> 'a \<times> 't) \<Rightarrow> 't option \<Rightarrow> 'a option \<times> 't option" where
  "on_pointer f None = (None, None)"
| "on_pointer f (Some t) = (case f t of (a, t') \<Rightarrow> (Some a, Some t'))"

section \<open>Choosing the stub\<close>

text \<open>What the two branches of \<^verbatim>\<open>findMatchLazy\<close> do with one published snapshot.\<close>

definition candidate_matches ::
  "golib \<Rightarrow> http_request \<Rightarrow> ('c \<Rightarrow> body_context \<times> 'c) \<Rightarrow> mapping_stub \<Rightarrow> 'c \<Rightarrow> bool \<times> 'c" where
  "candidate_matches L r body stub =
     matches_lazy L (m_request stub) (hr_method r) (hr_request_uri r) (hu_path (hr_url r)) (hr_query r)
       (hr_headers r) body"

definition best_candidate ::
  "golib \<Rightarrow> http_request \<Rightarrow> ('c \<Rightarrow> body_context \<times> 'c) \<Rightarrow> 'c \<Rightarrow> mapping_store \<Rightarrow> mapping_stub option \<times> 'c" where
  "best_candidate L r body c mappings =
     store_range_candidates mappings (hr_method r) (hr_request_uri r) (hu_path (hr_url r))
       (\<lambda>stub (selected, c). case candidate_matches L r body stub c of (ok, c') \<Rightarrow>
          (True, (if ok then better compare_stub_order stub selected else selected, c')))
       (None, c)"

definition all_candidates ::
  "golib \<Rightarrow> http_request \<Rightarrow> ('c \<Rightarrow> body_context \<times> 'c) \<Rightarrow> 'c \<Rightarrow> mapping_store \<Rightarrow> mapping_stub list \<times> 'c" where
  "all_candidates L r body c mappings =
     store_range_candidates mappings (hr_method r) (hr_request_uri r) (hu_path (hr_url r))
       (\<lambda>stub (cands, c). case candidate_matches L r body stub c of (ok, c') \<Rightarrow>
          (True, (if ok then cands @ [stub] else cands, c')))
       ([], c)"

text \<open>\<^verbatim>\<open>HasScenarios\<close> and \<^verbatim>\<open>RangeCandidates\<close> load the snapshot one after the other.\<close>

definition find_task ::
  "golib \<Rightarrow> http_request \<Rightarrow> ('c \<Rightarrow> body_context \<times> 'c) \<Rightarrow> 'c \<Rightarrow> (mapping_stub option \<times> 'c) server_task" where
  "find_task L r body c =
     bind_task (look (\<lambda>s. sv_scenarios s = None \<or> \<not> store_has_scenarios (sv_mappings s))) (\<lambda>plain.
       if plain then look (\<lambda>s. best_candidate L r body c (sv_mappings s))
       else bind_task (look (\<lambda>s. all_candidates L r body c (sv_mappings s))) (\<lambda>(cands, c').
         bind_task (at_scenarios (select_and_transition compare_stub_order cands)) (\<lambda>selected.
           Return (selected, c'))))"

section \<open>The mock endpoint\<close>

definition no_match_task :: "outcome server_task" where
  "no_match_task = look (\<lambda>s. write_no_match (sv_mappings s))"

definition record_task ::
  "'d environment \<Rightarrow> http_request \<Rightarrow> string \<Rightarrow> int \<Rightarrow> header_map \<Rightarrow> string \<Rightarrow> string \<Rightarrow> unit server_task" where
  "record_task E r request_body status headers response_body source =
     access (\<lambda>s. ((), record_serve_event (env_now E) r request_body status headers response_body source s))"

definition recording_proxy_task ::
  "'d environment \<Rightarrow> bool \<Rightarrow> http_request \<Rightarrow> request_body_cache \<Rightarrow> outcome option server_task" where
  "recording_proxy_task E flusher r cache =
     bind_task (look (\<lambda>s. Option.bind (sv_recorder s) active_spec)) (\<lambda>active.
       case active of
         None \<Rightarrow> Return None
       | Some spec \<Rightarrow>
           (case fst (cache_bytes cache) of (body, failed) \<Rightarrow>
              if failed then Return (Some (write_proxy_error ''read body''))
              else
                (case forward (env_net E) (env_client E) (hr_method r) (hr_url r) (hr_headers r) body
                        (proxy_definition (spec_target_base_url spec)) of
                   Err e \<Rightarrow> Return (Some (write_proxy_error e))
                 | Panic \<Rightarrow> Return (Some Crash)
                 | Ok px \<Rightarrow>
                     bind_task (at_recorder (\<lambda>rs. ((), map_option (add_recording_event (env_now E)
                         (new_serve_event r body (px_status px) (px_headers px) (px_body px) ''recording'')) rs)))
                       (\<lambda>_. Return (Some (write_proxy_response (sleep_ok E) flusher px (proxy_definition [])))))))"

definition proxy_task ::
  "'d environment \<Rightarrow> bool \<Rightarrow> http_request \<Rightarrow> response_definition \<Rightarrow> request_body_cache \<Rightarrow> outcome server_task" where
  "proxy_task E flusher r d cache =
     (case fst (cache_bytes cache) of (body, failed) \<Rightarrow>
        if failed then no_match_task
        else
          (case forward (env_net E) (env_client E) (hr_method r) (hr_url r) (hr_headers r) body d of
             Err e \<Rightarrow> Return (write_proxy_error e)
           | Panic \<Rightarrow> Return Crash
           | Ok px \<Rightarrow>
               bind_task (record_task E r body (px_status px) (px_headers px) (px_body px) ''proxy'') (\<lambda>_.
                 Return (write_proxy_response (sleep_ok E) flusher px d))))"

definition stub_task ::
  "'d environment \<Rightarrow> bool \<Rightarrow> http_request \<Rightarrow> response_definition \<Rightarrow> request_body_cache \<Rightarrow> outcome server_task" where
  "stub_task E flusher r d cache =
     (let needs_body = rd_body d \<noteq> None \<and> uses_response_template d;
          (context, cache1) = (if needs_body then cache_context cache else (None, cache))
      in if needs_body \<and> context = None then no_match_task
         else
           bind_task (look (\<lambda>s. render (env_lib E) (sv_files s) d context)) (\<lambda>answer.
             case answer of
               Err e \<Rightarrow> Return (write_response_render_error e)
             | Panic \<Rightarrow> Return Crash
             | Ok rd \<Rightarrow>
                 bind_task (record_task E r (fst (cache_bytes_for_recording cache1)) (rr_status rd)
                     (rr_headers rd) (rr_body rd) ''stub'') (\<lambda>_.
                   Return (write_stub_response (sleep_ok E) flusher rd d))))"

definition found_task ::
  "'d environment \<Rightarrow> bool \<Rightarrow> http_request \<Rightarrow> mapping_stub option \<times> request_body_cache \<Rightarrow> outcome server_task" where
  "found_task E flusher r found =
     (case found of
        (None, cache) \<Rightarrow>
          bind_task (recording_proxy_task E flusher r cache) (\<lambda>out.
            case out of Some reply \<Rightarrow> Return reply | None \<Rightarrow> no_match_task)
      | (Some stub, cache) \<Rightarrow>
          (let d = m_response stub in
           case initial_duration (env_random E) d of
             Panic \<Rightarrow> Return Crash
           | Err e \<Rightarrow> Return Crash
           | Ok duration \<Rightarrow>
               if \<not> sleep_ok E duration then Return NoReply
               else if rd_proxy_base_url d \<noteq> [] then proxy_task E flusher r d cache
               else stub_task E flusher r d cache))"

section \<open>gRPC\<close>

definition record_grpc_task ::
  "'d environment \<Rightarrow> http_request \<Rightarrow> string \<Rightarrow> int \<Rightarrow> header_map \<Rightarrow> string \<Rightarrow> unit server_task" where
  "record_grpc_task E r request_json status headers response_json =
     access (\<lambda>s. ((), record_grpc_serve_event (env_now E) r request_json status headers response_json s))"

definition finish_grpc_task ::
  "'d environment \<Rightarrow> http_request \<Rightarrow> descriptor_registry \<Rightarrow> method_desc \<Rightarrow> string \<Rightarrow> rendered
    \<Rightarrow> outcome server_task" where
  "finish_grpc_task E r registry m request_json rd =
     (let headers = rr_headers rd;
          failing = (case grpc_status_from_headers headers of
              Some (code, reason) \<Rightarrow> if code \<noteq> 0 then Some (code, reason) else None
            | None \<Rightarrow> grpc_status_from_http (rr_status rd))
      in case failing of
           Some (code, reason) \<Rightarrow>
             bind_task (record_grpc_task E r request_json (rr_status rd) headers []) (\<lambda>_.
               Return (write_grpc_error_with_headers headers code reason))
         | None \<Rightarrow>
             (case encode_proto_json (env_proto E) registry (md_output m) (rr_body rd) of
                Ok payload \<Rightarrow>
                  bind_task (record_grpc_task E r request_json (rr_status rd) headers (rr_body rd)) (\<lambda>_.
                    Return (write_grpc_message headers payload))
              | Err e \<Rightarrow> Return (write_grpc_error_with_headers headers 13 e)
              | Panic \<Rightarrow> Return Crash))"

definition answer_grpc_task ::
  "'d environment \<Rightarrow> http_request \<Rightarrow> descriptor_registry \<Rightarrow> method_desc \<Rightarrow> string \<Rightarrow> outcome server_task" where
  "answer_grpc_task E r registry m request_json =
     (let body_context = new_body_context request_json;
          match_request = r\<lparr>hr_headers := grpc_matcher_headers (hr_headers r)\<rparr>
      in bind_task (find_task (env_lib E) match_request (given_body body_context) ()) (\<lambda>(found, _).
           case found of
             None \<Rightarrow> Return (write_grpc_error 12 ''No matching stub mapping found for gRPC request'')
           | Some stub \<Rightarrow>
               (let d = m_response stub in
                case initial_duration (env_random E) d of
                  Panic \<Rightarrow> Return Crash
                | Err e \<Rightarrow> Return Crash
                | Ok duration \<Rightarrow>
                    if \<not> sleep_ok E duration then Return NoReply
                    else if rd_proxy_base_url d \<noteq> [] then
                      Return (write_grpc_error 12 ''gRPC proxy is not implemented'')
                    else
                      bind_task (look (\<lambda>s. render (env_lib E) (sv_files s) d body_context)) (\<lambda>answer.
                        case answer of
                          Err e \<Rightarrow> Return (write_grpc_error 13 e)
                        | Panic \<Rightarrow> Return Crash
                        | Ok rd \<Rightarrow> finish_grpc_task E r registry m request_json rd))))"

definition grpc_task :: "'d environment \<Rightarrow> http_request \<Rightarrow> outcome server_task" where
  "grpc_task E r =
     bind_task (look (\<lambda>s. map_option (\<lambda>ds. descriptor_active (Some ds)) (sv_descriptors s))) (\<lambda>active.
       case active of
         None \<Rightarrow> Return (write_grpc_error 12 ''gRPC descriptor registry is not configured'')
       | Some registry \<Rightarrow>
           (case find_grpc_method registry (hu_path (hr_url r)) of
              None \<Rightarrow> Return (write_grpc_error 12 ''No matching gRPC service method found'')
            | Some m \<Rightarrow>
                (case read_limited max_grpc_request_body_size (hr_body r) of
                   ReadOk framed_body \<Rightarrow>
                     (case bind_res (decode_unary_grpc_frame framed_body)
                             (decode_proto_json (env_proto E) registry (md_input m)) of
                        Ok request_json \<Rightarrow> answer_grpc_task E r registry m request_json
                      | Err e \<Rightarrow> Return (write_grpc_error 13 e)
                      | Panic \<Rightarrow> Return Crash)
                 | _ \<Rightarrow> Return (write_grpc_error 13 ''read gRPC request: ''))))"

definition http_task :: "'d environment \<Rightarrow> bool \<Rightarrow> http_request \<Rightarrow> outcome server_task" where
  "http_task E flusher r =
     (if is_admin_path (hu_path (hr_url r)) then Return (http_error ''404 page not found'' 404)
      else if is_grpc_request r then grpc_task E r
      else bind_task (find_task (env_lib E) r cache_context (new_body_cache (hr_body r) (hr_content_length r)))
             (found_task E flusher r))"

end
