(* ===== verification/Admin_Tasks.thy ===== *)
theory Admin_Tasks
  imports Handler_Tasks
begin

text \<open>
  The admin and upload handlers as tasks, and the whole handler. A handler that runs alone does what its
  definition as one step says (\<open>run_handler_task\<close>).
\<close>

section \<open>Stub mappings\<close>

definition get_task :: "string \<Rightarrow> mapping_stub option server_task" where
  "get_task ident = look (\<lambda>s. store_get (sv_mappings s) ident)"

definition activate_task :: "mapping_stub \<Rightarrow> mapping_stub server_task" where
  "activate_task stub =
     bind_task (at_mappings (store_create stub)) (\<lambda>created.
       bind_task (at_scenarios (\<lambda>sc. ((), mapping_created created sc))) (\<lambda>_. Return created))"

fun activate_all_task :: "mapping_stub list \<Rightarrow> unit server_task" where
  "activate_all_task [] = Return ()"
| "activate_all_task (stub # stubs) = bind_task (activate_task stub) (\<lambda>_. activate_all_task stubs)"

definition create_mapping_task :: "'d environment \<Rightarrow> body_source \<Rightarrow> outcome server_task" where
  "create_mapping_task E source =
     bad_request_task (read_mapping E source []) (\<lambda>stub.
       bind_task (activate_task stub) (\<lambda>created. Return (write_json 201 (marshal_mapping created))))"

definition update_mapping_task :: "'d environment \<Rightarrow> string \<Rightarrow> body_source \<Rightarrow> outcome server_task" where
  "update_mapping_task E ident source =
     bad_request_task (validate_id ident) (\<lambda>_.
       bind_task (get_task ident) (\<lambda>found.
         case found of
           None \<Rightarrow> Return (no_stub_found ident)
         | Some existing \<Rightarrow>
             bad_request_task (read_mapping E source ident) (\<lambda>stub.
               bind_task (at_mappings (store_replace ident stub)) (\<lambda>replaced.
                 case replaced of
                   None \<Rightarrow> Return (no_stub_found ident)
                 | Some updated \<Rightarrow>
                     bind_task (at_scenarios (\<lambda>sc. ((), mapping_updated existing updated sc))) (\<lambda>_.
                       Return (write_json 200 (marshal_mapping updated)))))))"

definition delete_mapping_task :: "string \<Rightarrow> outcome server_task" where
  "delete_mapping_task ident =
     bad_request_task (validate_id ident) (\<lambda>_.
       bind_task (get_task ident) (\<lambda>found.
         case found of
           None \<Rightarrow> Return (no_stub_found ident)
         | Some existing \<Rightarrow>
             bind_task (at_mappings (store_delete ident)) (\<lambda>ok.
               if \<not> ok then Return (no_stub_found ident)
               else bind_task (at_scenarios (\<lambda>sc. ((), mapping_deleted existing sc))) (\<lambda>_.
                      Return (write_json 200 ''{}'')))))"

definition list_mappings_task :: "outcome server_task" where
  "list_mappings_task = look (\<lambda>s. fst (list_mappings s))"

definition get_mapping_task :: "string \<Rightarrow> outcome server_task" where
  "get_mapping_task ident =
     bad_request_task (validate_id ident) (\<lambda>_.
       bind_task (get_task ident) (\<lambda>found.
         case found of
           None \<Rightarrow> Return (no_stub_found ident)
         | Some stub \<Rightarrow> Return (write_json 200 (marshal_mapping stub))))"

definition reset_scenarios_task :: "outcome server_task" where
  "reset_scenarios_task =
     bind_task (at_scenarios (\<lambda>sc. ((), scenario_reset sc))) (\<lambda>_. Return (write_json 200 ''{}''))"

section \<open>Recordings\<close>

definition start_recording_task :: "'d environment \<Rightarrow> body_source \<Rightarrow> outcome server_task" where
  "start_recording_task E source =
     bad_request_task (read_recording_spec source) (\<lambda>spec.
       bind_task (at_recorder (on_pointer (recording_start (env_net E) spec))) (\<lambda>started.
         case started of
           None \<Rightarrow>
             bad_request_task (fst (recording_start (env_net E) spec new_recording_store)) (\<lambda>_. Return Crash)
         | Some answer \<Rightarrow>
             bad_request_task answer (\<lambda>_. Return (write_json 200 (json_object_text
               [(''status'', marshal_string ''Recording''),
                (''targetBaseUrl'', marshal_string (spec_target_base_url spec))])))))"

definition stop_recording_task :: "'d environment \<Rightarrow> outcome server_task" where
  "stop_recording_task E =
     bind_task (at_recorder (on_pointer (recording_stop (env_lib E) (env_net E) (env_rand_bytes E)))) (\<lambda>stopped.
       case stopped of
         None \<Rightarrow> Return Crash
       | Some answer \<Rightarrow>
           bad_request_task answer (\<lambda>snap.
             bind_task (activate_all_task (snap_mappings snap)) (\<lambda>_.
               Return (write_json 200 (snapshot_text snap)))))"

definition snapshot_recording_task :: "'d environment \<Rightarrow> body_source \<Rightarrow> outcome server_task" where
  "snapshot_recording_task E source =
     bad_request_task (read_optional_recording_spec source) (\<lambda>spec.
       bind_task (look (\<lambda>s. map_option (recording_take_snapshot (env_lib E) (env_net E) (env_rand_bytes E) spec)
           (sv_recorder s))) (\<lambda>taken.
         case taken of
           None \<Rightarrow> Return Crash
         | Some answer \<Rightarrow>
             bad_request_task answer (\<lambda>snap.
               bind_task (activate_all_task (snap_mappings snap)) (\<lambda>_.
                 Return (write_json 200 (snapshot_text snap))))))"

section \<open>Descriptors and files\<close>

definition list_descriptors_task :: "'d environment \<Rightarrow> outcome server_task" where
  "list_descriptors_task E = look (\<lambda>s. fst (list_grpc_descriptors E s))"

text \<open>\<^verbatim>\<open>Put\<close> and \<^verbatim>\<open>List\<close> lock the store one after the other.\<close>

definition put_descriptor_task :: "'d environment \<Rightarrow> string \<Rightarrow> body_source \<Rightarrow> outcome server_task" where
  "put_descriptor_task E name source =
     (case read_limited max_uploaded_file_size source of
        ReadTooLarge \<Rightarrow> Return (write_api_error 413 ''descriptor body exceeds 67108864 bytes'')
      | ReadFailed \<Rightarrow> Return (write_api_error 400 ''read descriptor body: '')
      | ReadOk body \<Rightarrow>
          bind_task (at_descriptors (on_pointer (descriptor_put (env_lib E) (env_proto E) (env_now E) name body)))
            (\<lambda>stored.
              case stored of
                None \<Rightarrow>
                  bad_request_task (fst (descriptor_put (env_lib E) (env_proto E) (env_now E) name body
                    new_descriptor_store)) (\<lambda>_. Return Crash)
              | Some answer \<Rightarrow>
                  bad_request_task answer (\<lambda>replaced.
                    look (\<lambda>s. write_json (if replaced then 200 else 201)
                      (grpc_descriptors_text E (sv_descriptors s))))))"

definition delete_descriptor_task :: "'d environment \<Rightarrow> string \<Rightarrow> outcome server_task" where
  "delete_descriptor_task E name =
     (let missing = write_api_error 404 (''No gRPC descriptor found with name '' @ name) in
      bind_task (at_descriptors (on_pointer (descriptor_delete (env_lib E) name))) (\<lambda>deleted.
        case deleted of
          None \<Rightarrow> Return (case descriptor_file_name (env_lib E) name of Ok _ \<Rightarrow> Crash | _ \<Rightarrow> missing)
        | Some ok \<Rightarrow> Return (if ok then write_json 200 ''{}'' else missing)))"

definition reset_grpc_task :: "'d environment \<Rightarrow> outcome server_task" where
  "reset_grpc_task E =
     bind_task (at_descriptors (descriptor_reset (env_proto E))) (\<lambda>answer.
       bad_request_task answer (\<lambda>_.
         Return (Reply \<lparr>hp_status = 200, hp_headers = [], hp_events = [], hp_trailers = []\<rparr>)))"

definition create_upload_task :: "'d environment \<Rightarrow> string \<Rightarrow> http_request \<Rightarrow> outcome server_task" where
  "create_upload_task E path_value r =
     (case authorize_legacy_file_request r of
        Some denied \<Rightarrow> Return denied
      | None \<Rightarrow>
          (case bind_res (validate_tus_create_request r) (\<lambda>_. upload_file_name (env_lib E) path_value r) of
             Err e \<Rightarrow> Return (http_error e 400)
           | Panic \<Rightarrow> Return Crash
           | Ok name \<Rightarrow>
               bind_task (at_files (file_put name [])) (\<lambda>_.
                 Return (empty_reply 201 [(''Tus-Resumable'', [''1.0.0'']), (''Upload-Offset'', [''0'']),
                   (''Location'', [''/api/tus/'' @ path_escape name])]))))"

definition patch_upload_task :: "'d environment \<Rightarrow> string \<Rightarrow> http_request \<Rightarrow> outcome server_task" where
  "patch_upload_task E path_value r =
     (case authorize_legacy_file_request r of
        Some denied \<Rightarrow> Return denied
      | None \<Rightarrow>
          (case bind_res (validate_tus_patch_request r) (\<lambda>_. upload_path_file_name (env_lib E) path_value) of
             Err e \<Rightarrow> Return (http_error e 400)
           | Panic \<Rightarrow> Return Crash
           | Ok name \<Rightarrow>
               (case read_limited max_uploaded_file_size (hr_body r) of
                  ReadTooLarge \<Rightarrow> Return (http_error ''uploaded file exceeds 67108864 bytes'' 413)
                | ReadFailed \<Rightarrow> Return (http_error ''read uploaded file: '' 400)
                | ReadOk data \<Rightarrow>
                    bind_task (at_files (file_put name data)) (\<lambda>_.
                      bind_task (at_descriptors
                          (descriptor_put_legacy (env_lib E) (env_proto E) (env_now E) name data)) (\<lambda>_.
                        Return (empty_reply 204 [(''Tus-Resumable'', [''1.0.0'']),
                          (''Upload-Offset'', [itoa (int (length data))])]))))))"

section \<open>The whole handler\<close>

definition route_task :: "'d environment \<Rightarrow> route \<Rightarrow> string \<Rightarrow> http_request \<Rightarrow> outcome server_task" where
  "route_task E rt v r =
     (case rt of
        Health \<Rightarrow> access health_handler
      | Ready \<Rightarrow> access ready_handler
      | ListMappings \<Rightarrow> list_mappings_task
      | CreateMapping \<Rightarrow> create_mapping_task E (hr_body r)
      | GetMapping \<Rightarrow> get_mapping_task v
      | UpdateMapping \<Rightarrow> update_mapping_task E v (hr_body r)
      | DeleteMapping \<Rightarrow> delete_mapping_task v
      | ResetScenarios \<Rightarrow> reset_scenarios_task
      | StartRecording \<Rightarrow> start_recording_task E (hr_body r)
      | StopRecording \<Rightarrow> stop_recording_task E
      | SnapshotRecording \<Rightarrow> snapshot_recording_task E (hr_body r)
      | ListDescriptors \<Rightarrow> list_descriptors_task E
      | PutDescriptor \<Rightarrow> put_descriptor_task E v (hr_body r)
      | DeleteDescriptor \<Rightarrow> delete_descriptor_task E v
      | ResetGrpc \<Rightarrow> reset_grpc_task E
      | Login \<Rightarrow> access login
      | CreateUpload \<Rightarrow> create_upload_task E v r
      | PatchUpload \<Rightarrow> patch_upload_task E v r)"

definition handler_task ::
  "(http_request \<Rightarrow> string \<Rightarrow> outcome) \<Rightarrow> 'd environment \<Rightarrow> http_request \<Rightarrow> outcome server_task" where
  "handler_task redirect E r =
     (case dispatch_request (hr_method r) (request_escaped_path r) of
        Admin rt v \<Rightarrow> route_task E rt v r
      | Runtime \<Rightarrow> http_task E status_recorder_flusher r
      | Redirect path \<Rightarrow> Return (redirect r path))"

section \<open>A handler that runs alone\<close>

named_theorems run_task_eqs "what tasks that run alone do"

lemma same_pointer:
  "sv_recorder s = rs \<Longrightarrow> s\<lparr>sv_recorder := rs\<rparr> = s"
  "sv_descriptors s = ds \<Longrightarrow> s\<lparr>sv_descriptors := ds\<rparr> = s"
  by auto

lemma run_at [run_task_eqs]:
  "run_task (at_mappings f) s = (case f (sv_mappings s) of (a, ms) \<Rightarrow> (a, s\<lparr>sv_mappings := ms\<rparr>))"
  "run_task (at_scenarios g) s = (case g (sv_scenarios s) of (b, sc) \<Rightarrow> (b, s\<lparr>sv_scenarios := sc\<rparr>))"
  "run_task (at_files h) s = ((), s\<lparr>sv_files := h (sv_files s)\<rparr>)"
  "run_task (at_descriptors p) s = (case p (sv_descriptors s) of (c, ds) \<Rightarrow> (c, s\<lparr>sv_descriptors := ds\<rparr>))"
  "run_task (at_recorder q) s = (case q (sv_recorder s) of (d, rs) \<Rightarrow> (d, s\<lparr>sv_recorder := rs\<rparr>))"
  by (simp_all add: at_mappings_def at_scenarios_def at_files_def at_descriptors_def at_recorder_def)

lemma run_bad_request [run_task_eqs]:
  "run_task (bad_request_task m k) s = bad_request m (\<lambda>x. run_task (k x) s) s"
  by (cases m) simp_all

lemma bad_request_cong: "(\<And>x. m = Ok x \<Longrightarrow> k x = k' x) \<Longrightarrow> bad_request m k s = bad_request m k' s"
  by (cases m) simp_all

lemma run_find [run_task_eqs]:
  "run_task (find_task L r body c) st =
     (case find_match_lazy L (sv_mappings st) (sv_scenarios st) r body c of
        (m, sc, c') \<Rightarrow> ((m, c'), st\<lparr>sv_scenarios := sc\<rparr>))"
  by (simp add: find_task_def find_match_lazy_def best_candidate_def all_candidates_def candidate_matches_def
      Let_def run_bind run_task_eqs split: prod.split)

lemma run_recording_proxy [run_task_eqs]:
  "run_task (recording_proxy_task E flusher r cache) st = try_serve_recording_proxy E flusher r cache st"
  by (cases "sv_recorder st")
    (auto simp: recording_proxy_task_def try_serve_recording_proxy_def run_bind run_task_eqs
      split: option.split prod.split res.split)

lemma run_no_match [run_task_eqs]: "run_task no_match_task st = (write_no_match (sv_mappings st), st)"
  by (simp add: no_match_task_def)

lemma run_proxy [run_task_eqs]: "run_task (proxy_task E flusher r d cache) st = serve_proxy E flusher r d cache st"
  by (simp add: proxy_task_def serve_proxy_def record_task_def run_task_eqs split: prod.split res.split)

lemma run_stub [run_task_eqs]: "run_task (stub_task E flusher r d cache) st = serve_stub E flusher r d cache st"
  by (simp add: stub_task_def serve_stub_def record_task_def run_task_eqs run_bind Let_def
      split: prod.split res.split)

lemma run_finish_grpc [run_task_eqs]:
  "run_task (finish_grpc_task E r registry m json rd) st = finish_grpc E r registry m json rd st"
  by (simp add: finish_grpc_task_def finish_grpc_def record_grpc_task_def Let_def
      split: option.split prod.split res.split)

lemma run_answer_grpc [run_task_eqs]:
  "run_task (answer_grpc_task E r registry m json) st = answer_grpc E r registry m json st"
proof -
  let ?r = "r\<lparr>hr_headers := grpc_matcher_headers (hr_headers r)\<rparr>"
  obtain stub sc u where fm: "find_match_lazy (env_lib E) (sv_mappings st) (sv_scenarios st) ?r
      (given_body (new_body_context json)) () = (stub, sc, u)" by (metis prod_cases3)
  show ?thesis
    by (auto simp: answer_grpc_task_def answer_grpc_def find_match_def fm Let_def run_bind run_task_eqs
        split: option.split res.split)
qed

lemma run_grpc [run_task_eqs]: "run_task (grpc_task E r) st = serve_grpc E r st"
  by (cases "sv_descriptors st")
    (simp_all add: grpc_task_def serve_grpc_def run_bind run_task_eqs Let_def
      split: option.split res.split limited_read.split)

lemma run_http [run_task_eqs]: "run_task (http_task E flusher r) st = serve_http serve_grpc E flusher r st"
  by (simp add: http_task_def serve_http_def found_task_def run_bind run_task_eqs Let_def
      split: option.split prod.split res.split)

lemma run_activate [run_task_eqs]: "run_task (activate_task stub) st = activate stub st"
  by (simp add: activate_task_def activate_def run_bind run_task_eqs split: prod.split)

lemma run_activate_all [run_task_eqs]:
  "run_task (activate_all_task stubs) st = ((), activate_recorded_mappings stubs st)"
  by (induction stubs arbitrary: st)
    (simp_all add: activate_recorded_mappings_def run_bind run_task_eqs split: prod.split)

lemma run_create [run_task_eqs]: "run_task (create_mapping_task E source) st = create_mapping E source st"
  by (simp add: create_mapping_task_def create_mapping_def run_bind run_task_eqs split: prod.split)

lemma run_get [run_task_eqs]: "run_task (get_task ident) st = (store_get (sv_mappings st) ident, st)"
  by (simp add: get_task_def)

lemma run_update [run_task_eqs]: "run_task (update_mapping_task E ident source) st = update_mapping E ident source st"
  by (auto simp: update_mapping_task_def update_mapping_def run_bind run_task_eqs
      split: option.split prod.split intro!: bad_request_cong)

lemma run_delete [run_task_eqs]: "run_task (delete_mapping_task ident) st = delete_mapping ident st"
  by (auto simp: delete_mapping_task_def delete_mapping_def run_bind run_task_eqs
      split: option.split prod.split intro!: bad_request_cong)

lemma run_get_mapping [run_task_eqs]: "run_task (get_mapping_task ident) st = get_mapping ident st"
  by (auto simp: get_mapping_task_def get_mapping_def run_bind run_task_eqs
      split: option.split intro!: bad_request_cong)

lemma run_list_mappings [run_task_eqs]: "run_task list_mappings_task st = list_mappings st"
  by (simp add: list_mappings_task_def list_mappings_def Let_def)

lemma run_reset_scenarios [run_task_eqs]: "run_task reset_scenarios_task st = reset_scenarios st"
  by (simp add: reset_scenarios_task_def reset_scenarios_def run_bind run_task_eqs)

text \<open>A store method that fails leaves its store as it is.\<close>

lemma recording_start_fails: "recording_start N spec s = (Err e, s') \<Longrightarrow> s' = s"
  "recording_start N spec s = (Panic, s') \<Longrightarrow> s' = s"
  by (auto simp: recording_start_def split: res.splits if_splits)

lemma run_start_recording [run_task_eqs]: "run_task (start_recording_task E source) st = start_recording E source st"
proof (cases "sv_recorder st")
  case (Some rec)
  have "bad_request a k (st\<lparr>sv_recorder := Some rec'\<rparr>) = bad_request a k st"
    if "recording_start (env_net E) spec rec = (a, rec')" for spec a rec' and k :: "unit \<Rightarrow> outcome \<times> server_state"
    using that recording_start_fails [of "env_net E" spec rec] Some by (cases a) auto
  then show ?thesis
    using Some
    by (auto simp: start_recording_task_def start_recording_def run_bind run_task_eqs
        split: prod.split intro!: bad_request_cong)
qed (simp add: start_recording_task_def start_recording_def run_bind run_task_eqs same_pointer)

lemma run_stop_recording [run_task_eqs]: "run_task (stop_recording_task E) st = stop_recording E st"
  by (cases "sv_recorder st")
    (auto simp: stop_recording_task_def stop_recording_def run_bind run_task_eqs Let_def
      split: prod.split intro!: bad_request_cong)

lemma run_snapshot_recording [run_task_eqs]:
  "run_task (snapshot_recording_task E source) st = snapshot_recording E source st"
  by (cases "sv_recorder st")
    (auto simp: snapshot_recording_task_def snapshot_recording_def run_bind run_task_eqs
      intro!: bad_request_cong)

lemma descriptor_put_fails: "descriptor_put L P now name data s = (Err e, s') \<Longrightarrow> s' = s"
  "descriptor_put L P now name data s = (Panic, s') \<Longrightarrow> s' = s"
  by (auto simp: descriptor_put_def split: res.splits)

lemma run_put_descriptor [run_task_eqs]:
  "run_task (put_descriptor_task E name source) st = put_grpc_descriptor E name source st"
proof (cases "sv_descriptors st")
  case (Some ds)
  have "bad_request a k (st\<lparr>sv_descriptors := Some ds'\<rparr>) = bad_request a k st"
    if "descriptor_put (env_lib E) (env_proto E) (env_now E) name data ds = (a, ds')"
    for data a ds' and k :: "bool \<Rightarrow> outcome \<times> server_state"
    using that descriptor_put_fails [of "env_lib E" "env_proto E" "env_now E" name data ds] Some by (cases a) auto
  then show ?thesis
    using Some
    by (auto simp: put_descriptor_task_def put_grpc_descriptor_def run_bind run_task_eqs
        split: prod.split limited_read.split intro!: bad_request_cong)
qed (auto simp: put_descriptor_task_def put_grpc_descriptor_def run_bind run_task_eqs same_pointer
      split: limited_read.split intro!: bad_request_cong)

lemma run_delete_descriptor [run_task_eqs]:
  "run_task (delete_descriptor_task E name) st = delete_grpc_descriptor E name st"
  by (cases "sv_descriptors st")
    (auto simp: delete_descriptor_task_def delete_grpc_descriptor_def descriptor_delete_def run_bind run_task_eqs
      Let_def split: res.split prod.split)

lemma run_reset_grpc [run_task_eqs]: "run_task (reset_grpc_task E) st = reset_grpc E st"
  by (cases "sv_descriptors st")
    (auto simp: reset_grpc_task_def reset_grpc_def descriptor_reset_def reset_locked_def Let_def run_bind
      run_task_eqs split: prod.split res.split)

lemma run_uploads [run_task_eqs]:
  "run_task (create_upload_task E v r) st = create_upload E v r st"
  "run_task (patch_upload_task E v r) st = patch_upload E v r st"
  by (auto simp: create_upload_task_def create_upload_def patch_upload_task_def patch_upload_def run_bind
      run_task_eqs split: option.split res.split limited_read.split prod.split)

lemma run_list_descriptors [run_task_eqs]: "run_task (list_descriptors_task E) st = list_grpc_descriptors E st"
  by (simp add: list_descriptors_task_def list_grpc_descriptors_def)

theorem run_handler_task: "run_task (handler_task redirect E r) st = new_handler redirect E r st"
  by (auto simp: handler_task_def new_handler_def serve_mux_def route_task_def serve_route_def run_task_eqs
      split: dispatch.split route.split)

end
