(* ===== verification/Concurrent_Inv.thy ===== *)
theory Concurrent_Inv
  imports Admin_Tasks System_Inv
begin

text \<open>
  What holds of the stores however the accesses of the handlers interleave. Between the accesses of one
  handler others take theirs, so what ties two stores together (that the members of a scenario are the
  stored mappings) is lost; what each store promises of itself is kept, and so is any property \<open>Q\<close> of the
  mapping store that the handlers under way respect.
\<close>

section \<open>The shared invariant\<close>

definition shared_inv :: "golib \<Rightarrow> 'd protolib \<Rightarrow> server_state \<Rightarrow> bool" where
  "shared_inv L P st \<longleftrightarrow>
     mappings_inv L (sv_mappings st)
     \<and> (\<exists>ss. sv_scenarios st = Some ss \<and> scenario_inv ss)
     \<and> (\<forall>n \<in> dom (sv_files st). plain_name n)
     \<and> pred_option (descriptor_inv L P) (sv_descriptors st)
     \<and> pred_option journal_inv (sv_recorder st)"

lemma server_inv_shared: "server_inv L P st \<Longrightarrow> shared_inv L P st"
  by (auto simp: server_inv_def shared_inv_def)

text \<open>Fewer than \<open>2 ^ 64\<close> mappings were ever created.\<close>

abbreviation has_room :: "server_state \<Rightarrow> bool" where
  "has_room st \<equiv> seq_room (sv_mappings st)"

definition safe ::
  "golib \<Rightarrow> 'd protolib \<Rightarrow> (mapping_store \<Rightarrow> bool) \<Rightarrow> 'r server_task \<Rightarrow> bool" where
  "safe L P Q t \<longleftrightarrow> keeps (\<lambda>st. shared_inv L P st \<and> Q (sv_mappings st)) has_room t"

named_theorems safe_intros "tasks that keep the shared invariant"

lemma safe_Return [safe_intros]: "safe L P Q (Return r)"
  by (simp add: safe_def)

lemma safe_look [safe_intros]: "safe L P Q (look f)"
  by (simp add: safe_def)

lemma safe_bind: "safe L P Q t \<Longrightarrow> (\<And>a. safe L P Q (k a)) \<Longrightarrow> safe L P Q (bind_task t k)"
  by (simp add: safe_def obeys_bind)

lemma safe_bad_request: "(\<And>x. m = Ok x \<Longrightarrow> safe L P Q (k x)) \<Longrightarrow> safe L P Q (bad_request_task m k)"
  by (cases m) (simp_all add: safe_Return)

lemma safe_at_mappings:
  assumes "\<And>ms. mappings_inv L ms \<Longrightarrow> seq_room ms \<Longrightarrow> Q ms \<Longrightarrow> mappings_inv L (snd (f ms)) \<and> Q (snd (f ms))"
  shows "safe L P Q (at_mappings f)"
  using assms by (auto simp: safe_def at_mappings_def shared_inv_def case_prod_unfold)

lemma safe_at_scenarios:
  assumes "\<And>ss. scenario_inv ss \<Longrightarrow> \<exists>ss'. snd (f (Some ss)) = Some ss' \<and> scenario_inv ss'"
  shows "safe L P Q (at_scenarios f)"
  using assms by (auto simp: safe_def at_scenarios_def shared_inv_def case_prod_unfold)

lemma safe_at_files [safe_intros]: "plain_name n \<Longrightarrow> safe L P Q (at_files (file_put n data))"
  by (auto simp: safe_def at_files_def shared_inv_def file_put_def)

lemma safe_at_descriptors:
  assumes "\<And>ds. pred_option (descriptor_inv L P) ds \<Longrightarrow> pred_option (descriptor_inv L P) (snd (f ds))"
  shows "safe L P Q (at_descriptors f)"
  using assms by (auto simp: safe_def at_descriptors_def shared_inv_def case_prod_unfold)

lemma safe_at_recorder:
  assumes "\<And>rs. pred_option journal_inv rs \<Longrightarrow> pred_option journal_inv (snd (f rs))"
  shows "safe L P Q (at_recorder f)"
  using assms by (auto simp: safe_def at_recorder_def shared_inv_def case_prod_unfold)

lemma pred_on_pointer:
  "(\<And>x. p x \<Longrightarrow> p (snd (f x))) \<Longrightarrow> pred_option p t \<Longrightarrow> pred_option p (snd (on_pointer f t))"
  by (cases t) (auto simp: case_prod_unfold)

lemma pred_journal_add:
  "pred_option journal_inv rs \<Longrightarrow> pred_option journal_inv (map_option (add_serve_event now e) rs)"
  "pred_option journal_inv rs \<Longrightarrow> pred_option journal_inv (map_option (add_recording_event now e) rs)"
  by (cases rs; simp add: add_serve_event_def add_recording_event_def journal_inv_add)+

lemma safe_record [safe_intros]:
  "safe L P Q (record_task E r request_body status headers body source)"
  "safe L P Q (record_grpc_task E r request_body status headers body)"
  by (simp_all add: safe_def record_task_def record_grpc_task_def record_serve_event_def
      record_grpc_serve_event_def shared_inv_def pred_journal_add)

section \<open>The mock endpoints\<close>

lemma scenario_inv_selected:
  assumes "scenario_inv ss"
  shows "\<exists>ss'. snd (select_and_transition compare cands (Some ss)) = Some ss' \<and> scenario_inv ss'"
proof -
  obtain m sc where st: "select_and_transition compare cands (Some ss) = (m, sc)" by fastforce
  from select_and_transition_states [OF st] show ?thesis
    using assms scenario_inv_transition by (auto simp: st)
qed

lemma safe_find [safe_intros]: "safe L P Q (find_task K r body c)"
  unfolding find_task_def
  by (intro safe_bind) (auto intro!: safe_intros safe_bind safe_at_scenarios scenario_inv_selected)

lemma safe_recording_proxy [safe_intros]: "safe L P Q (recording_proxy_task E flusher r cache)"
  unfolding recording_proxy_task_def
  by (auto simp: pred_journal_add intro!: safe_intros safe_bind safe_at_recorder
      split: option.split prod.split res.split)

lemma safe_found [safe_intros]: "safe L P Q (found_task E flusher r found)"
  unfolding found_task_def proxy_task_def stub_task_def no_match_task_def Let_def
  by (auto intro!: safe_intros safe_bind split: option.split prod.split res.split)

lemma safe_grpc [safe_intros]: "safe L P Q (grpc_task E r)"
  unfolding grpc_task_def answer_grpc_task_def finish_grpc_task_def Let_def
  by (auto intro!: safe_intros safe_bind split: option.split prod.split res.split limited_read.split)

lemma safe_http [safe_intros]: "safe L P Q (http_task E flusher r)"
  by (auto simp: http_task_def intro!: safe_intros safe_bind)

section \<open>The admin and upload handlers\<close>

lemma scenario_inv_calls:
  assumes "scenario_inv ss"
  shows "\<exists>ss'. mapping_created m (Some ss) = Some ss' \<and> scenario_inv ss'"
    and "\<exists>ss'. mapping_updated old m (Some ss) = Some ss' \<and> scenario_inv ss'"
    and "\<exists>ss'. mapping_deleted m (Some ss) = Some ss' \<and> scenario_inv ss'"
    and "\<exists>ss'. scenario_reset (Some ss) = Some ss' \<and> scenario_inv ss'"
  using assms
  by (simp_all add: mapping_created_def mapping_updated_def mapping_deleted_def scenario_inv_add scenario_inv_remove)
    (auto simp: scenario_reset_def scenario_inv_def)

text \<open>The operations on the mapping store that keep \<open>Q\<close>.\<close>

definition create_keeps :: "golib \<Rightarrow> (mapping_store \<Rightarrow> bool) \<Rightarrow> mapping_stub \<Rightarrow> bool" where
  "create_keeps L Q stub \<longleftrightarrow>
     (\<forall>ms. mappings_inv L ms \<longrightarrow> seq_room ms \<longrightarrow> Q ms \<longrightarrow> Q (snd (store_create stub ms)))"

definition ident_keeps :: "golib \<Rightarrow> (mapping_store \<Rightarrow> bool) \<Rightarrow> string \<Rightarrow> bool" where
  "ident_keeps L Q ident \<longleftrightarrow>
     (\<forall>ms. mappings_inv L ms \<longrightarrow> Q ms \<longrightarrow>
        Q (snd (store_delete ident ms)) \<and> (\<forall>stub. Q (snd (store_replace ident stub ms))))"

lemma safe_activate [safe_intros]:
  "wf_mapping L stub \<Longrightarrow> create_keeps L Q stub \<Longrightarrow> safe L P Q (activate_task stub)"
  unfolding activate_task_def
  by (auto simp: create_keeps_def mappings_inv_create scenario_inv_calls
      intro!: safe_intros safe_bind safe_at_mappings safe_at_scenarios)

lemma safe_activate_all [safe_intros]:
  "list_all (\<lambda>m. wf_mapping L m \<and> create_keeps L Q m) stubs \<Longrightarrow> safe L P Q (activate_all_task stubs)"
  by (induction stubs) (auto intro!: safe_intros safe_bind)

lemma safe_update:
  assumes "env_ok L P E" and "ident_keeps L Q ident"
  shows "safe L P Q (update_mapping_task E ident source)"
proof -
  have "safe L P Q (at_mappings (store_replace ident stub))" if "wf_mapping L stub" "is_valid_id ident" for stub
    using assms(2) that by (auto simp: ident_keeps_def intro!: safe_at_mappings mappings_inv_replace)
  then show ?thesis
    unfolding update_mapping_task_def get_task_def
    using read_mapping_wf [OF assms(1)]
    by (auto simp: validate_id_def guard_res_def scenario_inv_calls
        intro!: safe_intros safe_bind safe_bad_request safe_at_scenarios split: option.split if_splits)
qed

lemma safe_delete:
  assumes "ident_keeps L Q ident"
  shows "safe L P Q (delete_mapping_task ident)"
  unfolding delete_mapping_task_def get_task_def
  using assms
  by (auto simp: scenario_inv_calls ident_keeps_def mappings_inv_delete
      intro!: safe_intros safe_bind safe_bad_request safe_at_mappings safe_at_scenarios split: option.split)

lemma safe_create:
  assumes "env_ok L P E" and "\<And>stub. read_mapping E source [] = Ok stub \<Longrightarrow> create_keeps L Q stub"
  shows "safe L P Q (create_mapping_task E source)"
  unfolding create_mapping_task_def
  using assms read_mapping_wf [OF assms(1)]
  by (auto intro!: safe_intros safe_bind safe_bad_request)

text \<open>The continuation of an access gets only what the access gives.\<close>

lemma safe_bind_recorder:
  assumes "\<And>rs. pred_option journal_inv rs \<Longrightarrow> pred_option journal_inv (snd (f rs))"
    and "\<And>rs. safe L P Q (k (fst (f rs)))"
  shows "safe L P Q (bind_task (at_recorder f) k)"
  using assms by (auto simp: safe_def at_recorder_def shared_inv_def case_prod_unfold)

lemma safe_bind_look: "(\<And>s. safe L P Q (k (f s))) \<Longrightarrow> safe L P Q (bind_task (look f) k)"
  by (simp add: safe_def look_def)

lemma safe_recordings:
  assumes env: "env_ok L P E" and keep: "\<And>stub. wf_mapping L stub \<Longrightarrow> create_keeps L Q stub"
  shows "safe L P Q (stop_recording_task E)" and "safe L P Q (snapshot_recording_task E source)"
proof -
  have snap: "safe L P Q (bind_task (activate_all_task (snap_mappings snap)) k)"
    if "build_snapshot (env_lib E) N (env_rand_bytes E) events spec = Ok snap" "\<And>u. safe L P Q (k u)"
    for snap events spec N and k :: "unit \<Rightarrow> outcome server_task"
    using snapshot_wf [of L P E N events spec snap] env keep that
    by (intro safe_bind safe_activate_all) (auto simp: env_ok_def list_all_iff)
  have "pred_option journal_inv (snd (on_pointer (recording_stop K N R) rs))"
    if "pred_option journal_inv rs" for rs K N R
    using that by (cases rs) (auto simp: recording_stop_def journal_inv_def split: option.split prod.split)
  moreover have "safe L P Q (case fst (on_pointer (recording_stop (env_lib E) N (env_rand_bytes E)) rs) of
      None \<Rightarrow> Return Crash
    | Some answer \<Rightarrow> bad_request_task answer (\<lambda>snap.
        bind_task (activate_all_task (snap_mappings snap)) (\<lambda>_. Return (write_json 200 (snapshot_text snap)))))"
    for rs N
    by (cases rs)
      (auto simp: recording_stop_def intro!: safe_bad_request safe_Return snap split: option.splits prod.split)
  ultimately show "safe L P Q (stop_recording_task E)"
    unfolding stop_recording_task_def by (intro safe_bind_recorder)
  show "safe L P Q (snapshot_recording_task E source)"
    unfolding snapshot_recording_task_def
    by (auto simp: recording_take_snapshot_def intro!: safe_bad_request safe_bind_look safe_Return snap
        split: option.splits)
qed

lemma safe_start_recording: "safe L P Q (start_recording_task E source)"
proof -
  have "pred_option journal_inv (snd (on_pointer (recording_start N spec) rs))"
    if "pred_option journal_inv rs" for rs N spec
    using that by (cases rs) (auto simp: recording_start_def journal_inv_def split: res.split prod.split)
  then show ?thesis
    unfolding start_recording_task_def
    by (auto intro!: safe_intros safe_bind safe_bad_request safe_at_recorder split: option.split)
qed

lemma safe_descriptors:
  assumes env: "env_ok L P E"
  shows "safe L P Q (put_descriptor_task E name source)" and "safe L P Q (delete_descriptor_task E name)"
    and "safe L P Q (reset_grpc_task E)"
  unfolding put_descriptor_task_def delete_descriptor_task_def reset_grpc_task_def Let_def
  using env
  by (auto simp: env_ok_def descriptor_inv_put descriptor_inv_delete descriptor_reset_def
      descriptor_inv_reset case_prod_unfold
      intro!: safe_intros safe_bind safe_bad_request safe_at_descriptors pred_on_pointer
      split: limited_read.split option.split)

lemma safe_uploads:
  assumes env: "env_ok L P E"
  shows "safe L P Q (create_upload_task E v r)" and "safe L P Q (patch_upload_task E v r)"
  unfolding create_upload_task_def patch_upload_task_def
  using env
  by (auto simp: env_ok_def res_simps descriptor_put_legacy_inv
      intro!: safe_intros safe_bind safe_at_descriptors
      dest: upload_file_name_plain upload_name_plain
      split: option.split res.split limited_read.split)

section \<open>The whole handler\<close>

text \<open>A request that leaves \<open>Q\<close> alone: what it creates, replaces or deletes keeps it.\<close>

definition spares ::
  "golib \<Rightarrow> (mapping_store \<Rightarrow> bool) \<Rightarrow> 'd environment \<Rightarrow> http_request \<Rightarrow> bool" where
  "spares L Q E r \<longleftrightarrow>
     (case dispatch_request (hr_method r) (request_escaped_path r) of
        Admin CreateMapping _ \<Rightarrow> (\<forall>stub. read_mapping E (hr_body r) [] = Ok stub \<longrightarrow> create_keeps L Q stub)
      | Admin UpdateMapping v \<Rightarrow> ident_keeps L Q v
      | Admin DeleteMapping v \<Rightarrow> ident_keeps L Q v
      | Admin StopRecording _ \<Rightarrow> (\<forall>stub. wf_mapping L stub \<longrightarrow> create_keeps L Q stub)
      | Admin SnapshotRecording _ \<Rightarrow> (\<forall>stub. wf_mapping L stub \<longrightarrow> create_keeps L Q stub)
      | _ \<Rightarrow> True)"

lemma safe_access_same: "(\<And>s. snd (f s) = s) \<Longrightarrow> safe L P Q (access f)"
  by (simp add: safe_def)

theorem safe_handler:
  assumes env: "env_ok L P E" and resp: "spares L Q E r"
  shows "safe L P Q (handler_task redirect E r)"
proof (cases "dispatch_request (hr_method r) (request_escaped_path r)")
  case (Admin rt v)
  then show ?thesis
    using assms
    by (cases rt)
      (simp_all add: spares_def handler_task_def route_task_def safe_create safe_update safe_delete
        safe_recordings safe_start_recording safe_descriptors safe_uploads list_mappings_task_def
        get_mapping_task_def get_task_def reset_scenarios_task_def list_descriptors_task_def
        health_handler_def ready_handler_def login_def safe_access_same safe_intros safe_bind
        safe_bad_request safe_at_scenarios scenario_inv_calls split: option.split)
qed (simp_all add: handler_task_def safe_intros)

end
