(* ===== verification/Concurrent_Search.thy ===== *)
theory Concurrent_Search
  imports Concurrent_Inv Server_Facts
begin

text \<open>
  The search for a stub while other requests change the stores: what it returns is the choice on one
  published snapshot, a mapping that stays stored is not missed, and a mapping that can be served in one
  state of its scenario only is served once.
\<close>

section \<open>The result of a search\<close>

definition snapshot_candidates :: "http_request \<Rightarrow> server_state \<Rightarrow> mapping_stub list" where
  "snapshot_candidates r s =
     candidates (ms_snapshot (sv_mappings s)) (hr_method r) (hr_request_uri r) (hu_path (hr_url r))"

context body_provider
begin

lemma best_candidate_eq:
  "\<exists>c'. best_candidate L r provide c (sv_mappings s)
     = (select_best compare_stub_order (filter (stub_matches L r (body_value c)) (snapshot_candidates r s)), c')
   \<and> body_value c' = body_value c"
proof -
  obtain c' where "fold (\<lambda>stub (selected, c). case matches_lazy L (m_request stub) (hr_method r)
          (hr_request_uri r) (hu_path (hr_url r)) (hr_query r) (hr_headers r) provide c of
        (ok, c') \<Rightarrow> (if ok then better compare_stub_order stub selected else selected, c'))
        (snapshot_candidates r s) (None, c)
      = (fold (better compare_stub_order)
          (filter (stub_matches L r (body_value c)) (snapshot_candidates r s)) None, c')"
    and v: "body_value c' = body_value c"
    using fold_select [of L "hr_method r" "hr_request_uri r" "hu_path (hr_url r)" "hr_query r"
        "hr_headers r" "snapshot_candidates r s" None c] unfolding stub_matches_def by blast
  then show ?thesis
    unfolding best_candidate_def candidate_matches_def snapshot_candidates_def
    by (subst range_fold) (simp_all add: prod.case_distrib [of snd] select_best_def split: prod.split)
qed

lemma all_candidates_eq:
  "\<exists>c'. all_candidates L r provide c (sv_mappings s)
     = (filter (stub_matches L r (body_value c)) (snapshot_candidates r s), c') \<and> body_value c' = body_value c"
proof -
  obtain c' where "fold (\<lambda>stub (cands, c). case matches_lazy L (m_request stub) (hr_method r)
          (hr_request_uri r) (hu_path (hr_url r)) (hr_query r) (hr_headers r) provide c of
        (ok, c') \<Rightarrow> (if ok then cands @ [stub] else cands, c')) (snapshot_candidates r s) ([], c)
      = (filter (stub_matches L r (body_value c)) (snapshot_candidates r s), c')"
    and v: "body_value c' = body_value c"
    using fold_collect [of L "hr_method r" "hr_request_uri r" "hu_path (hr_url r)" "hr_query r"
        "hr_headers r" "snapshot_candidates r s" "[]" c] unfolding stub_matches_def append_Nil by blast
  then show ?thesis
    unfolding all_candidates_def candidate_matches_def snapshot_candidates_def
    by (subst range_fold) (simp_all add: prod.case_distrib [of snd] split: prod.split)
qed

text \<open>One choice on the candidates of one state, eligible in a scenario store that was there, or in none.\<close>

lemma find_task_result:
  assumes "resume (find_task L r provide c) ss = Return (sel, c')"
  shows "\<exists>s \<in> set ss. \<exists>sc \<in> insert None (sv_scenarios ` set ss).
    sel = select_best compare_stub_order
      (filter (\<lambda>m. stub_matches L r (body_value c) m \<and> eligible_in sc m) (snapshot_candidates r s))"
proof -
  from assms obtain s0 ss1 where ss: "ss = s0 # ss1"
    by (cases ss) (auto simp: find_task_def look_def)
  show ?thesis
  proof (cases "sv_scenarios s0 = None \<or> \<not> store_has_scenarios (sv_mappings s0)")
    case True
    with assms have "resume (look (\<lambda>s. best_candidate L r provide c (sv_mappings s))) ss1 = Return (sel, c')"
      by (simp add: find_task_def ss look_def)
    then obtain s1 ss2 where "ss1 = s1 # ss2" "(sel, c') = best_candidate L r provide c (sv_mappings s1)"
      unfolding look_def by (auto elim!: resume_access)
    with best_candidate_eq [of L r c s1] show ?thesis
      by (auto simp: ss eligible_in_def intro!: bexI [of _ s1])
  next
    case False
    let ?k = "\<lambda>(cands, c'). bind_task (at_scenarios (select_and_transition compare_stub_order cands))
        (\<lambda>selected. Return (selected, c'))"
    from assms False have "resume (bind_task (look (\<lambda>s. all_candidates L r provide c (sv_mappings s))) ?k) ss1
        = Return (sel, c')"
      by (simp add: find_task_def ss look_def)
    from resume_bind [OF this] obtain ss2 ss3 a where ss1: "ss1 = ss2 @ ss3"
      and a: "resume (look (\<lambda>s. all_candidates L r provide c (sv_mappings s))) ss2 = Return a"
      and k: "resume (?k a) ss3 = Return (sel, c')" by blast
    from a obtain s1 ss4 where s1: "ss2 = s1 # ss4" "a = all_candidates L r provide c (sv_mappings s1)"
      unfolding look_def by (auto elim!: resume_access)
    then obtain c1 where "a = (filter (stub_matches L r (body_value c)) (snapshot_candidates r s1), c1)"
      using all_candidates_eq [of L r c s1] by auto
    with k obtain s2 ss5 where "ss3 = s2 # ss5"
      "sel = fst (select_and_transition compare_stub_order
          (filter (stub_matches L r (body_value c)) (snapshot_candidates r s1)) (sv_scenarios s2))"
      by (cases ss3) (auto simp: at_scenarios_def case_prod_unfold)
    then show ?thesis
      by (intro bexI [of _ s1] bexI [of _ "sv_scenarios s2"])
        (auto simp: ss ss1 s1 select_and_transition_def eligible_in_def select_best_matching_state_eq Let_def
          conj_commute split: option.split)
  qed
qed

end

section \<open>Handlers under way\<close>

definition handler_of ::
  "golib \<Rightarrow> 'd protolib \<Rightarrow> (http_request \<Rightarrow> string \<Rightarrow> outcome) \<Rightarrow> (mapping_store \<Rightarrow> bool)
    \<Rightarrow> outcome server_task \<Rightarrow> bool" where
  "handler_of L P redirect Q t \<longleftrightarrow>
     (\<exists>E r. env_ok L P E \<and> spares L Q E r \<and> t = handler_task redirect E r)"

lemma handler_of_keeps:
  "handler_of L P redirect Q t \<Longrightarrow> keeps (\<lambda>st. shared_inv L P st \<and> Q (sv_mappings st)) has_room t"
  using safe_handler [of L P _ Q _ redirect] by (auto simp: handler_of_def safe_def)

interpretation srv: shared_invariant "\<lambda>st. shared_inv L P st \<and> Q (sv_mappings st)" has_room
  "handler_of L P redirect Q" for L P redirect Q
  by unfold_locales (rule handler_of_keeps)

text \<open>Without a condition on the mapping store every request may come.\<close>

definition any_handler ::
  "golib \<Rightarrow> 'd protolib \<Rightarrow> (http_request \<Rightarrow> string \<Rightarrow> outcome) \<Rightarrow> outcome server_task \<Rightarrow> bool" where
  "any_handler L P redirect t \<longleftrightarrow> (\<exists>E r. env_ok L P E \<and> t = handler_task redirect E r)"

lemma spares_everything: "spares L (\<lambda>_. True) E r"
  by (auto simp: spares_def create_keeps_def ident_keeps_def split: dispatch.split route.split)

lemma any_handler_of: "any_handler L P redirect = handler_of L P redirect (\<lambda>_. True)"
  by (auto simp: fun_eq_iff any_handler_def handler_of_def spares_everything)

section \<open>What the mock endpoint leaves alone\<close>

text \<open>A request to a mock changes the states of the scenarios and the journal, nothing else.\<close>

definition same_stubs :: "server_state \<Rightarrow> server_state \<Rightarrow> bool" where
  "same_stubs s s' \<longleftrightarrow>
     sv_mappings s' = sv_mappings s \<and> sv_files s' = sv_files s \<and> sv_descriptors s' = sv_descriptors s
     \<and> map_option ss_members (sv_scenarios s') = map_option ss_members (sv_scenarios s)"

lemma same_stubs_refl [simp]: "same_stubs s s"
  by (simp add: same_stubs_def)

lemma obeys_recorder:
  "obeys same_stubs (at_recorder f)" "obeys same_stubs (record_task E r b st h rb src)"
  "obeys same_stubs (record_grpc_task E r b st h rb)"
  by (simp_all add: at_recorder_def record_task_def record_grpc_task_def same_stubs_def case_prod_unfold
      record_serve_event_def record_grpc_serve_event_def)

lemma obeys_select: "obeys same_stubs (at_scenarios (select_and_transition compare cands))"
proof -
  have "map_option ss_members (snd (select_and_transition compare cands sc)) = map_option ss_members sc" for sc
  proof -
    obtain m sc' where st: "select_and_transition compare cands sc = (m, sc')" by fastforce
    from select_and_transition_states [OF st] show ?thesis by (auto simp: st option.map_comp comp_def)
  qed
  then show ?thesis by (simp add: at_scenarios_def same_stubs_def case_prod_unfold)
qed

lemma obeys_find: "obeys same_stubs (find_task L r body c)"
  unfolding find_task_def by (intro obeys_bind) (auto intro!: obeys_bind obeys_select)

lemma obeys_http: "obeys same_stubs (http_task E flusher r)"
  unfolding http_task_def found_task_def recording_proxy_task_def proxy_task_def stub_task_def no_match_task_def
    grpc_task_def answer_grpc_task_def finish_grpc_task_def Let_def
  by (auto intro!: obeys_bind obeys_find obeys_recorder split: option.split prod.split res.split limited_read.split)

lemma same_stubs_trans: "same_stubs s s' \<Longrightarrow> same_stubs s' s'' \<Longrightarrow> same_stubs s s''"
  by (simp add: same_stubs_def)

lemma http_keeps: "keeps (same_stubs st) room (http_task E flusher r)"
  using obeys_http by (rule obeys_mono) (auto intro: same_stubs_trans)

definition mock_handler :: "'d protolib \<Rightarrow> outcome server_task \<Rightarrow> bool" where
  "mock_handler P t \<longleftrightarrow> (\<exists>E flusher r. env_proto E = P \<and> t = http_task E flusher r)"

interpretation mock: shared_invariant "same_stubs st" room "mock_handler P" for st room P
  by unfold_locales (use http_keeps in \<open>auto simp: mock_handler_def\<close>)

lemma mock_interleaves: "interleaves (mock_handler P) room (st, []) (st', ts) \<Longrightarrow> same_stubs st st'"
  using mock.interleaves_inv [of P room st "[]" st' ts st] by simp

section \<open>A mapping that stays\<close>

text \<open>
  A request that does not name the identifier: it does not post, replace or delete a mapping of that
  identifier, and makes no recording into mappings of fresh identifiers.
\<close>

definition names_other :: "string \<Rightarrow> 'd environment \<Rightarrow> http_request \<Rightarrow> bool" where
  "names_other ident E r \<longleftrightarrow>
     (case dispatch_request (hr_method r) (request_escaped_path r) of
        Admin rt v \<Rightarrow>
          (case rt of
             CreateMapping \<Rightarrow> (case read_mapping E (hr_body r) [] of Ok stub \<Rightarrow> m_id stub \<noteq> ident | _ \<Rightarrow> True)
           | UpdateMapping \<Rightarrow> v \<noteq> ident
           | DeleteMapping \<Rightarrow> v \<noteq> ident
           | StopRecording \<Rightarrow> False
           | SnapshotRecording \<Rightarrow> False
           | _ \<Rightarrow> True)
      | _ \<Rightarrow> True)"

definition sparing_handler ::
  "golib \<Rightarrow> 'd protolib \<Rightarrow> (http_request \<Rightarrow> string \<Rightarrow> outcome) \<Rightarrow> string \<Rightarrow> outcome server_task \<Rightarrow> bool" where
  "sparing_handler L P redirect ident t \<longleftrightarrow>
     (\<exists>E r. env_ok L P E \<and> names_other ident E r \<and> t = handler_task redirect E r)"

lemma get_other_mapping:
  assumes "mappings_inv L ms"
  shows "m_id stub \<noteq> i \<Longrightarrow> seq_room ms \<Longrightarrow> store_get (snd (store_create stub ms)) i = store_get ms i"
    and "v \<noteq> i \<Longrightarrow> store_get (snd (store_delete v ms)) i = store_get ms i"
    and "v \<noteq> i \<Longrightarrow> store_get (snd (store_replace v stub ms)) i = store_get ms i"
proof -
  have inv: "store_inv ms" using assms by (simp add: mappings_inv_def)
  show "m_id stub \<noteq> i \<Longrightarrow> seq_room ms \<Longrightarrow> store_get (snd (store_create stub ms)) i = store_get ms i"
    by (simp add: store_views(2) create_inv inv)
      (auto simp: store_create_def Let_def split: option.split prod.split)
  show "v \<noteq> i \<Longrightarrow> store_get (snd (store_delete v ms)) i = store_get ms i"
    by (simp add: store_views(2) delete_inv inv) (auto simp: store_delete_def split: option.split)
  show "v \<noteq> i \<Longrightarrow> store_get (snd (store_replace v stub ms)) i = store_get ms i"
    by (simp add: store_views(2) replace_inv inv) (auto simp: store_replace_def Let_def split: option.split)
qed

lemma names_other_spares: "names_other i E r \<Longrightarrow> spares L (\<lambda>ms. store_get ms i = Some m) E r"
  by (auto simp: names_other_def spares_def create_keeps_def ident_keeps_def get_other_mapping
      split: dispatch.splits route.splits)

lemma sparing_handler_of:
  "sparing_handler L P redirect i t \<Longrightarrow> handler_of L P redirect (\<lambda>ms. store_get ms i = Some m) t"
  unfolding sparing_handler_def handler_of_def by (blast intro: names_other_spares)

lemma interleaves_mono:
  assumes "interleaves may room c c'" and "\<And>t. may t \<Longrightarrow> may' t"
  shows "interleaves may' room c c'"
  using assms(1)
proof (induction rule: rtranclp_induct)
  case (step c1 c2)
  from step.hyps(2) have "interleave may' room c1 c2"
    by (cases rule: interleave.cases) (auto intro: interleave.intros assms(2))
  with step.IH show ?case by simp
qed simp

lemma sparing_interleaves:
  assumes "interleaves (sparing_handler L P redirect i) has_room c c'"
  shows "interleaves (handler_of L P redirect (\<lambda>ms. store_get ms i = Some m)) has_room c c'"
  using interleaves_mono [OF assms sparing_handler_of] .

lemma sparing_keeps:
  assumes "list_all (sparing_handler L P redirect i) ts"
  shows "list_all (keeps (\<lambda>st. shared_inv L P st \<and> store_get (sv_mappings st) i = Some m) has_room) ts"
  using assms handler_of_keeps [where Q = "\<lambda>ms. store_get ms i = Some m"] sparing_handler_of
  unfolding list_all_iff by blast

text \<open>A stored mapping without a scenario that matches is among the candidates, so the search finds one.\<close>

lemma stored_candidate:
  assumes "mappings_inv L (sv_mappings s)" and "store_get (sv_mappings s) i = Some m"
    and "stub_matches L r body m"
  shows "m \<in> set (snapshot_candidates r s)"
proof -
  have inv: "store_inv (sv_mappings s)" and wf: "\<forall>x \<in> set (store_list (sv_mappings s)). wf_request L (m_request x)"
    using assms(1) by (auto simp: mappings_inv_def list_all_iff wf_mapping_def)
  have m: "m \<in> set (store_list (sv_mappings s))"
    using assms(2) by (auto simp: set_store_list [OF inv] store_views(2) [OF inv] ran_def)
  have "mset (filter (stub_matches L r body) (snapshot_candidates r s))
      = mset (filter (stub_matches L r body) (store_list (sv_mappings s)))"
    unfolding snapshot_candidates_def
    by (rule candidates_of_store [OF inv]) (use wf stub_matches_candidate in blast)
  then have "set (filter (stub_matches L r body) (snapshot_candidates r s))
      = set (filter (stub_matches L r body) (store_list (sv_mappings s)))" by (metis set_mset_mset)
  with m assms(3) show ?thesis by auto
qed

lemma search_finds_some:
  assumes "resume (find_task L r cache_context c) ss = Return (sel, c')"
    and "\<forall>s \<in> set ss. mappings_inv L (sv_mappings s) \<and> store_get (sv_mappings s) i = Some m"
    and "stub_matches L r (cache_value c) m" and "sc_name (m_scenario m) = []"
  shows "sel \<noteq> None"
proof -
  from bc.find_task_result [OF assms(1)] obtain s sc where s: "s \<in> set ss"
    and sel: "sel = select_best compare_stub_order
      (filter (\<lambda>m. stub_matches L r (cache_value c) m \<and> eligible_in sc m) (snapshot_candidates r s))" by blast
  have "m \<in> set (snapshot_candidates r s)" using assms(2,3) s by (blast intro: stored_candidate)
  moreover have "eligible_in sc m"
    using assms(4) by (simp add: eligible_in_def matches_state_locked_def split: option.split)
  ultimately have "filter (\<lambda>m. stub_matches L r (cache_value c) m \<and> eligible_in sc m) (snapshot_candidates r s) \<noteq> []"
    using assms(3) by (auto simp: filter_empty_conv)
  then show ?thesis unfolding sel by (simp only: so.select_best_None_iff not_False_eq_True)
qed

text \<open>The whole mock handler: it goes on with a stub that it found.\<close>

lemma mock_handler_finds:
  assumes inter: "interleaves (sparing_handler L P redirect i) has_room (st, ts) (st', ts')"
    and tasks: "list_all (sparing_handler L P redirect i) ts" and inv: "shared_inv L P st"
    and stored: "store_get (sv_mappings st) i = Some m" and k: "k < length ts"
    and task: "ts ! k = http_task E flusher r" "env_lib E = L"
    and mock: "\<not> is_admin_path (hu_path (hr_url r))" "\<not> is_grpc_request r"
    and match: "stub_matches L r (cache_value (new_body_cache (hr_body r) (hr_content_length r))) m"
      "sc_name (m_scenario m) = []"
    and out: "ts' ! k = Return out"
  shows "store_get (sv_mappings st') i = Some m
    \<and> (\<exists>stub cache ss. resume (found_task E flusher r (Some stub, cache)) ss = Return out)"
proof -
  note srv = sparing_interleaves [OF inter, of m] conjI [OF inv stored] sparing_keeps [OF tasks, of m]
  from srv.task_history [OF srv k] obtain ss
    where ss: "list_all (\<lambda>s. shared_inv L P s \<and> store_get (sv_mappings s) i = Some m) ss"
      and "ts' ! k = resume (ts ! k) ss" by blast
  with out task mock have "resume (bind_task (find_task L r cache_context
      (new_body_cache (hr_body r) (hr_content_length r))) (found_task E flusher r)) ss = Return out"
    by (simp add: http_task_def)
  from resume_bind [OF this] obtain ss1 ss2 sel cache where split: "ss = ss1 @ ss2"
    and find: "resume (find_task L r cache_context (new_body_cache (hr_body r) (hr_content_length r))) ss1
      = Return (sel, cache)"
    and found: "resume (found_task E flusher r (sel, cache)) ss2 = Return out" by (metis surj_pair)
  have "\<forall>s \<in> set ss1. mappings_inv L (sv_mappings s) \<and> store_get (sv_mappings s) i = Some m"
    using ss by (auto simp: split list_all_iff shared_inv_def)
  from search_finds_some [OF find this match] found
  have "\<exists>stub cache ss. resume (found_task E flusher r (Some stub, cache)) ss = Return out"
    by (cases sel) auto
  moreover have "store_get (sv_mappings st') i = Some m" using srv.interleaves_inv [OF srv] by simp
  ultimately show ?thesis by blast
qed

section \<open>A stub that is served once\<close>

text \<open>
  The searches of any number of requests on a fixed set of mappings. A one-shot stub is served in one state
  of its scenario, which it leaves and no mapping brings back.
\<close>

definition one_shot :: "mapping_stub list \<Rightarrow> mapping_stub \<Rightarrow> bool" where
  "one_shot ms m \<longleftrightarrow>
     scenario_name m \<noteq> [] \<and> sc_required_state (m_scenario m) \<noteq> [] \<and> sc_new_state (m_scenario m) \<noteq> []
     \<and> sc_new_state (m_scenario m) \<noteq> sc_required_state (m_scenario m)
     \<and> (\<forall>x \<in> set ms. scenario_name x = scenario_name m
          \<longrightarrow> sc_new_state (m_scenario x) \<noteq> sc_required_state (m_scenario m))"

text \<open>The accesses a search still has before it.\<close>

definition select_step :: "mapping_stub list \<Rightarrow> 'c \<Rightarrow> (mapping_stub option \<times> 'c) server_task" where
  "select_step cands c =
     bind_task (at_scenarios (select_and_transition compare_stub_order cands)) (\<lambda>selected. Return (selected, c))"

definition collect_step ::
  "golib \<Rightarrow> http_request \<Rightarrow> request_body_cache \<Rightarrow> (mapping_stub option \<times> request_body_cache) server_task" where
  "collect_step L r c =
     bind_task (look (\<lambda>s. all_candidates L r cache_context c (sv_mappings s))) (\<lambda>(cands, c'). select_step cands c')"

inductive search_stage ::
  "mapping_stub list \<Rightarrow> (mapping_stub option \<times> request_body_cache) server_task \<Rightarrow> bool" for ms where
  first: "search_stage ms (find_task L r cache_context c)"
| collect: "search_stage ms (collect_step L r c)"
| selects: "set cands \<subseteq> set ms \<Longrightarrow> search_stage ms (select_step cands c)"
| finished: "sel \<in> insert None (Some ` set ms) \<Longrightarrow> search_stage ms (Return (sel, c))"

definition served :: "mapping_stub \<Rightarrow> (mapping_stub option \<times> 'c) server_task \<Rightarrow> bool" where
  "served m t \<longleftrightarrow> (\<exists>c. t = Return (Some m, c))"

lemma length_filter_update:
  assumes "i < length ts" and "\<not> p (ts ! i)"
  shows "length (filter p (ts[i := t])) = length (filter p ts) + (if p t then 1 else 0)"
proof -
  have "filter p ts = filter p (take i ts) @ filter p (drop (Suc i) ts)"
    using assms by (subst id_take_nth_drop [OF assms(1)]) simp
  then show ?thesis using assms(1) by (simp add: upd_conv_take_nth_drop)
qed

lemma stored_snapshot_candidates:
  assumes "store_inv (sv_mappings s)"
  shows "set (snapshot_candidates r s) \<subseteq> set (store_list (sv_mappings s))"
proof -
  have "mset (snapshot_candidates r s)
      \<subseteq># mset (stored (sv_mappings s))"
    unfolding snapshot_candidates_def store_invD(4) [OF assms] mset_candidates by (simp add: multiset_filter_subset)
  then show ?thesis by (simp add: store_views(1) [OF assms] set_mset_mono flip: set_mset_mset)
qed

text \<open>The mappings are fixed; one search at most was served \<open>m\<close>, and after it the state is another one.\<close>

definition one_shot_inv ::
  "mapping_store \<Rightarrow> mapping_stub \<Rightarrow> server_state \<times> (mapping_stub option \<times> request_body_cache) server_task list
    \<Rightarrow> bool" where
  "one_shot_inv ms m = (\<lambda>(s, ts).
     sv_mappings s = ms \<and> list_all (search_stage (store_list ms)) ts
     \<and> (\<exists>ss. sv_scenarios s = Some ss
          \<and> (state_locked ss (scenario_name m) = sc_required_state (m_scenario m)
               \<longrightarrow> filter (served m) ts = []))
     \<and> length (filter (served m) ts) \<le> 1)"

lemma state_after_selection:
  assumes "one_shot ms m" and "set cands \<subseteq> set ms"
    and "select_and_transition compare_stub_order cands (Some ss) = (sel, sc)"
  shows "\<exists>ss'. sc = Some ss' \<and> sel \<in> insert None (Some ` set ms)
    \<and> (sel = Some m \<longrightarrow> state_locked ss (scenario_name m) = sc_required_state (m_scenario m)
         \<and> state_locked ss' (scenario_name m) \<noteq> sc_required_state (m_scenario m))
    \<and> (state_locked ss (scenario_name m) \<noteq> sc_required_state (m_scenario m)
         \<longrightarrow> state_locked ss' (scenario_name m) \<noteq> sc_required_state (m_scenario m))"
proof (cases sel)
  case None
  then show ?thesis using assms(3) by (auto simp: select_and_transition_def Let_def)
next
  case (Some x)
  then have sel: "select_best compare_stub_order (filter (matches_state_locked ss) cands) = Some x"
    and sc: "sc = Some (transition_locked x ss)"
    using assms(3) by (auto simp: select_and_transition_def select_best_matching_state_eq Let_def)
  have x: "x \<in> set ms" "matches_state_locked ss x" using select_best_mem [OF sel] assms(2) by auto
  note state = state_locked_transition [OF x(2), of "scenario_name m"]
  have m: "scenario_name m \<noteq> []" "sc_required_state (m_scenario m) \<noteq> []" "sc_new_state (m_scenario m) \<noteq> []"
    "sc_new_state (m_scenario m) \<noteq> sc_required_state (m_scenario m)"
    "scenario_name x = scenario_name m \<Longrightarrow> sc_new_state (m_scenario x) \<noteq> sc_required_state (m_scenario m)"
    using assms(1) x(1) by (auto simp: one_shot_def)
  have before: "state_locked ss (scenario_name m) = sc_required_state (m_scenario m)" if "x = m"
    using x(2) m(1,2) that by (simp add: matches_state_locked_def Let_def)
  have after: "state_locked (transition_locked x ss) (scenario_name m) \<noteq> sc_required_state (m_scenario m)"
    if "x = m \<or> state_locked ss (scenario_name m) \<noteq> sc_required_state (m_scenario m)"
    using that m unfolding state by (auto split: if_split)
  show ?thesis unfolding sc Some using before after x(1) by blast
qed

lemma search_stage_step:
  assumes "search_stage (store_list ms) (Atomic f)" and "f s = (t, s')" and "sv_mappings s = ms"
    and "store_inv ms" and "store_has_scenarios ms" and "sv_scenarios s = Some ss" and "one_shot (store_list ms) m"
  shows "sv_mappings s' = ms \<and> search_stage (store_list ms) t
    \<and> (\<exists>ss'. sv_scenarios s' = Some ss'
         \<and> (served m t \<longrightarrow> state_locked ss (scenario_name m) = sc_required_state (m_scenario m)
              \<and> state_locked ss' (scenario_name m) \<noteq> sc_required_state (m_scenario m))
         \<and> (state_locked ss (scenario_name m) \<noteq> sc_required_state (m_scenario m)
              \<longrightarrow> state_locked ss' (scenario_name m) \<noteq> sc_required_state (m_scenario m)))"
  using assms(1)
proof cases
  case (first L r c)
  then have "t = collect_step L r c" "s' = s"
    using assms by (auto simp: find_task_def look_def collect_step_def select_step_def)
  moreover have "\<not> served m (collect_step L r c)" by (simp add: served_def collect_step_def look_def)
  ultimately show ?thesis using assms search_stage.collect by simp
next
  case (collect L r c)
  obtain cands c' where all: "all_candidates L r cache_context c ms = (cands, c')" by fastforce
  with bc.all_candidates_eq [of L r c s] assms(3)
  have "set cands \<subseteq> set (store_list ms)" using stored_snapshot_candidates [of s r] assms(4) by auto
  moreover have "t = select_step cands c'" "s' = s"
    using collect assms(2,3) all by (auto simp: collect_step_def look_def)
  moreover have "\<not> served m (select_step cands c')" by (simp add: served_def select_step_def at_scenarios_def)
  ultimately show ?thesis using assms search_stage.selects by simp
next
  case (selects cands c)
  obtain sel sc where st: "select_and_transition compare_stub_order cands (Some ss) = (sel, sc)" by fastforce
  then have "t = Return (sel, c)" "s' = s\<lparr>sv_scenarios := sc\<rparr>"
    using selects assms(2,6) by (auto simp: select_step_def at_scenarios_def)
  with state_after_selection [OF assms(7) selects(2) st] show ?thesis
    using assms(3) by (auto simp: served_def intro: search_stage.finished)
qed

definition search_task :: "(mapping_stub option \<times> request_body_cache) server_task \<Rightarrow> bool" where
  "search_task t \<longleftrightarrow> (\<exists>L r c. t = find_task L r cache_context c)"

lemma search_task_fresh:
  assumes "search_task t"
  shows "search_stage ms t \<and> \<not> served m t"
proof -
  have "\<not> served m (find_task L r cache_context c)" for L r c by (simp add: served_def find_task_def look_def)
  then show ?thesis using assms by (auto simp: search_task_def intro: search_stage.first)
qed

lemma one_shot_inv_step:
  assumes "interleave search_task room (s, ts) (s', ts')" and "one_shot_inv ms m (s, ts)"
    and ms: "store_inv ms" "store_has_scenarios ms" "one_shot (store_list ms) m"
  shows "one_shot_inv ms m (s', ts')"
  using assms(1)
proof (cases rule: interleave_step)
  case (arrive t)
  then show ?thesis using assms(2) search_task_fresh [of t] by (auto simp: one_shot_inv_def)
next
  case (advance i f t)
  from assms(2) obtain ss where ss: "sv_scenarios s = Some ss" and map: "sv_mappings s = ms"
    and stages: "list_all (search_stage (store_list ms)) ts"
    and once: "length (filter (served m) ts) \<le> 1"
    and left: "state_locked ss (scenario_name m) = sc_required_state (m_scenario m) \<longrightarrow> filter (served m) ts = []"
    by (auto simp: one_shot_inv_def)
  have "search_stage (store_list ms) (Atomic f)" using stages advance by (metis list_all_length)
  from search_stage_step [OF this _ map ms(1,2) ss ms(3)] advance obtain ss' where
    s': "sv_mappings s' = ms" "search_stage (store_list ms) t" "sv_scenarios s' = Some ss'"
    and st: "served m t \<longrightarrow> state_locked ss (scenario_name m) = sc_required_state (m_scenario m)
              \<and> state_locked ss' (scenario_name m) \<noteq> sc_required_state (m_scenario m)"
    and keep: "state_locked ss (scenario_name m) \<noteq> sc_required_state (m_scenario m)
              \<longrightarrow> state_locked ss' (scenario_name m) \<noteq> sc_required_state (m_scenario m)" by blast
  have "\<not> served m (ts ! i)" using advance by (simp add: served_def)
  from length_filter_update [of i ts "served m", OF _ this] advance
  have count: "length (filter (served m) ts') = length (filter (served m) ts) + (if served m t then 1 else 0)" by simp
  have "set ts' \<subseteq> insert t (set ts)" using advance by (auto dest: set_update_subset_insert [THEN subsetD])
  then have "list_all (search_stage (store_list ms)) ts'" using stages s'(2) by (auto simp: list_all_iff)
  moreover have "length (filter (served m) ts') \<le> 1"
    using count once left st by (cases "served m t") auto
  moreover have "filter (served m) ts' = []"
    if "state_locked ss' (scenario_name m) = sc_required_state (m_scenario m)"
    using that count left st keep by (cases "served m t") auto
  ultimately show ?thesis using s' by (simp add: one_shot_inv_def)
qed

lemma one_shot_inv_reached:
  assumes "interleaves search_task room (s, []) (s', ts')" and "sv_mappings s = ms" and "sv_scenarios s = Some ss"
    and "store_inv ms" and "store_has_scenarios ms" and "one_shot (store_list ms) m"
  shows "one_shot_inv ms m (s', ts')"
  using assms(1)
proof (induction rule: rtranclp_induct2)
  case refl
  then show ?case using assms(2,3) by (simp add: one_shot_inv_def)
next
  case (step s1 ts1 s2 ts2)
  then show ?case using one_shot_inv_step assms(4-6) by blast
qed

section \<open>Races\<close>

text \<open>
  \<^verbatim>\<open>HasScenarios\<close> and \<^verbatim>\<open>RangeCandidates\<close> look at two snapshots. A mapping created between the two is
  served in whatever state its scenario is.
\<close>

lemma scenario_bypassed:
  assumes inv: "shared_inv L P st" and room: "has_room st" and none: "\<not> store_has_scenarios (sv_mappings st)"
    and wf: "wf_mapping L m" and small: "small_priorities (sv_mappings st)" "small_priority m"
    and match: "stub_matches L r (cache_value c) m" and beats: "beats_others L r (cache_value c) m st"
  shows "\<exists>q c'. resume (find_task L r cache_context c) [st, snd (activate m st)]
    = Return (Some (m\<lparr>m_sequence := q\<rparr>), c')"
proof -
  obtain created st' where act: "activate m st = (created, st')" by fastforce
  have minv: "mappings_inv L (sv_mappings st)" using inv by (simp add: shared_inv_def)
  have "mappings_inv L (sv_mappings st')"
    using mappings_inv_create [OF minv room wf] act by (auto simp: activate_def split: prod.splits)
  moreover have created: "\<exists>q. created = m\<lparr>m_sequence := q\<rparr>"
    and set: "set (store_list (sv_mappings st')) = insert created {x \<in> set (store_list (sv_mappings st)). m_id x \<noteq> m_id m}"
    using activate_stored [OF _ room act] minv by (simp_all add: mappings_inv_def)
  ultimately have good: "good_store L (sv_mappings st')"
    using small by (intro good_store_of_inv) (auto simp: small_priorities_def small_priority_def)
  have "reference_match L (sv_mappings st') None r (cache_value c) = Some created"
    using created_is_reference [OF _ room good act match beats] minv
    by (simp add: mappings_inv_def eligible_in_def)
  moreover obtain c' where "best_candidate L r cache_context c (sv_mappings st')
      = (reference_match L (sv_mappings st') None r (cache_value c), c')"
    using bc.best_candidate_eq [of L r c st'] select_candidates [OF good, of "stub_matches L r (cache_value c)" r "cache_value c"]
    by (auto simp: reference_match_def eligible_in_def snapshot_candidates_def)
  ultimately show ?thesis
    using none created by (auto simp: find_task_def look_def access_def act)
qed

text \<open>
  A DELETE and a POST of the same mapping: the POST comes between the two accesses of the DELETE, which
  then removes the new mapping from the members of its scenario.
\<close>

lemma member_lost:
  assumes inv: "mappings_inv L (sv_mappings st)" and room: "has_room st"
    and ss: "sv_scenarios st = Some ss" "scenario_inv ss"
    and old: "store_get (sv_mappings st) i = Some old" "is_valid_id i"
    and new: "read_mapping E source [] = Ok m" "m_id m = i" "scenario_name m = scenario_name old"
  shows "\<exists>st' a b ss' stub.
    run_schedule [0, 0, 1, 1, 0] (st, [delete_mapping_task i, create_mapping_task E source]) = (st', [Return a, Return b])
    \<and> store_get (sv_mappings st') i = Some stub \<and> scenario_name stub = scenario_name old
    \<and> sv_scenarios st' = Some ss' \<and> i \<notin> members_of_scenario ss' (scenario_name old)"
proof -
  define ms1 where "ms1 = snd (store_delete i (sv_mappings st))"
  obtain created ms2 where create: "store_create m ms1 = (created, ms2)" by fastforce
  have oid: "m_id old = i" by (rule store_get_id [OF inv old(1)])
  have inv0: "store_inv (sv_mappings st)" using inv by (simp add: mappings_inv_def)
  have del: "store_delete i (sv_mappings st) = (True, ms1)"
    using old(1) by (auto simp: ms1_def store_delete_def store_views(2) [OF inv0] split: option.split)
  have inv1: "store_inv ms1" and room1: "seq_room ms1"
    using delete_inv [OF inv0, of i] room del
    by (auto simp: seq_room_def store_delete_def publish_simps split: option.splits)
  have inv2: "store_inv ms2" using create_inv [OF inv1 room1, of m] create by simp
  have created: "store_get ms2 i = Some created" "scenario_name created = scenario_name old"
    using create new(2,3) inv2
    by (auto simp: store_views(2) store_create_def Let_def publish_simps split: option.splits prod.splits)
  let ?ss = "remove_mapping_locked old (add_mapping_locked created ss)"
  have "i \<notin> members_of_scenario ?ss (scenario_name old)"
    by (simp add: members_remove scenario_inv_add ss(2) oid)
  moreover have "run_schedule [0, 0, 1, 1, 0] (st, [delete_mapping_task i, create_mapping_task E source])
      = (st\<lparr>sv_mappings := ms2, sv_scenarios := Some ?ss\<rparr>,
         [Return (write_json 200 ''{}''), Return (write_json 201 (marshal_mapping created))])"
    using old new(1) ss(1)
    by (simp add: delete_mapping_task_def create_mapping_task_def activate_task_def get_task_def look_def
        access_def at_mappings_def at_scenarios_def validate_id_def guard_res_def del create
        mapping_created_def mapping_deleted_def)
  ultimately show ?thesis using created by auto
qed

end
