(* ===== verification/Props_Concurrent.thy ===== *)
theory Props_Concurrent
  imports Props_System Concurrent_Search
begin

text \<open>
  Properties of the server under concurrent requests: the accesses of the handlers to the stores interleave
  in any order.
\<close>

section \<open>Tasks and handlers\<close>


section \<open>Invariants\<close>

text \<open>
  C2: However the accesses of any number of handlers interleave, the mapping store keeps its table, its order
  and its published index in step and holds well-formed mappings only, the scenario store has no scenario
  without members, uploaded files have plain names, the stored descriptors are accepted ones, and the journal
  is within its limit.
\<close>

theorem concurrent_inv:
  assumes "interleaves (any_handler L P redirect) has_room (start_state, []) (st, ts)"
  shows "shared_inv L P st"
proof -
  have "shared_inv L P start_state" unfolding start_state_def by (rule server_inv_shared [OF start_inv])
  then show ?thesis using srv.interleaves_inv [OF assms [unfolded any_handler_of]] by simp
qed

definition post_mapping :: http_request where
  "post_mapping = get_a\<lparr>hr_method := ''POST'', hr_url := \<lparr>hu_path = ''/__admin/mappings'', hu_raw_query = []\<rparr>,
     hr_request_uri := ''/__admin/mappings'', hr_body := BodyRest mapping_text\<rparr>"

lemma requests_dispatch:
  "dispatch_request (hr_method get_a) (request_escaped_path get_a) = Runtime"
  "dispatch_request (hr_method post_mapping) (request_escaped_path post_mapping) = Admin CreateMapping []"
  by code_simp+

lemma post_task:
  "handler_task redirect plain_env post_mapping = create_mapping_task plain_env (BodyRest mapping_text)"
  by (simp add: handler_task_def requests_dispatch route_task_def) (simp add: post_mapping_def)

definition posted_stub :: mapping_stub where
  "posted_stub = plain_stub ''x'' 5 no_scenario\<lparr>m_id := zero_id,
     m_raw := set_raw_id zero_id [(''request'', request_text), (''response'', response_text)]\<rparr>"

lemma start_has_room: "has_room start_state"
  using start_room by (simp add: pending_def room_for_seq)

theorem concurrent_inv_witness:
  "shared_inv plain_lib plain_proto
     (start_state\<lparr>sv_mappings := snd (store_create posted_stub (sv_mappings start_state))\<rparr>)"
proof -
  let ?t = "handler_task (\<lambda>_ _. NoReply) plain_env post_mapping"
  let ?may = "any_handler plain_lib plain_proto (\<lambda>_ _. NoReply)"
  obtain f where f: "?t = Atomic f"
    "snd (f start_state) = start_state\<lparr>sv_mappings := snd (store_create posted_stub (sv_mappings start_state))\<rparr>"
    by (simp add: post_task create_mapping_task_def posted_mapping activate_task_def at_mappings_def
        case_prod_unfold posted_stub_def)
  have "?may ?t" using plain_env_ok by (auto simp: any_handler_def)
  then have arrive: "interleave ?may has_room (start_state, []) (start_state, [?t])"
    using interleave.arrive [of ?may ?t has_room start_state "[]"] by simp
  have advance: "interleave ?may has_room (start_state, [?t]) (snd (f start_state), [fst (f start_state)])"
    using interleave.advance [of 0 "[?t]" f has_room start_state "fst (f start_state)" "snd (f start_state)" ?may]
      start_has_room by (simp add: f(1))
  have "interleaves ?may has_room (start_state, []) (snd (f start_state), [fst (f start_state)])"
    by (rule converse_rtranclp_into_rtranclp, rule arrive, rule r_into_rtranclp, rule advance)
  from concurrent_inv [OF this] show ?thesis unfolding f(2) .
qed



section \<open>The search\<close>





lemma start_facts:
  "store_list (sv_mappings start_state) = []" "mappings_inv plain_lib (sv_mappings start_state)"
  "shared_inv plain_lib plain_proto start_state" "small_priorities (sv_mappings start_state)"
  "\<not> store_has_scenarios (sv_mappings start_state)" "sv_scenarios start_state = Some new_scenario_store"
proof -
  show shared: "shared_inv plain_lib plain_proto start_state" by (rule server_inv_shared [OF start_server_inv])
  then show inv: "mappings_inv plain_lib (sv_mappings start_state)" by (simp add: shared_inv_def)
  show list: "store_list (sv_mappings start_state) = []" by (simp add: start_state_def new_handler_state_def)
  then show "small_priorities (sv_mappings start_state)" by (simp add: small_priorities_def)
  have "store_inv (sv_mappings start_state)" using inv by (simp add: mappings_inv_def)
  from store_views(1,4) [OF this] list show "\<not> store_has_scenarios (sv_mappings start_state)" by simp
  show "sv_scenarios start_state = Some new_scenario_store"
    by (simp add: start_state_def new_handler_state_def)
qed












text \<open>
  C7: A stub that can be served in one state of its scenario only, which it leaves and no other mapping
  brings back, is served once, however many requests search for it at the same time.
\<close>

theorem one_shot_served_once:
  assumes "interleaves search_task room (s, []) (s', ts)" and "store_inv (sv_mappings s)"
    and "sv_scenarios s = Some ss" and "m \<in> set (store_list (sv_mappings s))"
    and "one_shot (store_list (sv_mappings s)) m"
  shows "length (filter (served m) ts) \<le> 1"
proof -
  have "store_has_scenarios (sv_mappings s)"
    using assms(2,4,5) by (auto simp: store_views one_shot_def)
  from one_shot_inv_reached [OF assms(1) refl assms(3,2) this assms(5)]
  show ?thesis by (simp add: one_shot_inv_def)
qed

definition sample_state :: server_state where
  "sample_state = start_state\<lparr>sv_mappings := sample_store\<rparr>"

theorem one_shot_served_once_witness:
  "length (filter (served (plain_stub ''b'' 1 (two_step ''Started'' ''done'')\<lparr>m_sequence := 2\<rparr>))
     (snd (run_schedule [0, 1, 0, 1, 1, 0]
       (sample_state, replicate 2 (find_task plain_lib get_a cache_context (new_body_cache NoBody 0)))))) \<le> 1"
proof -
  let ?t = "find_task plain_lib get_a cache_context (new_body_cache NoBody 0)"
  let ?last = "run_schedule [0, 1, 0, 1, 1, 0] (sample_state, [?t, ?t])"
  have "search_task ?t" by (auto simp: search_task_def)
  then have "interleaves search_task (\<lambda>_. True) (sample_state, []) (sample_state, [?t, ?t])"
    using arrive_all [of search_task "[?t, ?t]" "\<lambda>_. True" sample_state "[]"] by simp
  also have "interleaves search_task (\<lambda>_. True) (sample_state, [?t, ?t]) ?last"
    by (rule schedule_interleaves) simp_all
  finally have inter: "interleaves search_task (\<lambda>_. True) (sample_state, []) (fst ?last, snd ?last)"
    by (simp only: prod.collapse)
  have "one_shot (store_list (sv_mappings sample_state)) (plain_stub ''b'' 1 (two_step ''Started'' ''done'')\<lparr>m_sequence := 2\<rparr>)"
    by (simp add: sample_state_def sample_store_list one_shot_def two_step_def no_scenario_def)
  with one_shot_served_once [OF inter] show ?thesis
    by (simp add: sample_state_def sample_store_inv sample_store_list start_facts numeral_2_eq_2)
qed



end
