(* ===== verification/Go_Memory.thy ===== *)
theory Go_Memory
  imports Go_Prelude
begin

text \<open>
  Go's memory where aliasing matters: arrays and maps live in cells, slices and map values are references to
  them. What the program uses of it: \<^verbatim>\<open>make\<close>, \<^verbatim>\<open>copy\<close>, \<^verbatim>\<open>append\<close>, \<^verbatim>\<open>range\<close> over a map, and the functions
  \<^verbatim>\<open>cloneBytes\<close> and \<^verbatim>\<open>cloneHeaders\<close> that the packages \<^verbatim>\<open>files\<close>, \<^verbatim>\<open>recording\<close>, \<^verbatim>\<open>grpcdesc\<close> and \<^verbatim>\<open>mapping\<close> each
  have a copy of. Structs of a package are the parameter \<open>'e\<close>.
\<close>

section \<open>Cells and references\<close>

text \<open>An array, an offset in it, a length and a capacity.\<close>

datatype go_slice = Nil_Slice | Slice nat nat nat nat

datatype 'e cell = Free | Bytes string | Strings "string list" | Table "(string \<times> go_slice) list" | Structs "'e list"

record 'e memory =
  mem_cells :: "nat \<Rightarrow> 'e cell"
  mem_top :: nat

definition new_memory :: "'e memory" where
  "new_memory = \<lparr>mem_cells = (\<lambda>_. Free), mem_top = 0\<rparr>"

fun bytes_of :: "'e cell \<Rightarrow> string" where
  "bytes_of (Bytes b) = b"
| "bytes_of _ = []"

fun strings_of :: "'e cell \<Rightarrow> string list" where
  "strings_of (Strings b) = b"
| "strings_of _ = []"

fun table_of :: "'e cell \<Rightarrow> (string \<times> go_slice) list" where
  "table_of (Table t) = t"
| "table_of _ = []"

fun structs_of :: "'e cell \<Rightarrow> 'e list" where
  "structs_of (Structs es) = es"
| "structs_of _ = []"

fun slice_cells :: "go_slice \<Rightarrow> nat set" where
  "slice_cells Nil_Slice = {}"
| "slice_cells (Slice a _ _ _) = {a}"

fun slice_len :: "go_slice \<Rightarrow> nat" where
  "slice_len Nil_Slice = 0"
| "slice_len (Slice _ _ n _) = n"

fun slice_cap :: "go_slice \<Rightarrow> nat" where
  "slice_cap Nil_Slice = 0"
| "slice_cap (Slice _ _ _ c) = c"

text \<open>What a slice shows of its array. An array holds what was written to it; a slice never ends beyond that.\<close>

fun elements :: "('e cell \<Rightarrow> 'a list) \<Rightarrow> 'e memory \<Rightarrow> go_slice \<Rightarrow> 'a list" where
  "elements of_cell h Nil_Slice = []"
| "elements of_cell h (Slice a off n c) = take n (drop off (of_cell (mem_cells h a)))"

fun slice_ok :: "('e cell \<Rightarrow> 'a list) \<Rightarrow> 'e memory \<Rightarrow> go_slice \<Rightarrow> bool" where
  "slice_ok of_cell h Nil_Slice = True"
| "slice_ok of_cell h (Slice a off n c) = (a < mem_top h \<and> off + n \<le> length (of_cell (mem_cells h a)) \<and> n \<le> c)"

abbreviation bytes_at :: "'e memory \<Rightarrow> go_slice \<Rightarrow> string" where
  "bytes_at \<equiv> elements bytes_of"

abbreviation strings_at :: "'e memory \<Rightarrow> go_slice \<Rightarrow> string list" where
  "strings_at \<equiv> elements strings_of"

section \<open>Operations\<close>

definition put_cell :: "nat \<Rightarrow> 'e cell \<Rightarrow> 'e memory \<Rightarrow> 'e memory" where
  "put_cell a c h = h\<lparr>mem_cells := (mem_cells h)(a := c)\<rparr>"

definition allocate :: "'e cell \<Rightarrow> 'e memory \<Rightarrow> nat \<times> 'e memory" where
  "allocate c h = (mem_top h, (put_cell (mem_top h) c h)\<lparr>mem_top := Suc (mem_top h)\<rparr>)"

definition overwrite :: "nat \<Rightarrow> 'a list \<Rightarrow> 'a list \<Rightarrow> 'a list" where
  "overwrite i xs old = take i old @ xs @ drop (i + length xs) old"

definition make_bytes :: "nat \<Rightarrow> 'e memory \<Rightarrow> go_slice \<times> 'e memory" where
  "make_bytes n h = (case allocate (Bytes (replicate n (CHR 0x00))) h of (a, h') \<Rightarrow> (Slice a 0 n n, h'))"

definition copy_bytes :: "go_slice \<Rightarrow> go_slice \<Rightarrow> 'e memory \<Rightarrow> 'e memory" where
  "copy_bytes dst src h =
     (case dst of
        Nil_Slice \<Rightarrow> h
      | Slice a off n c \<Rightarrow>
          put_cell a (Bytes (overwrite off (take n (bytes_at h src)) (bytes_of (mem_cells h a)))) h)"

text \<open>
  \<^verbatim>\<open>append\<close> writes behind the last element while the capacity lasts, and moves to a larger array
  otherwise; how much larger is the choice \<open>grow\<close> of the runtime.
\<close>

definition append_slice ::
  "(nat \<Rightarrow> nat \<Rightarrow> nat) \<Rightarrow> ('e cell \<Rightarrow> 'a list) \<Rightarrow> ('a list \<Rightarrow> 'e cell) \<Rightarrow> go_slice \<Rightarrow> 'a list \<Rightarrow> 'e memory
    \<Rightarrow> go_slice \<times> 'e memory" where
  "append_slice grow of_cell to_cell s xs h =
     (let n = slice_len s + length xs in
      case s of
        Slice a off l c \<Rightarrow>
          if n \<le> c
          then (Slice a off n c, put_cell a (to_cell (overwrite (off + l) xs (of_cell (mem_cells h a)))) h)
          else (case allocate (to_cell (elements of_cell h s @ xs)) h of
                  (a', h') \<Rightarrow> (Slice a' 0 n (max n (grow c n)), h'))
      | Nil_Slice \<Rightarrow>
          if xs = [] then (Nil_Slice, h)
          else (case allocate (to_cell xs) h of (a', h') \<Rightarrow> (Slice a' 0 n (max n (grow 0 n)), h')))"

text \<open>The slice \<^verbatim>\<open>s[k:]\<close>.\<close>

fun slice_from :: "nat \<Rightarrow> go_slice \<Rightarrow> go_slice" where
  "slice_from k Nil_Slice = Nil_Slice"
| "slice_from k (Slice a off n c) = Slice a (off + k) (n - k) (c - k)"

section \<open>Clones\<close>

definition clone_bytes :: "go_slice \<Rightarrow> 'e memory \<Rightarrow> go_slice \<times> 'e memory" where
  "clone_bytes source h =
     (if source = Nil_Slice then (Nil_Slice, h)
      else (case make_bytes (slice_len source) h of (clone, h1) \<Rightarrow> (clone, copy_bytes clone source h1)))"

text \<open>
  The loop of \<^verbatim>\<open>cloneHeaders\<close> and \<^verbatim>\<open>cloneRawMap\<close>, which fills the map in cell \<open>m\<close> with clones of the values. A
  map value is the cell of its table, or \<^verbatim>\<open>nil\<close>.
\<close>

fun fill_table ::
  "(go_slice \<Rightarrow> 'e memory \<Rightarrow> go_slice \<times> 'e memory) \<Rightarrow> nat \<Rightarrow> (string \<times> go_slice) list \<Rightarrow> 'e memory \<Rightarrow> 'e memory" where
  "fill_table clone m [] h = h"
| "fill_table clone m ((name, vals) # entries) h =
     (case clone vals h of
        (vals', h1) \<Rightarrow>
          fill_table clone m entries (put_cell m (Table (aput name vals' (table_of (mem_cells h1 m)))) h1))"

definition copy_table ::
  "(go_slice \<Rightarrow> 'e memory \<Rightarrow> go_slice \<times> 'e memory) \<Rightarrow> (string \<times> go_slice) list \<Rightarrow> 'e memory
    \<Rightarrow> nat option \<times> 'e memory" where
  "copy_table clone entries h =
     (case allocate (Table []) h of (m, h1) \<Rightarrow> (Some m, fill_table clone m entries h1))"

text \<open>\<^verbatim>\<open>append([]string(nil), values...)\<close>\<close>

definition clone_strings :: "(nat \<Rightarrow> nat \<Rightarrow> nat) \<Rightarrow> go_slice \<Rightarrow> 'e memory \<Rightarrow> go_slice \<times> 'e memory" where
  "clone_strings grow source h = append_slice grow strings_of Strings Nil_Slice (strings_at h source) h"

definition clone_header_table ::
  "(nat \<Rightarrow> nat \<Rightarrow> nat) \<Rightarrow> nat option \<Rightarrow> 'e memory \<Rightarrow> nat option \<times> 'e memory" where
  "clone_header_table grow source h =
     (case source of
        None \<Rightarrow> (None, h)
      | Some m \<Rightarrow> copy_table (clone_strings grow) (table_of (mem_cells h m)) h)"

text \<open>What a map shows, and the cells it consists of.\<close>

fun entries_of :: "'e memory \<Rightarrow> nat option \<Rightarrow> (string \<times> go_slice) list" where
  "entries_of h None = []"
| "entries_of h (Some m) = table_of (mem_cells h m)"

definition table_at :: "('e cell \<Rightarrow> 'a list) \<Rightarrow> 'e memory \<Rightarrow> nat option \<Rightarrow> (string \<times> 'a list) list" where
  "table_at of_cell h m = map (\<lambda>(name, vals). (name, elements of_cell h vals)) (entries_of h m)"

definition table_cells :: "'e memory \<Rightarrow> nat option \<Rightarrow> nat set" where
  "table_cells h m = set_option m \<union> (\<Union>(_, vals) \<in> set (entries_of h m). slice_cells vals)"

lemma table_cells_simps [simp]:
  "table_cells h None = {}"
  "table_cells h (Some m) = insert m (\<Union>(_, vals) \<in> set (table_of (mem_cells h m)). slice_cells vals)"
  by (simp_all add: table_cells_def)

definition table_ok :: "('e cell \<Rightarrow> 'a list) \<Rightarrow> 'e memory \<Rightarrow> nat option \<Rightarrow> bool" where
  "table_ok of_cell h m \<longleftrightarrow> set_option m \<subseteq> {..<mem_top h} \<and> distinct_keys (entries_of h m)
     \<and> (\<forall>(_, vals) \<in> set (entries_of h m). slice_ok of_cell h vals)"

lemma nil_table [simp]: "table_at of_cell h None = []" "table_ok of_cell h None"
  by (simp_all add: table_at_def table_ok_def)

abbreviation headers_at :: "'e memory \<Rightarrow> nat option \<Rightarrow> (string \<times> string list) list" where
  "headers_at \<equiv> table_at strings_of"

abbreviation headers_ok :: "'e memory \<Rightarrow> nat option \<Rightarrow> bool" where
  "headers_ok \<equiv> table_ok strings_of"

text \<open>Cells that refer to no other cell.\<close>

fun plain_cell :: "'e cell \<Rightarrow> bool" where
  "plain_cell (Table t) = False"
| "plain_cell (Structs es) = False"
| "plain_cell _ = True"

section \<open>What stays\<close>

text \<open>The cells in \<open>A\<close> are as before; cells are never given back.\<close>

definition agree :: "nat set \<Rightarrow> 'e memory \<Rightarrow> 'e memory \<Rightarrow> bool" where
  "agree A h h' \<longleftrightarrow> mem_top h \<le> mem_top h' \<and> (\<forall>a \<in> A. mem_cells h' a = mem_cells h a)"

definition fresh_cells :: "'e memory \<Rightarrow> 'e memory \<Rightarrow> nat set" where
  "fresh_cells h h' = {mem_top h..<mem_top h'}"

abbreviation extends :: "'e memory \<Rightarrow> 'e memory \<Rightarrow> bool" where
  "extends h h' \<equiv> agree {..<mem_top h} h h'"

lemma fresh_disjoint: "fresh_cells h h' \<inter> {..<mem_top h} = {}"
  by (auto simp: fresh_cells_def)

lemma agree_refl [simp]: "agree A h h"
  by (simp add: agree_def)

lemma agree_mono: "agree B h h' \<Longrightarrow> A \<subseteq> B \<Longrightarrow> agree A h h'"
  by (auto simp: agree_def)

lemma agree_trans: "agree A h1 h2 \<Longrightarrow> agree A h2 h3 \<Longrightarrow> agree A h1 h3"
  by (auto simp: agree_def)

lemma extends_trans: "extends h1 h2 \<Longrightarrow> extends h2 h3 \<Longrightarrow> extends h1 h3"
  by (auto simp: agree_def)

lemma agree_elements:
  assumes "agree A h h'" and "slice_cells s \<subseteq> A"
  shows "elements of_cell h' s = elements of_cell h s" and "slice_ok of_cell h s \<Longrightarrow> slice_ok of_cell h' s"
  using assms by (cases s; auto simp: agree_def)+

lemma agree_table:
  assumes "agree A h h'" and "table_cells h m \<subseteq> A"
  shows "table_at of_cell h' m = table_at of_cell h m" and "table_cells h' m = table_cells h m"
    and "table_ok of_cell h m \<Longrightarrow> table_ok of_cell h' m"
proof -
  have entries: "entries_of h' m = entries_of h m" using assms by (cases m) (auto simp: agree_def table_cells_def)
  have sub: "slice_cells s \<subseteq> A" if "(n, s) \<in> set (entries_of h m)" for n s
    using assms(2) that by (auto simp: table_cells_def)
  show "table_cells h' m = table_cells h m" by (simp add: table_cells_def entries)
  show "table_at of_cell h' m = table_at of_cell h m"
    using agree_elements(1) [OF assms(1) sub] by (auto simp: table_at_def entries)
  show "table_ok of_cell h m \<Longrightarrow> table_ok of_cell h' m"
    using agree_elements(2) [OF assms(1) sub] assms(1) by (fastforce simp: table_ok_def entries agree_def)
qed

lemma slice_from_props:
  assumes "slice_ok of_cell h s" and "k \<le> slice_len s"
  shows "elements of_cell h (slice_from k s) = drop k (elements of_cell h s)"
    and "slice_ok of_cell h (slice_from k s)" and "slice_cells (slice_from k s) = slice_cells s"
  using assms by (cases s; auto simp: drop_take add.commute)+

lemma length_elements: "slice_ok of_cell h s \<Longrightarrow> length (elements of_cell h s) = slice_len s"
  by (cases s) auto

lemma slice_ok_cells: "slice_ok of_cell h s \<Longrightarrow> slice_cells s \<subseteq> {..<mem_top h}"
  by (cases s) auto

lemma table_ok_cells: "table_ok of_cell h m \<Longrightarrow> table_cells h m \<subseteq> {..<mem_top h}"
  using slice_ok_cells [of of_cell h] by (fastforce simp: table_ok_def table_cells_def)

section \<open>The operations keep what is there\<close>

lemma allocate_extends: "allocate c h = (a, h') \<Longrightarrow> extends h h'"
  by (auto simp: allocate_def put_cell_def agree_def)

lemma allocate_simps:
  assumes "allocate c h = (a, h')"
  shows "a = mem_top h" "mem_cells h' = (mem_cells h)(a := c)" "mem_top h' = Suc (mem_top h)"
  using assms by (auto simp: allocate_def put_cell_def)

lemma put_cell_simps [simp]:
  "mem_cells (put_cell a c h) = (mem_cells h)(a := c)" "mem_top (put_cell a c h) = mem_top h"
  by (simp_all add: put_cell_def)

lemma overwrite_end [simp]: "overwrite (length xs) ys xs = xs @ ys"
  by (simp add: overwrite_def)

lemma overwrite_all [simp]: "length xs = length ys \<Longrightarrow> overwrite 0 xs ys = xs"
  by (simp add: overwrite_def)

text \<open>\<^verbatim>\<open>cloneBytes\<close> gives the same bytes in a cell of its own, and nil for nil.\<close>

lemma clone_bytes_props:
  assumes "clone_bytes s h = (s', h')" and "slice_ok bytes_of h s"
  shows "extends h h'" and "bytes_at h' s' = bytes_at h s" and "slice_ok bytes_of h' s'"
    and "slice_cells s' \<subseteq> fresh_cells h h'" and "s' = Nil_Slice \<longleftrightarrow> s = Nil_Slice"
    and "\<And>a. a \<in> fresh_cells h h' \<Longrightarrow> \<exists>b. mem_cells h' a = Bytes b"
  using assms
  by (auto simp: clone_bytes_def make_bytes_def copy_bytes_def allocate_def put_cell_def fresh_cells_def
      agree_def overwrite_def less_Suc_eq split: if_splits go_slice.splits prod.splits elim!: slice_ok.elims)

lemma agree_put_cell [simp]: "agree A h (put_cell a c h) \<longleftrightarrow> (a \<in> A \<longrightarrow> c = mem_cells h a)"
  by (auto simp: agree_def)

text \<open>\<^verbatim>\<open>append\<close> writes to the array of its slice or to a new one, and to nothing else.\<close>

lemma append_slice_props:
  assumes "append_slice grow of_cell to_cell s xs h = (s', h')" and "slice_ok of_cell h s"
    and "\<And>ys. of_cell (to_cell ys) = ys" and "xs \<noteq> []"
  shows "elements of_cell h' s' = elements of_cell h s @ xs" and "slice_ok of_cell h' s'"
    and "agree ({..<mem_top h} - slice_cells s) h h'"
    and "slice_cells s' \<subseteq> slice_cells s \<union> fresh_cells h h'"
proof -
  have "elements of_cell h' s' = elements of_cell h s @ xs \<and> slice_ok of_cell h' s'
    \<and> agree ({..<mem_top h} - slice_cells s) h h' \<and> slice_cells s' \<subseteq> slice_cells s \<union> fresh_cells h h'"
  proof (cases s)
    case Nil_Slice
    then show ?thesis using assms(1,3,4)
      by (auto simp: append_slice_def Let_def allocate_def agree_def fresh_cells_def)
  next
    case (Slice a off l c)
    show ?thesis
    proof (cases "l + length xs \<le> c")
      case True
      then show ?thesis using assms(1-3) by (auto simp: append_slice_def Let_def Slice overwrite_def take_drop add.commute)
    next
      case False
      then show ?thesis using assms(1-3)
        by (auto simp: append_slice_def Let_def Slice allocate_def agree_def fresh_cells_def)
    qed
  qed
  then show "elements of_cell h' s' = elements of_cell h s @ xs" and "slice_ok of_cell h' s'"
    and "agree ({..<mem_top h} - slice_cells s) h h'"
    and "slice_cells s' \<subseteq> slice_cells s \<union> fresh_cells h h'" by blast+
qed

lemma clone_strings_props:
  assumes "clone_strings grow s h = (s', h')"
  shows "extends h h'" and "strings_at h' s' = strings_at h s" and "slice_ok strings_of h' s'"
    and "slice_cells s' \<subseteq> fresh_cells h h'" and "\<And>a. a \<in> fresh_cells h h' \<Longrightarrow> plain_cell (mem_cells h' a)"
  using assms
  by (auto simp: clone_strings_def append_slice_def Let_def allocate_def put_cell_def fresh_cells_def agree_def
      less_Suc_eq split: if_splits)

lemma aput_new: "k \<notin> fst ` set t \<Longrightarrow> aput k v t = t @ [(k, v)]"
  by (induction t) auto

section \<open>Maps of slices\<close>

text \<open>
  A function that clones the values of a map: the same elements in cells of their own, which refer to nothing.
  Cloning the map with it gives the same map in cells of its own.
\<close>

locale value_clone =
  fixes of_cell :: "'e cell \<Rightarrow> 'a list" and clone :: "go_slice \<Rightarrow> 'e memory \<Rightarrow> go_slice \<times> 'e memory"
  assumes clone: "clone s h = (s', h') \<Longrightarrow> slice_ok of_cell h s \<Longrightarrow>
      extends h h' \<and> elements of_cell h' s' = elements of_cell h s \<and> slice_ok of_cell h' s'
      \<and> slice_cells s' \<subseteq> fresh_cells h h' \<and> (\<forall>a \<in> fresh_cells h h'. plain_cell (mem_cells h' a))"
begin

lemma fill_table_props:
  assumes "mem_cells h m = Table t" and "m < mem_top h" and "distinct_keys (t @ es)"
    and "\<forall>(_, vals) \<in> set es. slice_ok of_cell h vals \<and> m \<notin> slice_cells vals"
    and "h' = fill_table clone m es h"
  shows "agree ({..<mem_top h} - {m}) h h' \<and> (\<exists>es'. mem_cells h' m = Table (t @ es')
    \<and> map (\<lambda>(n, vals). (n, elements of_cell h' vals)) es' = map (\<lambda>(n, vals). (n, elements of_cell h vals)) es
    \<and> (\<forall>(_, vals) \<in> set es'. slice_ok of_cell h' vals \<and> slice_cells vals \<subseteq> fresh_cells h h'))
    \<and> (\<forall>a \<in> fresh_cells h h'. plain_cell (mem_cells h' a))"
  using assms
proof (induction es arbitrary: t h)
  case Nil
  then show ?case by (auto simp: fresh_cells_def)
next
  case (Cons e es)
  obtain n vals where e: "e = (n, vals)" by (cases e)
  obtain vals' h1 where app: "clone vals h = (vals', h1)" by (cases "clone vals h")
  have "slice_ok of_cell h vals" using Cons.prems(4) by (simp add: e)
  note new = clone [OF app this]
  from new have h1: "mem_top h \<le> mem_top h1" "\<And>a. a < mem_top h \<Longrightarrow> mem_cells h1 a = mem_cells h a"
    by (auto simp: agree_def)
  define h2 where "h2 = put_cell m (Table (t @ [(n, vals')])) h1"
  have table: "mem_cells h1 m = Table t" using Cons.prems(1,2) h1(2) by simp
  moreover have "aput n vals' t = t @ [(n, vals')]"
    using Cons.prems(3) by (intro aput_new) (auto simp: e)
  ultimately have h': "h' = fill_table clone m es h2"
    using Cons.prems(5) by (simp add: e app h2_def)
  have h2: "agree ({..<mem_top h} - {m}) h h2"
    using h1 by (auto simp: agree_def h2_def)
  have old: "slice_ok of_cell h2 s \<and> elements of_cell h2 s = elements of_cell h s \<and> m \<notin> slice_cells s"
    if "(k, s) \<in> set es" for k s
  proof -
    have s: "slice_ok of_cell h s" "m \<notin> slice_cells s" using Cons.prems(4) that by auto
    then have "slice_cells s \<subseteq> {..<mem_top h} - {m}" using slice_ok_cells [OF s(1)] by auto
    from agree_elements [OF h2 this] s show ?thesis by auto
  qed
  have fresh_vals: "slice_cells vals' \<subseteq> {..<mem_top h2} - {m}"
    using new Cons.prems(2) by (auto simp: fresh_cells_def h2_def)
  have "m < mem_top h2" using Cons.prems(2) h1(1) by (simp add: h2_def)
  then have IH: "agree ({..<mem_top h2} - {m}) h2 h' \<and> (\<exists>es'. mem_cells h' m = Table ((t @ [(n, vals')]) @ es')
    \<and> map (\<lambda>(n, vals). (n, elements of_cell h' vals)) es' = map (\<lambda>(n, vals). (n, elements of_cell h2 vals)) es
    \<and> (\<forall>(_, vals) \<in> set es'. slice_ok of_cell h' vals \<and> slice_cells vals \<subseteq> fresh_cells h2 h'))
    \<and> (\<forall>a \<in> fresh_cells h2 h'. plain_cell (mem_cells h' a))"
    using Cons.prems(3) old h' by (intro Cons.IH) (auto simp: h2_def e)
  then have agree2: "agree ({..<mem_top h2} - {m}) h2 h'" by blast
  then have "mem_top h2 \<le> mem_top h'" by (simp add: agree_def)
  with h1(1) have tops: "fresh_cells h2 h' \<subseteq> fresh_cells h h'" "fresh_cells h h1 \<subseteq> fresh_cells h h'"
    "fresh_cells h h' = fresh_cells h h1 \<union> fresh_cells h2 h'"
    by (auto simp: fresh_cells_def h2_def)
  have h1_h2: "agree (- {m}) h1 h2" by (simp add: agree_def h2_def)
  have "elements of_cell h' vals' = elements of_cell h2 vals'" "slice_ok of_cell h2 vals' \<Longrightarrow> slice_ok of_cell h' vals'"
    by (rule agree_elements [OF agree2 fresh_vals])+
  moreover have "slice_cells vals' \<subseteq> - {m}" using fresh_vals by blast
  note agree_elements [OF h1_h2 this, of of_cell]
  ultimately have vals': "elements of_cell h' vals' = elements of_cell h vals" "slice_ok of_cell h' vals'"
    using new by auto
  from IH obtain es' where es': "mem_cells h' m = Table (t @ (n, vals') # es')"
    "map (\<lambda>(n, vals). (n, elements of_cell h' vals)) es' = map (\<lambda>(n, vals). (n, elements of_cell h2 vals)) es"
    "\<forall>(_, vals) \<in> set es'. slice_ok of_cell h' vals \<and> slice_cells vals \<subseteq> fresh_cells h2 h'"
    "\<forall>a \<in> fresh_cells h2 h'. plain_cell (mem_cells h' a)"
    by auto
  have "agree ({..<mem_top h} - {m}) h h'"
    by (rule agree_trans [OF h2 agree_mono [OF agree2]]) (use h1(1) in \<open>auto simp: h2_def\<close>)
  moreover have "map (\<lambda>(n, vals). (n, elements of_cell h2 vals)) es = map (\<lambda>(n, vals). (n, elements of_cell h vals)) es"
    using old by (intro map_cong) auto
  moreover have "plain_cell (mem_cells h' a)" if a: "a \<in> fresh_cells h h1" for a
  proof -
    from a Cons.prems(2) have a2: "a \<in> {..<mem_top h2} - {m}" by (auto simp: fresh_cells_def h2_def)
    with agree2 have "mem_cells h' a = mem_cells h2 a" by (auto simp: agree_def)
    also have "\<dots> = mem_cells h1 a" using a2 by (simp add: h2_def)
    finally show ?thesis using new a by simp
  qed
  ultimately show ?case
    using es' vals' new tops by (auto simp: e intro!: exI [of _ "(n, vals') # es'"])
qed

lemma copy_table_props:
  assumes "copy_table clone (entries_of h source) h = (m', h')" and "table_ok of_cell h source"
  shows "extends h h'" and "table_at of_cell h' m' = table_at of_cell h source" and "table_ok of_cell h' m'"
    and "table_cells h' m' \<subseteq> fresh_cells h h'" and "\<exists>a t. m' = Some a \<and> mem_cells h' a = Table t"
    and "\<And>a. a \<in> fresh_cells h h' \<Longrightarrow> plain_cell (mem_cells h' a) \<or> (m' = Some a \<and> (\<exists>t. mem_cells h' a = Table t))"
proof -
  let ?es = "entries_of h source"
  obtain a h1 where alloc: "allocate (Table []) h = (a, h1)" by (cases "allocate (Table []) h")
  note new = allocate_simps [OF alloc]
  have h': "h' = fill_table clone a ?es h1" and m': "m' = Some a"
    using assms(1) by (simp_all add: copy_table_def alloc)
  have ext: "extends h h1" by (rule allocate_extends [OF alloc])
  have old: "slice_ok of_cell h1 s \<and> elements of_cell h1 s = elements of_cell h s \<and> a \<notin> slice_cells s"
    if "(n, s) \<in> set ?es" for n s
  proof -
    have ok: "slice_ok of_cell h s" using assms(2) that by (auto simp: table_ok_def)
    with new(1) show ?thesis
      using agree_elements [OF ext slice_ok_cells [OF ok], of of_cell] slice_ok_cells [OF ok] by auto
  qed
  have "mem_cells h1 a = Table []" "a < mem_top h1" "distinct_keys ([] @ ?es)"
    "\<forall>(_, vals) \<in> set ?es. slice_ok of_cell h1 vals \<and> a \<notin> slice_cells vals"
    using new old assms(2) by (auto simp: table_ok_def)
  from fill_table_props [OF this h'] obtain es' where agree: "agree ({..<mem_top h1} - {a}) h1 h'"
    and es': "mem_cells h' a = Table es'"
      "map (\<lambda>(n, vals). (n, elements of_cell h' vals)) es' = map (\<lambda>(n, vals). (n, elements of_cell h1 vals)) ?es"
      "\<forall>(_, vals) \<in> set es'. slice_ok of_cell h' vals \<and> slice_cells vals \<subseteq> fresh_cells h1 h'"
    and fresh: "\<forall>a \<in> fresh_cells h1 h'. plain_cell (mem_cells h' a)"
    by auto
  have tops: "mem_top h1 \<le> mem_top h'" "fresh_cells h h' = insert a (fresh_cells h1 h')"
    using agree new by (auto simp: agree_def fresh_cells_def)
  show "extends h h'" by (rule agree_trans [OF ext agree_mono [OF agree]]) (auto simp: new)
  have "map (\<lambda>(n, vals). (n, elements of_cell h1 vals)) ?es = map (\<lambda>(n, vals). (n, elements of_cell h vals)) ?es"
    using old by (intro map_cong) auto
  then show "table_at of_cell h' m' = table_at of_cell h source" using es' by (simp add: table_at_def m')
  have "map fst es' = map fst ?es"
    using arg_cong [OF es'(2), of "map fst"] by (simp add: comp_def case_prod_unfold)
  then have "distinct_keys es'" using assms(2) by (simp add: table_ok_def)
  then show "table_ok of_cell h' m'" using es' tops new by (auto simp: table_ok_def m')
  show "table_cells h' m' \<subseteq> fresh_cells h h'" using es' tops new by (auto simp: table_cells_def m' fresh_cells_def)
  show "\<exists>a t. m' = Some a \<and> mem_cells h' a = Table t" using es'(1) by (simp add: m')
  show "plain_cell (mem_cells h' b) \<or> (m' = Some b \<and> (\<exists>t. mem_cells h' b = Table t))" if "b \<in> fresh_cells h h'" for b
    using that fresh es'(1) tops by (auto simp: m')
qed

end

interpretation byte_values: value_clone bytes_of clone_bytes
  by unfold_locales (use clone_bytes_props in \<open>metis plain_cell.simps(4)\<close>)

interpretation string_values: value_clone strings_of "clone_strings grow" for grow
  by unfold_locales (intro conjI ballI; rule clone_strings_props)

text \<open>\<^verbatim>\<open>cloneHeaders\<close> gives the same headers in cells of their own, and nil for nil.\<close>

lemma clone_header_table_props:
  assumes "clone_header_table grow source h = (m', h')" and "headers_ok h source"
  shows "extends h h'" and "headers_at h' m' = headers_at h source" and "headers_ok h' m'"
    and "table_cells h' m' \<subseteq> fresh_cells h h'" and "m' = None \<longleftrightarrow> source = None"
    and "\<And>a. a \<in> fresh_cells h h' \<Longrightarrow> plain_cell (mem_cells h' a) \<or> (m' = Some a \<and> (\<exists>t. mem_cells h' a = Table t))"
proof -
  have "extends h h' \<and> headers_at h' m' = headers_at h source \<and> headers_ok h' m'
    \<and> table_cells h' m' \<subseteq> fresh_cells h h' \<and> (m' = None \<longleftrightarrow> source = None)
    \<and> (\<forall>a \<in> fresh_cells h h'. plain_cell (mem_cells h' a) \<or> (m' = Some a \<and> (\<exists>t. mem_cells h' a = Table t)))"
  proof (cases source)
    case None
    then show ?thesis using assms by (auto simp: clone_header_table_def fresh_cells_def table_cells_def)
  next
    case (Some m)
    then have "copy_table (clone_strings grow) (entries_of h source) h = (m', h')"
      using assms(1) by (simp add: clone_header_table_def)
    from string_values.copy_table_props [OF this assms(2)] show ?thesis by (auto simp: Some)
  qed
  then show "extends h h'" and "headers_at h' m' = headers_at h source" and "headers_ok h' m'"
    and "table_cells h' m' \<subseteq> fresh_cells h h'" and "m' = None \<longleftrightarrow> source = None"
    and "\<And>a. a \<in> fresh_cells h h' \<Longrightarrow> plain_cell (mem_cells h' a) \<or> (m' = Some a \<and> (\<exists>t. mem_cells h' a = Table t))"
    by blast+
qed

end
