(* ===== verification/Private_Memory.thy ===== *)
theory Private_Memory
  imports Go_Memory
begin

text \<open>
  Components whose operations copy what they take and what they give. A caller can write to every cell it can
  reach from what it made itself and from what it got, at any time between two calls; the locale
  \<open>private_memory\<close> says what an operation must do so that the callers still see a component without
  references, described by a function on values.
\<close>

section \<open>What can be reached\<close>

fun cell_refs :: "('e \<Rightarrow> nat set) \<Rightarrow> 'e cell \<Rightarrow> nat set" where
  "cell_refs refs (Table t) = (\<Union>(_, vals) \<in> set t. slice_cells vals)"
| "cell_refs refs (Structs es) = (\<Union>e \<in> set es. refs e)"
| "cell_refs refs _ = {}"

lemma plain_cell_refs [simp]: "plain_cell c \<Longrightarrow> cell_refs refs c = {}"
  by (cases c) auto

inductive_set reach :: "('e \<Rightarrow> nat set) \<Rightarrow> 'e memory \<Rightarrow> nat set \<Rightarrow> nat set"
  for refs :: "'e \<Rightarrow> nat set" and h :: "'e memory" and R :: "nat set" where
  root: "a \<in> R \<Longrightarrow> a \<in> reach refs h R"
| link: "a \<in> reach refs h R \<Longrightarrow> b \<in> cell_refs refs (mem_cells h a) \<Longrightarrow> b \<in> reach refs h R"

definition closed_cells :: "('e \<Rightarrow> nat set) \<Rightarrow> 'e memory \<Rightarrow> nat set \<Rightarrow> bool" where
  "closed_cells refs h K \<longleftrightarrow> K \<subseteq> {..<mem_top h} \<and> (\<forall>a \<in> K. cell_refs refs (mem_cells h a) \<subseteq> K)"

lemma reach_least:
  assumes "R \<subseteq> C" and "\<And>a. a \<in> C \<Longrightarrow> cell_refs refs (mem_cells h a) \<subseteq> C"
  shows "reach refs h R \<subseteq> C"
proof
  fix a
  assume "a \<in> reach refs h R"
  then show "a \<in> C" by induction (use assms in blast)+
qed

lemma reach_empty [simp]: "reach refs h {} = {}"
  using reach_least [of "{}" "{}" refs h] by simp

lemma reach_links: "a \<in> reach refs h R \<Longrightarrow> cell_refs refs (mem_cells h a) \<subseteq> reach refs h R"
  by (auto intro: reach.link)

section \<open>Callers\<close>

text \<open>
  The operations of a component: \<open>ma_call\<close> runs one on the memory and the component's state, \<open>ma_given\<close> and
  \<open>ma_got\<close> are the cells that its arguments and its result refer to, \<open>ma_meaning\<close> and \<open>ma_answer\<close> the values they
  stand for, and \<open>ma_fits\<close> says that the arguments are references of their Go types.
\<close>

record ('e, 's, 'c, 'r, 'm, 'a) memory_api =
  ma_refs :: "'e \<Rightarrow> nat set"
  ma_call :: "'c \<Rightarrow> 'e memory \<Rightarrow> 's \<Rightarrow> 'r \<times> 's \<times> 'e memory"
  ma_fits :: "'e memory \<Rightarrow> 'c \<Rightarrow> bool"
  ma_given :: "'c \<Rightarrow> nat set"
  ma_got :: "'r \<Rightarrow> nat set"
  ma_meaning :: "'e memory \<Rightarrow> 'c \<Rightarrow> 'm"
  ma_answer :: "'e memory \<Rightarrow> 'r \<Rightarrow> 'a"

text \<open>
  A run: the memory, the component's state, and the cells \<open>K\<close> the callers can reach. They write to these as they
  like and make new ones; a call hands over some of them, and what its result reaches becomes theirs. The
  trace has the values of the arguments at the call and of the result at the return.
\<close>

inductive memory_run ::
  "('e, 's, 'c, 'r, 'm, 'a) memory_api \<Rightarrow> 'e memory \<times> 's \<times> nat set \<Rightarrow> ('m \<times> 'a) list
    \<Rightarrow> 'e memory \<times> 's \<times> nat set \<Rightarrow> bool"
  for I :: "('e, 's, 'c, 'r, 'm, 'a) memory_api" and x :: "'e memory \<times> 's \<times> nat set" where
  quiet: "memory_run I x [] x"
| client: "memory_run I x tr (h, s, K) \<Longrightarrow> agree ({..<mem_top h} - K) h h'
    \<Longrightarrow> closed_cells (ma_refs I) h' (K \<union> fresh_cells h h')
    \<Longrightarrow> memory_run I x tr (h', s, K \<union> fresh_cells h h')"
| call: "memory_run I x tr (h, s, K) \<Longrightarrow> ma_given I c \<subseteq> K \<Longrightarrow> ma_fits I h c \<Longrightarrow> ma_call I c h s = (r, s', h')
    \<Longrightarrow> memory_run I x (tr @ [(ma_meaning I h c, ma_answer I h' r)])
          (h', s', K \<union> reach (ma_refs I) h' (ma_got I r))"

text \<open>A trace of a component without references.\<close>

fun follows :: "('m \<Rightarrow> 'v \<Rightarrow> 'a \<times> 'v) \<Rightarrow> 'v \<Rightarrow> ('m \<times> 'a) list \<Rightarrow> 'v \<Rightarrow> bool" where
  "follows spec v [] v' \<longleftrightarrow> v = v'"
| "follows spec v ((m, a) # tr) v' \<longleftrightarrow> fst (spec m v) = a \<and> follows spec (snd (spec m v)) tr v'"

lemma follows_snoc:
  "follows spec v tr v1 \<Longrightarrow> spec m v1 = (a, v2) \<Longrightarrow> follows spec v (tr @ [(m, a)]) v2"
  by (induction spec v tr v1 rule: follows.induct) auto

section \<open>The contract\<close>

locale private_memory =
  fixes I :: "('e, 's, 'c, 'r, 'm, 'a) memory_api"
    and sound :: "'e memory \<Rightarrow> 's \<Rightarrow> bool"
    and owned :: "'e memory \<Rightarrow> 's \<Rightarrow> nat set"
    and view :: "'e memory \<Rightarrow> 's \<Rightarrow> 'v"
    and spec :: "'m \<Rightarrow> 'v \<Rightarrow> 'a \<times> 'v"
  assumes frame: "sound h s \<Longrightarrow> agree (owned h s) h h'
      \<Longrightarrow> sound h' s \<and> owned h' s = owned h s \<and> view h' s = view h s"
    and owned_below: "sound h s \<Longrightarrow> owned h s \<subseteq> {..<mem_top h}"
    and call_meets: "sound h s \<Longrightarrow> ma_fits I h c \<Longrightarrow> ma_call I c h s = (r, s', h')
      \<Longrightarrow> sound h' s' \<and> spec (ma_meaning I h c) (view h s) = (ma_answer I h' r, view h' s')"
    and call_writes: "sound h s \<Longrightarrow> ma_fits I h c \<Longrightarrow> ma_call I c h s = (r, s', h')
      \<Longrightarrow> agree ({..<mem_top h} - owned h s) h h' \<and> owned h' s' \<subseteq> owned h s \<union> fresh_cells h h'"
    and call_gives: "sound h s \<Longrightarrow> ma_fits I h c \<Longrightarrow> ma_call I c h s = (r, s', h')
      \<Longrightarrow> reach (ma_refs I) h' (ma_got I r) \<subseteq> fresh_cells h h' - owned h' s'"
begin

definition apart :: "'e memory \<times> 's \<times> nat set \<Rightarrow> bool" where
  "apart x \<longleftrightarrow> (case x of (h, s, K) \<Rightarrow> sound h s \<and> closed_cells (ma_refs I) h K \<and> K \<inter> owned h s = {})"

lemma apart_call:
  assumes "apart (h, s, K)" and "ma_fits I h c" and call: "ma_call I c h s = (r, s', h')"
  shows "apart (h', s', K \<union> reach (ma_refs I) h' (ma_got I r))"
proof -
  have s: "sound h s" and K: "K \<subseteq> {..<mem_top h}" "\<And>a. a \<in> K \<Longrightarrow> cell_refs (ma_refs I) (mem_cells h a) \<subseteq> K"
    and disj: "K \<inter> owned h s = {}"
    using assms(1) by (auto simp: apart_def closed_cells_def)
  note writes = call_writes [OF s assms(2) call] and gives = call_gives [OF s assms(2) call]
  let ?R = "reach (ma_refs I) h' (ma_got I r)" and ?F = "fresh_cells h h' - owned h' s'"
  have R: "?R \<subseteq> ?F" by (rule gives)
  have same: "mem_cells h' a = mem_cells h a" if "a \<in> K" for a
    using writes that K(1) disj by (auto simp: agree_def)
  have tops: "mem_top h \<le> mem_top h'" using writes by (simp add: agree_def)
  have "K \<union> ?R \<subseteq> {..<mem_top h'}" using K(1) tops R by (auto simp: fresh_cells_def)
  moreover have "cell_refs (ma_refs I) (mem_cells h' a) \<subseteq> K \<union> ?R" if "a \<in> K \<union> ?R" for a
  proof (cases "a \<in> K")
    case True
    with K(2) [OF True] same [OF True] show ?thesis by auto
  next
    case False
    with that show ?thesis using reach_links [of a "ma_refs I" h' "ma_got I r"] by auto
  qed
  moreover have "K \<inter> fresh_cells h h' = {}" using K(1) by (auto simp: fresh_cells_def)
  then have "(K \<union> ?R) \<inter> owned h' s' = {}" using disj writes R by auto
  ultimately show ?thesis
    using call_meets [OF s assms(2) call] by (auto simp: apart_def closed_cells_def)
qed

lemma apart_client:
  assumes "apart (h, s, K)" and "agree ({..<mem_top h} - K) h h'"
    and "closed_cells (ma_refs I) h' (K \<union> fresh_cells h h')"
  shows "apart (h', s, K \<union> fresh_cells h h')" and "view h' s = view h s"
proof -
  have s: "sound h s" and disj: "K \<inter> owned h s = {}" using assms(1) by (auto simp: apart_def)
  have own: "owned h s \<subseteq> {..<mem_top h}" by (rule owned_below [OF s])
  with disj have "agree (owned h s) h h'" by (intro agree_mono [OF assms(2)]) auto
  note same = frame [OF s this]
  then show "view h' s = view h s" by simp
  from same own disj assms(3) show "apart (h', s, K \<union> fresh_cells h h')"
    by (auto simp: apart_def fresh_cells_def)
qed

text \<open>Whatever the callers do with the cells they reach, every result is that of the description on values.\<close>

theorem run_follows:
  assumes "memory_run I (h, s, K) tr (h', s', K')" and "apart (h, s, K)"
  shows "follows spec (view h s) tr (view h' s') \<and> apart (h', s', K')"
  using assms
proof (induction "(h', s', K')" arbitrary: h' s' K' rule: memory_run.induct)
  case (client tr h1 s1 K1 h2)
  then show ?case using apart_client [of h1 s1 K1 h2] by simp
next
  case (call tr h1 s1 K1 c r s2 h2)
  then have IH: "follows spec (view h s) tr (view h1 s1)" "apart (h1, s1, K1)" by simp_all
  moreover have "sound h1 s1" using IH(2) by (simp add: apart_def)
  ultimately show ?case
    using call_meets [of h1 s1 c r s2 h2] apart_call [of h1 s1 K1 c r s2 h2] call.hyps follows_snoc by fastforce
qed simp

end

end
