(* ===== verification/File_Memory.thy ===== *)
theory File_Memory
  imports Private_Memory Response_Render
begin

text \<open>
  The store of \<^verbatim>\<open>internal/files/store.go\<close> over Go's memory: a map to slices, which \<^verbatim>\<open>Put\<close> and \<^verbatim>\<open>Get\<close> clone.
  \<open>Response_Render\<close> has the same store over values; the interpretation of \<open>private_memory\<close> relates the two.
\<close>

section \<open>Body files\<close>

type_synonym file_table = "string \<Rightarrow> go_slice option"

datatype 'b file_call = Put_File string 'b | Get_File string

definition memory_put :: "string \<Rightarrow> go_slice \<Rightarrow> 'e memory \<Rightarrow> file_table \<Rightarrow> file_table \<times> 'e memory" where
  "memory_put name data h s = (case clone_bytes data h of (clone, h') \<Rightarrow> (s(name \<mapsto> clone), h'))"

definition memory_get :: "string \<Rightarrow> 'e memory \<Rightarrow> file_table \<Rightarrow> go_slice option \<times> 'e memory" where
  "memory_get name h s =
     (case s name of
        None \<Rightarrow> (None, h)
      | Some data \<Rightarrow> (case clone_bytes data h of (clone, h') \<Rightarrow> (Some clone, h')))"

fun run_file_call :: "go_slice file_call \<Rightarrow> 'e memory \<Rightarrow> file_table \<Rightarrow> go_slice option \<times> file_table \<times> 'e memory" where
  "run_file_call (Put_File name data) h s = (None, memory_put name data h s)"
| "run_file_call (Get_File name) h s = (case memory_get name h s of (found, h') \<Rightarrow> (found, s, h'))"

fun file_spec :: "string file_call \<Rightarrow> memory_store \<Rightarrow> string option \<times> memory_store" where
  "file_spec (Put_File name data) v = (None, file_put name data v)"
| "file_spec (Get_File name) v = (file_get v name, v)"

definition file_api ::
  "(unit, file_table, go_slice file_call, go_slice option, string file_call, string option) memory_api" where
  "file_api = \<lparr>ma_refs = (\<lambda>_. {}), ma_call = run_file_call,
     ma_fits = (\<lambda>h c. pred_file_call (slice_ok bytes_of h) c),
     ma_given = (\<lambda>c. \<Union>(slice_cells ` set_file_call c)),
     ma_got = (\<lambda>r. \<Union>(slice_cells ` set_option r)),
     ma_meaning = (\<lambda>h. map_file_call (bytes_at h)),
     ma_answer = (\<lambda>h. map_option (bytes_at h))\<rparr>"

lemma file_api_simps [simp]:
  "ma_refs file_api = (\<lambda>_. {})" "ma_call file_api = run_file_call"
  "ma_fits file_api h c = pred_file_call (slice_ok bytes_of h) c"
  "ma_given file_api c = \<Union>(slice_cells ` set_file_call c)"
  "ma_got file_api r = \<Union>(slice_cells ` set_option r)"
  "ma_meaning file_api h = map_file_call (bytes_at h)" "ma_answer file_api h = map_option (bytes_at h)"
  by (simp_all add: file_api_def)

definition files_sound :: "'e memory \<Rightarrow> file_table \<Rightarrow> bool" where
  "files_sound h s \<longleftrightarrow> (\<forall>name data. s name = Some data \<longrightarrow> slice_ok bytes_of h data)"

definition files_owned :: "file_table \<Rightarrow> nat set" where
  "files_owned s = \<Union>(slice_cells ` ran s)"

definition files_view :: "'e memory \<Rightarrow> file_table \<Rightarrow> memory_store" where
  "files_view h s = (\<lambda>name. map_option (bytes_at h) (s name))"

lemma files_frame:
  assumes "files_sound h s" and "agree (files_owned s) h h'"
  shows "files_sound h' s \<and> files_view h' s = files_view h s"
proof -
  have "bytes_at h' d = bytes_at h d \<and> slice_ok bytes_of h' d" if "s n = Some d" for n d
  proof -
    have "slice_cells d \<subseteq> files_owned s" using that by (auto simp: files_owned_def ran_def)
    from agree_elements [OF assms(2) this, of bytes_of] assms(1) that show ?thesis
      by (auto simp: files_sound_def)
  qed
  then show ?thesis by (auto simp: files_sound_def files_view_def map_option_case split: option.splits)
qed

lemma files_below: "files_sound h s \<Longrightarrow> files_owned s \<subseteq> {..<mem_top h}"
  using slice_ok_cells [of bytes_of h] by (fastforce simp: files_sound_def files_owned_def ran_def)

text \<open>A clone neither touches nor shares a cell of the store.\<close>

lemma clone_keeps_files:
  assumes "files_sound h s" and "slice_ok bytes_of h d" and "clone_bytes d h = (d', h')"
  shows "files_sound h' s" and "files_view h' s = files_view h s" and "agree ({..<mem_top h} - files_owned s) h h'"
    and "slice_cells d' \<inter> files_owned s = {}" and "\<And>a. a \<in> fresh_cells h h' \<Longrightarrow> cell_refs (\<lambda>_. {}) (mem_cells h' a) = {}"
proof -
  note clone = clone_bytes_props [OF assms(3,2)]
  note below = files_below [OF assms(1)]
  show "files_sound h' s" "files_view h' s = files_view h s"
    using files_frame [OF assms(1) agree_mono [OF clone(1) below]] by simp_all
  show "agree ({..<mem_top h} - files_owned s) h h'" by (rule agree_mono [OF clone(1)]) blast
  show "slice_cells d' \<inter> files_owned s = {}" using clone(4) below fresh_disjoint [of h h'] by blast
  show "cell_refs (\<lambda>_. {}) (mem_cells h' a) = {}" if "a \<in> fresh_cells h h'" for a
    using clone(6) [OF that] by auto
qed

interpretation file_memory: private_memory file_api files_sound "\<lambda>_. files_owned" files_view file_spec
proof unfold_locales
  fix h h' :: "unit memory" and s s' c r
  assume s: "files_sound h s"
  show "agree (files_owned s) h h' \<Longrightarrow>
      files_sound h' s \<and> files_owned s = files_owned s \<and> files_view h' s = files_view h s"
    using files_frame [OF s] by blast
  show "files_owned s \<subseteq> {..<mem_top h}" by (rule files_below [OF s])
  assume fits: "ma_fits file_api h c" and call: "ma_call file_api c h s = (r, s', h')"
  have all: "files_sound h' s' \<and> file_spec (ma_meaning file_api h c) (files_view h s) = (ma_answer file_api h' r, files_view h' s')
    \<and> agree ({..<mem_top h} - files_owned s) h h' \<and> files_owned s' \<subseteq> files_owned s \<union> fresh_cells h h'
    \<and> ma_got file_api r \<subseteq> fresh_cells h h' - files_owned s'
    \<and> (\<forall>a \<in> fresh_cells h h'. cell_refs (\<lambda>_. {}) (mem_cells h' a) = {})"
  proof (cases c)
    case (Put_File name data)
    obtain d where d: "clone_bytes data h = (d, h')" "s' = s(name \<mapsto> d)" "r = None"
      using call by (auto simp: Put_File memory_put_def split: prod.splits)
    have data: "slice_ok bytes_of h data" using fits by (simp add: Put_File)
    note clone = clone_bytes_props [OF d(1) data] and keeps = clone_keeps_files [OF s data d(1)]
    show ?thesis
      using keeps clone(2-4) by (auto simp: Put_File d(2,3) files_sound_def files_view_def file_put_def
          files_owned_def ran_def fun_eq_iff split: if_splits)
  next
    case (Get_File name)
    show ?thesis
    proof (cases "s name")
      case None
      then show ?thesis using call s by (auto simp: Get_File memory_get_def files_view_def file_get_def fresh_cells_def)
    next
      case (Some data)
      then obtain d where d: "clone_bytes data h = (d, h')" "s' = s" "r = Some d"
        using call by (auto simp: Get_File memory_get_def split: prod.splits)
      have data: "slice_ok bytes_of h data" using s Some by (auto simp: files_sound_def)
      note clone = clone_bytes_props [OF d(1) data] and keeps = clone_keeps_files [OF s data d(1)]
      show ?thesis
        using keeps clone(2,4) by (auto simp: Get_File Some d(2,3) file_get_def) (simp add: files_view_def Some)
    qed
  qed
  from all show "files_sound h' s' \<and> file_spec (ma_meaning file_api h c) (files_view h s)
      = (ma_answer file_api h' r, files_view h' s')"
    and "agree ({..<mem_top h} - files_owned s) h h' \<and> files_owned s' \<subseteq> files_owned s \<union> fresh_cells h h'"
    using all by simp_all
  show "reach (ma_refs file_api) h' (ma_got file_api r) \<subseteq> fresh_cells h h' - files_owned s'"
    by (rule reach_least) (use all in auto)
qed

end
