(* ===== verification/Struct_Memory.thy ===== *)
theory Struct_Memory
  imports Private_Memory
begin

text \<open>
  Cloning a slice of structs: the loop fills a new array with clones of the elements. The locale \<open>struct_clone\<close> says
  what the clone of one element must be.
\<close>

text \<open>Memory that only refers to itself, as the clones are.\<close>

definition closed_fresh :: "('e \<Rightarrow> nat set) \<Rightarrow> 'e memory \<Rightarrow> 'e memory \<Rightarrow> bool" where
  "closed_fresh refs h h' \<longleftrightarrow> (\<forall>a \<in> fresh_cells h h'. cell_refs refs (mem_cells h' a) \<subseteq> fresh_cells h h')"

lemma closed_fresh_trans:
  assumes "closed_fresh refs h1 h2" and "closed_fresh refs h2 h3" and "extends h2 h3" and "mem_top h1 \<le> mem_top h2"
  shows "closed_fresh refs h1 h3"
  unfolding closed_fresh_def
proof
  fix a
  assume a: "a \<in> fresh_cells h1 h3"
  have tops: "fresh_cells h1 h3 = fresh_cells h1 h2 \<union> fresh_cells h2 h3"
    using assms(3,4) by (auto simp: fresh_cells_def agree_def)
  show "cell_refs refs (mem_cells h3 a) \<subseteq> fresh_cells h1 h3"
  proof (cases "a \<in> fresh_cells h1 h2")
    case True
    then have "mem_cells h3 a = mem_cells h2 a" using assms(3) by (auto simp: agree_def fresh_cells_def)
    then show ?thesis using assms(1) True tops by (auto simp: closed_fresh_def)
  next
    case False
    then show ?thesis using assms(2) a tops by (auto simp: closed_fresh_def)
  qed
qed

lemma clone_bytes_closed:
  assumes "clone_bytes s h = (s', h')" and "slice_ok bytes_of h s"
  shows "closed_fresh refs h h'"
  using clone_bytes_props(6) [OF assms] by (fastforce simp: closed_fresh_def)

text \<open>New cells that are plain or the one map that refers to them.\<close>

lemma table_closed:
  assumes "\<And>a. a \<in> fresh_cells h h' \<Longrightarrow> plain_cell (mem_cells h' a) \<or> (m' = Some a \<and> (\<exists>t. mem_cells h' a = Table t))"
    and "table_cells h' m' \<subseteq> fresh_cells h h'"
  shows "closed_fresh refs h h'"
  unfolding closed_fresh_def
proof
  fix a
  assume "a \<in> fresh_cells h h'"
  with assms(1) consider "plain_cell (mem_cells h' a)" | t where "m' = Some a" "mem_cells h' a = Table t" by blast
  then show "cell_refs refs (mem_cells h' a) \<subseteq> fresh_cells h h'"
  proof cases
    case 2
    then show ?thesis using assms(2) by simp
  qed simp
qed

lemma clone_header_table_closed:
  assumes "clone_header_table grow s h = (m', h')" and "headers_ok h s"
  shows "closed_fresh refs h h'"
  using table_closed [OF clone_header_table_props(6) [OF assms] clone_header_table_props(4) [OF assms]] .

section \<open>Clones of parts\<close>

text \<open>
  A part of a struct: a reference, the value it stands for, the cells it consists of. Its clone stands for the same
  value in cells of its own.
\<close>

locale part_clone =
  fixes refs :: "'e \<Rightarrow> nat set" and view :: "'e memory \<Rightarrow> 'p \<Rightarrow> 'v" and cells :: "'e memory \<Rightarrow> 'p \<Rightarrow> nat set"
    and ok :: "'e memory \<Rightarrow> 'p \<Rightarrow> bool" and clone :: "'p \<Rightarrow> 'e memory \<Rightarrow> 'p \<times> 'e memory"
  assumes frame: "agree A h h' \<Longrightarrow> cells h e \<subseteq> A
      \<Longrightarrow> view h' e = view h e \<and> cells h' e = cells h e \<and> (ok h e \<longrightarrow> ok h' e)"
    and ok_below: "ok h e \<Longrightarrow> cells h e \<subseteq> {..<mem_top h}"
    and cloned: "clone e h = (e', h') \<Longrightarrow> ok h e \<Longrightarrow> extends h h' \<and> view h' e' = view h e \<and> ok h' e'
      \<and> cells h' e' \<subseteq> fresh_cells h h' \<and> closed_fresh refs h h'"
begin

lemma framed:
  assumes "agree A h h'" and "cells h e \<subseteq> A"
  shows "view h' e = view h e" and "cells h' e = cells h e" and "ok h e \<Longrightarrow> ok h' e"
  using frame [OF assms] by blast+

lemma clone_props:
  assumes "clone e h = (e', h')" and "ok h e"
  shows "extends h h'" and "view h' e' = view h e" and "ok h' e'"
    and "cells h' e' \<subseteq> fresh_cells h h'" and "closed_fresh refs h h'"
  using cloned [OF assms] by blast+

end

text \<open>Two parts, cloned one after the other.\<close>

definition pair_view :: "('h \<Rightarrow> 'p \<Rightarrow> 'v) \<Rightarrow> ('h \<Rightarrow> 'q \<Rightarrow> 'w) \<Rightarrow> 'h \<Rightarrow> 'p \<times> 'q \<Rightarrow> 'v \<times> 'w" where
  "pair_view v w h x = (v h (fst x), w h (snd x))"

definition pair_cells :: "('h \<Rightarrow> 'p \<Rightarrow> nat set) \<Rightarrow> ('h \<Rightarrow> 'q \<Rightarrow> nat set) \<Rightarrow> 'h \<Rightarrow> 'p \<times> 'q \<Rightarrow> nat set" where
  "pair_cells c d h x = c h (fst x) \<union> d h (snd x)"

definition pair_ok :: "('h \<Rightarrow> 'p \<Rightarrow> bool) \<Rightarrow> ('h \<Rightarrow> 'q \<Rightarrow> bool) \<Rightarrow> 'h \<Rightarrow> 'p \<times> 'q \<Rightarrow> bool" where
  "pair_ok p q h x \<longleftrightarrow> p h (fst x) \<and> q h (snd x)"

definition pair_clone ::
  "('p \<Rightarrow> 'h \<Rightarrow> 'p \<times> 'h) \<Rightarrow> ('q \<Rightarrow> 'h \<Rightarrow> 'q \<times> 'h) \<Rightarrow> 'p \<times> 'q \<Rightarrow> 'h \<Rightarrow> ('p \<times> 'q) \<times> 'h" where
  "pair_clone k l x h = (case k (fst x) h of (y, h1) \<Rightarrow> case l (snd x) h1 of (z, h2) \<Rightarrow> ((y, z), h2))"

lemmas pair_defs = pair_view_def pair_cells_def pair_ok_def pair_clone_def

lemma fresh_split: "mem_top h \<le> mem_top h1 \<Longrightarrow> mem_top h1 \<le> mem_top h2 \<Longrightarrow> fresh_cells h h2 = fresh_cells h h1 \<union> fresh_cells h1 h2"
  by (auto simp: fresh_cells_def)

theorem part_pair:
  assumes "part_clone refs v c p k" and "part_clone refs w d q l"
  shows "part_clone refs (pair_view v w) (pair_cells c d) (pair_ok p q) (pair_clone k l)"
proof unfold_locales
  fix A h h' x
  assume "agree A h h'" "pair_cells c d h x \<subseteq> A"
  then show "pair_view v w h' x = pair_view v w h x \<and> pair_cells c d h' x = pair_cells c d h x
      \<and> (pair_ok p q h x \<longrightarrow> pair_ok p q h' x)"
    using part_clone.frame [OF assms(1), of A h h' "fst x"] part_clone.frame [OF assms(2), of A h h' "snd x"]
    by (simp add: pair_defs)
next
  fix h x
  assume "pair_ok p q h x"
  then show "pair_cells c d h x \<subseteq> {..<mem_top h}"
    using part_clone.ok_below [OF assms(1)] part_clone.ok_below [OF assms(2)] by (simp add: pair_defs)
next
  fix x h x' h'
  assume call: "pair_clone k l x h = (x', h')" and ok: "pair_ok p q h x"
  obtain a b where x: "x = (a, b)" by (cases x)
  obtain a' h1 where k: "k a h = (a', h1)" by (cases "k a h")
  obtain b' h2 where l: "l b h1 = (b', h2)" by (cases "l b h1")
  have x': "x' = (a', b')" "h' = h2" using call by (simp_all add: pair_defs x k l)
  have ab: "p h a" "q h b" using ok by (simp_all add: pair_defs x)
  note first = part_clone.clone_props [OF assms(1) k ab(1)]
  note moved = part_clone.framed [OF assms(2) first(1) part_clone.ok_below [OF assms(2) ab(2)]]
  note second = part_clone.clone_props [OF assms(2) l moved(3) [OF ab(2)]]
  note kept = part_clone.framed [OF assms(1) second(1) part_clone.ok_below [OF assms(1) first(3)]]
  have tops: "mem_top h \<le> mem_top h1" "mem_top h1 \<le> mem_top h2" using first(1) second(1) by (simp_all add: agree_def)
  have "closed_fresh refs h h2" by (rule closed_fresh_trans [OF first(5) second(5) second(1) tops(1)])
  moreover have "extends h h2" by (rule extends_trans [OF first(1) second(1)])
  moreover have "v h2 a' = v h a" using kept(1) first(2) by simp
  moreover have "w h2 b' = w h b" using second(2) moved(1) by simp
  moreover have "p h2 a' \<and> q h2 b'" using kept(3) first(3) second(3) by simp
  moreover have "c h2 a' \<subseteq> fresh_cells h h2" "d h2 b' \<subseteq> fresh_cells h h2"
    using kept(2) first(4) second(4) unfolding fresh_split [OF tops] by auto
  ultimately show "extends h h' \<and> pair_view v w h' x' = pair_view v w h x \<and> pair_ok p q h' x'
      \<and> pair_cells c d h' x' \<subseteq> fresh_cells h h' \<and> closed_fresh refs h h'"
    by (simp add: pair_defs x x')
qed

text \<open>The parts of structs that the program clones.\<close>

lemma bytes_part: "part_clone refs bytes_at (\<lambda>_. slice_cells) (slice_ok bytes_of) clone_bytes"
proof unfold_locales
  fix A h h' s
  show "agree A h h' \<Longrightarrow> slice_cells s \<subseteq> A
      \<Longrightarrow> bytes_at h' s = bytes_at h s \<and> slice_cells s = slice_cells s \<and> (slice_ok bytes_of h s \<longrightarrow> slice_ok bytes_of h' s)"
    using agree_elements by blast
qed (use slice_ok_cells in blast, (intro conjI; (erule (1) clone_bytes_props clone_bytes_closed)))

lemma strings_part:
  fixes refs :: "'e \<Rightarrow> nat set"
  shows "part_clone refs strings_at (\<lambda>_. slice_cells) (slice_ok strings_of) (clone_strings grow)"
proof unfold_locales
  fix A h h' s
  show "agree A h h' \<Longrightarrow> slice_cells s \<subseteq> A
      \<Longrightarrow> strings_at h' s = strings_at h s \<and> slice_cells s = slice_cells s \<and> (slice_ok strings_of h s \<longrightarrow> slice_ok strings_of h' s)"
    using agree_elements by blast
next
  fix s s' and h h' :: "'e memory"
  assume c: "clone_strings grow s h = (s', h')"
  have "closed_fresh refs h h'" using clone_strings_props(5) [OF c] by (simp add: closed_fresh_def)
  with clone_strings_props [OF c] show "extends h h' \<and> strings_at h' s' = strings_at h s \<and> slice_ok strings_of h' s'
      \<and> slice_cells s' \<subseteq> fresh_cells h h' \<and> closed_fresh refs h h'" by blast
qed (use slice_ok_cells in blast)

lemma table_frame:
  assumes "agree A h h'" and "table_cells h m \<subseteq> A"
  shows "table_at of_cell h' m = table_at of_cell h m \<and> table_cells h' m = table_cells h m
     \<and> (table_ok of_cell h m \<longrightarrow> table_ok of_cell h' m)"
  using agree_table(1) [OF assms, of of_cell] agree_table(2) [OF assms] agree_table(3) [OF assms, of of_cell] by simp

lemma headers_part:
  fixes refs :: "'e \<Rightarrow> nat set"
  shows "part_clone refs headers_at table_cells headers_ok (clone_header_table grow)"
proof unfold_locales
  fix m m' and h h' :: "'e memory"
  assume c: "clone_header_table grow m h = (m', h')" and ok: "headers_ok h m"
  from clone_header_table_props [OF c ok] clone_header_table_closed [OF c ok, of refs]
  show "extends h h' \<and> headers_at h' m' = headers_at h m \<and> headers_ok h' m'
      \<and> table_cells h' m' \<subseteq> fresh_cells h h' \<and> closed_fresh refs h h'" by blast
qed (erule (1) table_frame, erule table_ok_cells)

section \<open>Arrays of structs\<close>

abbreviation structs_at :: "'e memory \<Rightarrow> go_slice \<Rightarrow> 'e list" where
  "structs_at \<equiv> elements structs_of"

text \<open>The loop fills the array in cell \<open>a\<close> from index \<open>i\<close>.\<close>

fun fill_array ::
  "('e \<Rightarrow> 'e memory \<Rightarrow> 'e \<times> 'e memory) \<Rightarrow> nat \<Rightarrow> nat \<Rightarrow> 'e list \<Rightarrow> 'e memory \<Rightarrow> 'e memory" where
  "fill_array clone a i [] h = h"
| "fill_array clone a i (e # es) h =
     (case clone e h of
        (e', h1) \<Rightarrow>
          fill_array clone a (Suc i) es (put_cell a (Structs ((structs_of (mem_cells h1 a))[i := e'])) h1))"

definition clone_array ::
  "'e \<Rightarrow> ('e \<Rightarrow> 'e memory \<Rightarrow> 'e \<times> 'e memory) \<Rightarrow> go_slice \<Rightarrow> 'e memory \<Rightarrow> go_slice \<times> 'e memory" where
  "clone_array zero clone s h =
     (let n = slice_len s in
      case allocate (Structs (replicate n zero)) h of
        (a, h1) \<Rightarrow> (Slice a 0 n n, fill_array clone a 0 (structs_at h s) h1))"

locale struct_clone = part_clone refs view cells ok clone
  for refs :: "'e \<Rightarrow> nat set" and view :: "'e memory \<Rightarrow> 'e \<Rightarrow> 'v" and cells :: "'e memory \<Rightarrow> 'e \<Rightarrow> nat set"
    and ok :: "'e memory \<Rightarrow> 'e \<Rightarrow> bool" and clone :: "'e \<Rightarrow> 'e memory \<Rightarrow> 'e \<times> 'e memory" +
  assumes refs_cells: "refs e \<subseteq> cells h e"
begin

lemma fill_array_props:
  assumes "mem_cells h a = Structs cs" and "a < mem_top h" and "i + length es = length cs"
    and "\<forall>e \<in> set es. ok h e \<and> a \<notin> cells h e" and "h' = fill_array clone a i es h"
  shows "agree ({..<mem_top h} - {a}) h h' \<and> closed_fresh refs h h'
    \<and> (\<exists>es'. mem_cells h' a = Structs (take i cs @ es') \<and> map (view h') es' = map (view h) es
        \<and> (\<forall>e \<in> set es'. ok h' e \<and> cells h' e \<subseteq> fresh_cells h h'))"
  using assms
proof (induction es arbitrary: cs i h)
  case Nil
  then show ?case by (auto simp: closed_fresh_def fresh_cells_def)
next
  case (Cons e es)
  obtain e' h1 where c: "clone e h = (e', h1)" by (cases "clone e h")
  have e: "ok h e" using Cons.prems(4) by simp
  note made = clone_props [OF c e]
  have top: "mem_top h \<le> mem_top h1" using made(1) by (simp add: agree_def)
  have h1a: "mem_cells h1 a = Structs cs" using Cons.prems(1,2) made(1) by (auto simp: agree_def)
  define h2 where "h2 = put_cell a (Structs (cs[i := e'])) h1"
  have h': "h' = fill_array clone a (Suc i) es h2" using Cons.prems(5) by (simp add: c h1a h2_def)
  have top2: "mem_top h2 = mem_top h1" by (simp add: h2_def)
  have h1_h2: "agree ({..<mem_top h1} - {a}) h1 h2" by (auto simp: h2_def)
  have h_h2: "agree ({..<mem_top h} - {a}) h h2"
    by (rule agree_trans [OF agree_mono [OF made(1)] agree_mono [OF h1_h2]]) (use top in auto)
  have old: "ok h2 x \<and> view h2 x = view h x \<and> a \<notin> cells h2 x" if "x \<in> set es" for x
  proof -
    have x: "ok h x" "a \<notin> cells h x" using Cons.prems(4) that by auto
    then have "cells h x \<subseteq> {..<mem_top h} - {a}" using ok_below [OF x(1)] by auto
    from framed [OF h_h2 this] x show ?thesis by auto
  qed
  have IH: "agree ({..<mem_top h2} - {a}) h2 h' \<and> closed_fresh refs h2 h'
    \<and> (\<exists>es'. mem_cells h' a = Structs (take (Suc i) (cs[i := e']) @ es') \<and> map (view h') es' = map (view h2) es
        \<and> (\<forall>e \<in> set es'. ok h' e \<and> cells h' e \<subseteq> fresh_cells h2 h'))"
    using Cons.prems(2,3) old h' top by (intro Cons.IH) (auto simp: h2_def)
  then obtain es' where agree2: "agree ({..<mem_top h2} - {a}) h2 h'" and closed2: "closed_fresh refs h2 h'"
    and es': "mem_cells h' a = Structs (take (Suc i) (cs[i := e']) @ es')"
      "map (view h') es' = map (view h2) es"
      "\<forall>e \<in> set es'. ok h' e \<and> cells h' e \<subseteq> fresh_cells h2 h'" by blast
  have tops: "fresh_cells h h' = fresh_cells h h1 \<union> fresh_cells h2 h'"
    using top top2 agree2 by (auto simp: fresh_cells_def agree_def)
  have h1_h': "agree ({..<mem_top h1} - {a}) h1 h'"
    by (rule agree_trans [OF h1_h2 agree2 [unfolded top2]])
  have "cells h1 e' \<subseteq> {..<mem_top h1} - {a}"
    using made(4) Cons.prems(2) by (auto simp: fresh_cells_def)
  note new = framed [OF h1_h' this]
  have "closed_fresh refs h h'"
    unfolding closed_fresh_def
  proof
    fix b
    assume b: "b \<in> fresh_cells h h'"
    show "cell_refs refs (mem_cells h' b) \<subseteq> fresh_cells h h'"
    proof (cases "b \<in> fresh_cells h h1")
      case True
      then have "mem_cells h' b = mem_cells h1 b"
        using h1_h' Cons.prems(2) by (auto simp: agree_def fresh_cells_def)
      then show ?thesis using made(5) True tops by (auto simp: closed_fresh_def)
    next
      case False
      then show ?thesis using closed2 b tops by (auto simp: closed_fresh_def)
    qed
  qed
  moreover have "agree ({..<mem_top h} - {a}) h h'"
    by (rule agree_trans [OF h_h2 agree_mono [OF agree2]]) (use top top2 in auto)
  moreover have "take (Suc i) (cs[i := e']) = take i cs @ [e']"
    using Cons.prems(3) by (simp add: take_Suc_conv_app_nth)
  moreover have "map (view h2) es = map (view h) es" using old by simp
  ultimately show ?case
    using es' new made(2,3,4) tops by (intro conjI exI [of _ "e' # es'"]) auto
qed

lemma clone_array_props:
  assumes "clone_array zero clone s h = (s', h')" and "slice_ok structs_of h s"
    and "\<forall>e \<in> set (structs_at h s). ok h e"
  shows "extends h h'" and "map (view h') (structs_at h' s') = map (view h) (structs_at h s)"
    and "slice_cells s' \<subseteq> fresh_cells h h'" and "closed_fresh refs h h'" and "slice_ok structs_of h' s'"
    and "\<And>e. e \<in> set (structs_at h' s') \<Longrightarrow> ok h' e \<and> cells h' e \<subseteq> fresh_cells h h'"
proof -
  let ?n = "slice_len s" and ?es = "structs_at h s"
  obtain a h1 where alloc: "allocate (Structs (replicate ?n zero)) h = (a, h1)"
    by (cases "allocate (Structs (replicate ?n zero)) h")
  note new = allocate_simps [OF alloc]
  have s': "s' = Slice a 0 ?n ?n" and h': "h' = fill_array clone a 0 ?es h1"
    using assms(1) by (simp_all add: clone_array_def Let_def alloc)
  have ext: "extends h h1" by (rule allocate_extends [OF alloc])
  have n: "length ?es = ?n" by (rule length_elements [OF assms(2)])
  have old: "ok h1 e \<and> view h1 e = view h e \<and> a \<notin> cells h1 e" if "e \<in> set ?es" for e
  proof -
    have e: "ok h e" using assms(3) that by blast
    from framed [OF ext ok_below [OF e]] e ok_below [OF e] show ?thesis by (auto simp: new)
  qed
  have "mem_cells h1 a = Structs (replicate ?n zero)" "a < mem_top h1"
    "0 + length ?es = length (replicate ?n zero)" "\<forall>e \<in> set ?es. ok h1 e \<and> a \<notin> cells h1 e"
    using new old n by auto
  from fill_array_props [OF this h'] obtain es' where agree1: "agree ({..<mem_top h1} - {a}) h1 h'"
    and closed: "closed_fresh refs h1 h'" and es': "mem_cells h' a = Structs es'"
      "map (view h') es' = map (view h1) ?es"
      "\<forall>e \<in> set es'. ok h' e \<and> cells h' e \<subseteq> fresh_cells h1 h'" by auto
  have tops: "fresh_cells h h' = insert a (fresh_cells h1 h')"
    using agree1 new by (auto simp: agree_def fresh_cells_def)
  show "extends h h'" by (rule agree_trans [OF ext agree_mono [OF agree1]]) (auto simp: new)
  show "slice_cells s' \<subseteq> fresh_cells h h'" using tops by (simp add: s')
  have len: "length es' = ?n" using arg_cong [OF es'(2), of length] n by simp
  then have at: "structs_at h' s' = es'" by (simp add: s' es'(1))
  show "map (view h') (structs_at h' s') = map (view h) ?es" using es'(2) old by (simp add: at)
  show "slice_ok structs_of h' s'" using len tops es'(1) by (auto simp: s' fresh_cells_def)
  show "ok h' e \<and> cells h' e \<subseteq> fresh_cells h h'" if "e \<in> set (structs_at h' s')" for e
    using es'(3) that tops unfolding at by blast
  have "cell_refs refs (mem_cells h' a) \<subseteq> fresh_cells h1 h'"
    using es'(1,3) refs_cells by fastforce
  then show "closed_fresh refs h h'" using closed by (auto simp: closed_fresh_def tops)
qed

end

end
