(* ===== verification/Journal_Memory.thy ===== *)
theory Journal_Memory
  imports Struct_Memory Recording_Store
begin

text \<open>
  The recorder of \<^verbatim>\<open>internal/recording/store.go\<close> over Go's memory: the journal and the events of the session are
  slices of one kind of struct, which refers to its headers and bodies. An event is cloned when it comes
  in and is then shared by the journal and the session; both are cloned again when they go out.
  \<open>Recording_Store\<close> has the same recorder over values.
\<close>

section \<open>Events\<close>

record event_struct =
  ev_method :: string
  ev_url :: string
  ev_path :: string
  ev_raw_query :: string
  ev_request_headers :: "nat option"
  ev_request_body :: go_slice
  ev_response_status :: int
  ev_response_headers :: "nat option"
  ev_response_body :: go_slice
  ev_source :: string
  ev_protocol :: string
  ev_recorded_at :: nat

type_synonym event_memory = "event_struct memory"

definition zero_event :: event_struct where
  "zero_event = \<lparr>ev_method = [], ev_url = [], ev_path = [], ev_raw_query = [], ev_request_headers = None,
     ev_request_body = Nil_Slice, ev_response_status = 0, ev_response_headers = None,
     ev_response_body = Nil_Slice, ev_source = [], ev_protocol = [], ev_recorded_at = 0\<rparr>"

definition event_at :: "event_memory \<Rightarrow> event_struct \<Rightarrow> serve_event" where
  "event_at h e = \<lparr>se_method = ev_method e, se_url = ev_url e, se_path = ev_path e, se_raw_query = ev_raw_query e,
     se_request_headers = headers_at h (ev_request_headers e), se_request_body = bytes_at h (ev_request_body e),
     se_response_status = ev_response_status e, se_response_headers = headers_at h (ev_response_headers e),
     se_response_body = bytes_at h (ev_response_body e), se_source = ev_source e, se_protocol = ev_protocol e,
     se_recorded_at = ev_recorded_at e\<rparr>"

definition event_refs :: "event_struct \<Rightarrow> nat set" where
  "event_refs e = set_option (ev_request_headers e) \<union> set_option (ev_response_headers e)
     \<union> slice_cells (ev_request_body e) \<union> slice_cells (ev_response_body e)"

definition event_cells :: "event_memory \<Rightarrow> event_struct \<Rightarrow> nat set" where
  "event_cells h e = table_cells h (ev_request_headers e) \<union> table_cells h (ev_response_headers e)
     \<union> slice_cells (ev_request_body e) \<union> slice_cells (ev_response_body e)"

definition event_ok :: "event_memory \<Rightarrow> event_struct \<Rightarrow> bool" where
  "event_ok h e \<longleftrightarrow> headers_ok h (ev_request_headers e) \<and> headers_ok h (ev_response_headers e)
     \<and> slice_ok bytes_of h (ev_request_body e) \<and> slice_ok bytes_of h (ev_response_body e)"

lemma agree_event:
  assumes "agree A h h'" and "event_cells h e \<subseteq> A"
  shows "event_at h' e = event_at h e" and "event_cells h' e = event_cells h e"
    and "event_ok h e \<Longrightarrow> event_ok h' e"
proof -
  have parts: "table_cells h (ev_request_headers e) \<subseteq> A" "table_cells h (ev_response_headers e) \<subseteq> A"
    "slice_cells (ev_request_body e) \<subseteq> A" "slice_cells (ev_response_body e) \<subseteq> A"
    using assms(2) by (auto simp: event_cells_def)
  note same = agree_table [OF assms(1) parts(1)] agree_table [OF assms(1) parts(2)]
    agree_elements [OF assms(1) parts(3), of bytes_of] agree_elements [OF assms(1) parts(4), of bytes_of]
  show "event_at h' e = event_at h e" "event_cells h' e = event_cells h e" "event_ok h e \<Longrightarrow> event_ok h' e"
    by (simp_all add: event_at_def event_cells_def event_ok_def same)
qed

lemma event_ok_cells: "event_ok h e \<Longrightarrow> event_cells h e \<subseteq> {..<mem_top h}"
  using table_ok_cells [of strings_of h] slice_ok_cells [of bytes_of h] by (auto simp: event_ok_def event_cells_def)

lemma event_refs_cells: "event_refs e \<subseteq> event_cells h e"
  by (cases "ev_request_headers e"; cases "ev_response_headers e") (auto simp: event_refs_def event_cells_def)

text \<open>What \<^verbatim>\<open>addEvent\<close> and \<^verbatim>\<open>cloneEvents\<close> do with one event.\<close>

definition clone_event ::
  "(nat \<Rightarrow> nat \<Rightarrow> nat) \<Rightarrow> event_struct \<Rightarrow> event_memory \<Rightarrow> event_struct \<times> event_memory" where
  "clone_event grow e h =
     (let (request_headers, h1) = clone_header_table grow (ev_request_headers e) h;
          (response_headers, h2) = clone_header_table grow (ev_response_headers e) h1;
          (request_body, h3) = clone_bytes (ev_request_body e) h2;
          (response_body, h4) = clone_bytes (ev_response_body e) h3
      in (e\<lparr>ev_request_headers := request_headers, ev_response_headers := response_headers,
            ev_request_body := request_body, ev_response_body := response_body\<rparr>, h4))"

text \<open>The four parts of an event, one after the other.\<close>

definition event_parts :: "event_struct \<Rightarrow> nat option \<times> nat option \<times> go_slice \<times> go_slice" where
  "event_parts e = (ev_request_headers e, ev_response_headers e, ev_request_body e, ev_response_body e)"

lemma event_part:
  "part_clone event_refs (pair_view headers_at (pair_view headers_at (pair_view bytes_at bytes_at)))
     (pair_cells table_cells (pair_cells table_cells (pair_cells (\<lambda>_. slice_cells) (\<lambda>_. slice_cells))))
     (pair_ok headers_ok (pair_ok headers_ok (pair_ok (slice_ok bytes_of) (slice_ok bytes_of))))
     (pair_clone (clone_header_table grow) (pair_clone (clone_header_table grow) (pair_clone clone_bytes clone_bytes)))"
  by (intro part_pair headers_part bytes_part)

lemma clone_event_props:
  assumes "clone_event grow e h = (e', h')" and "event_ok h e"
  shows "extends h h'" and "event_at h' e' = event_at h e" and "event_ok h' e'"
    and "event_cells h' e' \<subseteq> fresh_cells h h'" and "closed_fresh event_refs h h'"
proof -
  let ?k = "pair_clone (clone_header_table grow) (pair_clone (clone_header_table grow) (pair_clone clone_bytes clone_bytes))"
  obtain p h4 where "?k (event_parts e) h = (p, h4)" by fastforce
  moreover obtain qh ph qb pb where "p = (qh, ph, qb, pb)" by (rule prod_cases4)
  ultimately have k: "?k (event_parts e) h = ((qh, ph, qb, pb), h4)" by simp
  then have e': "e' = e\<lparr>ev_request_headers := qh, ev_response_headers := ph, ev_request_body := qb, ev_response_body := pb\<rparr>"
    and h': "h' = h4"
    using assms(1) by (auto simp: clone_event_def pair_clone_def event_parts_def split: prod.splits)
  have "pair_ok headers_ok (pair_ok headers_ok (pair_ok (slice_ok bytes_of) (slice_ok bytes_of))) h (event_parts e)"
    using assms(2) by (simp add: event_ok_def pair_ok_def event_parts_def)
  note new = part_clone.clone_props [OF event_part k this]
  show "extends h h'" "closed_fresh event_refs h h'" using new(1,5) by (simp_all add: h')
  show "event_at h' e' = event_at h e" using new(2) by (simp add: event_at_def pair_view_def event_parts_def e' h')
  show "event_ok h' e'" using new(3) by (simp add: event_ok_def pair_ok_def e' h')
  show "event_cells h' e' \<subseteq> fresh_cells h h'" using new(4) by (simp add: event_cells_def pair_cells_def e' h')
qed

section \<open>Slices of events\<close>

definition events_at :: "event_memory \<Rightarrow> go_slice \<Rightarrow> serve_event list" where
  "events_at h s = map (event_at h) (structs_at h s)"

definition events_cells :: "event_memory \<Rightarrow> go_slice \<Rightarrow> nat set" where
  "events_cells h s = slice_cells s \<union> (\<Union>e \<in> set (structs_at h s). event_cells h e)"

definition events_ok :: "event_memory \<Rightarrow> go_slice \<Rightarrow> bool" where
  "events_ok h s \<longleftrightarrow> slice_ok structs_of h s
     \<and> (\<forall>e \<in> set (structs_at h s). event_ok h e \<and> slice_cells s \<inter> event_cells h e = {})"

text \<open>\<^verbatim>\<open>cloneEvents\<close>\<close>

definition clone_events :: "(nat \<Rightarrow> nat \<Rightarrow> nat) \<Rightarrow> go_slice \<Rightarrow> event_memory \<Rightarrow> go_slice \<times> event_memory" where
  "clone_events grow = clone_array zero_event (clone_event grow)"

lemma agree_events:
  assumes "agree A h h'" and "events_cells h s \<subseteq> A"
  shows "events_at h' s = events_at h s" and "events_cells h' s = events_cells h s"
    and "events_ok h s \<Longrightarrow> events_ok h' s"
proof -
  have "slice_cells s \<subseteq> A" using assms(2) by (simp add: events_cells_def)
  note structs = agree_elements [OF assms(1) this, of structs_of]
  have es: "event_cells h e \<subseteq> A" if "e \<in> set (structs_at h s)" for e
    using assms(2) that by (auto simp: events_cells_def)
  note same = agree_event [OF assms(1) es]
  show "events_at h' s = events_at h s" "events_cells h' s = events_cells h s"
    using same by (simp_all add: events_at_def events_cells_def structs)
  show "events_ok h s \<Longrightarrow> events_ok h' s"
    using same structs by (auto simp: events_ok_def)
qed

lemma events_ok_cells: "events_ok h s \<Longrightarrow> events_cells h s \<subseteq> {..<mem_top h}"
  using slice_ok_cells [of structs_of h s] event_ok_cells [of h] by (force simp: events_ok_def events_cells_def)

text \<open>\<^verbatim>\<open>cloneEvents\<close> gives the same events in memory that nothing else refers to.\<close>

interpretation event_clone: struct_clone event_refs event_at event_cells event_ok "clone_event grow" for grow
proof unfold_locales
  fix A and h h' :: event_memory and e
  show "agree A h h' \<Longrightarrow> event_cells h e \<subseteq> A
      \<Longrightarrow> event_at h' e = event_at h e \<and> event_cells h' e = event_cells h e \<and> (event_ok h e \<longrightarrow> event_ok h' e)"
    using agree_event by blast
qed (use event_ok_cells in blast, (intro conjI; erule (1) clone_event_props), use event_refs_cells in blast)

lemma clone_events_props:
  assumes "clone_events grow s h = (s', h')" and "events_ok h s"
  shows "extends h h'" and "events_at h' s' = events_at h s" and "slice_cells s' \<subseteq> fresh_cells h h'"
    and "closed_fresh event_refs h h'"
  using event_clone.clone_array_props [of zero_event grow s h s' h'] assms
  by (simp_all add: clone_events_def events_ok_def events_at_def)

section \<open>The recorder\<close>

record journal_refs =
  jr_active :: "(recording_spec \<times> go_slice) option"
  jr_events :: go_slice
  jr_max :: nat

definition new_journal :: journal_refs where
  "new_journal = \<lparr>jr_active = None, jr_events = Nil_Slice, jr_max = 1000\<rparr>"

definition memory_start :: "recording_spec \<Rightarrow> journal_refs \<Rightarrow> journal_refs" where
  "memory_start spec s = s\<lparr>jr_active := Some (spec, Nil_Slice)\<rparr>"

text \<open>\<^verbatim>\<open>Stop\<close> and \<^verbatim>\<open>Snapshot\<close> up to the end of their lock: the events that \<^verbatim>\<open>BuildSnapshot\<close> gets.\<close>

definition memory_stop ::
  "(nat \<Rightarrow> nat \<Rightarrow> nat) \<Rightarrow> event_memory \<Rightarrow> journal_refs
    \<Rightarrow> (go_slice \<times> recording_spec) option \<times> journal_refs \<times> event_memory" where
  "memory_stop grow h s =
     (case jr_active s of
        None \<Rightarrow> (None, s, h)
      | Some (spec, es) \<Rightarrow>
          (case clone_events grow es h of (events, h') \<Rightarrow> (Some (events, spec), s\<lparr>jr_active := None\<rparr>, h')))"

definition memory_snapshot ::
  "(nat \<Rightarrow> nat \<Rightarrow> nat) \<Rightarrow> event_memory \<Rightarrow> journal_refs \<Rightarrow> go_slice \<times> event_memory" where
  "memory_snapshot grow h s = clone_events grow (jr_events s) h"

definition complete_struct :: "nat \<Rightarrow> event_struct \<Rightarrow> event_struct" where
  "complete_struct now e0 =
     (let e1 = (if ev_protocol e0 = [] then e0\<lparr>ev_protocol := ''http''\<rparr> else e0)
      in if ev_recorded_at e1 = 0 then e1\<lparr>ev_recorded_at := now\<rparr> else e1)"

definition memory_add_event ::
  "(nat \<Rightarrow> nat \<Rightarrow> nat) \<Rightarrow> nat \<Rightarrow> event_struct \<Rightarrow> bool \<Rightarrow> event_memory \<Rightarrow> journal_refs
    \<Rightarrow> journal_refs \<times> event_memory" where
  "memory_add_event grow now e0 recording_event h s =
     (let (e, h1) = clone_event grow (complete_struct now e0) h;
          (events, h2) = append_slice grow structs_of Structs (jr_events s) [e] h1;
          kept = (if 0 < jr_max s \<and> jr_max s < slice_len events
                  then slice_from (slice_len events - jr_max s) events else events);
          s' = s\<lparr>jr_events := kept\<rparr>
      in (case jr_active s' of
            Some (spec, es) \<Rightarrow>
              if recording_event
              then (case append_slice grow structs_of Structs es [e] h2 of
                      (es', h3) \<Rightarrow> (s'\<lparr>jr_active := Some (spec, es')\<rparr>, h3))
              else (s', h2)
          | None \<Rightarrow> (s', h2)))"

definition journal_owned :: "event_memory \<Rightarrow> journal_refs \<Rightarrow> nat set" where
  "journal_owned h s = events_cells h (jr_events s)
     \<union> (case jr_active s of None \<Rightarrow> {} | Some (_, es) \<Rightarrow> events_cells h es)"

text \<open>The journal and the session may share events, but not the array they are in.\<close>

definition journal_sound :: "event_memory \<Rightarrow> journal_refs \<Rightarrow> bool" where
  "journal_sound h s \<longleftrightarrow> events_ok h (jr_events s)
     \<and> (case jr_active s of None \<Rightarrow> True
        | Some (_, es) \<Rightarrow> events_ok h es \<and> slice_cells es \<inter> events_cells h (jr_events s) = {}
            \<and> slice_cells (jr_events s) \<inter> events_cells h es = {})"

definition journal_view :: "event_memory \<Rightarrow> journal_refs \<Rightarrow> recording_store" where
  "journal_view h s = \<lparr>rec_active = map_option (\<lambda>(spec, es). \<lparr>sess_spec = spec, sess_events = events_at h es\<rparr>) (jr_active s),
     rec_serve_events = events_at h (jr_events s), rec_max_events = jr_max s\<rparr>"

lemma journal_frame:
  assumes "journal_sound h s" and "agree (journal_owned h s) h h'"
  shows "journal_sound h' s \<and> journal_owned h' s = journal_owned h s \<and> journal_view h' s = journal_view h s"
proof -
  have "events_cells h (jr_events s) \<subseteq> journal_owned h s" by (simp add: journal_owned_def)
  note journal = agree_events [OF assms(2) this]
  show ?thesis
  proof (cases "jr_active s")
    case None
    then show ?thesis using assms(1) journal by (simp add: journal_sound_def journal_owned_def journal_view_def)
  next
    case (Some p)
    obtain spec es where p: "p = (spec, es)" by (cases p)
    have "events_cells h es \<subseteq> journal_owned h s" by (simp add: journal_owned_def Some p)
    note session = agree_events [OF assms(2) this]
    show ?thesis using assms(1) journal session
      by (simp add: journal_sound_def journal_owned_def journal_view_def Some p)
  qed
qed

lemma journal_below: "journal_sound h s \<Longrightarrow> journal_owned h s \<subseteq> {..<mem_top h}"
  using events_ok_cells [of h] by (auto simp: journal_sound_def journal_owned_def split: option.splits)

lemma complete_struct_simps [simp]:
  "event_at h (complete_struct now e) = complete_event now (event_at h e)"
  "event_ok h (complete_struct now e) = event_ok h e"
  by (simp_all add: complete_struct_def complete_event_def event_at_def event_ok_def Let_def)

text \<open>One more event at the end of a slice; the event may be in another slice as well.\<close>

lemma append_event:
  assumes "append_slice grow structs_of Structs s [e] h = (s', h')" and "events_ok h s" and "event_ok h e"
    and "event_cells h e \<inter> slice_cells s = {}"
  shows "events_ok h' s'" and "events_at h' s' = events_at h s @ [event_at h e]"
    and "events_cells h' s' \<subseteq> slice_cells s' \<union> events_cells h s \<union> event_cells h e"
    and "agree ({..<mem_top h} - slice_cells s) h h'" and "slice_cells s' \<subseteq> slice_cells s \<union> fresh_cells h h'"
proof -
  have s: "slice_ok structs_of h s" using assms(2) by (simp add: events_ok_def)
  note app = append_slice_props [OF assms(1) s, simplified]
  show agree: "agree ({..<mem_top h} - slice_cells s) h h'" "slice_cells s' \<subseteq> slice_cells s \<union> fresh_cells h h'"
    using app(3,4) by blast+
  have ok: "event_ok h x \<and> event_cells h x \<subseteq> {..<mem_top h} - slice_cells s"
    if "x \<in> set (structs_at h s @ [e])" for x
    using that assms(2-4) event_ok_cells [of h x] by (auto simp: events_ok_def)
  note same = agree_event [OF agree(1) conjunct2 [OF ok]]
  have structs: "structs_at h' s' = structs_at h s @ [e]" by (rule app(1))
  show "events_at h' s' = events_at h s @ [event_at h e]"
    using same(1) by (simp add: events_at_def structs)
  have "slice_cells s' \<inter> event_cells h' x = {}" if "x \<in> set (structs_at h s @ [e])" for x
    using same(2) [OF that] ok [OF that] app(4) fresh_disjoint [of h h'] by blast
  then show "events_ok h' s'"
    using same(3) ok app(2) unfolding events_ok_def structs by blast
  have "(\<Union>x \<in> set (structs_at h' s'). event_cells h' x) = (\<Union>x \<in> set (structs_at h s @ [e]). event_cells h x)"
    unfolding structs by (intro SUP_cong refl same(2))
  then show "events_cells h' s' \<subseteq> slice_cells s' \<union> events_cells h s \<union> event_cells h e"
    by (auto simp: events_cells_def)
qed

lemma events_from:
  assumes "events_ok h s" and "k \<le> slice_len s"
  shows "events_at h (slice_from k s) = drop k (events_at h s)" and "events_ok h (slice_from k s)"
    and "events_cells h (slice_from k s) \<subseteq> events_cells h s" and "slice_cells (slice_from k s) = slice_cells s"
proof -
  have "slice_ok structs_of h s" using assms(1) by (simp add: events_ok_def)
  note tail = slice_from_props [OF this assms(2)]
  show "slice_cells (slice_from k s) = slice_cells s" by (rule tail(3))
  show "events_at h (slice_from k s) = drop k (events_at h s)" by (simp add: events_at_def tail(1) drop_map)
  have "set (drop k (structs_at h s)) \<subseteq> set (structs_at h s)" by (rule set_drop_subset)
  then show "events_ok h (slice_from k s)" "events_cells h (slice_from k s) \<subseteq> events_cells h s"
    using assms(1) tail by (auto simp: events_ok_def events_cells_def)
qed

lemma latest_struct:
  assumes "events_ok h s" and "n = length (events_at h s)"
    and "kept = (if 0 < m \<and> m < slice_len s then slice_from (slice_len s - m) s else s)"
  shows "events_at h kept = (if 0 < m \<and> m < n then drop (n - m) (events_at h s) else events_at h s)"
    and "events_ok h kept" and "events_cells h kept \<subseteq> events_cells h s" and "slice_cells kept = slice_cells s"
proof -
  have n: "slice_len s = n" using assms(1,2) length_elements [of structs_of h s]
    by (simp add: events_ok_def events_at_def)
  have "events_at h kept = (if 0 < m \<and> m < n then drop (n - m) (events_at h s) else events_at h s)
    \<and> events_ok h kept \<and> events_cells h kept \<subseteq> events_cells h s \<and> slice_cells kept = slice_cells s"
  proof (cases "0 < m \<and> m < n")
    case True
    then have "kept = slice_from (n - m) s" using assms(3) n by simp
    then show ?thesis using True events_from [OF assms(1), of "n - m"] n by simp
  next
    case False
    then have "kept = s" using assms(3) n by auto
    then show ?thesis using False assms(1) by auto
  qed
  then show "events_at h kept = (if 0 < m \<and> m < n then drop (n - m) (events_at h s) else events_at h s)"
    and "events_ok h kept" and "events_cells h kept \<subseteq> events_cells h s" and "slice_cells kept = slice_cells s"
    by blast+
qed

text \<open>The event that comes in is cloned, so that it is apart from all that the recorder has.\<close>

lemma memory_add_event_props:
  assumes "journal_sound h s" and "event_ok h e0" and "memory_add_event grow now e0 b h s = (s', h')"
  shows "journal_sound h' s' \<and> journal_view h' s' = add_event now (event_at h e0) b (journal_view h s)
    \<and> agree ({..<mem_top h} - journal_owned h s) h h' \<and> journal_owned h' s' \<subseteq> journal_owned h s \<union> fresh_cells h h'"
proof -
  obtain e h1 where c: "clone_event grow (complete_struct now e0) h = (e, h1)"
    by (cases "clone_event grow (complete_struct now e0) h")
  note clone = clone_event_props [OF c, unfolded complete_struct_simps, OF assms(2)]
  let ?j = "jr_events s" and ?m = "jr_max s"
  have below: "journal_owned h s \<subseteq> {..<mem_top h}" by (rule journal_below [OF assms(1)])
  have h_h1: "agree (journal_owned h s) h h1" by (rule agree_mono [OF clone(1) below])
  note same1 = journal_frame [OF assms(1) h_h1]
  then have s1: "journal_sound h1 s" "journal_owned h1 s = journal_owned h s" "journal_view h1 s = journal_view h s"
    by blast+
  have e_fresh: "event_cells h1 e \<inter> journal_owned h s = {}"
    using clone(4) below fresh_disjoint [of h h1] by blast
  have j_own: "events_cells h1 ?j \<subseteq> journal_owned h s" and j_arr: "slice_cells ?j \<subseteq> events_cells h1 ?j"
    using s1(2) by (auto simp: journal_owned_def events_cells_def)
  obtain ev h2 where a: "append_slice grow structs_of Structs ?j [e] h1 = (ev, h2)"
    by (cases "append_slice grow structs_of Structs ?j [e] h1")
  have j_ok: "events_ok h1 ?j" using s1(1) by (simp add: journal_sound_def)
  note app = append_event [OF a j_ok clone(3)]
  have app': "events_ok h2 ev" "events_at h2 ev = events_at h1 ?j @ [event_at h1 e]"
    "events_cells h2 ev \<subseteq> slice_cells ev \<union> events_cells h1 ?j \<union> event_cells h1 e"
    "agree ({..<mem_top h1} - slice_cells ?j) h1 h2" "slice_cells ev \<subseteq> slice_cells ?j \<union> fresh_cells h1 h2"
    using app e_fresh j_own j_arr by blast+
  define kept where "kept = (if 0 < ?m \<and> ?m < slice_len ev then slice_from (slice_len ev - ?m) ev else ev)"
  note kept = latest_struct [OF app'(1) refl kept_def]
  have e2: "event_ok h2 e" "event_at h2 e = event_at h1 e" "event_cells h2 e = event_cells h1 e"
  proof -
    have "event_cells h1 e \<subseteq> {..<mem_top h1} - slice_cells ?j"
      using event_ok_cells [OF clone(3)] e_fresh j_own j_arr by blast
    from agree_event [OF app'(4) this] clone(3) show "event_ok h2 e" "event_at h2 e = event_at h1 e"
      "event_cells h2 e = event_cells h1 e" by blast+
  qed
  have tops: "mem_top h \<le> mem_top h1" "mem_top h1 \<le> mem_top h2" using clone(1) app'(4) by (simp_all add: agree_def)
  then have fresh: "fresh_cells h h2 = fresh_cells h h1 \<union> fresh_cells h1 h2" by (auto simp: fresh_cells_def)
  have kept_cells: "events_cells h2 kept \<subseteq> journal_owned h s \<union> fresh_cells h h2"
    using kept(3) app'(3,5) j_own j_arr clone(4) fresh by blast
  have h_h2: "agree ({..<mem_top h} - journal_owned h s) h h2"
    by (rule agree_trans [OF agree_mono [OF clone(1)] agree_mono [OF app'(4)]]) (use tops j_own j_arr in auto)
  have out: "(s', h') = (case jr_active s of
      Some (spec, es) \<Rightarrow> if b
        then (case append_slice grow structs_of Structs es [e] h2 of
                (es', h3) \<Rightarrow> (s\<lparr>jr_events := kept, jr_active := Some (spec, es')\<rparr>, h3))
        else (s\<lparr>jr_events := kept\<rparr>, h2)
    | None \<Rightarrow> (s\<lparr>jr_events := kept\<rparr>, h2))"
    using assms(3) unfolding memory_add_event_def c a Let_def prod.case kept_def [symmetric]
    by (cases "jr_active s") (simp_all add: case_prod_unfold)
  have journal: "events_at h2 kept = rec_serve_events (add_event now (event_at h e0) b (journal_view h s))"
  proof -
    have "events_at h1 ?j = events_at h ?j" using s1(3) by (simp add: journal_view_def)
    then have "events_at h2 ev = events_at h ?j @ [complete_event now (event_at h e0)]"
      using app'(2) clone(2) by simp
    then show ?thesis unfolding kept(1)
      by (simp add: add_event_def journal_view_def Let_def split: option.split)
  qed
  have plain: ?thesis if "s' = s\<lparr>jr_events := kept\<rparr>" "h' = h2" "jr_active s = None"
    using that kept(2) kept_cells h_h2 journal
    by (simp add: journal_sound_def journal_owned_def journal_view_def add_event_def Let_def)
  show ?thesis
  proof (cases "jr_active s")
    case None
    with out plain show ?thesis by simp
  next
    case (Some p)
    obtain spec es where p: "p = (spec, es)" by (cases p)
    have es1: "events_ok h1 es" "slice_cells es \<inter> events_cells h1 ?j = {}" "slice_cells ?j \<inter> events_cells h1 es = {}"
      "events_cells h1 es \<subseteq> journal_owned h s"
      using s1(1) by (simp_all add: journal_sound_def Some p flip: s1(2)) (simp add: journal_owned_def Some p)
    have es_at: "events_at h1 es = events_at h es" using s1(3) by (simp add: journal_view_def Some p)
    have "events_cells h1 es \<subseteq> {..<mem_top h1} - slice_cells ?j" using events_ok_cells [OF es1(1)] es1(3) by blast
    note es2 = agree_events [OF app'(4) this]
    have es_arr: "slice_cells es \<subseteq> events_cells h1 es" by (simp add: events_cells_def)
    have apart: "slice_cells es \<inter> events_cells h2 kept = {}" "slice_cells kept \<inter> events_cells h2 es = {}"
    proof -
      have new: "events_cells h1 es \<inter> fresh_cells h1 h2 = {}"
        using events_ok_cells [OF es1(1)] fresh_disjoint [of h1 h2] by blast
      have old: "events_cells h1 es \<inter> event_cells h1 e = {}" using e_fresh es1(4) by blast
      show "slice_cells es \<inter> events_cells h2 kept = {}"
        using kept(3) app'(3,5) es1(2,3) es_arr new old by blast
      show "slice_cells kept \<inter> events_cells h2 es = {}"
        using kept(4) app'(5) es1(3) es2(2) new by blast
    qed
    show ?thesis
    proof (cases b)
      case False
      with out show ?thesis
        using kept(2) kept_cells h_h2 journal es1(4) es2 apart es1(1) es_at
        by (auto simp: Some p journal_sound_def journal_owned_def journal_view_def add_event_def Let_def)
    next
      case True
      obtain es' h3 where a3: "append_slice grow structs_of Structs es [e] h2 = (es', h3)"
        by (cases "append_slice grow structs_of Structs es [e] h2")
      have "event_cells h2 e \<inter> slice_cells es = {}" using e2(3) e_fresh es1(4) es_arr by blast
      note app3 = append_event [OF a3 es2(3) [OF es1(1)] e2(1) this]
      have tops3: "mem_top h2 \<le> mem_top h3" using app3(4) by (simp add: agree_def)
      then have fresh3: "fresh_cells h h3 = fresh_cells h h2 \<union> fresh_cells h2 h3"
        using tops by (auto simp: fresh_cells_def)
      have "events_cells h2 kept \<subseteq> {..<mem_top h2} - slice_cells es"
        using events_ok_cells [OF kept(2)] apart(1) by blast
      note kept3 = agree_events [OF app3(4) this]
      have h_h3: "agree ({..<mem_top h} - journal_owned h s) h h3"
        by (rule agree_trans [OF h_h2 agree_mono [OF app3(4)]]) (use tops es1(4) es_arr in auto)
      have owned3: "events_cells h3 es' \<subseteq> journal_owned h s \<union> fresh_cells h h3"
        using app3(3,5) es1(4) es2(2) es_arr e2(3) clone(4) fresh fresh3 by blast
      have kept_below: "events_cells h2 kept \<subseteq> {..<mem_top h2}" by (rule events_ok_cells [OF kept(2)])
      have "slice_cells es' \<inter> events_cells h3 kept = {}"
        using kept3(2) kept_below app3(5) apart(1) fresh_disjoint [of h2 h3] by blast
      moreover have "slice_cells kept \<inter> events_cells h3 es' = {}"
      proof -
        have "slice_cells kept \<subseteq> events_cells h2 kept" by (simp add: events_cells_def)
        moreover have "slice_cells kept \<inter> event_cells h2 e = {}"
          using kept(4) app'(5) e2(3) e_fresh j_arr j_own event_ok_cells [OF clone(3)] fresh_disjoint [of h1 h2] by blast
        moreover have "slice_cells kept \<inter> slice_cells es = {}" using es_arr es2(2) apart(2) by blast
        ultimately show ?thesis
          using app3(3,5) kept_below apart(2) fresh_disjoint [of h2 h3] by blast
      qed
      moreover have "s' = s\<lparr>jr_events := kept, jr_active := Some (spec, es')\<rparr>" "h' = h3"
        using out by (simp_all add: Some p True a3)
      moreover have "events_cells h3 kept \<subseteq> journal_owned h s \<union> fresh_cells h h3"
        using kept3(2) kept_cells fresh3 by blast
      moreover have "events_at h3 es' = events_at h es @ [complete_event now (event_at h e0)]"
        using app3(2) es2(1) es_at e2(2) clone(2) by simp
      ultimately show ?thesis
        using kept3 kept(2) app3(1) h_h3 journal owned3
        by (simp add: Some p True journal_sound_def journal_owned_def journal_view_def add_event_def Let_def)
    qed
  qed
qed

section \<open>Its operations as calls\<close>

datatype 'e journal_call = Start_Session recording_spec | Stop_Session | Take_Journal | Ask_Spec | Add_Event nat 'e bool

datatype 'v journal_result = No_Result | Session_Events 'v recording_spec | Journal_Events 'v
  | Spec_Is "recording_spec option"

fun run_journal_call ::
  "(nat \<Rightarrow> nat \<Rightarrow> nat) \<Rightarrow> event_struct journal_call \<Rightarrow> event_memory \<Rightarrow> journal_refs
    \<Rightarrow> go_slice journal_result \<times> journal_refs \<times> event_memory" where
  "run_journal_call grow (Start_Session spec) h s = (No_Result, memory_start spec s, h)"
| "run_journal_call grow Stop_Session h s =
     (case memory_stop grow h s of
        (None, s', h') \<Rightarrow> (No_Result, s', h')
      | (Some (events, spec), s', h') \<Rightarrow> (Session_Events events spec, s', h'))"
| "run_journal_call grow Take_Journal h s =
     (case memory_snapshot grow h s of (events, h') \<Rightarrow> (Journal_Events events, s, h'))"
| "run_journal_call grow Ask_Spec h s = (Spec_Is (map_option fst (jr_active s)), s, h)"
| "run_journal_call grow (Add_Event now e b) h s = (No_Result, memory_add_event grow now e b h s)"

fun journal_spec :: "serve_event journal_call \<Rightarrow> recording_store
    \<Rightarrow> serve_event list journal_result \<times> recording_store" where
  "journal_spec (Start_Session spec) v = (No_Result, v\<lparr>rec_active := Some \<lparr>sess_spec = spec, sess_events = []\<rparr>\<rparr>)"
| "journal_spec Stop_Session v =
     (case rec_active v of
        None \<Rightarrow> (No_Result, v)
      | Some a \<Rightarrow> (Session_Events (sess_events a) (sess_spec a), v\<lparr>rec_active := None\<rparr>))"
| "journal_spec Take_Journal v = (Journal_Events (rec_serve_events v), v)"
| "journal_spec Ask_Spec v = (Spec_Is (active_spec v), v)"
| "journal_spec (Add_Event now e b) v = (No_Result, add_event now e b v)"

text \<open>The operations of \<open>Recording_Store\<close> are these calls and what the code does after them without the lock.\<close>

lemma recording_calls:
  "recording_stop L N rand v =
     (case journal_spec Stop_Session v of
        (Session_Events events spec, v') \<Rightarrow> (build_snapshot L N rand events spec, v')
      | (_, v') \<Rightarrow> (Err ''recording is not running'', v'))"
  "recording_take_snapshot L N rand spec v =
     (case journal_spec Take_Journal v of
        (Journal_Events events, _) \<Rightarrow> build_snapshot L N rand events spec | _ \<Rightarrow> Panic)"
  "recording_start N spec v = (Ok u, v') \<Longrightarrow> journal_spec (Start_Session spec) v = (No_Result, v')"
  by (auto simp: recording_stop_def recording_take_snapshot_def recording_start_def
      split: option.splits if_splits res.splits)

definition journal_api ::
  "(nat \<Rightarrow> nat \<Rightarrow> nat) \<Rightarrow> (event_struct, journal_refs, event_struct journal_call, go_slice journal_result,
     serve_event journal_call, serve_event list journal_result) memory_api" where
  "journal_api grow = \<lparr>ma_refs = event_refs, ma_call = run_journal_call grow,
     ma_fits = (\<lambda>h c. pred_journal_call (event_ok h) c),
     ma_given = (\<lambda>c. \<Union>(event_refs ` set_journal_call c)),
     ma_got = (\<lambda>r. \<Union>(slice_cells ` set_journal_result r)),
     ma_meaning = (\<lambda>h. map_journal_call (event_at h)),
     ma_answer = (\<lambda>h. map_journal_result (events_at h))\<rparr>"

lemma journal_api_simps [simp]:
  "ma_refs (journal_api grow) = event_refs" "ma_call (journal_api grow) = run_journal_call grow"
  "ma_fits (journal_api grow) h c = pred_journal_call (event_ok h) c"
  "ma_given (journal_api grow) c = \<Union>(event_refs ` set_journal_call c)"
  "ma_got (journal_api grow) r = \<Union>(slice_cells ` set_journal_result r)"
  "ma_meaning (journal_api grow) h = map_journal_call (event_at h)"
  "ma_answer (journal_api grow) h = map_journal_result (events_at h)"
  by (simp_all add: journal_api_def)

text \<open>Events that go out are cloned: the caller reaches new cells only.\<close>

lemma events_go_out:
  assumes "journal_sound h s" and "events_ok h es" and "clone_events grow es h = (es', h')"
  shows "journal_sound h' s" and "journal_view h' s = journal_view h s" and "journal_owned h' s = journal_owned h s"
    and "agree ({..<mem_top h} - journal_owned h s) h h'"
    and "reach event_refs h' (slice_cells es') \<subseteq> fresh_cells h h' - journal_owned h s"
proof -
  note clone = clone_events_props [OF assms(3,2)]
  note below = journal_below [OF assms(1)]
  note same = journal_frame [OF assms(1) agree_mono [OF clone(1) below]]
  then show "journal_sound h' s" "journal_view h' s = journal_view h s" "journal_owned h' s = journal_owned h s"
    by blast+
  show "agree ({..<mem_top h} - journal_owned h s) h h'" by (rule agree_mono [OF clone(1)]) blast
  have "reach event_refs h' (slice_cells es') \<subseteq> fresh_cells h h'"
    by (rule reach_least) (use clone(3,4) in \<open>auto simp: closed_fresh_def\<close>)
  then show "reach event_refs h' (slice_cells es') \<subseteq> fresh_cells h h' - journal_owned h s"
    using below fresh_disjoint [of h h'] by blast
qed

lemma stopped_session:
  assumes "journal_sound h s" and "jr_active s = Some (spec, es)"
  shows "journal_sound h (s\<lparr>jr_active := None\<rparr>)" and "events_ok h es"
    and "journal_owned h (s\<lparr>jr_active := None\<rparr>) \<subseteq> journal_owned h s"
    and "journal_view h (s\<lparr>jr_active := None\<rparr>) = (journal_view h s)\<lparr>rec_active := None\<rparr>"
  using assms by (auto simp: journal_sound_def journal_owned_def journal_view_def)

lemma started_session:
  assumes "journal_sound h s"
  shows "journal_sound h (memory_start spec s)" and "journal_owned h (memory_start spec s) \<subseteq> journal_owned h s"
    and "journal_view h (memory_start spec s)
      = (journal_view h s)\<lparr>rec_active := Some \<lparr>sess_spec = spec, sess_events = []\<rparr>\<rparr>"
  using assms
  by (auto simp: memory_start_def journal_sound_def journal_owned_def journal_view_def events_ok_def
      events_cells_def events_at_def)

lemma journal_call_props:
  assumes s: "journal_sound h s" and fits: "pred_journal_call (event_ok h) c"
    and call: "run_journal_call grow c h s = (r, s', h')"
  shows "journal_sound h' s' \<and> journal_spec (map_journal_call (event_at h) c) (journal_view h s)
      = (map_journal_result (events_at h') r, journal_view h' s')
    \<and> agree ({..<mem_top h} - journal_owned h s) h h' \<and> journal_owned h' s' \<subseteq> journal_owned h s \<union> fresh_cells h h'
    \<and> reach event_refs h' (\<Union>(slice_cells ` set_journal_result r)) \<subseteq> fresh_cells h h' - journal_owned h' s'"
proof (cases c)
  case (Start_Session spec)
  then show ?thesis using call started_session [OF s, of spec] by auto
next
  case Stop_Session
  show ?thesis
  proof (cases "jr_active s")
    case None
    then show ?thesis using call s by (auto simp: Stop_Session memory_stop_def journal_view_def)
  next
    case (Some p)
    obtain spec es where p: "p = (spec, es)" by (cases p)
    note stopped = stopped_session [OF s Some [unfolded p]]
    obtain es' where c: "clone_events grow es h = (es', h')" "r = Session_Events es' spec" "s' = s\<lparr>jr_active := None\<rparr>"
      using call by (auto simp: Stop_Session memory_stop_def Some p split: prod.splits)
    note out = events_go_out [OF stopped(1,2) c(1)] and clone = clone_events_props [OF c(1) stopped(2)]
    have "journal_spec Stop_Session (journal_view h s)
        = (Session_Events (events_at h es) spec, (journal_view h s)\<lparr>rec_active := None\<rparr>)"
      by (simp add: journal_view_def Some p)
    moreover have "agree ({..<mem_top h} - journal_owned h s) h h'"
      by (rule agree_mono [OF out(4)]) (use stopped(3) in auto)
    ultimately show ?thesis using out clone(2) stopped(3,4) by (auto simp: Stop_Session c(2,3))
  qed
next
  case Take_Journal
  obtain es' where c: "clone_events grow (jr_events s) h = (es', h')" "r = Journal_Events es'" "s' = s"
    using call by (auto simp: Take_Journal memory_snapshot_def split: prod.splits)
  have ok: "events_ok h (jr_events s)" using s by (simp add: journal_sound_def)
  note out = events_go_out [OF s ok c(1)] and clone = clone_events_props [OF c(1) ok]
  have "rec_serve_events (journal_view h s) = events_at h (jr_events s)" by (simp add: journal_view_def)
  then show ?thesis using out clone(2) by (auto simp: Take_Journal c(2,3))
next
  case Ask_Spec
  then show ?thesis using call s
    by (auto simp: active_spec_def journal_view_def option.map_comp comp_def case_prod_unfold)
next
  case (Add_Event now e b)
  then show ?thesis using call fits memory_add_event_props [OF s, of e grow now b s' h'] by auto
qed

interpretation recorder_memory: private_memory "journal_api grow" journal_sound journal_owned journal_view journal_spec
proof unfold_locales
  fix h h' :: event_memory and s s' c r
  assume s: "journal_sound h s"
  show "agree (journal_owned h s) h h' \<Longrightarrow>
      journal_sound h' s \<and> journal_owned h' s = journal_owned h s \<and> journal_view h' s = journal_view h s"
    by (rule journal_frame [OF s])
  show "journal_owned h s \<subseteq> {..<mem_top h}" by (rule journal_below [OF s])
  assume "ma_fits (journal_api grow) h c" and "ma_call (journal_api grow) c h s = (r, s', h')"
  then have "pred_journal_call (event_ok h) c" "run_journal_call grow c h s = (r, s', h')" by simp_all
  note props = journal_call_props [OF s this]
  then show "journal_sound h' s' \<and> journal_spec (ma_meaning (journal_api grow) h c) (journal_view h s)
      = (ma_answer (journal_api grow) h' r, journal_view h' s')"
    and "agree ({..<mem_top h} - journal_owned h s) h h' \<and> journal_owned h' s' \<subseteq> journal_owned h s \<union> fresh_cells h h'"
    and "reach (ma_refs (journal_api grow)) h' (ma_got (journal_api grow) r) \<subseteq> fresh_cells h h' - journal_owned h' s'"
    by simp_all
qed

end
