(* ===== verification/Mapping_Memory.thy ===== *)
theory Mapping_Memory
  imports Struct_Memory Mapping_Store
begin

text \<open>
  The mappings of \<^verbatim>\<open>internal/mapping/model.go\<close> over Go's memory. A \<^verbatim>\<open>Mapping\<close> is passed around by value, but its raw
  members and the parts of its response are maps, slices and pointers that all copies share: the table of the
  store, its published snapshots and the requests that are being served. \<^verbatim>\<open>Response\<close>, \<^verbatim>\<open>WithID\<close>, \<^verbatim>\<open>MarshalJSON\<close> and the
  store's \<^verbatim>\<open>Replace\<close> clone what they write to or hand out. \<open>Mapping_Model\<close> has the same mappings as values.
\<close>

section \<open>References\<close>

text \<open>
  What lies behind the pointers and the slices of structs of a response: segments of a template, the template,
  a delay distribution, a dribble delay.
\<close>

datatype mapping_cell =
    Segment go_slice json_path bool
  | Template go_slice
  | Delay delay_distribution
  | Dribble chunked_dribble_delay

type_synonym mapping_memory = "mapping_cell memory"

record response_struct =
  rs_status :: int
  rs_headers :: "nat option"
  rs_body :: go_slice
  rs_json :: bool
  rs_body_file :: string
  rs_transformers :: go_slice
  rs_template :: "nat option"
  rs_proxy_base_url :: string
  rs_proxy_url_prefix_to_remove :: string
  rs_fixed_delay :: int
  rs_delay_distribution :: "nat option"
  rs_chunked_dribble_delay :: "nat option"

record mapping_struct =
  st_id :: string
  st_name :: string
  st_persistent :: bool
  st_priority :: int
  st_scenario :: scenario_info
  st_request :: request_pattern
  st_response :: response_struct
  st_raw :: "nat option"
  st_sequence :: "64 word"

fun mapping_refs :: "mapping_cell \<Rightarrow> nat set" where
  "mapping_refs (Segment l _ _) = slice_cells l"
| "mapping_refs (Template segments) = slice_cells segments"
| "mapping_refs _ = {}"

section \<open>Pointers to plain structs\<close>

text \<open>\<^verbatim>\<open>clone := *source; return &clone\<close>\<close>

definition clone_delay_distribution :: "nat option \<Rightarrow> mapping_memory \<Rightarrow> nat option \<times> mapping_memory" where
  "clone_delay_distribution source h =
     (case source of None \<Rightarrow> (None, h) | Some a \<Rightarrow> map_prod Some (\<lambda>h. h) (allocate (mem_cells h a) h))"

definition clone_chunked_dribble_delay :: "nat option \<Rightarrow> mapping_memory \<Rightarrow> nat option \<times> mapping_memory" where
  "clone_chunked_dribble_delay source h =
     (case source of None \<Rightarrow> (None, h) | Some a \<Rightarrow> map_prod Some (\<lambda>h. h) (allocate (mem_cells h a) h))"

fun delay_of :: "mapping_cell cell \<Rightarrow> delay_distribution option" where
  "delay_of (Structs [Delay d]) = Some d"
| "delay_of _ = None"

fun dribble_of :: "mapping_cell cell \<Rightarrow> chunked_dribble_delay option" where
  "dribble_of (Structs [Dribble d]) = Some d"
| "dribble_of _ = None"

definition pointed :: "('e cell \<Rightarrow> 'v option) \<Rightarrow> 'e memory \<Rightarrow> nat option \<Rightarrow> 'v option" where
  "pointed f h p = Option.bind p (\<lambda>a. f (mem_cells h a))"

definition pointer_ok :: "('e cell \<Rightarrow> 'v option) \<Rightarrow> 'e memory \<Rightarrow> nat option \<Rightarrow> bool" where
  "pointer_ok f h p \<longleftrightarrow> (\<forall>a. p = Some a \<longrightarrow> a < mem_top h \<and> f (mem_cells h a) \<noteq> None)"

lemma pointer_part:
  fixes f :: "mapping_cell cell \<Rightarrow> 'v option"
  assumes "\<And>c. f c \<noteq> None \<Longrightarrow> cell_refs mapping_refs c = {}"
    and "\<And>p h. clone p h = (case p of None \<Rightarrow> (None, h) | Some a \<Rightarrow> map_prod Some (\<lambda>h. h) (allocate (mem_cells h a) h))"
  shows "part_clone mapping_refs (pointed f) (\<lambda>_. set_option) (pointer_ok f) clone"
proof unfold_locales
  fix A p and h h' :: mapping_memory
  show "agree A h h' \<Longrightarrow> set_option p \<subseteq> A
      \<Longrightarrow> pointed f h' p = pointed f h p \<and> set_option p = set_option p \<and> (pointer_ok f h p \<longrightarrow> pointer_ok f h' p)"
    by (cases p) (auto simp: pointed_def pointer_ok_def agree_def)
next
  fix p and h :: mapping_memory
  show "pointer_ok f h p \<Longrightarrow> set_option p \<subseteq> {..<mem_top h}" by (cases p) (auto simp: pointer_ok_def)
next
  fix p p' and h h' :: mapping_memory
  assume "clone p h = (p', h')" "pointer_ok f h p"
  with assms show "extends h h' \<and> pointed f h' p' = pointed f h p \<and> pointer_ok f h' p'
      \<and> set_option p' \<subseteq> fresh_cells h h' \<and> closed_fresh mapping_refs h h'"
    by (cases p) (auto simp: pointed_def pointer_ok_def allocate_def agree_def fresh_cells_def closed_fresh_def less_Suc_eq)
qed

lemma delay_part: "part_clone mapping_refs (pointed delay_of) (\<lambda>_. set_option) (pointer_ok delay_of) clone_delay_distribution"
  by (rule pointer_part) (auto simp: clone_delay_distribution_def elim!: delay_of.elims)

lemma dribble_part:
  "part_clone mapping_refs (pointed dribble_of) (\<lambda>_. set_option) (pointer_ok dribble_of) clone_chunked_dribble_delay"
  by (rule pointer_part) (auto simp: clone_chunked_dribble_delay_def elim!: dribble_of.elims)

section \<open>Templates\<close>

fun segment_at :: "mapping_memory \<Rightarrow> mapping_cell \<Rightarrow> template_segment" where
  "segment_at h (Segment l path helper) = (if helper then SegHelper path else SegLiteral (bytes_at h l))"
| "segment_at h _ = SegLiteral []"

fun segment_ok :: "mapping_memory \<Rightarrow> mapping_cell \<Rightarrow> bool" where
  "segment_ok h (Segment l path helper) = slice_ok bytes_of h l"
| "segment_ok h _ = False"

fun clone_segment :: "mapping_cell \<Rightarrow> mapping_memory \<Rightarrow> mapping_cell \<times> mapping_memory" where
  "clone_segment (Segment l path helper) h = (case clone_bytes l h of (l', h') \<Rightarrow> (Segment l' path helper, h'))"
| "clone_segment x h = (x, h)"

interpretation segment_clone: struct_clone mapping_refs segment_at "\<lambda>_. mapping_refs" segment_ok clone_segment
proof unfold_locales
  fix A x and h h' :: mapping_memory
  assume "agree A h h'" "mapping_refs x \<subseteq> A"
  then show "segment_at h' x = segment_at h x \<and> mapping_refs x = mapping_refs x \<and> (segment_ok h x \<longrightarrow> segment_ok h' x)"
    using agree_elements [of A h h' _ bytes_of] by (cases x) auto
next
  fix x and h :: mapping_memory
  show "segment_ok h x \<Longrightarrow> mapping_refs x \<subseteq> {..<mem_top h}" using slice_ok_cells [of bytes_of h] by (cases x) auto
next
  fix x x' and h h' :: mapping_memory
  assume call: "clone_segment x h = (x', h')" and ok: "segment_ok h x"
  obtain l path helper where x: "x = Segment l path helper" using ok by (cases x) auto
  obtain l' where l: "clone_bytes l h = (l', h')" "x' = Segment l' path helper"
    using call by (auto simp: x split: prod.splits)
  have "slice_ok bytes_of h l" using ok by (simp add: x)
  from clone_bytes_props [OF l(1) this] clone_bytes_closed [OF l(1) this, of mapping_refs]
  show "extends h h' \<and> segment_at h' x' = segment_at h x \<and> segment_ok h' x'
      \<and> mapping_refs x' \<subseteq> fresh_cells h h' \<and> closed_fresh mapping_refs h h'"
    by (simp add: x l(2))
qed simp

text \<open>The slice of segments behind a pointer to a template.\<close>

fun segments_of :: "mapping_cell cell \<Rightarrow> go_slice option" where
  "segments_of (Structs [Template segments]) = Some segments"
| "segments_of _ = None"

definition zero_segment :: mapping_cell where
  "zero_segment = Segment Nil_Slice \<lparr>jp_expression = [], jp_path = [], jp_filter = None\<rparr> False"

definition clone_response_template :: "nat option \<Rightarrow> mapping_memory \<Rightarrow> nat option \<times> mapping_memory" where
  "clone_response_template source h =
     (case Option.bind source (\<lambda>a. segments_of (mem_cells h a)) of
        None \<Rightarrow> (None, h)
      | Some segments \<Rightarrow>
          (case clone_array zero_segment clone_segment segments h of
             (segments', h1) \<Rightarrow> map_prod Some (\<lambda>h. h) (allocate (Structs [Template segments']) h1)))"

definition template_at :: "mapping_memory \<Rightarrow> nat option \<Rightarrow> template_segment list option" where
  "template_at h p = map_option (\<lambda>s. map (segment_at h) (structs_at h s)) (pointed segments_of h p)"

definition template_cells :: "mapping_memory \<Rightarrow> nat option \<Rightarrow> nat set" where
  "template_cells h p = set_option p
     \<union> (\<Union>s \<in> set_option (pointed segments_of h p). slice_cells s \<union> (\<Union>x \<in> set (structs_at h s). mapping_refs x))"

definition template_ok :: "mapping_memory \<Rightarrow> nat option \<Rightarrow> bool" where
  "template_ok h p \<longleftrightarrow> pointer_ok segments_of h p
     \<and> (\<forall>s \<in> set_option (pointed segments_of h p). slice_ok structs_of h s \<and> (\<forall>x \<in> set (structs_at h s). segment_ok h x))"

lemma template_frame:
  assumes "agree A h h'" and "template_cells h p \<subseteq> A"
  shows "template_at h' p = template_at h p \<and> template_cells h' p = template_cells h p
    \<and> (template_ok h p \<longrightarrow> template_ok h' p)"
proof (cases "pointed segments_of h p")
  case None
  then have "pointed segments_of h' p = None"
    using assms by (cases p) (auto simp: pointed_def agree_def template_cells_def)
  with None show ?thesis using assms(1) by (auto simp: template_at_def template_cells_def template_ok_def pointer_ok_def pointed_def)
next
  case (Some s)
  then have p: "pointed segments_of h' p = Some s"
    using assms by (cases p) (auto simp: pointed_def agree_def template_cells_def)
  have cells: "slice_cells s \<subseteq> A" "\<And>x. x \<in> set (structs_at h s) \<Longrightarrow> mapping_refs x \<subseteq> A"
    using assms(2) by (auto simp: template_cells_def Some)
  note same = agree_elements [OF assms(1) cells(1), of structs_of]
  have "segment_at h' x = segment_at h x \<and> (segment_ok h x \<longrightarrow> segment_ok h' x)" if "x \<in> set (structs_at h s)" for x
    using segment_clone.framed [OF assms(1) cells(2) [OF that]] by blast
  moreover have "pointer_ok segments_of h p \<longrightarrow> pointer_ok segments_of h' p"
    using assms by (cases p) (auto simp: pointer_ok_def agree_def template_cells_def)
  ultimately show ?thesis using same by (auto simp: template_at_def template_cells_def template_ok_def Some p)
qed

lemma template_below: "template_ok h p \<Longrightarrow> template_cells h p \<subseteq> {..<mem_top h}"
  using slice_ok_cells [of structs_of h] segment_clone.ok_below [of h]
  by (cases p) (fastforce simp: template_ok_def template_cells_def pointer_ok_def)+

lemma template_part:
  "part_clone mapping_refs template_at template_cells template_ok clone_response_template"
proof unfold_locales
  fix p p' and h h' :: mapping_memory
  assume call: "clone_response_template p h = (p', h')" and ok: "template_ok h p"
  show "extends h h' \<and> template_at h' p' = template_at h p \<and> template_ok h' p'
      \<and> template_cells h' p' \<subseteq> fresh_cells h h' \<and> closed_fresh mapping_refs h h'"
  proof (cases p)
    case None
    then show ?thesis using call ok
      by (auto simp: clone_response_template_def template_cells_def fresh_cells_def closed_fresh_def pointed_def)
  next
    case (Some a)
    then obtain s where s: "segments_of (mem_cells h a) = Some s"
      using ok by (auto simp: template_ok_def pointer_ok_def)
    obtain s' h1 where c: "clone_array zero_segment clone_segment s h = (s', h1)"
      by (cases "clone_array zero_segment clone_segment s h")
    obtain b where b: "allocate (Structs [Template s']) h1 = (b, h')" "p' = Some b"
      using call by (auto simp: clone_response_template_def Some s c map_prod_def split: prod.splits)
    have "slice_ok structs_of h s" "\<forall>x \<in> set (structs_at h s). segment_ok h x"
      using ok by (simp_all add: template_ok_def pointed_def Some s)
    note new = segment_clone.clone_array_props [OF c this]
    note alloc = allocate_simps [OF b(1)] and ext = allocate_extends [OF b(1)]
    have top: "mem_top h \<le> mem_top h1" using new(1) by (simp add: agree_def)
    note elems = agree_elements [OF ext slice_ok_cells [OF new(5)], of structs_of]
    have seg: "segment_at h' x = segment_at h1 x \<and> segment_ok h' x \<and> mapping_refs x \<subseteq> fresh_cells h h1"
      if "x \<in> set (structs_at h1 s')" for x
    proof -
      have x: "segment_ok h1 x" "mapping_refs x \<subseteq> fresh_cells h h1" using new(6) [OF that] by blast+
      from segment_clone.framed [OF ext segment_clone.ok_below [OF x(1)]] x show ?thesis by blast
    qed
    have at: "pointed segments_of h' p' = Some s'" by (simp add: pointed_def b(2) alloc(1,2))
    have "template_at h' p' = Some (map (segment_at h1) (structs_at h1 s'))"
      using seg by (simp add: template_at_def at elems(1))
    then have "template_at h' p' = template_at h p" using new(2) by (simp add: template_at_def pointed_def Some s)
    moreover have "pointer_ok segments_of h' p'" using alloc by (simp add: pointer_ok_def b(2))
    then have "template_ok h' p'" using seg elems new(5) by (simp add: template_ok_def at)
    moreover have fresh: "fresh_cells h h' = insert b (fresh_cells h h1)"
      using top alloc by (auto simp: fresh_cells_def)
    then have "template_cells h' p' \<subseteq> fresh_cells h h'"
      using seg new(3) at [unfolded b(2)] by (auto simp: template_cells_def b(2) elems(1))
    moreover have "closed_fresh mapping_refs h h'"
    proof -
      have "cell_refs mapping_refs (mem_cells h' c) \<subseteq> fresh_cells h h'" if "c \<in> fresh_cells h h'" for c
      proof (cases "c = b")
        case True
        then show ?thesis using alloc new(3) fresh by auto
      next
        case False
        then show ?thesis using that alloc new(4) fresh by (auto simp: closed_fresh_def)
      qed
      then show ?thesis by (simp add: closed_fresh_def)
    qed
    ultimately show ?thesis using extends_trans [OF new(1) ext] by blast
  qed
qed (erule (1) template_frame, erule template_below)

section \<open>Responses\<close>

definition body_at :: "mapping_memory \<Rightarrow> go_slice \<Rightarrow> string option" where
  "body_at h s = (if s = Nil_Slice then None else Some (bytes_at h s))"

definition response_at :: "mapping_memory \<Rightarrow> response_struct \<Rightarrow> response_definition" where
  "response_at h r = \<lparr>rd_status = rs_status r, rd_headers = headers_at h (rs_headers r), rd_body = body_at h (rs_body r),
     rd_json = rs_json r, rd_body_file = rs_body_file r, rd_transformers = strings_at h (rs_transformers r),
     rd_template = template_at h (rs_template r), rd_proxy_base_url = rs_proxy_base_url r,
     rd_proxy_url_prefix_to_remove = rs_proxy_url_prefix_to_remove r, rd_fixed_delay = rs_fixed_delay r,
     rd_delay_distribution = pointed delay_of h (rs_delay_distribution r),
     rd_chunked_dribble_delay = pointed dribble_of h (rs_chunked_dribble_delay r)\<rparr>"

text \<open>\<^verbatim>\<open>Mapping.Response\<close>\<close>

definition response_copy ::
  "(nat \<Rightarrow> nat \<Rightarrow> nat) \<Rightarrow> response_struct \<Rightarrow> mapping_memory \<Rightarrow> response_struct \<times> mapping_memory" where
  "response_copy grow r h =
     (let (headers, h1) = clone_header_table grow (rs_headers r) h;
          (body, h2) = clone_bytes (rs_body r) h1;
          (transformers, h3) = clone_strings grow (rs_transformers r) h2;
          (template, h4) = clone_response_template (rs_template r) h3;
          (distribution, h5) = clone_delay_distribution (rs_delay_distribution r) h4;
          (dribble, h6) = clone_chunked_dribble_delay (rs_chunked_dribble_delay r) h5
      in (r\<lparr>rs_headers := headers, rs_body := body, rs_transformers := transformers, rs_template := template,
            rs_delay_distribution := distribution, rs_chunked_dribble_delay := dribble\<rparr>, h6))"

lemma body_part: "part_clone mapping_refs body_at (\<lambda>_. slice_cells) (slice_ok bytes_of) clone_bytes"
proof unfold_locales
  fix A s and h h' :: mapping_memory
  show "agree A h h' \<Longrightarrow> slice_cells s \<subseteq> A
      \<Longrightarrow> body_at h' s = body_at h s \<and> slice_cells s = slice_cells s \<and> (slice_ok bytes_of h s \<longrightarrow> slice_ok bytes_of h' s)"
    using agree_elements [of A h h' s bytes_of] by (simp add: body_at_def)
next
  fix s s' and h h' :: mapping_memory
  assume c: "clone_bytes s h = (s', h')" and ok: "slice_ok bytes_of h s"
  from clone_bytes_props [OF c ok] clone_bytes_closed [OF c ok, of mapping_refs]
  show "extends h h' \<and> body_at h' s' = body_at h s \<and> slice_ok bytes_of h' s'
      \<and> slice_cells s' \<subseteq> fresh_cells h h' \<and> closed_fresh mapping_refs h h'"
    by (simp add: body_at_def)
qed (erule slice_ok_cells)

abbreviation part_views where
  "part_views \<equiv> pair_view headers_at (pair_view body_at (pair_view strings_at
     (pair_view template_at (pair_view (pointed delay_of) (pointed dribble_of)))))"

abbreviation part_cells where
  "part_cells \<equiv> pair_cells table_cells (pair_cells (\<lambda>_. slice_cells) (pair_cells (\<lambda>_. slice_cells)
     (pair_cells template_cells (pair_cells (\<lambda>_. set_option) (\<lambda>_. set_option)))))"

abbreviation part_oks where
  "part_oks \<equiv> pair_ok headers_ok (pair_ok (slice_ok bytes_of) (pair_ok (slice_ok strings_of)
     (pair_ok template_ok (pair_ok (pointer_ok delay_of) (pointer_ok dribble_of)))))"

abbreviation part_clones where
  "part_clones grow \<equiv> pair_clone (clone_header_table grow) (pair_clone clone_bytes (pair_clone (clone_strings grow)
     (pair_clone clone_response_template (pair_clone clone_delay_distribution clone_chunked_dribble_delay))))"

lemma parts_clone: "part_clone mapping_refs part_views part_cells part_oks (part_clones grow)"
  by (intro part_pair headers_part body_part strings_part template_part delay_part dribble_part)

definition response_parts where
  "response_parts r = (rs_headers r, rs_body r, rs_transformers r, rs_template r, rs_delay_distribution r,
     rs_chunked_dribble_delay r)"

definition response_cells :: "mapping_memory \<Rightarrow> response_struct \<Rightarrow> nat set" where
  "response_cells h r = part_cells h (response_parts r)"

definition response_ok :: "mapping_memory \<Rightarrow> response_struct \<Rightarrow> bool" where
  "response_ok h r \<longleftrightarrow> part_oks h (response_parts r)"

definition response_refs :: "response_struct \<Rightarrow> nat set" where
  "response_refs r = set_option (rs_headers r) \<union> slice_cells (rs_body r) \<union> slice_cells (rs_transformers r)
     \<union> set_option (rs_template r) \<union> set_option (rs_delay_distribution r) \<union> set_option (rs_chunked_dribble_delay r)"

lemma response_refs_cells: "response_refs r \<subseteq> response_cells h r"
  by (auto simp: response_refs_def response_cells_def pair_cells_def response_parts_def table_cells_def template_cells_def)

lemma response_copy_parts:
  assumes "response_copy grow r h = (r', h')"
  shows "part_clones grow (response_parts r) h = (response_parts r', h')"
    and "part_views h' (response_parts r') = part_views h (response_parts r) \<Longrightarrow> response_at h' r' = response_at h r"
  using assms by (auto simp: response_copy_def pair_clone_def pair_view_def response_parts_def response_at_def split: prod.splits)

text \<open>The clones and the rest of a response: where it stays the same, and its copy.\<close>

interpretation response: part_clone mapping_refs response_at response_cells response_ok "response_copy grow" for grow
proof unfold_locales
  fix A r and h h' :: mapping_memory
  assume "agree A h h'" "response_cells h r \<subseteq> A"
  from part_clone.framed [OF parts_clone this [unfolded response_cells_def]]
  show "response_at h' r = response_at h r \<and> response_cells h' r = response_cells h r
      \<and> (response_ok h r \<longrightarrow> response_ok h' r)"
    by (simp add: response_cells_def response_ok_def)
      (simp add: response_at_def pair_view_def response_parts_def)
next
  fix r and h :: mapping_memory
  show "response_ok h r \<Longrightarrow> response_cells h r \<subseteq> {..<mem_top h}"
    unfolding response_ok_def response_cells_def by (rule part_clone.ok_below [OF parts_clone])
next
  fix r r' and h h' :: mapping_memory
  assume copy: "response_copy grow r h = (r', h')" and ok: "response_ok h r"
  note parts = response_copy_parts [OF copy]
  from part_clone.clone_props [OF parts_clone parts(1) ok [unfolded response_ok_def]] parts(2)
  show "extends h h' \<and> response_at h' r' = response_at h r \<and> response_ok h' r'
      \<and> response_cells h' r' \<subseteq> fresh_cells h h' \<and> closed_fresh mapping_refs h h'"
    by (simp add: response_ok_def response_cells_def)
qed

section \<open>Raw members\<close>

text \<open>\<^verbatim>\<open>cloneRaw\<close> and \<^verbatim>\<open>cloneRawMap\<close>; a nil map is cloned to an empty one.\<close>

definition clone_raw :: "go_slice \<Rightarrow> mapping_memory \<Rightarrow> go_slice \<times> mapping_memory" where
  "clone_raw = clone_bytes"

definition clone_raw_map :: "nat option \<Rightarrow> mapping_memory \<Rightarrow> nat option \<times> mapping_memory" where
  "clone_raw_map source h = copy_table clone_raw (entries_of h source) h"

text \<open>\<^verbatim>\<open>raw["id"] = mustMarshalRaw(id)\<close>\<close>

definition put_raw_id :: "string \<Rightarrow> nat option \<Rightarrow> mapping_memory \<Rightarrow> mapping_memory" where
  "put_raw_id ident raw h =
     (case raw of
        None \<Rightarrow> h
      | Some m \<Rightarrow>
          (case allocate (Bytes (marshal_string ident)) h of
             (a, h1) \<Rightarrow>
               put_cell m (Table (aput ''id'' (Slice a 0 (length (marshal_string ident)) (length (marshal_string ident)))
                 (table_of (mem_cells h1 m)))) h1))"

definition raw_with_id :: "string \<Rightarrow> nat option \<Rightarrow> mapping_memory \<Rightarrow> nat option \<times> mapping_memory" where
  "raw_with_id ident source h = (case clone_raw_map source h of (raw, h1) \<Rightarrow> (raw, put_raw_id ident raw h1))"

lemma map_aput: "map (\<lambda>(n, v). (n, f v)) (aput k v t) = aput k (f v) (map (\<lambda>(n, v). (n, f v)) t)"
  by (induction t) auto

lemma aput_keys: "distinct_keys t \<Longrightarrow> distinct_keys (aput k v t)"
  by (rule distinct_update)

text \<open>The members with the new identifier, in memory of their own; nothing that was there changes.\<close>

lemma raw_with_id_props:
  assumes "raw_with_id ident source h = (raw, h')" and "table_ok bytes_of h source"
  shows "extends h h'" and "table_at bytes_of h' raw = set_raw_id ident (table_at bytes_of h source)"
    and "table_ok bytes_of h' raw" and "table_cells h' raw \<subseteq> fresh_cells h h'"
proof -
  obtain h1 where c: "clone_raw_map source h = (raw, h1)" and h': "h' = put_raw_id ident raw h1"
    using assms(1) by (auto simp: raw_with_id_def split: prod.splits)
  note new = byte_values.copy_table_props [OF c [unfolded clone_raw_map_def clone_raw_def] assms(2)]
  obtain m t where m: "raw = Some m" "mem_cells h1 m = Table t" using new(5) by auto
  let ?b = "marshal_string ident"
  let ?s = "Slice (mem_top h1) 0 (length ?b) (length ?b)" and ?t = "table_of (mem_cells h1 m)"
  have m_fresh: "m \<in> fresh_cells h h1" using new(4) by (simp add: m)
  have cells: "mem_cells h' = (mem_cells h1)(mem_top h1 := Bytes ?b, m := Table (aput ''id'' ?s ?t))"
    and top: "mem_top h' = Suc (mem_top h1)"
    using m_fresh by (auto simp: h' m put_raw_id_def allocate_def put_cell_def fresh_cells_def)
  have m_old: "m \<noteq> mem_top h1" "mem_top h1 \<noteq> m" using m_fresh by (auto simp: fresh_cells_def)
  have h1: "mem_top h \<le> mem_top h1" using new(1) by (simp add: agree_def)
  have entry: "elements bytes_of h' s = elements bytes_of h1 s \<and> slice_ok bytes_of h' s \<and> slice_cells s \<subseteq> fresh_cells h h1"
    if "(n, s) \<in> set ?t" for n s
  proof -
    have s: "slice_ok bytes_of h1 s" "slice_cells s \<subseteq> fresh_cells h h1"
      using new(3,4) that by (auto simp: m table_ok_def)
    have table: "bytes_of (mem_cells h1 m) = []" "bytes_of (mem_cells h' m) = []" by (simp_all add: m cells)
    show ?thesis
    proof (cases s)
      case (Slice a off n c)
      then have "a < mem_top h1" using s(1) by simp
      then show ?thesis using s table by (cases "a = m") (auto simp: Slice cells top)
    qed simp
  qed
  have lit: "elements bytes_of h' ?s = ?b" "slice_ok bytes_of h' ?s" "slice_cells ?s \<subseteq> fresh_cells h h'"
    using m_old h1 by (simp_all add: cells top fresh_cells_def)
  show "extends h h'" using new(1) m_fresh h1 by (auto simp: agree_def cells top fresh_cells_def)
  have at: "entries_of h' raw = aput ''id'' ?s ?t" by (simp add: m cells)
  have "table_at bytes_of h' raw = aput ''id'' ?b (map (\<lambda>(n, s). (n, elements bytes_of h' s)) ?t)"
    by (simp only: table_at_def at map_aput lit(1))
  also have "map (\<lambda>(n, s). (n, elements bytes_of h' s)) ?t = map (\<lambda>(n, s). (n, elements bytes_of h1 s)) ?t"
    using entry by (intro map_cong) auto
  also have "\<dots> = table_at bytes_of h source" using new(2) by (simp add: table_at_def m)
  finally show "table_at bytes_of h' raw = set_raw_id ident (table_at bytes_of h source)" by (simp add: set_raw_id_def)
  have fresh: "fresh_cells h h1 \<subseteq> fresh_cells h h'" using top by (auto simp: fresh_cells_def)
  have members: "slice_ok bytes_of h' s \<and> slice_cells s \<subseteq> fresh_cells h h'" if "(n, s) \<in> set (aput ''id'' ?s ?t)" for n s
    using that set_aput_subset [of "''id''" ?s ?t] entry [of n s] lit(2,3) fresh by blast
  have "distinct_keys ?t" using new(3) by (simp add: table_ok_def m)
  moreover have "m < mem_top h'" using m_fresh top by (simp add: fresh_cells_def)
  ultimately show "table_ok bytes_of h' raw" 
    using members unfolding table_ok_def at by (auto simp: m distinct_update)
  show "table_cells h' raw \<subseteq> fresh_cells h h'"
    using members m_fresh fresh unfolding table_cells_def at by (auto simp: m)
qed

lemma raw_frame:
  assumes "agree A h h'" and "table_cells h m \<subseteq> A"
  shows "table_at bytes_of h' m = table_at bytes_of h m \<and> table_cells h' m = table_cells h m
    \<and> (table_ok bytes_of h m \<longrightarrow> table_ok bytes_of h' m)"
  by (rule table_frame [OF assms])

section \<open>Mappings\<close>

definition mapping_at :: "mapping_memory \<Rightarrow> mapping_struct \<Rightarrow> mapping_stub" where
  "mapping_at h m = \<lparr>m_id = st_id m, m_name = st_name m, m_persistent = st_persistent m, m_priority = st_priority m,
     m_scenario = st_scenario m, m_request = st_request m, m_response = response_at h (st_response m),
     m_raw = table_at bytes_of h (st_raw m), m_sequence = st_sequence m\<rparr>"

definition mapping_cells :: "mapping_memory \<Rightarrow> mapping_struct \<Rightarrow> nat set" where
  "mapping_cells h m = response_cells h (st_response m) \<union> table_cells h (st_raw m)"

definition mapping_ok :: "mapping_memory \<Rightarrow> mapping_struct \<Rightarrow> bool" where
  "mapping_ok h m \<longleftrightarrow> response_ok h (st_response m) \<and> table_ok bytes_of h (st_raw m)"

lemma mapping_frame:
  assumes "agree A h h'" and "mapping_cells h m \<subseteq> A"
  shows "mapping_at h' m = mapping_at h m" and "mapping_cells h' m = mapping_cells h m"
    and "mapping_ok h m \<Longrightarrow> mapping_ok h' m"
  using response.framed [OF assms(1), of "st_response m"] raw_frame [OF assms(1), of "st_raw m"] assms(2)
  by (auto simp: mapping_at_def mapping_cells_def mapping_ok_def)

lemma mapping_below: "mapping_ok h m \<Longrightarrow> mapping_cells h m \<subseteq> {..<mem_top h}"
  using response.ok_below [of h "st_response m"] table_ok_cells [of bytes_of h "st_raw m"]
  by (simp add: mapping_ok_def mapping_cells_def)

text \<open>\<^verbatim>\<open>WithID\<close>, the mapping that \<^verbatim>\<open>Replace\<close> stores, and \<^verbatim>\<open>MarshalJSON\<close>.\<close>

definition rename_struct :: "string \<Rightarrow> mapping_struct \<Rightarrow> mapping_memory \<Rightarrow> mapping_struct \<times> mapping_memory" where
  "rename_struct ident m h =
     (case raw_with_id ident (st_raw m) h of (raw, h1) \<Rightarrow> (m\<lparr>st_id := ident, st_raw := raw\<rparr>, h1))"

definition struct_with_id :: "string \<Rightarrow> mapping_struct \<Rightarrow> mapping_memory \<Rightarrow> mapping_struct res \<times> mapping_memory" where
  "struct_with_id ident m h =
     (case validate_id ident of
        Ok _ \<Rightarrow> (case rename_struct ident m h of (next_m, h1) \<Rightarrow> (Ok next_m, h1))
      | Err e \<Rightarrow> (Err e, h)
      | Panic \<Rightarrow> (Panic, h))"

definition struct_replacement ::
  "string \<Rightarrow> 64 word \<Rightarrow> mapping_struct \<Rightarrow> mapping_memory \<Rightarrow> mapping_struct \<times> mapping_memory" where
  "struct_replacement ident seq m h =
     (case rename_struct ident m h of (next_m, h1) \<Rightarrow> (next_m\<lparr>st_sequence := seq\<rparr>, h1))"

definition raw_text :: "raw_map \<Rightarrow> string" where
  "raw_text raw =
     ''{'' @ join_with '','' (map (\<lambda>(k, v). marshal_string k @ '':'' @ compact_raw False v) (sort_keys raw)) @ ''}''"

definition marshal_struct :: "mapping_struct \<Rightarrow> mapping_memory \<Rightarrow> string \<times> mapping_memory" where
  "marshal_struct m h =
     (case raw_with_id (st_id m) (st_raw m) h of (raw, h1) \<Rightarrow> (raw_text (table_at bytes_of h1 raw), h1))"

lemma rename_struct_props:
  assumes "rename_struct ident m h = (m', h')" and "mapping_ok h m"
  shows "extends h h'" and "mapping_at h' m' = (mapping_at h m)\<lparr>m_id := ident, m_raw := set_raw_id ident (m_raw (mapping_at h m))\<rparr>"
    and "mapping_ok h' m'" and "mapping_cells h' m' \<subseteq> mapping_cells h m \<union> fresh_cells h h'"
proof -
  obtain raw where raw: "raw_with_id ident (st_raw m) h = (raw, h')" "m' = m\<lparr>st_id := ident, st_raw := raw\<rparr>"
    using assms(1) by (auto simp: rename_struct_def split: prod.splits)
  have ok: "response_ok h (st_response m)" "table_ok bytes_of h (st_raw m)" using assms(2) by (simp_all add: mapping_ok_def)
  note new = raw_with_id_props [OF raw(1) ok(2)]
  note kept = response.framed [OF new(1) response.ok_below [OF ok(1)]]
  show "extends h h'" by (rule new(1))
  show "mapping_at h' m' = (mapping_at h m)\<lparr>m_id := ident, m_raw := set_raw_id ident (m_raw (mapping_at h m))\<rparr>"
    using new(2) kept(1) by (simp add: mapping_at_def raw(2))
  show "mapping_ok h' m'" using new(3) kept(3) ok(1) by (simp add: mapping_ok_def raw(2))
  show "mapping_cells h' m' \<subseteq> mapping_cells h m \<union> fresh_cells h h'"
    using new(4) kept(2) by (auto simp: mapping_cells_def raw(2))
qed

lemma marshal_struct_props:
  assumes "marshal_struct m h = (t, h')" and "mapping_ok h m"
  shows "extends h h'" and "t = marshal_mapping (mapping_at h m)"
proof -
  obtain raw where raw: "raw_with_id (st_id m) (st_raw m) h = (raw, h')" "t = raw_text (table_at bytes_of h' raw)"
    using assms(1) by (auto simp: marshal_struct_def split: prod.splits)
  have "table_ok bytes_of h (st_raw m)" using assms(2) by (simp add: mapping_ok_def)
  note new = raw_with_id_props [OF raw(1) this]
  show "extends h h'" by (rule new(1))
  show "t = marshal_mapping (mapping_at h m)" using new(2) by (simp add: raw(2) raw_text_def marshal_mapping_def mapping_at_def)
qed

section \<open>Its operations as calls\<close>

text \<open>The mappings that the store, its snapshots and the requests hold, by some name.\<close>

type_synonym mapping_table = "string \<Rightarrow> mapping_struct option"

datatype mapping_call =
    Take_Response string | Give_Id string string string | Replace_As string string "64 word" string | Show_Json string

datatype 'r mapping_result = No_Mapping | Response 'r | Given "unit res" | Json string

fun run_mapping_call ::
  "(nat \<Rightarrow> nat \<Rightarrow> nat) \<Rightarrow> mapping_call \<Rightarrow> mapping_memory \<Rightarrow> mapping_table
    \<Rightarrow> response_struct mapping_result \<times> mapping_table \<times> mapping_memory" where
  "run_mapping_call grow (Take_Response k) h s =
     (case s k of
        None \<Rightarrow> (No_Mapping, s, h)
      | Some m \<Rightarrow> (case response_copy grow (st_response m) h of (r, h') \<Rightarrow> (Response r, s, h')))"
| "run_mapping_call grow (Give_Id k ident k') h s =
     (case s k of
        None \<Rightarrow> (No_Mapping, s, h)
      | Some m \<Rightarrow>
          (case struct_with_id ident m h of
             (Ok m', h') \<Rightarrow> (Given (Ok ()), s(k' \<mapsto> m'), h')
           | (Err e, h') \<Rightarrow> (Given (Err e), s, h')
           | (Panic, h') \<Rightarrow> (Given Panic, s, h')))"
| "run_mapping_call grow (Replace_As k ident seq k') h s =
     (case s k of
        None \<Rightarrow> (No_Mapping, s, h)
      | Some m \<Rightarrow> (case struct_replacement ident seq m h of (m', h') \<Rightarrow> (Given (Ok ()), s(k' \<mapsto> m'), h')))"
| "run_mapping_call grow (Show_Json k) h s =
     (case s k of
        None \<Rightarrow> (No_Mapping, s, h)
      | Some m \<Rightarrow> (case marshal_struct m h of (t, h') \<Rightarrow> (Json t, s, h')))"

text \<open>The same over values, as \<open>Mapping_Model\<close> and \<open>Mapping_Store\<close> have it.\<close>

fun mapping_spec :: "mapping_call \<Rightarrow> (string \<Rightarrow> mapping_stub option)
    \<Rightarrow> response_definition mapping_result \<times> (string \<Rightarrow> mapping_stub option)" where
  "mapping_spec (Take_Response k) v = (case v k of None \<Rightarrow> (No_Mapping, v) | Some m \<Rightarrow> (Response (m_response m), v))"
| "mapping_spec (Give_Id k ident k') v =
     (case v k of
        None \<Rightarrow> (No_Mapping, v)
      | Some m \<Rightarrow>
          (case with_id m ident of
             Ok m' \<Rightarrow> (Given (Ok ()), v(k' \<mapsto> m'))
           | Err e \<Rightarrow> (Given (Err e), v)
           | Panic \<Rightarrow> (Given Panic, v)))"
| "mapping_spec (Replace_As k ident seq k') v =
     (case v k of
        None \<Rightarrow> (No_Mapping, v)
      | Some m \<Rightarrow>
          (Given (Ok ()), v(k' \<mapsto> m\<lparr>m_id := ident, m_raw := set_raw_id ident (m_raw m), m_sequence := seq\<rparr>)))"
| "mapping_spec (Show_Json k) v = (case v k of None \<Rightarrow> (No_Mapping, v) | Some m \<Rightarrow> (Json (marshal_mapping m), v))"

definition mapping_api ::
  "(nat \<Rightarrow> nat \<Rightarrow> nat) \<Rightarrow> (mapping_cell, mapping_table, mapping_call, response_struct mapping_result, mapping_call,
     response_definition mapping_result) memory_api" where
  "mapping_api grow = \<lparr>ma_refs = mapping_refs, ma_call = run_mapping_call grow, ma_fits = (\<lambda>h c. True),
     ma_given = (\<lambda>c. {}), ma_got = (\<lambda>r. \<Union>(response_refs ` set_mapping_result r)), ma_meaning = (\<lambda>h c. c),
     ma_answer = (\<lambda>h. map_mapping_result (response_at h))\<rparr>"

lemma mapping_api_simps [simp]:
  "ma_refs (mapping_api grow) = mapping_refs" "ma_call (mapping_api grow) = run_mapping_call grow"
  "ma_fits (mapping_api grow) h c" "ma_given (mapping_api grow) c = {}"
  "ma_got (mapping_api grow) r = \<Union>(response_refs ` set_mapping_result r)"
  "ma_meaning (mapping_api grow) h c = c" "ma_answer (mapping_api grow) h = map_mapping_result (response_at h)"
  by (simp_all add: mapping_api_def)

definition mappings_sound :: "mapping_memory \<Rightarrow> mapping_table \<Rightarrow> bool" where
  "mappings_sound h s \<longleftrightarrow> (\<forall>k m. s k = Some m \<longrightarrow> mapping_ok h m)"

definition mappings_owned :: "mapping_memory \<Rightarrow> mapping_table \<Rightarrow> nat set" where
  "mappings_owned h s = (\<Union>m \<in> ran s. mapping_cells h m)"

definition mappings_view :: "mapping_memory \<Rightarrow> mapping_table \<Rightarrow> string \<Rightarrow> mapping_stub option" where
  "mappings_view h s = (\<lambda>k. map_option (mapping_at h) (s k))"

lemma mappings_frame:
  assumes "mappings_sound h s" and "agree (mappings_owned h s) h h'"
  shows "mappings_sound h' s" and "mappings_owned h' s = mappings_owned h s" and "mappings_view h' s = mappings_view h s"
proof -
  have same: "mapping_at h' m = mapping_at h m \<and> mapping_cells h' m = mapping_cells h m \<and> mapping_ok h' m"
    if "s k = Some m" for k m
  proof -
    have "mapping_cells h m \<subseteq> mappings_owned h s" using that by (auto simp: mappings_owned_def ran_def)
    from mapping_frame [OF assms(2) this] assms(1) that show ?thesis by (simp add: mappings_sound_def)
  qed
  then show "mappings_sound h' s" by (simp add: mappings_sound_def)
  show "mappings_owned h' s = mappings_owned h s"
    unfolding mappings_owned_def by (rule SUP_cong) (use same in \<open>auto simp: ran_def\<close>)
  show "mappings_view h' s = mappings_view h s"
    unfolding mappings_view_def by (rule ext) (use same in \<open>simp add: map_option_case split: option.split\<close>)
qed

lemma mappings_below: "mappings_sound h s \<Longrightarrow> mappings_owned h s \<subseteq> {..<mem_top h}"
  using mapping_below unfolding mappings_sound_def mappings_owned_def ran_def by blast

text \<open>A new mapping that shares cells with the one it was made from.\<close>

lemma mappings_update:
  assumes s: "mappings_sound h s" and m: "s k = Some m" and ext: "extends h h'" and m': "mapping_ok h' m'"
    and shared: "mapping_cells h' m' \<subseteq> mapping_cells h m \<union> fresh_cells h h'"
  shows "mappings_sound h' (s(k' \<mapsto> m'))"
    and "mappings_view h' (s(k' \<mapsto> m')) = (mappings_view h s)(k' \<mapsto> mapping_at h' m')"
    and "mappings_owned h' (s(k' \<mapsto> m')) \<subseteq> mappings_owned h s \<union> fresh_cells h h'"
proof -
  note kept = mappings_frame [OF s agree_mono [OF ext mappings_below [OF s]]]
  show "mappings_sound h' (s(k' \<mapsto> m'))" using kept(1) m' by (simp add: mappings_sound_def)
  show "mappings_view h' (s(k' \<mapsto> m')) = (mappings_view h s)(k' \<mapsto> mapping_at h' m')"
    using kept(3) by (auto simp: mappings_view_def fun_eq_iff)
  have "mapping_cells h m \<subseteq> mappings_owned h s" using m by (auto simp: mappings_owned_def ran_def)
  moreover have "mappings_owned h' (s(k' \<mapsto> m')) \<subseteq> mappings_owned h' s \<union> mapping_cells h' m'"
    by (auto simp: mappings_owned_def ran_def split: if_splits)
  ultimately show "mappings_owned h' (s(k' \<mapsto> m')) \<subseteq> mappings_owned h s \<union> fresh_cells h h'"
    using shared kept(2) by blast
qed

text \<open>What every call does.\<close>

definition mapping_step ::
  "(nat \<Rightarrow> nat \<Rightarrow> nat) \<Rightarrow> mapping_call \<Rightarrow> mapping_memory \<Rightarrow> mapping_table \<Rightarrow> response_struct mapping_result
    \<Rightarrow> mapping_table \<Rightarrow> mapping_memory \<Rightarrow> bool" where
  "mapping_step grow c h s r s' h' \<longleftrightarrow>
     extends h h' \<and> mappings_sound h' s'
     \<and> mapping_spec c (mappings_view h s) = (map_mapping_result (response_at h') r, mappings_view h' s')
     \<and> mappings_owned h' s' \<subseteq> mappings_owned h s \<union> fresh_cells h h'
     \<and> reach mapping_refs h' (\<Union>(response_refs ` set_mapping_result r)) \<subseteq> fresh_cells h h' - mappings_owned h' s'"

lemma mappings_unchanged:
  assumes "mappings_sound h s" and "extends h h'"
  shows "mappings_sound h' s" and "mappings_view h' s = mappings_view h s" and "mappings_owned h' s = mappings_owned h s"
  using mappings_frame [OF assms(1) agree_mono [OF assms(2) mappings_below [OF assms(1)]]] by simp_all

lemma step_changes_nothing:
  assumes "mappings_sound h s" and "extends h h'" and "set_mapping_result r = {}"
    and "mapping_spec c (mappings_view h s) = (map_mapping_result (response_at h') r, mappings_view h s)"
  shows "mapping_step grow c h s r s h'"
  using mappings_unchanged [OF assms(1,2)] assms(2-4) by (simp add: mapping_step_def)

lemma take_response_step:
  assumes s: "mappings_sound h s" and m: "s k = Some m" and copy: "response_copy grow (st_response m) h = (r, h')"
  shows "mapping_step grow (Take_Response k) h s (Response r) s h'"
proof -
  have ok: "response_ok h (st_response m)" using s m by (auto simp: mappings_sound_def mapping_ok_def)
  note new = response.clone_props [OF copy ok] and kept = mappings_unchanged [OF s response.clone_props(1) [OF copy ok]]
  have "fresh_cells h h' \<inter> mappings_owned h' s = {}"
    using mappings_below [OF s] kept(3) by (auto simp: fresh_cells_def)
  moreover have "reach mapping_refs h' (response_refs r) \<subseteq> fresh_cells h h'"
    by (rule reach_least) (use new(4,5) response_refs_cells [of r h'] in \<open>auto simp: closed_fresh_def\<close>)
  ultimately show ?thesis
    using new(1,2) kept by (simp add: mapping_step_def) (auto simp: mappings_view_def m mapping_at_def)
qed

lemma new_mapping_step:
  assumes "mappings_sound h s" and "s k = Some m" and "extends h h'" and "mapping_ok h' m'"
    and "mapping_cells h' m' \<subseteq> mapping_cells h m \<union> fresh_cells h h'"
    and "mapping_spec c (mappings_view h s) = (Given (Ok ()), (mappings_view h s)(k' \<mapsto> mapping_at h' m'))"
  shows "mapping_step grow c h s (Given (Ok ())) (s(k' \<mapsto> m')) h'"
  using mappings_update [OF assms(1-5)] assms(3,6) by (simp add: mapping_step_def)

lemma mapping_call_step:
  assumes s: "mappings_sound h s" and call: "run_mapping_call grow c h s = (r, s', h')"
  shows "mapping_step grow c h s r s' h'"
proof -
  have idle: "extends h h" by (simp add: agree_def)
  have ok: "mapping_ok h m" if "s k = Some m" for k m using s that by (simp add: mappings_sound_def)
  have unchanged: "mapping_step grow c h s r s' h'" if "set_mapping_result r = {}" "s' = s" "h' = h"
    "mapping_spec c (mappings_view h s) = (map_mapping_result (response_at h) r, mappings_view h s)"
    using step_changes_nothing [OF s idle, of r] that by simp
  show ?thesis
  proof (cases c)
    case (Take_Response k)
    show ?thesis
      using call unchanged take_response_step [OF s, of k]
      by (auto simp: Take_Response mappings_view_def split: option.splits prod.splits)
  next
    case (Show_Json k)
    show ?thesis
    proof (cases "s k")
      case None
      then show ?thesis using call unchanged by (auto simp: Show_Json mappings_view_def)
    next
      case (Some m)
      then obtain t where t: "marshal_struct m h = (t, h')" "r = Json t" "s' = s"
        using call by (auto simp: Show_Json split: prod.splits)
      note props = marshal_struct_props [OF t(1) ok [OF Some]]
      show ?thesis
        unfolding t(3) by (rule step_changes_nothing [OF s props(1)])
          (simp_all add: t(2) Show_Json props(2) mappings_view_def Some)
    qed
  next
    case (Replace_As k ident seq k')
    show ?thesis
    proof (cases "s k")
      case None
      then show ?thesis using call unchanged by (auto simp: Replace_As mappings_view_def)
    next
      case (Some m)
      obtain m1 where m1: "rename_struct ident m h = (m1, h')" "r = Given (Ok ())" "s' = s(k' \<mapsto> m1\<lparr>st_sequence := seq\<rparr>)"
        using call by (auto simp: Replace_As Some struct_replacement_def split: prod.splits)
      note props = rename_struct_props [OF m1(1) ok [OF Some]]
      have seq: "mapping_at h' (m1\<lparr>st_sequence := seq\<rparr>) = (mapping_at h' m1)\<lparr>m_sequence := seq\<rparr>"
        "mapping_ok h' (m1\<lparr>st_sequence := seq\<rparr>)" "mapping_cells h' (m1\<lparr>st_sequence := seq\<rparr>) = mapping_cells h' m1"
        using props(3) by (simp_all add: mapping_at_def mapping_ok_def mapping_cells_def)
      show ?thesis
        unfolding m1(2,3)
        by (rule new_mapping_step [OF s Some props(1)])
          (simp_all add: seq props(2,4) Replace_As mappings_view_def Some)
    qed
  next
    case (Give_Id k ident k')
    show ?thesis
    proof (cases "s k")
      case None
      then show ?thesis using call unchanged by (auto simp: Give_Id mappings_view_def)
    next
      case (Some m)
      show ?thesis
      proof (cases "validate_id ident")
        case (Ok u)
        then obtain m1 where m1: "rename_struct ident m h = (m1, h')" "r = Given (Ok ())" "s' = s(k' \<mapsto> m1)"
          using call by (auto simp: Give_Id Some struct_with_id_def split: prod.splits)
        note props = rename_struct_props [OF m1(1) ok [OF Some]]
        show ?thesis
          unfolding m1(2,3)
          by (rule new_mapping_step [OF s Some props(1,3,4)])
            (simp add: props(2) Give_Id mappings_view_def Some with_id_def Ok)
      next
        case (Err e)
        then have "r = Given (Err e)" "s' = s" "h' = h" using call by (auto simp: Give_Id Some struct_with_id_def)
        then show ?thesis by (intro unchanged) (simp_all add: Give_Id mappings_view_def Some with_id_def Err)
      next
        case Panic
        then have "r = Given Panic" "s' = s" "h' = h" using call by (auto simp: Give_Id Some struct_with_id_def)
        then show ?thesis by (intro unchanged) (simp_all add: Give_Id mappings_view_def Some with_id_def Panic)
      qed
    qed
  qed
qed

interpretation mapping_memory: private_memory "mapping_api grow" mappings_sound mappings_owned mappings_view mapping_spec
  for grow
proof unfold_locales
  fix h h' :: mapping_memory and s s' c r
  assume s: "mappings_sound h s"
  show "agree (mappings_owned h s) h h'
      \<Longrightarrow> mappings_sound h' s \<and> mappings_owned h' s = mappings_owned h s \<and> mappings_view h' s = mappings_view h s"
    using mappings_frame [OF s] by blast
  show "mappings_owned h s \<subseteq> {..<mem_top h}" by (rule mappings_below [OF s])
  assume "ma_call (mapping_api grow) c h s = (r, s', h')"
  with s have step: "mapping_step grow c h s r s' h'" by (simp add: mapping_call_step)
  from step show "mappings_sound h' s' \<and> mapping_spec (ma_meaning (mapping_api grow) h c) (mappings_view h s)
      = (ma_answer (mapping_api grow) h' r, mappings_view h' s')"
    by (simp add: mapping_step_def)
  from step show "agree ({..<mem_top h} - mappings_owned h s) h h'
      \<and> mappings_owned h' s' \<subseteq> mappings_owned h s \<union> fresh_cells h h'"
    by (auto simp: mapping_step_def intro: agree_mono)
  from step show "reach (ma_refs (mapping_api grow)) h' (ma_got (mapping_api grow) r)
      \<subseteq> fresh_cells h h' - mappings_owned h' s'"
    by (simp add: mapping_step_def)
qed

end
