(* ===== verification/Props_Memory.thy ===== *)
theory Props_Memory
  imports File_Memory Journal_Memory Mapping_Memory Samples
begin

text \<open>Properties of the stores over Go's memory.\<close>

section \<open>The recorder\<close>

text \<open>
  C13: Whatever its callers write, before and after a call, to the bodies and headers they passed to the recorder
  and to the events they got from it, every result of the recorder and its state are those of the recorder
  over values: the arguments count as they were at the call.
\<close>

theorem recorder_copies:
  assumes "memory_run (journal_api grow) (h, new_journal, K) tr (h', s', K')" and "closed_cells event_refs h K"
  shows "follows journal_spec new_recording_store tr (journal_view h' s')"
proof -
  have "recorder_memory.apart grow (h, new_journal, K)" "journal_view h new_journal = new_recording_store"
    using assms(2)
    by (simp_all add: recorder_memory.apart_def new_journal_def journal_sound_def journal_owned_def events_ok_def
        events_cells_def journal_view_def events_at_def new_recording_store_def)
  with recorder_memory.run_follows [OF assms(1)] show ?thesis by simp
qed

text \<open>A caller that reuses the buffer of a request body.\<close>

definition buffer_memory :: "string \<Rightarrow> event_memory" where
  "buffer_memory b = \<lparr>mem_cells = (\<lambda>_. Free)(0 := Bytes b), mem_top = 1\<rparr>"

definition buffer_event :: event_struct where
  "buffer_event = zero_event\<lparr>ev_method := ''POST'', ev_request_body := Slice 0 0 3 3, ev_protocol := ''http'',
     ev_recorded_at := 7\<rparr>"

definition reused_buffer :: "serve_event list" where
  "reused_buffer =
     (let (s, h1) = memory_add_event (\<lambda>c n. n) 7 buffer_event False (buffer_memory ''one'') new_journal;
          (events, h2) = memory_snapshot (\<lambda>c n. n) (put_cell 0 (Bytes ''two'') h1) s
      in events_at h2 events)"

theorem recorder_copies_witness: "map se_request_body reused_buffer = [''one'']"
proof -
  let ?grow = "\<lambda>c n. n" and ?h0 = "buffer_memory ''one''"
  let ?I = "journal_api ?grow"
  obtain s h1 where add: "memory_add_event ?grow 7 buffer_event False ?h0 new_journal = (s, h1)"
    by (cases "memory_add_event ?grow 7 buffer_event False ?h0 new_journal")
  let ?h2 = "put_cell 0 (Bytes ''two'') h1"
  obtain es h3 where take: "memory_snapshot ?grow ?h2 s = (es, h3)" by (cases "memory_snapshot ?grow ?h2 s")
  have ok: "event_ok ?h0 buffer_event" "closed_cells event_refs ?h0 {0}" "event_refs buffer_event = {0}"
    by (simp_all add: event_ok_def buffer_event_def zero_event_def buffer_memory_def closed_cells_def event_refs_def)
  have "journal_sound ?h0 new_journal" by (simp add: journal_sound_def new_journal_def events_ok_def)
  from memory_add_event_props [OF this ok(1) add] have "agree {} ?h0 h1" by (auto simp: agree_def)
  then have top: "0 < mem_top h1" by (simp add: agree_def buffer_memory_def)
  have "memory_run ?I (?h0, new_journal, {0})
      ([] @ [(ma_meaning ?I ?h0 (Add_Event 7 buffer_event False), ma_answer ?I h1 No_Result)])
      (h1, s, {0} \<union> reach (ma_refs ?I) h1 (ma_got ?I No_Result))"
    by (rule memory_run.call [OF memory_run.quiet]) (simp_all add: ok add)
  then have "memory_run ?I (?h0, new_journal, {0}) [(Add_Event 7 (event_at ?h0 buffer_event) False, No_Result)]
      (?h2, s, {0} \<union> fresh_cells h1 ?h2)"
    by (intro memory_run.client [where h = h1]) (simp_all add: closed_cells_def fresh_cells_def top)
  then have "memory_run ?I (?h0, new_journal, {0})
      ([(Add_Event 7 (event_at ?h0 buffer_event) False, No_Result)]
        @ [(ma_meaning ?I ?h2 Take_Journal, ma_answer ?I h3 (Journal_Events es))])
      (h3, s, ({0} \<union> fresh_cells h1 ?h2) \<union> reach (ma_refs ?I) h3 (ma_got ?I (Journal_Events es)))"
    by (rule memory_run.call) (simp_all add: take)
  from recorder_copies [OF this ok(2)]
  have "events_at h3 es = [event_at ?h0 buffer_event]"
    by (simp add: add_event_def complete_event_def new_recording_store_def event_at_def buffer_event_def zero_event_def)
  moreover have "reused_buffer = events_at h3 es" by (simp add: reused_buffer_def add take)
  ultimately have "reused_buffer = [event_at ?h0 buffer_event]" by (rule trans [rotated])
  show ?thesis unfolding \<open>reused_buffer = [_]\<close>
    by (simp add: event_at_def buffer_event_def zero_event_def buffer_memory_def)
qed

section \<open>Body files\<close>

text \<open>
  C15: Whatever the callers of the file store write to the contents they stored or got, every content it gives is
  the last one stored under the name, as it was when it was stored.
\<close>

theorem body_files_copied:
  assumes "memory_run file_api (h, Map.empty, K) tr (h', s', K')" and "closed_cells (\<lambda>_. {}) h K"
  shows "follows file_spec new_memory_store tr (files_view h' s')"
proof -
  have "file_memory.apart (h, Map.empty, K)" "files_view h Map.empty = new_memory_store"
    using assms(2) by (simp_all add: file_memory.apart_def files_sound_def files_owned_def files_view_def
        new_memory_store_def)
  with file_memory.run_follows [OF assms(1)] show ?thesis by simp
qed

text \<open>A caller that reuses the buffer of an uploaded file.\<close>

definition reused_upload :: "string option" where
  "reused_upload =
     (let h0 = \<lparr>mem_cells = (\<lambda>_. Free)(0 := Bytes ''one''), mem_top = 1\<rparr> :: unit memory;
          (s, h1) = memory_put ''f'' (Slice 0 0 3 3) h0 Map.empty;
          (d, h2) = memory_get ''f'' (put_cell 0 (Bytes ''two'') h1) s
      in map_option (bytes_at h2) d)"

theorem body_files_copied_witness: "reused_upload = Some ''one''"
proof -
  let ?h0 = "\<lparr>mem_cells = (\<lambda>_. Free)(0 := Bytes ''one''), mem_top = 1\<rparr> :: unit memory"
  obtain s h1 where put: "memory_put ''f'' (Slice 0 0 3 3) ?h0 Map.empty = (s, h1)"
    by (cases "memory_put ''f'' (Slice 0 0 3 3) ?h0 Map.empty")
  let ?h2 = "put_cell 0 (Bytes ''two'') h1"
  obtain d h3 where get: "memory_get ''f'' ?h2 s = (d, h3)" by (cases "memory_get ''f'' ?h2 s")
  have "mem_top h1 = 2"
    using put by (auto simp: memory_put_def clone_bytes_def make_bytes_def allocate_def copy_bytes_def)
  have "memory_run file_api (?h0, Map.empty, {0})
      ([] @ [(ma_meaning file_api ?h0 (Put_File ''f'' (Slice 0 0 3 3)), ma_answer file_api h1 None)])
      (h1, s, {0} \<union> reach (ma_refs file_api) h1 (ma_got file_api None))"
    by (rule memory_run.call [OF memory_run.quiet]) (simp_all add: put [simplified])
  then have "memory_run file_api (?h0, Map.empty, {0}) [(Put_File ''f'' ''one'', None)] (?h2, s, {0} \<union> fresh_cells h1 ?h2)"
    by (intro memory_run.client [where h = h1]) (simp_all add: closed_cells_def fresh_cells_def \<open>mem_top h1 = 2\<close>)
  then have "memory_run file_api (?h0, Map.empty, {0})
      ([(Put_File ''f'' ''one'', None)] @ [(ma_meaning file_api ?h2 (Get_File ''f''), ma_answer file_api h3 d)])
      (h3, s, ({0} \<union> fresh_cells h1 ?h2) \<union> reach (ma_refs file_api) h3 (ma_got file_api d))"
    by (rule memory_run.call) (simp_all add: get)
  from body_files_copied [OF this] have "map_option (bytes_at h3) d = Some ''one''"
    by (simp add: closed_cells_def file_get_def file_put_def)
  moreover have "reused_upload = map_option (bytes_at h3) d" by (simp add: reused_upload_def put [simplified] get)
  ultimately show ?thesis by simp
qed

section \<open>Mappings\<close>

text \<open>
  C14: A mapping is shared by the store's table, its published snapshots and the requests that are being served, and
  so are the maps and slices in it. Whatever is written to the responses that \<^verbatim>\<open>Response\<close> gave out, and however
  often \<^verbatim>\<open>WithID\<close>, \<^verbatim>\<open>Replace\<close> and \<^verbatim>\<open>MarshalJSON\<close> put an identifier into the raw members, no mapping that exists
  changes: every result is that of the same operation on mappings as values.
\<close>

theorem mappings_never_change:
  assumes "memory_run (mapping_api grow) (h, s, K) tr (h', s', K')" and "mappings_sound h s"
    and "closed_cells mapping_refs h K" and "K \<inter> mappings_owned h s = {}"
  shows "follows mapping_spec (mappings_view h s) tr (mappings_view h' s')"
proof -
  have "mapping_memory.apart grow (h, s, K)" using assms(2-4) by (simp add: mapping_memory.apart_def)
  with mapping_memory.run_follows [OF assms(1)] show ?thesis by simp
qed

text \<open>A caller that writes to the body of a response it got.\<close>

definition text_response :: response_struct where
  "text_response = \<lparr>rs_status = 200, rs_headers = None, rs_body = Slice 0 0 2 2, rs_json = False, rs_body_file = [],
     rs_transformers = Nil_Slice, rs_template = None, rs_proxy_base_url = [], rs_proxy_url_prefix_to_remove = [],
     rs_fixed_delay = 0, rs_delay_distribution = None, rs_chunked_dribble_delay = None\<rparr>"

definition text_mapping :: mapping_struct where
  "text_mapping = \<lparr>st_id = ''m'', st_name = [], st_persistent = False, st_priority = 5, st_scenario = no_scenario,
     st_request = any_request ''/a'', st_response = text_response, st_raw = None, st_sequence = 1\<rparr>"

definition text_memory :: mapping_memory where
  "text_memory = \<lparr>mem_cells = (\<lambda>_. Free)(0 := Bytes ''hi''), mem_top = 1\<rparr>"

definition written_copy :: "string option \<times> string option" where
  "written_copy =
     (let (r1, h1) = response_copy (\<lambda>c n. n) text_response text_memory;
          h2 = put_cell 1 (Bytes ''xx'') h1;
          (r2, h3) = response_copy (\<lambda>c n. n) text_response h2
      in (body_at h2 (rs_body r1), body_at h3 (rs_body r2)))"

lemma copy_text_response:
  "response_copy grow text_response text_memory
     = (text_response\<lparr>rs_body := Slice 1 0 2 2\<rparr>, \<lparr>mem_cells = (\<lambda>_. Free)(0 := Bytes ''hi'', 1 := Bytes ''hi''), mem_top = 2\<rparr>)"
  by (simp add: response_copy_def text_response_def text_memory_def clone_header_table_def clone_bytes_def
      make_bytes_def copy_bytes_def allocate_def put_cell_def clone_strings_def clone_response_template_def
      clone_delay_distribution_def clone_chunked_dribble_delay_def append_slice_def fun_eq_iff)

theorem mappings_never_change_witness: "written_copy = (Some ''xx'', Some ''hi'')"
proof -
  let ?I = "mapping_api (\<lambda>c n. n)" and ?s = "[''m'' \<mapsto> text_mapping]" and ?r1 = "text_response\<lparr>rs_body := Slice 1 0 2 2\<rparr>"
  obtain h1 :: mapping_memory where h1: "h1 = \<lparr>mem_cells = (\<lambda>_. Free)(0 := Bytes ''hi'', 1 := Bytes ''hi''), mem_top = 2\<rparr>" by blast
  let ?h2 = "put_cell 1 (Bytes ''xx'') h1"
  have take: "response_copy (\<lambda>c n. n) text_response text_memory = (?r1, h1)" by (simp add: copy_text_response h1)
  obtain r2 h3 where again: "response_copy (\<lambda>c n. n) text_response ?h2 = (r2, h3)"
    by (cases "response_copy (\<lambda>c n. n) text_response ?h2")
  have got: "response_refs ?r1 = {1}" by (simp add: response_refs_def text_response_def)
  have reached: "reach mapping_refs h1 {1} = {1}"
    by (rule antisym [OF reach_least]) (auto simp: h1 intro: reach.root)
  have gives: "{} \<union> reach (ma_refs ?I) h1 (ma_got ?I (Response ?r1)) = {1}"
    using got reached by (simp del: One_nat_def)
  have "memory_run ?I (text_memory, ?s, {})
      ([] @ [(ma_meaning ?I text_memory (Take_Response ''m''), ma_answer ?I h1 (Response ?r1))])
      (h1, ?s, {} \<union> reach (ma_refs ?I) h1 (ma_got ?I (Response ?r1)))"
    by (rule memory_run.call [OF memory_run.quiet]) (simp_all add: text_mapping_def take)
  from this [unfolded gives]
  have "memory_run ?I (text_memory, ?s, {}) [(Take_Response ''m'', Response (response_at h1 ?r1))]
      (?h2, ?s, {1} \<union> fresh_cells h1 ?h2)"
    by (intro memory_run.client [where h = h1]) (simp_all add: closed_cells_def fresh_cells_def h1)
  then have "memory_run ?I (text_memory, ?s, {})
      ([(Take_Response ''m'', Response (response_at h1 ?r1))]
        @ [(ma_meaning ?I ?h2 (Take_Response ''m''), ma_answer ?I h3 (Response r2))])
      (h3, ?s, ({1} \<union> fresh_cells h1 ?h2) \<union> reach (ma_refs ?I) h3 (ma_got ?I (Response r2)))"
    by (rule memory_run.call) (simp_all add: text_mapping_def again [simplified])
  moreover have "response_ok text_memory text_response"
    by (simp add: response_ok_def response_parts_def pair_ok_def text_response_def text_memory_def table_ok_def
        template_ok_def pointer_ok_def pointed_def)
  then have "mappings_sound text_memory ?s"
    by (simp add: mappings_sound_def mapping_ok_def text_mapping_def table_ok_def)
  ultimately have "follows mapping_spec (mappings_view text_memory ?s)
      ([(Take_Response ''m'', Response (response_at h1 ?r1))]
        @ [(ma_meaning ?I ?h2 (Take_Response ''m''), ma_answer ?I h3 (Response r2))]) (mappings_view h3 ?s)"
    by (rule mappings_never_change) (simp_all add: closed_cells_def)
  then have "response_at h3 r2 = response_at text_memory text_response"
    by (auto simp: mappings_view_def mapping_at_def text_mapping_def)
  then have "body_at h3 (rs_body r2) = body_at text_memory (rs_body text_response)" by (simp add: response_at_def)
  moreover have "written_copy = (body_at ?h2 (rs_body ?r1), body_at h3 (rs_body r2))"
    by (simp add: written_copy_def take again [simplified])
  ultimately show ?thesis by (simp add: body_at_def text_response_def text_memory_def h1)
qed

end
