(* ===== verification/Json_Equality.thy ===== *)
theory Json_Equality
  imports Json_Roundtrip Request_Matcher
begin

text \<open>
  What \<open>equalToJson\<close> compares. The matcher compares the texts that \<^verbatim>\<open>json.Marshal\<close> prints for the normalised
  values; this theory shows that two such texts are equal exactly for the same JSON value: the order of
  members, white space, escapes and the spelling of numbers do not matter, everything else does.
\<close>

section \<open>The specification\<close>

fun same_json :: "gval \<Rightarrow> gval \<Rightarrow> bool" where
  "same_json (GArr vs) (GArr ws) \<longleftrightarrow> list_all2 same_json vs ws"
| "same_json (GObj ms) (GObj ns) \<longleftrightarrow> length ms = length ns
     \<and> (\<forall>(k, v) \<in> set ms. case map_of ns k of None \<Rightarrow> False | Some w \<Rightarrow> same_json v w)"
| "same_json v w \<longleftrightarrow> v = w"

text \<open>The document a text stands for: the content of a JSON string, otherwise the text itself.\<close>

definition json_document :: "string \<Rightarrow> string" where
  "json_document raw = (case unmarshal_string raw of Some s \<Rightarrow> s | None \<Rightarrow> raw)"

lemma normalize_raw_json_document:
  "normalize_raw_json L raw
    = map_option (\<lambda>v. marshal (fmt_float L) (normalize_value v)) (unmarshal_any (json_document raw))"
  by (simp add: normalize_raw_json_def json_document_def)

text \<open>
  What the encoder prints for a double that is no \<^verbatim>\<open>int64\<close>: the text of a JSON number, for each double another
  one, and never that of an integer.
\<close>

definition float_format :: "(f64 \<Rightarrow> string) \<Rightarrow> bool" where
  "float_format ff \<longleftrightarrow>
     (\<forall>f. f64_int f = None \<longrightarrow> number_text (ff f) \<and> (\<forall>i. in_int64 i \<longrightarrow> ff f \<noteq> itoa i))
     \<and> inj_on ff {f. f64_int f = None}"

section \<open>Decoded values\<close>

fun odd_double :: "f64 \<Rightarrow> bool" where
  "odd_double (F64 m e) \<longleftrightarrow> odd m \<or> (m = 0 \<and> e = 0)"

text \<open>What decoding into \<^verbatim>\<open>any\<close> gives.\<close>

fun decoded :: "gval \<Rightarrow> bool" where
  "decoded (GNumber n) = False"
| "decoded (GInt i) = False"
| "decoded (GFloat f) = odd_double f"
| "decoded (GStr s) = utf8_valid s"
| "decoded (GArr vs) = list_all decoded vs"
| "decoded (GObj ms) = (distinct_keys ms \<and> list_all (\<lambda>(k, v). utf8_valid k \<and> decoded v) ms)"
| "decoded v = True"

fun json_fine :: "int \<Rightarrow> json \<Rightarrow> bool" where
  "json_fine d (JStr s) = utf8_valid s"
| "json_fine d (JArr es) = (0 < d \<and> (\<forall>(t, v) \<in> set es. json_fine (d - 1) v))"
| "json_fine d (JObj ms) = (0 < d \<and> (\<forall>(k, t, v) \<in> set ms. utf8_valid k \<and> json_fine (d - 1) v))"
| "json_fine d v = True"

subsection \<open>Strings\<close>

lemma utf8_valid_encode_any [simp]: "utf8_valid (encode_rune r @ t) = utf8_valid t"
proof -
  define r' where "r' = (if (0xD800 \<le> r \<and> r < 0xE000) \<or> 0x10FFFF < r then rune_error else r)"
  have "encode_rune r = encode_rune r'"
    by (cases "(0xD800 \<le> r \<and> r < 0xE000) \<or> 0x10FFFF < r")
      (simp_all only: encode_rune_def r'_def if_True if_False rune_error_def, simp_all)
  moreover have "scalar r'" by (auto simp: r'_def scalar_def rune_error_def)
  ultimately show ?thesis by simp
qed

fun escaped :: "string \<Rightarrow> bool" where
  "escaped [] = True"
| "escaped (c # cs) =
     (if c = CHR 0x5C then (case cs of [] \<Rightarrow> True | e # es \<Rightarrow> byte e < 0x80 \<and> escaped es) else escaped cs)"

lemma lex_string_escaped: "lex_string s = Some (t, r) \<Longrightarrow> escaped t"
proof (induction s arbitrary: t rule: lex_string.induct)
  case (2 c cs)
  show ?case
  proof (cases "c = CHR 0x5C")
    case True
    with "2.prems" obtain e es where cs: "cs = e # es" by (cases cs) auto
    let ?simple = "e \<in> set [CHR ''b'', CHR ''f'', CHR ''n'', CHR ''r'', CHR ''t'', CHR 0x5C, CHR ''/'', CHR 0x22]"
    obtain u where u: "lex_string es = Some (u, r)" "t = c # e # u" and e: "?simple \<or> e = CHR ''u''"
      using "2.prems" by (auto simp: True cs split: if_splits simp del: list.set)
    have "byte e < 0x80" using e by auto
    moreover have "escaped u" using "2.IH"(1,2) True cs u(1) "2.prems" by (auto simp del: list.set split: if_splits)
    ultimately show ?thesis by (simp add: u(2) True)
  next
    case False
    with "2.prems" obtain u where "c = CHR 0x22 \<and> t = [] \<or> (c \<noteq> CHR 0x22 \<and> \<not> byte c < 32 \<and> lex_string cs = Some (u, r) \<and> t = c # u)"
      by (auto split: if_splits)
    then show ?thesis using "2.IH"(3) False by auto
  qed
qed simp

lemma escaped_drop: "escaped s \<Longrightarrow> CHR 0x5C \<notin> set (take n s) \<Longrightarrow> escaped (drop n s)"
proof (induction n arbitrary: s)
  case (Suc n)
  then show ?case by (cases s) (auto split: if_splits)
qed simp

lemma is_hex_not_backslash: "is_hex c \<Longrightarrow> c \<noteq> CHR 0x5C"
  by (auto simp: is_hex_def hex_val_def)

lemma getu4_escaped:
  assumes "getu4 s = Some r" and "escaped s"
  shows "escaped (drop 6 s)"
proof -
  have s: "6 \<le> length s" "take 2 s = [CHR 0x5C, CHR ''u'']" "list_all is_hex (take 4 (drop 2 s))"
    using assms(1) by (auto simp: getu4_def split: if_splits)
  then obtain u where u: "s = CHR 0x5C # CHR ''u'' # u" by (cases s; cases "tl s") auto
  have "CHR 0x5C \<notin> set (take 4 u)" using s(3) is_hex_not_backslash by (auto simp: u list_all_iff)
  moreover have "escaped u" using assms(2) by (simp add: u)
  ultimately show ?thesis using escaped_drop [of u 4] by (simp add: u)
qed

lemma rune_escaped:
  assumes "escaped (c # cs)" and "\<not> byte c < 0x80"
  shows "escaped (drop (snd (decode_rune (c # cs))) (c # cs))"
proof -
  obtain r w where d: "decode_rune (c # cs) = (r, w)" by fastforce
  have "CHR 0x5C \<notin> set (take w (c # cs))"
  proof (cases "(r, w) = (rune_error, 1)")
    case True
    then show ?thesis using assms(2) by auto
  next
    case False
    have t: "take w (c # cs) = encode_rune r" using encode_decode [OF d False] by simp
    have "\<not> r < 0x80"
    proof
      assume "r < 0x80"
      then have "take w (c # cs) = [chr r]" using t by (simp add: encode_rune_def)
      then have "c = chr r" by (cases w) auto
      with assms(2) \<open>r < 0x80\<close> show False by simp
    qed
    then show ?thesis using encode_rune_high [of r] by (auto simp: t list_all_iff)
  qed
  then show ?thesis using escaped_drop [OF assms(1), of w] by (simp add: d)
qed

lemma unquote_valid: "escaped s \<Longrightarrow> utf8_valid (unquote_json s)"
proof (induction s rule: unquote_json.induct)
  case (2 c cs)
  show ?case
  proof (cases "c = CHR 0x5C")
    case True
    show ?thesis
    proof (cases "getu4 (c # cs)")
      case None
      then show ?thesis using 2 True
        by (cases cs) (auto simp: simple_escape_def utf8_valid_ascii_Cons)
    next
      case (Some r)
      have e1: "escaped (drop 5 cs)" using getu4_escaped [OF Some "2.prems"] by simp
      have e2: "escaped (drop 11 cs)" if "getu4 (drop 5 cs) = Some r2" for r2
        using getu4_escaped [OF that e1] by (simp add: add.commute)
      show ?thesis
      proof (cases "is_surrogate r")
        case False
        then show ?thesis using "2.IH"(4) [OF True Some False e1] Some True by simp
      next
        case sur: True
        show ?thesis
        proof (cases "Option.bind (getu4 (drop 5 cs)) (utf16_pair r)")
          case None
          then show ?thesis using "2.IH"(2) [OF True Some sur None e1] Some True sur by simp
        next
          case (Some d)
          then obtain r2 where "getu4 (drop 5 cs) = Some r2" by (cases "getu4 (drop 5 cs)") auto
          from "2.IH"(3) [OF True \<open>getu4 (c # cs) = Some r\<close> sur Some e2 [OF this]]
          show ?thesis using \<open>getu4 (c # cs) = Some r\<close> True sur Some by simp
        qed
      qed
    qed
  next
    case False
    show ?thesis
    proof (cases "byte c < 0x80")
      case True
      then show ?thesis using 2 False by (simp add: utf8_valid_ascii_Cons)
    next
      case high: False
      then show ?thesis
        using "2.IH"(6) [OF False high rune_escaped [OF "2.prems" high]] False by simp
    qed
  qed
qed simp

subsection \<open>The parser\<close>

lemma json_fine_parse:
  "(json_value f d s = Some (v, r) \<longrightarrow> json_fine d v)
   \<and> (json_elems f d s = Some (es, r) \<longrightarrow> (\<forall>(t, v) \<in> set es. json_fine d v))
   \<and> (json_members f d s = Some (ms, r) \<longrightarrow> (\<forall>(k, t, v) \<in> set ms. utf8_valid k \<and> json_fine d v))"
proof (induction f arbitrary: d s v r es ms)
  case (Suc f)
  have val: "json_value f d s = Some (v, r) \<Longrightarrow> json_fine d v"
    and els: "json_elems f d s = Some (es, r) \<Longrightarrow> (t, v) \<in> set es \<Longrightarrow> json_fine d v"
    and mem: "json_members f d s = Some (ms, r) \<Longrightarrow> (k, t, v) \<in> set ms \<Longrightarrow> utf8_valid k \<and> json_fine d v"
    for d s v r es ms t k using Suc by blast+
  have "json_fine d v" if val1: "json_value (Suc f) d s = Some (v, r)"
  proof -
    obtain c cs where s: "s = c # cs" using val1 by (cases s) auto
    consider "c = CHR ''{''" | "c = CHR ''[''" | "c = CHR 0x22" | "c \<notin> {CHR ''{'', CHR ''['', CHR 0x22}" by blast
    then show ?thesis
    proof cases
      case 1
      then have "0 < d" "skip_ws cs \<noteq> []" using val1 by (auto simp: s split: if_splits list.splits)
      moreover obtain x xs where x: "skip_ws cs = x # xs" using calculation(2) by (cases "skip_ws cs") auto
      ultimately have "v = JObj [] \<or> (\<exists>ms. json_members f (d - 1) (x # xs) = Some (ms, r) \<and> v = JObj ms)"
        using val1 1 by (auto simp: s split: if_splits)
      then show ?thesis using mem \<open>0 < d\<close> by auto
    next
      case 2
      then have "0 < d" "skip_ws cs \<noteq> []" using val1 by (auto simp: s split: if_splits list.splits)
      moreover obtain x xs where x: "skip_ws cs = x # xs" using calculation(2) by (cases "skip_ws cs") auto
      ultimately have "v = JArr [] \<or> (\<exists>es. json_elems f (d - 1) (x # xs) = Some (es, r) \<and> v = JArr es)"
        using val1 2 by (auto simp: s split: if_splits)
      then show ?thesis using els \<open>0 < d\<close> by auto
    next
      case 3
      then show ?thesis using val1 lex_string_escaped unquote_valid by (auto simp: s)
    next
      case 4
      then have "json_atom s = Some (v, r)" using val1 by (simp add: s)
      then show ?thesis by (auto simp: json_atom_def split: if_splits)
    qed
  qed
  moreover have "\<forall>(t, v) \<in> set es. json_fine d v" if e: "json_elems (Suc f) d s = Some (es, r)"
  proof -
    obtain v0 r0 x xs where v0: "json_value f d s = Some (v0, r0)" "skip_ws r0 = x # xs"
      "x = CHR '']'' \<and> es = [(text_before s r0, v0)] \<and> r = xs
         \<or> (\<exists>es'. x = CHR '','' \<and> json_elems f d (skip_ws xs) = Some (es', r) \<and> es = (text_before s r0, v0) # es')"
      by (rule json_elems_SomeD [OF e])
    then show ?thesis using val [OF v0(1)] els by auto
  qed
  moreover have "\<forall>(k, t, v) \<in> set ms. utf8_valid k \<and> json_fine d v" if m: "json_members (Suc f) d s = Some (ms, r)"
  proof -
    obtain qs k r0 ys v0 r1 x xs where p: "s = CHR 0x22 # qs" "lex_string qs = Some (k, r0)"
      "skip_ws r0 = CHR '':'' # ys" "json_value f d (skip_ws ys) = Some (v0, r1)" "skip_ws r1 = x # xs"
      "x = CHR ''}'' \<and> ms = [(unquote_json k, text_before (skip_ws ys) r1, v0)] \<and> r = xs
       \<or> (\<exists>ms'. x = CHR '','' \<and> json_members f d (skip_ws xs) = Some (ms', r)
             \<and> ms = (unquote_json k, text_before (skip_ws ys) r1, v0) # ms')"
      by (rule json_members_SomeD [OF m])
    then show ?thesis using val [OF p(4)] mem unquote_valid [OF lex_string_escaped [OF p(2)]] by auto
  qed
  ultimately show ?case by blast
qed simp

lemma json_parse_fine: "json_parse s = Some v \<Longrightarrow> json_fine max_nesting_depth v"
  using json_fine_parse [of "json_fuel s" max_nesting_depth "skip_ws s"]
  by (auto simp: json_parse_def decode_stream_def split: option.splits if_splits)

subsection \<open>Decoding into any\<close>

lemma odd_part_odd: "odd_part m e = (m', e') \<Longrightarrow> odd m' \<or> (m' = 0 \<and> e' = 0)"
proof (induction m e arbitrary: m' e' rule: odd_part.induct)
  case (1 m e)
  then show ?case by (subst (asm) odd_part.simps) (auto split: if_splits)
qed

lemma round_f64_odd: "round_f64 neg num den = Some f \<Longrightarrow> odd_double f"
  by (auto simp: round_f64_def Let_def split: if_splits prod.splits dest!: odd_part_odd)

lemma parse_float_odd: "parse_float s = Some f \<Longrightarrow> odd_double f"
  by (auto simp: parse_float_def Let_def split: prod.splits if_splits dest: round_f64_odd)

lemma gdepth_le:
  "gdepth (GArr vs) \<le> d \<longleftrightarrow> 0 < d \<and> (\<forall>v \<in> set vs. gdepth v < d)"
  "gdepth (GObj ms) \<le> d \<longleftrightarrow> 0 < d \<and> (\<forall>(k, v) \<in> set ms. gdepth v < d)"
proof -
  have step: "1 + foldr (\<lambda>v. max (gdepth v)) us 0 \<le> d \<longleftrightarrow> 0 < d \<and> (\<forall>v \<in> set us. gdepth v < d)" for us
    using foldr_max_le [of gdepth us "d - 1"] by auto
  show "gdepth (GArr vs) \<le> d \<longleftrightarrow> 0 < d \<and> (\<forall>v \<in> set vs. gdepth v < d)"
    using step [of vs] by (simp only: gdepth.simps)
  show "gdepth (GObj ms) \<le> d \<longleftrightarrow> 0 < d \<and> (\<forall>(k, v) \<in> set ms. gdepth v < d)"
    unfolding gdepth_members step by auto
qed

lemma gdepth_inner:
  shows "0 < gdepth (GArr vs)" and "0 < gdepth (GObj ms)"
    and "v \<in> set vs \<Longrightarrow> gdepth v < gdepth (GArr vs)" and "(k, v) \<in> set ms \<Longrightarrow> gdepth v < gdepth (GObj ms)"
proof -
  note arr = iffD1 [OF gdepth_le(1) order_refl] and obj = iffD1 [OF gdepth_le(2) order_refl]
  show "0 < gdepth (GArr vs)" "0 < gdepth (GObj ms)" by (rule conjunct1 [OF arr], rule conjunct1 [OF obj])
  show "v \<in> set vs \<Longrightarrow> gdepth v < gdepth (GArr vs)" by (rule bspec [OF conjunct2 [OF arr]])
  assume "(k, v) \<in> set ms"
  from bspec [OF conjunct2 [OF obj] this] show "gdepth v < gdepth (GObj ms)" by simp
qed

lemma decoded_to_any:
  "to_any un j = Some v \<Longrightarrow> \<not> un \<Longrightarrow> json_fine d j \<Longrightarrow> 0 \<le> d \<Longrightarrow> decoded v \<and> gdepth v \<le> d"
proof (induction un j arbitrary: v d rule: to_any.induct)
  case (3 un t)
  then show ?case by (auto dest: parse_float_odd)
next
  case (5 un es)
  from "5.prems" obtain vs where vs: "all_some (map (\<lambda>(t, v). to_any un v) es) = Some vs"
    and v: "v = GArr vs" by auto
  have "decoded w \<and> gdepth w < d" if "w \<in> set vs" for w
  proof (rule all_some_map_in [OF vs that])
    fix x
    assume x: "x \<in> set es" "(\<lambda>(t, v). to_any un v) x = Some w"
    obtain t j where tj: "x = (t, j)" by (cases x)
    have "json_fine (d - 1) j" "0 < d" using "5.prems"(3) x(1) by (auto simp: tj)
    moreover have "to_any un j = Some w" using x(2) by (simp add: tj)
    ultimately have "decoded w \<and> gdepth w \<le> d - 1"
      by (intro "5.IH" [OF x(1) tj [symmetric] _ "5.prems"(2)]) auto
    with \<open>0 < d\<close> show ?thesis by auto
  qed
  then show ?case using "5.prems" by (auto simp: v list_all_iff gdepth_le simp del: gdepth.simps)
next
  case (6 un ms)
  from "6.prems" obtain vs where vs: "all_some (map (\<lambda>(k, t, v). to_any un v) ms) = Some vs"
    and v: "v = GObj (amap_of_list (zip (map fst ms) vs))" by auto
  have w: "decoded w \<and> gdepth w < d" if "w \<in> set vs" for w
  proof (rule all_some_map_in [OF vs that])
    fix x
    assume x: "x \<in> set ms" "(\<lambda>(k, t, v). to_any un v) x = Some w"
    obtain k t j where ktj: "x = (k, t, j)" by (cases x) auto
    have "json_fine (d - 1) j" "0 < d" using "6.prems"(3) x(1) by (auto simp: ktj)
    moreover have "to_any un j = Some w" using x(2) by (simp add: ktj)
    ultimately have "decoded w \<and> gdepth w \<le> d - 1"
      by (intro "6.IH" [OF x(1) ktj [symmetric] refl _ "6.prems"(2)]) auto
    with \<open>0 < d\<close> show ?thesis by auto
  qed
  have "utf8_valid k \<and> decoded w \<and> gdepth w < d"
    if "(k, w) \<in> set (amap_of_list (zip (map fst ms) vs))" for k w
  proof -
    have "(k, w) \<in> set (zip (map fst ms) vs)" using that set_amap_of_list_subset by blast
    then have "k \<in> set (map fst ms)" "w \<in> set vs" by (auto dest: set_zip_leftD set_zip_rightD)
    then show ?thesis using w "6.prems"(3) by auto
  qed
  then show ?case using "6.prems" by (auto simp: v list_all_iff gdepth_le simp del: gdepth.simps)
qed auto

lemma unmarshal_any_decoded:
  assumes "unmarshal_any s = Some v"
  shows "decoded v" and "gdepth v \<le> max_nesting_depth"
proof -
  obtain j where j: "json_parse s = Some j" "to_any False j = Some v"
    using assms by (auto simp: unmarshal_any_def bind_eq_Some_conv)
  have "0 \<le> max_nesting_depth" by (simp add: max_nesting_depth_def)
  from decoded_to_any [OF j(2) _ json_parse_fine [OF j(1)] this]
  show "decoded v" "gdepth v \<le> max_nesting_depth" by auto
qed

section \<open>Normalised values\<close>

fun normal :: "gval \<Rightarrow> bool" where
  "normal (GNumber n) = False"
| "normal (GInt i) = in_int64 i"
| "normal (GFloat f) = (f64_int f = None)"
| "normal (GArr vs) = list_all normal vs"
| "normal (GObj ms) = (sort_keys ms = ms \<and> list_all (\<lambda>(k, v). normal v) ms)"
| "normal v = True"

lemma f64_int_bounds: "f64_int f = Some i \<Longrightarrow> in_int64 i"
  by (cases f) (auto split: if_splits)

lemma normalize_decoded:
  assumes "float_format ff"
  shows "decoded v \<Longrightarrow> normal (normalize_value v) \<and> clean ff (normalize_value v)
    \<and> gdepth (normalize_value v) \<le> gdepth v"
proof (induction v)
  case (GFloat f)
  then show ?case using assms by (auto simp: float_format_def f64_int_bounds split: option.split)
next
  case (GArr vs)
  then have v: "normal (normalize_value v) \<and> clean ff (normalize_value v) \<and> gdepth (normalize_value v) \<le> gdepth v"
    if "v \<in> set vs" for v using that by (auto simp: list_all_iff)
  then have "gdepth (normalize_value v) < gdepth (GArr vs)" if "v \<in> set vs" for v
    using that gdepth_inner(3) [of v vs] by (meson le_less_trans)
  then have "gdepth (normalize_value (GArr vs)) \<le> gdepth (GArr vs)"
    unfolding normalize_value.simps gdepth_le using gdepth_inner(1) [of vs] by auto
  then show ?case using v by (auto simp: list_all_iff simp del: gdepth.simps)
next
  case (GObj ms)
  then have v: "utf8_valid k \<and> normal (normalize_value v) \<and> clean ff (normalize_value v)
      \<and> gdepth (normalize_value v) \<le> gdepth v" if "(k, v) \<in> set ms" for k v
    using that by (fastforce simp: list_all_iff)
  then have "gdepth (normalize_value v) < gdepth (GObj ms)" if "(k, v) \<in> set ms" for k v
    using that gdepth_inner(4) [of k v ms] by (meson le_less_trans)
  then have "gdepth (normalize_value (GObj ms)) \<le> gdepth (GObj ms)"
    unfolding normalize_value.simps gdepth_le using gdepth_inner(2) [of ms] by auto
  moreover have "distinct_keys ms" using GObj.prems by simp
  ultimately show ?case using v by (fastforce simp: list_all_iff simp del: gdepth.simps map_map)
qed auto

lemma sorted_members_inj:
  assumes "sort_keys (map (\<lambda>(k, v). (k, f v)) ms) = sort_keys (map (\<lambda>(k, v). (k, f v)) ns)"
    and "sort_keys ms = ms" and "sort_keys ns = ns"
    and "\<And>k v l w. (k, v) \<in> set ms \<Longrightarrow> (l, w) \<in> set ns \<Longrightarrow> f v = f w \<Longrightarrow> v = w"
  shows "ms = ns"
proof -
  have "map (\<lambda>(k, v). (k, f v)) ms = map (\<lambda>(k, v). (k, f v)) ns"
    using assms(1) unfolding sort_keys_map assms(2,3) .
  with assms(4) show ?thesis
  proof (induction ms arbitrary: ns)
    case (Cons m ms)
    then obtain n ns' where ns: "ns = n # ns'" by (cases ns) auto
    have "ms = ns'" using Cons.prems by (intro Cons.IH) (auto simp: ns)
    then show ?case using Cons.prems by (cases m; cases n) (auto simp: ns)
  qed simp
qed

lemma itoa_inj: "in_int64 i \<Longrightarrow> in_int64 j \<Longrightarrow> itoa i = itoa j \<Longrightarrow> i = j"
  by (metis option.inject parse_int_itoa)

text \<open>Distinct normalised values are read back as distinct trees, so their texts differ.\<close>

lemma read_back_inj:
  assumes "float_format ff"
  shows "normal v \<Longrightarrow> normal w \<Longrightarrow> read_back ff v = read_back ff w \<Longrightarrow> v = w"
proof (induction v arbitrary: w)
  case (GInt i)
  have "itoa i \<noteq> ff f" if "f64_int f = None" for f
    using assms GInt.prems(1) that by (metis float_format_def normal.simps(2))
  then show ?case using GInt.prems by (cases w) (auto dest: itoa_inj)
next
  case (GFloat f)
  then show ?case using assms by (cases w) (auto simp: float_format_def dest: inj_onD sym)
next
  case (GArr vs)
  obtain ws where w: "w = GArr ws" using GArr.prems by (cases w) auto
  have "map (read_back ff) vs = map (read_back ff) ws"
    using arg_cong [OF GArr.prems(3) [unfolded w read_back.simps, simplified json.inject], of "map snd"]
    by (simp add: comp_def)
  then have len: "length vs = length ws" and same: "\<And>i. i < length vs \<Longrightarrow> read_back ff (vs ! i) = read_back ff (ws ! i)"
    by (auto simp: list_eq_iff_nth_eq dest: map_eq_imp_length_eq)
  have "vs ! i = ws ! i" if "i < length vs" for i
    using GArr.IH [of "vs ! i" "ws ! i"] GArr.prems(1,2) same [OF that] that len by (auto simp: w list_all_length)
  with len have "vs = ws" by (intro nth_equalityI)
  then show ?case by (simp add: w)
next
  case (GObj ms)
  obtain ns where w: "w = GObj ns" using GObj.prems by (cases w) auto
  have "ms = ns"
  proof (rule sorted_members_inj [where f = "\<lambda>v. (marshal ff v, read_back ff v)"])
    show "sort_keys (map (\<lambda>(k, v). (k, marshal ff v, read_back ff v)) ms)
        = sort_keys (map (\<lambda>(k, v). (k, marshal ff v, read_back ff v)) ns)"
      using GObj.prems(3) by (simp add: w)
    show "sort_keys ms = ms" "sort_keys ns = ns" using GObj.prems(1,2) by (simp_all add: w)
    show "v = u" if "(k, v) \<in> set ms" "(l, u) \<in> set ns"
      "(marshal ff v, read_back ff v) = (marshal ff u, read_back ff u)" for k v l u
      using that GObj.IH [of "(k, v)" v u] GObj.prems(1,2) by (auto simp: w list_all_iff)
  qed
  then show ?case by (simp add: w)
qed (case_tac w; simp)+

section \<open>Equal normal forms\<close>

lemma odd_times_power:
  assumes "odd m" and "odd n" and "m * 2 ^ a = n * 2 ^ (b :: nat)"
  shows "(m :: int) = n \<and> a = b"
proof -
  have le: "a = b" if "odd m" "m * 2 ^ a = n * 2 ^ b" "a \<le> b" for m n :: int and a b :: nat
  proof -
    have "(2 :: int) ^ b = 2 ^ (b - a) * 2 ^ a" using that(3) by (simp flip: power_add)
    then have "m = n * 2 ^ (b - a)" using that(2) by simp
    with that(1) have "\<not> 0 < b - a" by (cases "b - a") auto
    with that(3) show ?thesis by simp
  qed
  have "a = b" using le [OF assms(1,3)] le [OF assms(2) assms(3) [symmetric]] by linarith
  with assms(3) show ?thesis by simp
qed

lemma f64_int_inj:
  assumes "odd_double f" and "odd_double g" and "f64_int f = Some i" and "f64_int g = Some i"
  shows "f = g"
proof -
  obtain m e n e' where f: "f = F64 m e" and g: "g = F64 n e'" by (cases f; cases g)
  have eq: "m * 2 ^ nat e = n * 2 ^ nat e'" and e: "0 \<le> e" "0 \<le> e'"
    using assms(3,4) by (auto simp: f g split: if_splits)
  show ?thesis
  proof (cases "odd m \<and> odd n")
    case True
    with odd_times_power [OF _ _ eq] e show ?thesis by (auto simp: f g)
  next
    case False
    then have "m = 0 \<and> e = 0 \<or> n = 0 \<and> e' = 0" using assms(1,2) by (auto simp: f g)
    with eq assms(1,2) show ?thesis by (auto simp: f g)
  qed
qed

lemma sort_keys_eq_iff:
  assumes "distinct_keys ms" and "distinct_keys ns"
  shows "sort_keys ms = sort_keys ns \<longleftrightarrow> map_of ms = map_of ns"
proof
  assume "sort_keys ms = sort_keys ns"
  then show "map_of ms = map_of ns" using map_of_sort_keys [OF assms(1)] map_of_sort_keys [OF assms(2)] by simp
next
  assume "map_of ms = map_of ns"
  then have "set ms = set ns" using assms by (metis map_of_inject_set)
  then have "mset ms = mset ns" using assms by (simp add: set_eq_iff_mset_eq_distinct distinct_map)
  then show "sort_keys ms = sort_keys ns" by (rule sort_keys_cong_mset [OF assms(1)])
qed

lemma length_distinct_keys: "distinct_keys ms \<Longrightarrow> length ms = card (dom (map_of ms))"
  using distinct_card [of "map fst ms"] by (simp add: dom_map_of_conv_image_fst)

theorem normalize_same_json:
  "decoded v \<Longrightarrow> decoded w \<Longrightarrow> normalize_value v = normalize_value w \<longleftrightarrow> same_json v w"
proof (induction v arbitrary: w)
  case (GFloat f)
  then show ?case by (cases w) (auto split: option.splits dest: f64_int_inj)
next
  case (GArr vs)
  show ?case
  proof (cases "\<exists>ws. w = GArr ws")
    case True
    then obtain ws where w: "w = GArr ws" by blast
    have same: "normalize_value (vs ! i) = normalize_value (ws ! i) \<longleftrightarrow> same_json (vs ! i) (ws ! i)"
      if "i < length vs" "i < length ws" for i
      using that GArr.IH [of "vs ! i" "ws ! i"] GArr.prems by (auto simp: w list_all_length)
    show ?thesis by (auto simp: w list_all2_conv_all_nth list_eq_iff_nth_eq same)
  next
    case False
    then show ?thesis using GArr.prems(2) by (cases w) (auto split: option.split)
  qed
next
  case (GObj ms)
  show ?case
  proof (cases "\<exists>ns. w = GObj ns")
    case True
    then obtain ns where w: "w = GObj ns" by blast
    have d: "distinct_keys ms" "distinct_keys ns" using GObj.prems by (simp_all add: w)
    have dec: "decoded v" if "(k, v) \<in> set ms \<or> (k, v) \<in> set ns" for k v
      using that GObj.prems by (auto simp: w list_all_iff)
    have IH: "normalize_value v = normalize_value u \<longleftrightarrow> same_json v u"
      if "map_of ms k = Some v" "map_of ns k = Some u" for k v u
      using GObj.IH [of "(k, v)" v u] dec map_of_SomeD [OF that(1)] map_of_SomeD [OF that(2)] by auto
    let ?nf = "map (\<lambda>(k, v). (k, normalize_value v))"
    have "normalize_value (GObj ms) = normalize_value w \<longleftrightarrow> map_of (?nf ms) = map_of (?nf ns)"
      using sort_keys_eq_iff [of "?nf ms" "?nf ns"] d by (simp add: w del: map_map)
    also have "\<dots> \<longleftrightarrow> (\<forall>k. map_option normalize_value (map_of ms k) = map_option normalize_value (map_of ns k))"
      unfolding fun_eq_iff map_of_map comp_apply ..
    also have "\<dots> \<longleftrightarrow> same_json (GObj ms) w"
    proof
      assume same: "\<forall>k. map_option normalize_value (map_of ms k) = map_option normalize_value (map_of ns k)"
      have "map_of ms k = None \<longleftrightarrow> map_of ns k = None" for k
        using arg_cong [OF spec [OF same, of k], of "\<lambda>x. x = None"] by simp
      then have "dom (map_of ms) = dom (map_of ns)" by (simp add: dom_def)
      then have "length ms = length ns" using length_distinct_keys d by metis
      moreover have "case map_of ns k of None \<Rightarrow> False | Some u \<Rightarrow> same_json v u" if "(k, v) \<in> set ms" for k v
      proof -
        have v: "map_of ms k = Some v" using that d(1) by simp
        with same obtain u where "map_of ns k = Some u" "normalize_value v = normalize_value u"
          by (metis map_option_eq_Some)
        then show ?thesis using IH [OF v] by simp
      qed
      ultimately show "same_json (GObj ms) w" by (auto simp: w)
    next
      assume same: "same_json (GObj ms) w"
      have keys: "dom (map_of ms) \<subseteq> dom (map_of ns)"
      proof
        fix k
        assume "k \<in> dom (map_of ms)"
        then obtain v where "(k, v) \<in> set ms" by (auto dest: map_of_SomeD)
        with same show "k \<in> dom (map_of ns)" by (auto simp: w split: option.splits)
      qed
      have "card (dom (map_of ms)) = card (dom (map_of ns))"
        using same length_distinct_keys [OF d(1)] length_distinct_keys [OF d(2)] by (simp add: w)
      with keys have dom: "dom (map_of ms) = dom (map_of ns)" by (simp add: card_subset_eq finite_dom_map_of)
      show "\<forall>k. map_option normalize_value (map_of ms k) = map_option normalize_value (map_of ns k)"
      proof
        fix k
        show "map_option normalize_value (map_of ms k) = map_option normalize_value (map_of ns k)"
        proof (cases "map_of ms k")
          case None
          then have "map_of ns k = None" using dom by (metis domIff)
          with None show ?thesis by simp
        next
          case (Some v)
          then obtain u where u: "map_of ns k = Some u" using dom by (metis domD domI)
          have "same_json v u" using same u map_of_SomeD [OF Some] by (auto simp: w dest!: bspec)
          with IH [OF Some u] Some u show ?thesis by simp
        qed
      qed
    qed
    finally show ?thesis .
  next
    case False
    then show ?thesis using GObj.prems(2) by (cases w) (auto split: option.split)
  qed
qed (case_tac w; auto split: option.split)+

text \<open>Two documents have the same normal form exactly when they are the same value.\<close>

theorem normal_texts_equal:
  assumes "float_format (fmt_float L)"
    and "unmarshal_any (json_document s) = Some a" and "unmarshal_any (json_document t) = Some b"
  shows "normalize_raw_json L s = normalize_raw_json L t \<longleftrightarrow> same_json a b"
proof -
  let ?ff = "fmt_float L"
  note a = unmarshal_any_decoded [OF assms(2)] and b = unmarshal_any_decoded [OF assms(3)]
  note na = normalize_decoded [OF assms(1) a(1)] and nb = normalize_decoded [OF assms(1) b(1)]
  have "json_parse (marshal ?ff (normalize_value a)) = Some (read_back ?ff (normalize_value a))"
    "json_parse (marshal ?ff (normalize_value b)) = Some (read_back ?ff (normalize_value b))"
    using na nb a(2) b(2) by (auto intro!: json_parse_marshal)
  then have "marshal ?ff (normalize_value a) = marshal ?ff (normalize_value b)
      \<longleftrightarrow> normalize_value a = normalize_value b"
    using read_back_inj [OF assms(1)] na nb by (metis option.inject)
  also have "\<dots> \<longleftrightarrow> same_json a b" by (rule normalize_same_json [OF a(1) b(1)])
  finally show ?thesis
    by (simp add: normalize_raw_json_document assms(2,3))
qed

end
