(* ===== verification/Props_Json.thy ===== *)
theory Props_Json
  imports Samples Json_Equality
begin

text \<open>Properties of the body patterns that compare JSON.\<close>

section \<open>equalToJson\<close>

text \<open>
  C19: A parsed body pattern with equalToJson matches exactly the bodies that hold the same JSON value as the
  pattern: members in any order, arrays element by element, numbers by their double, strings by their content.
\<close>

theorem equal_to_json_decides:
  assumes "float_format (fmt_float L)" and "parse_body_pattern L raw = Ok p"
    and "unmarshal_object raw = Some obj" and "map_of obj ''matchesJsonPath'' = None"
  shows "\<exists>expected a. map_of obj ''equalToJson'' = Some expected \<and> unmarshal_any (json_document expected) = Some a
    \<and> (\<forall>body. pattern_matches L p (Some body)
         \<longleftrightarrow> (\<exists>b. unmarshal_any (json_document body) = Some b \<and> same_json a b))"
proof -
  obtain expected norm where t: "map_of obj ''equalToJson'' = Some expected" "normalize_raw_json L expected = Some norm"
    and p: "p = \<lparr>bp_json_path = None, bp_absent = False, bp_equal_to_json = Some norm\<rparr>"
    using assms(2-4) by (auto simp: parse_body_pattern_def split: option.splits)
  note norm = normalize_raw_json_document [of L]
  from t(2) obtain a where a: "unmarshal_any (json_document expected) = Some a" by (auto simp: norm)
  have "pattern_matches L p (Some body) \<longleftrightarrow> (\<exists>b. unmarshal_any (json_document body) = Some b \<and> same_json a b)" for body
  proof (cases "unmarshal_any (json_document body)")
    case None
    then show ?thesis by (simp add: p pattern_matches_def body_raw_def norm)
  next
    case (Some b)
    have "pattern_matches L p (Some body) \<longleftrightarrow> normalize_raw_json L expected = normalize_raw_json L body"
      using t(2) by (auto simp: p pattern_matches_def body_raw_def)
    with normal_texts_equal [OF assms(1) a Some] Some show ?thesis by simp
  qed
  with t(1) a show ?thesis by blast
qed

text \<open>A number format that meets the contract: a different integer beyond 64 bits for every double.\<close>

definition int_code :: "int \<Rightarrow> nat" where
  "int_code i = 2 * nat \<bar>i\<bar> + (if i < 0 then 1 else 0)"

fun wide_float :: "f64 \<Rightarrow> string" where
  "wide_float (F64 m e) = itoa (2 ^ 63 + (2 * int (int_code m) + 1) * 2 ^ int_code e)"

lemma int_code_inj:
  assumes "int_code i = int_code j"
  shows "i = j"
proof -
  have "even (int_code k) \<longleftrightarrow> \<not> k < 0" for k by (simp add: int_code_def)
  with assms have sign: "i < 0 \<longleftrightarrow> j < 0" by metis
  with assms have "nat \<bar>i\<bar> = nat \<bar>j\<bar>" by (simp add: int_code_def)
  with sign show ?thesis by linarith
qed

lemma itoa_nonneg_inj:
  assumes "0 \<le> i" and "0 \<le> j" and "itoa i = itoa j"
  shows "i = j"
proof -
  have "nat_digits (nat i) = nat_digits (nat j)" using assms by (simp only: itoa_def not_less [symmetric] if_False)
  then have "nat i = nat j" by (metis digits_val_nat_digits)
  with assms show ?thesis by simp
qed

lemma wide_float_format: "float_format wide_float"
proof -
  let ?n = "\<lambda>m e. 2 ^ 63 + (2 * int (int_code m) + 1) * 2 ^ int_code e :: int"
  have big: "2 ^ 63 \<le> ?n m e" for m e by simp
  have ne: "itoa (?n m e) \<noteq> itoa i" if "in_int64 i" for m e i
  proof
    assume eq: "itoa (?n m e) = itoa i"
    show False
    proof (cases "i < 0")
      case True
      moreover have "\<forall>c \<in> set (nat_digits (nat (?n m e))). is_digit c"
        using nat_digits_digits by (simp add: list_all_iff)
      moreover have "\<not> ?n m e < 0" by (simp add: not_less)
      ultimately show False using eq by (auto simp: itoa_def is_digit_def)
    next
      case False
      then have "i = ?n m e" using itoa_nonneg_inj [of i "?n m e"] eq big [of m e] by simp
      with that big [of m e] show False by (simp add: in_int64_def)
    qed
  qed
  have inj: "F64 m e = F64 n d" if "itoa (?n m e) = itoa (?n n d)" for m e n d
  proof -
    have "?n m e = ?n n d" using itoa_nonneg_inj [OF _ _ that] big by (meson order_trans zero_le_numeral zero_le_power)
    then have "(2 * int (int_code m) + 1) * 2 ^ int_code e = (2 * int (int_code n) + 1) * 2 ^ int_code d" by simp
    then have "2 * int (int_code m) + 1 = 2 * int (int_code n) + 1 \<and> int_code e = int_code d"
      by (intro odd_times_power) simp_all
    then show ?thesis by (auto dest: int_code_inj)
  qed
  have "number_text (wide_float f) \<and> (\<forall>i. in_int64 i \<longrightarrow> wide_float f \<noteq> itoa i)" for f
  proof (cases f)
    case (F64 m e)
    show ?thesis unfolding F64 wide_float.simps using number_text_itoa ne by blast
  qed
  moreover have "inj_on wide_float A" for A
  proof (intro inj_onI)
    fix f g
    assume eq: "wide_float f = wide_float g"
    obtain m e n d where fg: "f = F64 m e" "g = F64 n d" by (cases f; cases g)
    show "f = g" using eq unfolding fg wide_float.simps by (rule inj)
  qed
  ultimately show ?thesis by (simp add: float_format_def)
qed

definition wide_lib :: golib where
  "wide_lib = plain_lib\<lparr>fmt_float := wide_float\<rparr>"

definition pattern_text :: string where
  "pattern_text = ''{\"equalToJson\":{\"a\":1.50,\"b\":[true]}}''"

theorem equal_to_json_decides_witness:
  "case parse_body_pattern wide_lib pattern_text of
     Ok p \<Rightarrow> pattern_matches wide_lib p (Some '' {\"b\" : [true], \"a\":15e-1}'')
       \<and> \<not> pattern_matches wide_lib p (Some ''{\"a\":1.5,\"b\":[false]}'')
   | _ \<Rightarrow> False"
proof -
  let ?a = "GObj [(''a'', GFloat (F64 3 (-1))), (''b'', GArr [GBool True])]"
  have obj: "unmarshal_object pattern_text = Some [(''equalToJson'', ''{\"a\":1.50,\"b\":[true]}'')]" by code_simp
  have number: "parse_float ''1.50'' = Some (F64 3 (-1))" "parse_float ''15e-1'' = Some (F64 3 (-1))"
    "parse_float ''1.5'' = Some (F64 3 (-1))"
    by (simp_all add: parse_float_def lex_sign_def is_digit_def digits_val_def digit_val_def round_f64_def scaled_div_def
        bitlen.simps odd_part.simps Let_def)
  have texts: "json_parse ''{\"a\":1.50,\"b\":[true]}''
      = Some (JObj [(''a'', ''1.50'', JNum ''1.50''), (''b'', ''[true]'', JArr [(''true'', JBool True)])])"
    "json_parse '' {\"b\" : [true], \"a\":15e-1}''
      = Some (JObj [(''b'', ''[true]'', JArr [(''true'', JBool True)]), (''a'', ''15e-1'', JNum ''15e-1'')])"
    "json_parse ''{\"a\":1.5,\"b\":[false]}''
      = Some (JObj [(''a'', ''1.5'', JNum ''1.5''), (''b'', ''[false]'', JArr [(''false'', JBool False)])])"
    by code_simp+
  note any_simps = json_document_def unmarshal_string_def unmarshal_any_def texts number amap_of_list_def
  have any: "unmarshal_any (json_document ''{\"a\":1.50,\"b\":[true]}'') = Some ?a"
    by (simp add: any_simps)
  have bodies: "unmarshal_any (json_document '' {\"b\" : [true], \"a\":15e-1}'')
      = Some (GObj [(''b'', GArr [GBool True]), (''a'', GFloat (F64 3 (-1)))])"
    "unmarshal_any (json_document ''{\"a\":1.5,\"b\":[false]}'')
      = Some (GObj [(''a'', GFloat (F64 3 (-1))), (''b'', GArr [GBool False])])"
    by (simp_all add: any_simps)
  obtain norm where "normalize_raw_json wide_lib ''{\"a\":1.50,\"b\":[true]}'' = Some norm"
    unfolding normalize_raw_json_document any by simp
  then obtain p where p: "parse_body_pattern wide_lib pattern_text = Ok p"
    by (simp add: parse_body_pattern_def obj)
  have "float_format (fmt_float wide_lib)" by (simp add: wide_lib_def wide_float_format)
  from equal_to_json_decides [OF this p obj] any have
    "pattern_matches wide_lib p (Some body) \<longleftrightarrow> (\<exists>b. unmarshal_any (json_document body) = Some b \<and> same_json ?a b)" for body
    by auto
  then show ?thesis by (simp add: p bodies)
qed

end
