(* ===== verification/Spec2Isabelle.thy ===== *)
theory Spec2Isabelle
  imports Props_Matching Props_Stores Props_Parsing Props_Serving Props_System Props_Concurrent
    Props_Memory Props_Json
begin

text \<open>
  A verification library for vimock, a mock server for HTTP, GraphQL and gRPC written in Go
  (\<^verbatim>\<open>cmd\<close> and \<^verbatim>\<open>internal\<close>).

  \<^bold>\<open>The program.\<close> A client posts stub mappings (a request pattern and a response) to the admin API, which
  parses them and keeps them in a mapping store. A request to any other path is matched with the stored
  mappings; the best one that matches, and is in the state its scenario requires, gives the response:
  a literal or templated body, a body file, or the answer of another server, after a delay and perhaps in
  chunks. gRPC requests take the same way with their message as JSON, through descriptors uploaded before.
  Served requests go to a journal; a recording proxy forwards unmatched requests and turns what it saw
  into stub mappings again.

  \<^bold>\<open>Theories and sources.\<close>
  \<^item> \<open>Go_Prelude\<close>, \<open>Go_Strings\<close>, \<open>Go_Base64\<close>, \<open>Json_Text\<close>, \<open>Json_Value\<close>, \<open>Http_Headers\<close>: the parts of Go's
    standard library the source calls: results with a panic (\<open>res\<close>), 64-bit integers (\<open>int64\<close>), strings as
    byte lists, UTF-8, quoting, base64, a JSON reader and writer, canonical header names.
    \<open>Utf8_Facts\<close>, \<open>Json_Roundtrip\<close> and \<open>Go_Quote\<close> show that decoding undoes encoding, that the reader undoes
    the writer (\<open>json_read_back\<close>) and that unquoting undoes quoting.
  \<^item> \<open>Json_Path\<close>, \<open>Json_Path_Facts\<close>: \<^verbatim>\<open>internal/matcher/jsonpath.go\<close>.
  \<^item> \<open>Request_Matcher\<close>: \<^verbatim>\<open>internal/matcher/request.go\<close> (body patterns, query and header matchers);
    \<open>Json_Equality\<close>: what comparing normalized JSON texts decides.
  \<^item> \<open>GraphQL_Tokens\<close>, \<open>GraphQL_Parser\<close>, \<open>GraphQL_Facts\<close>, \<open>GraphQL_Matcher\<close>:
    \<^verbatim>\<open>internal/matcher/graphql.go\<close>. \<open>GraphQL_Spec\<close>: its specification, an abstract syntax with the token sequences
    of a document (a grammar), its canonical string and its reorderings, and that the parser accepts every sentence
    of the grammar; \<open>GraphQL_Sound\<close>: it accepts nothing else. \<open>GraphQL_Layout\<close>: every way to write down a
    token sequence is read as that sequence; \<open>GraphQL_Unique\<close>: a canonical string determines its document up to
    reordering; \<open>GraphQL_Equality\<close>: what the matcher decides.
  \<^item> \<open>Mapping_Model\<close>, \<open>Mapping_Facts\<close>: \<^verbatim>\<open>internal/mapping/model.go\<close>.
  \<^item> \<open>Mapping_Store\<close>, \<open>Mapping_Store_Facts\<close>: \<^verbatim>\<open>internal/mapping/store.go\<close>; the table, the insertion order
    and the published snapshot with its index are the fields of \<open>mapping_store\<close>.
  \<^item> \<open>Stub_Order\<close>, \<open>Scenario_Store\<close>: \<^verbatim>\<open>compareStubOrder\<close> of \<^verbatim>\<open>internal/server/runtime.go\<close> and
    \<^verbatim>\<open>internal/scenario/store.go\<close>.
  \<^item> \<open>Response_Render\<close>: \<^verbatim>\<open>internal/files/store.go\<close>, \<^verbatim>\<open>internal/response/render.go\<close>,
    \<^verbatim>\<open>internal/delay/delay.go\<close>.
  \<^item> \<open>Recording_Store\<close>, \<open>Proxy_Forward\<close>, \<open>Grpc_Descriptors\<close>: \<^verbatim>\<open>internal/recording/store.go\<close>,
    \<^verbatim>\<open>internal/proxy/proxy.go\<close>, \<^verbatim>\<open>internal/grpcdesc/store.go\<close>. \<open>Record_Replay\<close> joins the recorder with the
    parser, the matchers and the renderer: a recorded event becomes a mapping that serves it again.
  \<^item> \<open>Request_Body\<close>, \<open>Runtime_Api\<close>, \<open>Runtime_Facts\<close>, \<open>Chunk_Facts\<close>: \<^verbatim>\<open>internal/server/runtime.go\<close>;
    \<open>Grpc_Runtime\<close>: \<^verbatim>\<open>internal/server/grpc_runtime.go\<close>.
  \<^item> \<open>Admin_Api\<close>, \<open>Upload_Api\<close>: \<^verbatim>\<open>internal/server/admin.go\<close>, \<^verbatim>\<open>internal/server/file_api.go\<close>.
  \<^item> \<open>Server_Log\<close>, \<open>Server_Log_Facts\<close>, \<open>Server_Routes\<close>: \<^verbatim>\<open>internal/server/server.go\<close>.
  \<^item> \<open>Config_Load\<close>, \<open>Tls_Config\<close>, \<open>Main_Run\<close>: \<^verbatim>\<open>internal/config/config.go\<close>,
    \<^verbatim>\<open>internal/tlsconfig/tlsconfig.go\<close>, \<^verbatim>\<open>cmd/vimock/main.go\<close>.
  \<^item> \<open>System_Inv\<close>, \<open>Server_Facts\<close>: the whole server as a transition system, one step a request to the
    handler of \<^verbatim>\<open>NewHandler\<close>, its invariant, and what a client sees.
  \<^item> \<open>Interleaving\<close>: a handler as a task, the sequence of its accesses to the shared state, and the steps of
    any number of tasks beside each other; \<open>Handler_Tasks\<close>, \<open>Admin_Tasks\<close>: the handlers of the sources above
    as tasks, one access for each call of a store that takes its lock or loads its snapshot.
    \<open>run_handler_task\<close> shows that a task run alone is the handler as one step. \<open>Concurrent_Inv\<close> and
    \<open>Concurrent_Search\<close>: what remains true under every interleaving, and what does not.
  \<^item> \<open>Go_Memory\<close>, \<open>Private_Memory\<close>, \<open>Struct_Memory\<close>: arrays, maps and slices as references to them, the
    components that share none of them with their callers, and clones of structs. \<open>File_Memory\<close>,
    \<open>Journal_Memory\<close>, \<open>Mapping_Memory\<close>: the body files, the recorder and the mappings over this memory, with
    their \<^verbatim>\<open>clone\<close> functions; whatever the callers write to what they passed or got, they are those over values
    of the theories above.
  \<^item> \<open>Samples\<close> and the theories named \<open>Props\<close>: concrete values and the properties, each with a witness
    that applies it to such values.

  \<^bold>\<open>State.\<close> \<open>server_state\<close> holds the stores the handlers share. A handler is a function from the
  environment, the request and the state to an \<open>outcome\<close> (a reply with the events of its body, no reply, or a
  panic) and the state after it. \<open>environment\<close> collects what the handlers take from outside: the
  regular expressions and number formatting of Go (\<open>golib\<close>), URL parsing (\<open>netlib\<close>), protobuf (\<open>protolib\<close>), the HTTP
  client, timers, random numbers and the clock.

  \<^bold>\<open>Interfaces.\<close> The locales say what one part relies on in another: \<open>ranked_compare\<close> (the order of
  mappings), \<open>files\<close> (body files), \<open>body_provider\<close> (the request body that is read at most once), \<open>shared_invariant\<close> (what
  every access of every task keeps), \<open>private_memory\<close> (a store whose memory its callers do not reach),
  \<open>value_clone\<close>, \<open>part_clone\<close> and \<open>struct_clone\<close> (what the clone of a map value, of a part of a struct and of an
  element of a slice must be), \<open>set_steps\<close> (lists whose order does not count) and others; each is interpreted on the definitions of the component that provides it.

  \<^bold>\<open>Bounds and fuel.\<close> The JSON reader has fuel of twice the length of the text, the GraphQL parser of five times
  the number of tokens; \<open>decode_stream_fuel\<close> and \<open>parse_document_fuel\<close> show that neither runs out. Every
  other loop ends by a measure. Arithmetic is over 64-bit integers where the code computes with
  \<^verbatim>\<open>int\<close> and \<^verbatim>\<open>time.Duration\<close>; the properties that need it say which sizes do not wrap (bodies below
  2 GB, priorities of 62 bits, delays that fit 64 bits in nanoseconds, fewer than \<open>2 ^ 64\<close> stored mappings ever).

  \<^bold>\<open>Not modelled.\<close> Sockets and TLS handshakes, signal handling and the goroutines of the listeners (their
  outcome is an argument of \<open>run_main\<close>); regular expressions, protobuf linking and JSON
  transcoding, certificate creation and URL parsing (parameters); the log output beyond its attributes. Inside one
  access the stores are modelled as if their lock were held throughout, which it is, and the journal, the
  session and the sequence counter as one step each. Slices and maps that a caller could still write to are
  modelled for the body files, the recorder and the mappings; elsewhere they are values. The slices of the request
  pattern of a mapping are not: no operation writes to them or hands them out. The iteration order of Go maps is the order of association lists; \<open>path_exists_same_value\<close>
  shows that it does not matter for matching.
\<close>

end
